(* ===== verification/KPrelude.thy ===== *)
theory KPrelude
  imports Main "HOL-Library.Word"
begin

text \<open>Shared vocabulary of the development: the C integer types at their width, the outcomes of a kernel
  routine, little-endian byte encodings, and the facts on words every component uses.

  A routine that can stop the kernel returns \<open>'a res\<close>: \<open>Inl (Panic msg)\<close> where the source calls
  \<open>PANIC\<close> or an assertion fails, \<open>Inl (Fault what)\<close> where the source would access memory outside the
  object named, \<open>Inl Blocked\<close> where it would spin forever because nobody else can run. The message of
  a panic is the literal of the source without its trailing newline and its formatted arguments.\<close>

unbundle bit_operations_syntax

type_synonym u8 = "8 word"
type_synonym u16 = "16 word"
type_synonym u32 = "32 word"
type_synonym u64 = "64 word"
type_synonym usize = u64
type_synonym addr = u64

datatype kerr = Panic string | Fault string | Blocked

type_synonym 'a res = "kerr + 'a"

definition bind_res :: "'a res \<Rightarrow> ('a \<Rightarrow> 'b res) \<Rightarrow> 'b res" where
  "bind_res r f = (case r of Inl e \<Rightarrow> Inl e | Inr x \<Rightarrow> f x)"

lemma bind_res_simps [simp]:
  "bind_res (Inl e) f = Inl e"
  "bind_res (Inr x) f = f x"
  by (simp_all add: bind_res_def)

lemma bind_res_Inr_iff [simp]:
  "bind_res r f = Inr y \<longleftrightarrow> (\<exists>x. r = Inr x \<and> f x = Inr y)"
  by (cases r) auto

lemma bind_res_assoc: "bind_res (bind_res r f) g = bind_res r (\<lambda>x. bind_res (f x) g)"
  by (cases r) auto

text \<open>A routine that loops may also run for ever: \<open>'a res option\<close>, with \<open>None\<close> for divergence.\<close>

definition bind_run :: "'a res option \<Rightarrow> ('a \<Rightarrow> 'b res option) \<Rightarrow> 'b res option" where
  "bind_run r f = (case r of None \<Rightarrow> None | Some (Inl e) \<Rightarrow> Some (Inl e) | Some (Inr x) \<Rightarrow> f x)"

lemma bind_run_simps [simp]:
  "bind_run None f = None"
  "bind_run (Some (Inl e)) f = Some (Inl e)"
  "bind_run (Some (Inr x)) f = f x"
  by (simp_all add: bind_run_def)

lemma bind_run_Inr_iff [simp]:
  "bind_run r f = Some (Inr y) \<longleftrightarrow> (\<exists>x. r = Some (Inr x) \<and> f x = Some (Inr y))"
  by (auto simp: bind_run_def split: option.splits sum.splits)

lemma bind_run_assoc: "bind_run (bind_run r f) g = bind_run r (\<lambda>x. bind_run (f x) g)"
  by (simp add: bind_run_def split: option.split sum.split)

fun le_bytes :: "nat \<Rightarrow> 'a::len word \<Rightarrow> u8 list" where
  "le_bytes 0 w = []"
| "le_bytes (Suc n) w = ucast w # le_bytes n (drop_bit 8 w)"

fun le_word :: "u8 list \<Rightarrow> 'a::len word" where
  "le_word [] = 0"
| "le_word (b # bs) = ucast b OR push_bit 8 (le_word bs)"

lemma length_le_bytes [simp]: "length (le_bytes n w) = n"
  by (induction n arbitrary: w) auto

lemma le_word_le_bytes_take: "le_word (le_bytes n w) = take_bit (8 * n) (w :: 'a::len word)"
proof (induction n arbitrary: w)
  case 0
  then show ?case by simp
next
  case (Suc n)
  show ?case
    by (rule bit_eqI)
      (auto simp: Suc.IH bit_simps not_less Suc_le_eq  dest: bit_imp_le_length)
qed

lemma le_word_le_bytes [simp]:
  "LENGTH('a) \<le> 8 * n \<Longrightarrow> le_word (le_bytes n (w :: 'a::len word)) = w"
  by (simp add: le_word_le_bytes_take take_bit_word_eq_self)

lemma bit_le_word_le_length: "bit (le_word bs :: 'a::len word) k \<Longrightarrow> k < 8 * length bs"
proof (induction bs arbitrary: k)
  case Nil
  then show ?case by simp
next
  case (Cons b bs)
  from Cons.prems have "bit b k \<or> 8 \<le> k \<and> bit (le_word bs :: 'a word) (k - 8)"
    by (auto simp: bit_simps)
  then show ?case
    using Cons.IH [of "k - 8"] by (auto dest: bit_imp_le_length)
qed

lemma le_bytes_le_word [simp]:
  "length bs = n \<Longrightarrow> 8 * n \<le> LENGTH('a) \<Longrightarrow> le_bytes n (le_word bs :: 'a::len word) = bs"
proof (induction bs arbitrary: n)
  case Nil
  then show ?case by simp
next
  case (Cons b bs)
  then obtain m where m: "n = Suc m" "length bs = m" "8 * m \<le> LENGTH('a)" by auto
  have hd: "ucast (le_word (b # bs) :: 'a word) = b"
    using Cons.prems m by (intro bit_eqI) (auto simp: bit_simps)
  have tl: "drop_bit 8 (le_word (b # bs) :: 'a word) = le_word bs"
  proof (rule bit_word_eqI)
    fix k assume "k < LENGTH('a)"
    have "bit (le_word bs :: 'a word) k \<Longrightarrow> 8 + k < LENGTH('a)"
      using Cons.prems by (auto dest: bit_le_word_le_length)
    moreover have "\<not> bit b (8 + k)"
      by (auto dest: bit_imp_le_length)
    ultimately show "bit (drop_bit 8 (le_word (b # bs) :: 'a word)) k = bit (le_word bs :: 'a word) k"
      by (auto simp: bit_simps)
  qed
  show ?case using hd tl Cons.IH[OF m(2,3)] m by simp
qed

lemma unat_u64_less: "unat (w :: u64) < 2 ^ 64"
  using unsigned_less [of w] by simp

lemmas unat_u64_less' [simp] = unat_u64_less [simplified]

lemma unat_of_nat_u64: "i < 2 ^ 64 \<Longrightarrow> unat (of_nat i :: u64) = i"
  by (simp add: unat_of_nat)

lemma of_nat_u64_inj:
  "i < 2 ^ 64 \<Longrightarrow> j < 2 ^ 64 \<Longrightarrow> (of_nat i = (of_nat j :: u64)) \<longleftrightarrow> i = j"
  by (metis unat_of_nat_u64)

text \<open>An address of a region of \<open>n\<close> bytes from \<open>s\<close>, counted from \<open>s\<close> modulo the address space.\<close>

lemma in_region_iff: "(\<exists>i<unat n. a = s + of_nat i) \<longleftrightarrow> a - s < (n :: u64)"
proof
  assume "\<exists>i<unat n. a = s + of_nat i"
  then obtain i where i: "i < unat n" "a = s + of_nat i" by blast
  then have "i < 2 ^ 64" using unat_u64_less [of n] by linarith
  with i show "a - s < n" by (simp add: word_less_nat_alt unat_of_nat_u64)
next
  assume "a - s < n"
  then have "unat (a - s) < unat n" "a = s + of_nat (unat (a - s))"
    by (simp_all add: word_less_nat_alt)
  then show "\<exists>i<unat n. a = s + of_nat i" by blast
qed

lemma and_1_neq_0_iff: "(w :: u64) AND 1 \<noteq> 0 \<longleftrightarrow> bit w 0"
  by (simp add: and_one_eq bit_0 odd_iff_mod_2_eq_one)

end
