(* ===== verification/KString.thy ===== *)
theory KString
  imports KPrelude
begin

text \<open>The byte and string routines of \<open>src/common/string.c\<close> over a byte-addressed memory. Addresses and
  lengths are 64-bit words, so a region may wrap around the address space. Each routine returns the
  new memory; the destination pointer it also returns in C is its first argument. \<open>strlen\<close> may run
  for ever, so it is a partial function whose value \<open>None\<close> is divergence.\<close>

type_synonym memory = "addr \<Rightarrow> u8"

primrec memset_upto :: "memory \<Rightarrow> addr \<Rightarrow> int \<Rightarrow> nat \<Rightarrow> memory" where
  "memset_upto m s c 0 = m"
| "memset_upto m s c (Suc i) = (memset_upto m s c i)(s + of_nat i := word_of_int (c AND 0xff))"

definition memset :: "memory \<Rightarrow> addr \<Rightarrow> int \<Rightarrow> usize \<Rightarrow> memory" where
  "memset m s c n = memset_upto m s c (unat n)"

primrec memcpy_upto :: "memory \<Rightarrow> addr \<Rightarrow> addr \<Rightarrow> nat \<Rightarrow> memory" where
  "memcpy_upto m dest src 0 = m"
| "memcpy_upto m dest src (Suc i) =
     (let m' = memcpy_upto m dest src i in m'(dest + of_nat i := m' (src + of_nat i)))"

definition memcpy :: "memory \<Rightarrow> addr \<Rightarrow> addr \<Rightarrow> usize \<Rightarrow> memory" where
  "memcpy m dest src n = memcpy_upto m dest src (unat n)"

primrec memcmp_loop :: "memory \<Rightarrow> addr \<Rightarrow> addr \<Rightarrow> nat \<Rightarrow> nat \<Rightarrow> int" where
  "memcmp_loop m s1 s2 i 0 = 0"
| "memcmp_loop m s1 s2 i (Suc r) =
     (let c1 = uint (m (s1 + of_nat i)); c2 = uint (m (s2 + of_nat i))
      in if c1 \<noteq> c2 then c1 - c2 else memcmp_loop m s1 s2 (Suc i) r)"

definition memcmp :: "memory \<Rightarrow> addr \<Rightarrow> addr \<Rightarrow> usize \<Rightarrow> int" where
  "memcmp m s1 s2 n = memcmp_loop m s1 s2 0 (unat n)"

primrec memmove_down :: "memory \<Rightarrow> addr \<Rightarrow> addr \<Rightarrow> nat \<Rightarrow> memory" where
  "memmove_down m d s 0 = m"
| "memmove_down m d s (Suc n) = memmove_down (m(d + of_nat n := m (s + of_nat n))) d s n"

definition memmove :: "memory \<Rightarrow> addr \<Rightarrow> addr \<Rightarrow> usize \<Rightarrow> memory" where
  "memmove m dest src n =
     (if src < dest \<and> dest - src < n then memmove_down m dest src (unat n)
      else memcpy_upto m dest src (unat n))"

primrec strncpy_copy :: "memory \<Rightarrow> addr \<Rightarrow> addr \<Rightarrow> nat \<Rightarrow> nat \<Rightarrow> memory \<times> nat" where
  "strncpy_copy m dest src i 0 = (m, i)"
| "strncpy_copy m dest src i (Suc r) =
     (if m (src + of_nat i) \<noteq> 0
      then strncpy_copy (m(dest + of_nat i := m (src + of_nat i))) dest src (Suc i) r
      else (m, i))"

primrec strncpy_pad :: "memory \<Rightarrow> addr \<Rightarrow> nat \<Rightarrow> nat \<Rightarrow> memory" where
  "strncpy_pad m dest i 0 = m"
| "strncpy_pad m dest i (Suc r) = strncpy_pad (m(dest + of_nat i := 0)) dest (Suc i) r"

definition strncpy :: "memory \<Rightarrow> addr \<Rightarrow> addr \<Rightarrow> usize \<Rightarrow> memory" where
  "strncpy m dest src n =
     (case strncpy_copy m dest src 0 (unat n) of (m', i) \<Rightarrow> strncpy_pad m' dest i (unat n - i))"

definition strncpy_fast :: "memory \<Rightarrow> addr \<Rightarrow> addr \<Rightarrow> usize \<Rightarrow> memory" where
  "strncpy_fast m dest src n =
     (case strncpy_copy m dest src 0 (unat n) of
        (m', i) \<Rightarrow> if i < unat n then m'(dest + of_nat i := 0) else m')"

primrec strncmp_loop :: "memory \<Rightarrow> addr \<Rightarrow> addr \<Rightarrow> nat \<Rightarrow> nat \<Rightarrow> int" where
  "strncmp_loop m s1 s2 i 0 = 0"
| "strncmp_loop m s1 s2 i (Suc r) =
     (if m (s1 + of_nat i) \<noteq> m (s2 + of_nat i)
      then uint (m (s1 + of_nat i)) - uint (m (s2 + of_nat i))
      else if m (s1 + of_nat i) = 0 \<or> m (s2 + of_nat i) = 0 then 0
      else strncmp_loop m s1 s2 (Suc i) r)"

definition strncmp :: "memory \<Rightarrow> addr \<Rightarrow> addr \<Rightarrow> usize \<Rightarrow> int" where
  "strncmp m s1 s2 n = strncmp_loop m s1 s2 0 (unat n)"

partial_function (option) strlen_from :: "memory \<Rightarrow> addr \<Rightarrow> usize \<Rightarrow> usize option" where
  "strlen_from m s i = (if m (s + i) \<noteq> 0 then strlen_from m s (i + 1) else Some i)"

definition strlen :: "memory \<Rightarrow> addr \<Rightarrow> usize option" where
  "strlen m s = strlen_from m s 0"

definition bytes_at :: "memory \<Rightarrow> addr \<Rightarrow> nat \<Rightarrow> u8 list" where
  "bytes_at m s n = map (\<lambda>i. m (s + of_nat i)) [0..<n]"

definition cstr :: "memory \<Rightarrow> addr \<Rightarrow> nat \<Rightarrow> u8 list" where
  "cstr m s n = takeWhile (\<lambda>c. c \<noteq> 0) (bytes_at m s n)"


lemma memset_upto_apply:
  "memset_upto m s c n a = (if \<exists>i<n. a = s + of_nat i then word_of_int (c AND 0xff) else m a)"
  by (induction n) (auto simp: less_Suc_eq)

lemma memset_spec:
  "memset m s c n a = (if a - s < n then word_of_int (c AND 0xff) else m a)"
  by (simp add: memset_def memset_upto_apply in_region_iff)

lemma memcpy_upto_frame:
  "(\<And>i. i < n \<Longrightarrow> a \<noteq> dest + of_nat i) \<Longrightarrow> memcpy_upto m dest src n a = m a"
  by (induction n) (auto simp: Let_def less_Suc_eq)

lemma memmove_down_frame:
  "(\<And>i. i < n \<Longrightarrow> a \<noteq> dest + of_nat i) \<Longrightarrow> memmove_down m dest src n a = m a"
  by (induction n arbitrary: m) auto

text \<open>Ascending copy is right when no source byte still to be read has been overwritten.\<close>

lemma memcpy_upto_apply:
  assumes "n \<le> 2 ^ 64"
    and "\<And>i j. i < j \<Longrightarrow> j < n \<Longrightarrow> dest + of_nat i \<noteq> src + of_nat j"
    and "k < n"
  shows "memcpy_upto m dest src n (dest + of_nat k) = m (src + of_nat k)"
  using assms
proof (induction n)
  case 0
  then show ?case by simp
next
  case (Suc n)
  show ?case
  proof (cases "k = n")
    case True
    have "memcpy_upto m dest src n (src + of_nat n) = m (src + of_nat n)"
      by (rule memcpy_upto_frame) (use Suc.prems in force)
    with True show ?thesis by (simp add: Let_def)
  next
    case False
    with Suc.prems have "k < n" by simp
    moreover have "dest + of_nat k \<noteq> dest + of_nat n"
      using Suc.prems \<open>k < n\<close> by (simp add: of_nat_u64_inj)
    ultimately show ?thesis using Suc by (simp add: Let_def)
  qed
qed

lemma memmove_down_apply:
  assumes "n \<le> 2 ^ 64"
    and "\<And>i j. i < j \<Longrightarrow> j < n \<Longrightarrow> dest + of_nat j \<noteq> src + of_nat i"
    and "k < n"
  shows "memmove_down m dest src n (dest + of_nat k) = m (src + of_nat k)"
  using assms
proof (induction n arbitrary: m)
  case 0
  then show ?case by simp
next
  case (Suc n)
  let ?m = "m(dest + of_nat n := m (src + of_nat n))"
  show ?case
  proof (cases "k = n")
    case True
    have "memmove_down ?m dest src n (dest + of_nat n) = ?m (dest + of_nat n)"
      by (rule memmove_down_frame) (use Suc.prems in \<open>auto simp: of_nat_u64_inj\<close>)
    with True show ?thesis by simp
  next
    case False
    with Suc.prems have k: "k < n" by simp
    have "memmove_down ?m dest src n (dest + of_nat k) = ?m (src + of_nat k)"
      by (rule Suc.IH) (use Suc.prems k in auto)
    also have "\<dots> = m (src + of_nat k)"
      using Suc.prems(2) [of k n] k by (auto dest: sym)
    finally show ?thesis by simp
  qed
qed

lemma no_wrap_add_eq:
  fixes a b :: u64
  assumes "unat a + i < 2 ^ 64" "unat b + j < 2 ^ 64"
  shows "a + of_nat i = b + of_nat j \<longleftrightarrow> unat a + i = unat b + j"
proof -
  have "unat (a + of_nat i) = unat a + i" "unat (b + of_nat j) = unat b + j"
    using assms by (simp_all add: unat_word_ariths unat_of_nat)
  then show ?thesis by (metis word_unat_eq_iff)
qed

lemma memmove_spec:
  assumes "unat src + unat n \<le> 2 ^ 64" and "unat dest + unat n \<le> 2 ^ 64"
  shows "(\<forall>i < unat n. memmove m dest src n (dest + of_nat i) = m (src + of_nat i)) \<and>
         (\<forall>a. n \<le> a - dest \<longrightarrow> memmove m dest src n a = m a)"
proof (intro conjI)
  have eq: "dest + of_nat i = src + of_nat j \<longleftrightarrow> unat dest + i = unat src + j"
    if "i < unat n" "j < unat n" for i j
    using that assms by (intro no_wrap_add_eq) linarith+
  have lt: "dest - src < n \<longleftrightarrow> unat dest - unat src < unat n" if "src < dest"
    using that by (simp add: word_less_nat_alt unat_sub_if')
  show "\<forall>i < unat n. memmove m dest src n (dest + of_nat i) = m (src + of_nat i)"
    using eq lt
    by (auto simp: memmove_def word_less_nat_alt not_less
        intro!: memmove_down_apply memcpy_upto_apply less_imp_le)
  show "\<forall>a. n \<le> a - dest \<longrightarrow> memmove m dest src n a = m a"
    by (auto simp: memmove_def not_less [symmetric] in_region_iff [symmetric]
        intro!: memmove_down_frame memcpy_upto_frame)
qed

lemma bytes_at_0 [simp]: "bytes_at m s 0 = []"
  by (simp add: bytes_at_def)

lemma bytes_at_Suc: "bytes_at m s (Suc n) = m s # bytes_at m (s + 1) n"
  by (simp add: bytes_at_def upt_conv_Cons map_Suc_upt [symmetric] ac_simps del: upt_Suc)

lemma length_bytes_at [simp]: "length (bytes_at m s n) = n"
  by (simp add: bytes_at_def)

lemma nth_bytes_at [simp]: "i < n \<Longrightarrow> bytes_at m s n ! i = m (s + of_nat i)"
  by (simp add: bytes_at_def)

lemma cstr_0 [simp]: "cstr m s 0 = []"
  by (simp add: cstr_def)

lemma cstr_Suc: "cstr m s (Suc n) = (if m s = 0 then [] else m s # cstr m (s + 1) n)"
  by (simp add: cstr_def bytes_at_Suc)

lemma strncmp_loop_cstr:
  "strncmp_loop m s1 s2 i r = 0 \<longleftrightarrow> cstr m (s1 + of_nat i) r = cstr m (s2 + of_nat i) r"
  by (induction r arbitrary: i) (auto simp: cstr_Suc ac_simps word_uint_eq_iff)

lemma strncmp_zero_iff:
  "strncmp m s1 s2 n = 0 \<longleftrightarrow> cstr m s1 (unat n) = cstr m s2 (unat n)"
  by (simp add: strncmp_def strncmp_loop_cstr)

lemma memcmp_loop_bytes:
  "memcmp_loop m s1 s2 i r = 0 \<longleftrightarrow> bytes_at m (s1 + of_nat i) r = bytes_at m (s2 + of_nat i) r"
  by (induction r arbitrary: i) (auto simp: bytes_at_Suc Let_def ac_simps word_uint_eq_iff)

lemma memcmp_zero_iff:
  "memcmp m s1 s2 n = 0 \<longleftrightarrow> bytes_at m s1 (unat n) = bytes_at m s2 (unat n)"
  by (simp add: memcmp_def memcmp_loop_bytes)

lemma strncpy_pad_frame:
  "(\<And>j. i \<le> j \<Longrightarrow> j < i + r \<Longrightarrow> a \<noteq> dest + of_nat j) \<Longrightarrow> strncpy_pad m dest i r a = m a"
  by (induction r arbitrary: m i) auto

lemma strncpy_pad_zero:
  "i \<le> j \<Longrightarrow> j < i + r \<Longrightarrow> i + r \<le> 2 ^ 64 \<Longrightarrow> strncpy_pad m dest i r (dest + of_nat j) = 0"
proof (induction r arbitrary: m i)
  case 0
  then show ?case by simp
next
  case (Suc r)
  show ?case
  proof (cases "i = j")
    case True
    have "strncpy_pad (m(dest + of_nat i := 0)) dest (Suc i) r (dest + of_nat j)
          = (m(dest + of_nat i := 0)) (dest + of_nat j)"
      by (rule strncpy_pad_frame) (use Suc.prems True in \<open>auto simp: of_nat_u64_inj\<close>)
    with True show ?thesis by simp
  next
    case False
    with Suc show ?thesis by simp
  qed
qed

lemma cstr_upd_other:
  "(\<And>j. j < r \<Longrightarrow> a \<noteq> s + of_nat j) \<Longrightarrow> cstr (m(a := v)) s r = cstr m s r"
  unfolding cstr_def bytes_at_def
  by (rule arg_cong [where f = "takeWhile _"], rule map_cong, simp)
    (metis atLeastLessThan_iff fun_upd_other set_upt)

text \<open>What the copying loop of the \<open>strncpy\<close> family leaves, for disjoint buffers.\<close>

lemma strncpy_copy_spec:
  assumes "strncpy_copy m dest src i r = (m', k)" "i + r \<le> 2 ^ 64"
    and "\<forall>p < i + r. \<forall>q < i + r. dest + of_nat p \<noteq> src + of_nat q"
  shows "k = i + length (cstr m (src + of_nat i) r) \<and>
         (\<forall>a. (\<forall>j. i \<le> j \<longrightarrow> j < k \<longrightarrow> a \<noteq> dest + of_nat j) \<longrightarrow> m' a = m a) \<and>
         (\<forall>j. i \<le> j \<longrightarrow> j < k \<longrightarrow> m' (dest + of_nat j) = m (src + of_nat j))"
  using assms
proof (induction r arbitrary: m i)
  case 0
  then show ?case by simp
next
  case (Suc r)
  let ?m = "m(dest + of_nat i := m (src + of_nat i))"
  show ?case
  proof (cases "m (src + of_nat i) = 0")
    case True
    with Suc.prems show ?thesis by (simp add: cstr_Suc)
  next
    case False
    have cs: "cstr ?m (src + of_nat (Suc i)) r = cstr m (src + of_nat (Suc i)) r"
    proof (rule cstr_upd_other)
      fix j assume "j < r"
      then have "dest + of_nat i \<noteq> src + of_nat (Suc i + j)"
        using Suc.prems(3) [rule_format, of i "Suc i + j"] by simp
      then show "dest + of_nat i \<noteq> src + of_nat (Suc i) + of_nat j" by (simp add: add.assoc)
    qed
    have rec: "strncpy_copy ?m dest src (Suc i) r = (m', k)"
      using Suc.prems(1) False by simp
    have "Suc i + r \<le> 2 ^ 64"
      and "\<forall>p < Suc i + r. \<forall>q < Suc i + r. dest + of_nat p \<noteq> src + of_nat q"
      using Suc.prems(2,3) by simp_all
    note IH = Suc.IH [OF rec this, unfolded cs]
    then have k: "k = Suc i + length (cstr m (src + of_nat (Suc i)) r)"
      and fr: "\<And>a. (\<forall>j. Suc i \<le> j \<longrightarrow> j < k \<longrightarrow> a \<noteq> dest + of_nat j) \<Longrightarrow> m' a = ?m a"
      and val: "\<And>j. Suc i \<le> j \<Longrightarrow> j < k \<Longrightarrow> m' (dest + of_nat j) = ?m (src + of_nat j)"
      by blast+
    have kn: "k \<le> Suc (i + r)"
      using k length_takeWhile_le [of _ "bytes_at m (src + of_nat (Suc i)) r"]
      by (simp add: cstr_def)
    have "m' (dest + of_nat j) = m (src + of_nat j)" if j: "i \<le> j" "j < k" for j
    proof (cases "j = i")
      case True
      have "m' (dest + of_nat i) = ?m (dest + of_nat i)"
        by (rule fr) (use kn Suc.prems(2) in \<open>auto simp: of_nat_u64_inj\<close>)
      with True show ?thesis by simp
    next
      case False
      have "dest + of_nat i \<noteq> src + of_nat j"
        using Suc.prems(3) j kn by auto
      with False j val [of j] show ?thesis by simp
    qed
    with k fr False show ?thesis by (auto simp: cstr_Suc ac_simps)
  qed
qed

lemma length_cstr_le: "length (cstr m s n) \<le> n"
  using length_takeWhile_le [of _ "bytes_at m s n"] by (simp add: cstr_def)

lemma nth_cstr: "i < length (cstr m s n) \<Longrightarrow> cstr m s n ! i = m (s + of_nat i)"
  using length_cstr_le [of m s n] by (simp add: cstr_def takeWhile_nth)

lemma strncpy_spec:
  assumes "\<forall>i < unat n. \<forall>j < unat n. dest + of_nat i \<noteq> src + of_nat j"
  shows "bytes_at (strncpy m dest src n) dest (unat n) =
           cstr m src (unat n) @ replicate (unat n - length (cstr m src (unat n))) 0 \<and>
         (\<forall>a. n \<le> a - dest \<longrightarrow> strncpy m dest src n a = m a)"
proof -
  obtain m' k where mk: "strncpy_copy m dest src 0 (unat n) = (m', k)" by force
  have n64: "unat n \<le> 2 ^ 64" by (rule less_imp_le [OF unat_u64_less])
  from strncpy_copy_spec [OF mk] assms n64
  have k: "k = length (cstr m src (unat n))"
    and fr: "\<And>a. (\<forall>j. j < k \<longrightarrow> a \<noteq> dest + of_nat j) \<Longrightarrow> m' a = m a"
    and val: "\<And>j. j < k \<Longrightarrow> m' (dest + of_nat j) = m (src + of_nat j)"
    by auto
  have kn: "k \<le> unat n" using k length_cstr_le by simp
  have eq: "strncpy m dest src n = strncpy_pad m' dest k (unat n - k)"
    by (simp add: strncpy_def mk)
  have "bytes_at (strncpy m dest src n) dest (unat n) ! i =
        (cstr m src (unat n) @ replicate (unat n - length (cstr m src (unat n))) 0) ! i"
    if i: "i < unat n" for i
  proof (cases "i < k")
    case True
    have "strncpy_pad m' dest k (unat n - k) (dest + of_nat i) = m' (dest + of_nat i)"
      by (rule strncpy_pad_frame) (use True kn n64 in \<open>auto simp: of_nat_u64_inj\<close>)
    with True i k val [of i] show ?thesis by (simp add: eq nth_append nth_cstr)
  next
    case False
    with i k kn n64 show ?thesis by (simp add: eq nth_append strncpy_pad_zero)
  qed
  then have "bytes_at (strncpy m dest src n) dest (unat n) =
        cstr m src (unat n) @ replicate (unat n - length (cstr m src (unat n))) 0"
    using k kn by (intro nth_equalityI) auto
  moreover have "strncpy m dest src n a = m a" if "n \<le> a - dest" for a
  proof -
    have "a \<noteq> dest + of_nat j" if "j < unat n" for j
      using \<open>n \<le> a - dest\<close> that in_region_iff [of n a dest] by (auto simp: not_less [symmetric])
    then show ?thesis using fr [of a] kn by (simp add: eq strncpy_pad_frame)
  qed
  ultimately show ?thesis by blast
qed

lemma strlen_from_spec:
  "m (s + (i + of_nat d)) = 0 \<Longrightarrow> (\<forall>e<d. m (s + (i + of_nat e)) \<noteq> 0) \<Longrightarrow>
   strlen_from m s i = Some (i + of_nat d)"
proof (induction d arbitrary: i)
  case 0
  then show ?case by (simp add: strlen_from.simps)
next
  case (Suc d)
  have "m (s + (i + 1 + of_nat e)) \<noteq> 0" if "e < d" for e
    using Suc.prems(2) [rule_format, of "Suc e"] that by (simp add: ac_simps)
  with Suc.IH [of "i + 1"] Suc.prems(1)
  have "strlen_from m s (i + 1) = Some (i + of_nat (Suc d))" by (simp add: ac_simps)
  moreover have "m (s + i) \<noteq> 0" using Suc.prems(2) [rule_format, of 0] by simp
  ultimately show ?case by (simp add: strlen_from.simps [of m s i])
qed

lemma strlen_spec:
  assumes "m (s + of_nat k) = 0" and "\<forall>j<k. m (s + of_nat j) \<noteq> 0"
  shows "strlen m s = Some (of_nat k)"
  using strlen_from_spec [of m s 0 k] assms by (simp add: strlen_def)

text \<open>C37: \<open>memmove\<close> copies \<open>n\<close> bytes as if through a temporary buffer, however the two regions
  overlap, as long as neither wraps around the address space, and changes no byte outside the
  destination.\<close>

theorem memmove_exact:
  assumes "unat src + unat n \<le> 2 ^ 64" and "unat dest + unat n \<le> 2 ^ 64"
  shows "bytes_at (memmove m dest src n) dest (unat n) = bytes_at m src (unat n) \<and>
         (\<forall>a. n \<le> a - dest \<longrightarrow> memmove m dest src n a = m a)"
  using memmove_spec [OF assms, of m] by (auto simp: bytes_at_def)

theorem memmove_exact_witness:
  "bytes_at (memmove (\<lambda>a. ucast a) 3 1 4) 3 4 = [1, 2, 3, 4]"
  using memmove_exact [of 1 4 3 "\<lambda>a. ucast a"] by (simp add: bytes_at_def upt_rec)

end
