(* ===== verification/KLock.thy ===== *)
theory KLock
  imports KPrelude
begin

text \<open>The spin lock of \<open>src/common/spinlock.c\<close>. The functions on the lock word take the number of the
  executing CPU and describe a call that is not interleaved with other CPUs; \<open>lstep\<close> describes the same
  code one memory access at a time, for any number of CPUs, and is what mutual exclusion is proved on.\<close>

record SpinLock =
  locked :: bool
  lcpu :: "nat option"
  lname :: string

definition init_spinlock :: "SpinLock \<Rightarrow> string \<Rightarrow> SpinLock" where
  "init_spinlock lk name = lk\<lparr>locked := False, lcpu := None, lname := name\<rparr>"

definition try_acquire_spinlock :: "nat \<Rightarrow> SpinLock \<Rightarrow> bool \<times> SpinLock" where
  "try_acquire_spinlock cpu lk =
     (if \<not> locked lk then (True, lk\<lparr>locked := True, lcpu := Some cpu\<rparr>) else (False, lk))"

definition holding_spinlock :: "nat \<Rightarrow> SpinLock \<Rightarrow> bool" where
  "holding_spinlock cpu lk \<longleftrightarrow> locked lk \<and> lcpu lk = Some cpu"

definition acquire_spinlock :: "nat \<Rightarrow> SpinLock \<Rightarrow> SpinLock res" where
  "acquire_spinlock cpu lk =
     (if holding_spinlock cpu lk then Inl (Panic (''acquire: lock '' @ lname lk @ '' already held''))
      else case try_acquire_spinlock cpu lk of
             (True, lk') \<Rightarrow> Inr lk'
           | (False, _) \<Rightarrow> Inl Blocked)"

definition release_spinlock :: "nat \<Rightarrow> SpinLock \<Rightarrow> SpinLock res" where
  "release_spinlock cpu lk =
     (if \<not> holding_spinlock cpu lk then Inl (Panic (''release: lock '' @ lname lk @ '' not held''))
      else Inr (lk\<lparr>lcpu := None, locked := False\<rparr>))"

definition wait_spinlock :: "nat \<Rightarrow> SpinLock \<Rightarrow> SpinLock res" where
  "wait_spinlock cpu lk = bind_res (acquire_spinlock cpu lk) (release_spinlock cpu)"

definition lock_free :: "SpinLock \<Rightarrow> bool" where
  "lock_free lk \<longleftrightarrow> \<not> locked lk \<and> lcpu lk = None"

lemma acquire_free [simp]:
  "lock_free lk \<Longrightarrow> acquire_spinlock cpu lk = Inr (lk\<lparr>locked := True, lcpu := Some cpu\<rparr>)"
  by (simp add: lock_free_def acquire_spinlock_def holding_spinlock_def try_acquire_spinlock_def)

lemma release_acquired [simp]:
  "lock_free lk \<Longrightarrow> release_spinlock cpu (lk\<lparr>locked := True, lcpu := Some cpu\<rparr>) = Inr lk"
  by (simp add: lock_free_def release_spinlock_def holding_spinlock_def)

lemma acquire_held:
  "holding_spinlock cpu lk \<Longrightarrow> \<exists>msg. acquire_spinlock cpu lk = Inl (Panic msg)"
  by (simp add: acquire_spinlock_def)

datatype lpc = Outside | AChkLocked | AChkCpu | ATest | ATas | ASetCpu | Critical
  | RChkLocked | RChkCpu | RClrCpu | RClear | Panicked

record lsys =
  lk :: SpinLock
  pcs :: "nat \<Rightarrow> lpc"

inductive lstep :: "lsys \<Rightarrow> lsys \<Rightarrow> bool" where
  acq_call: "pcs s i = Outside \<Longrightarrow> lstep s (s\<lparr>pcs := (pcs s)(i := AChkLocked)\<rparr>)"
| acq_locked: "pcs s i = AChkLocked \<Longrightarrow> locked (lk s) \<Longrightarrow> lstep s (s\<lparr>pcs := (pcs s)(i := AChkCpu)\<rparr>)"
| acq_unlocked: "pcs s i = AChkLocked \<Longrightarrow> \<not> locked (lk s) \<Longrightarrow> lstep s (s\<lparr>pcs := (pcs s)(i := ATest)\<rparr>)"
| acq_mine: "pcs s i = AChkCpu \<Longrightarrow> lcpu (lk s) = Some i \<Longrightarrow> lstep s (s\<lparr>pcs := (pcs s)(i := Panicked)\<rparr>)"
| acq_other: "pcs s i = AChkCpu \<Longrightarrow> lcpu (lk s) \<noteq> Some i \<Longrightarrow> lstep s (s\<lparr>pcs := (pcs s)(i := ATest)\<rparr>)"
| test_busy: "pcs s i = ATest \<Longrightarrow> locked (lk s) \<Longrightarrow> lstep s s"
| test_clear: "pcs s i = ATest \<Longrightarrow> \<not> locked (lk s) \<Longrightarrow> lstep s (s\<lparr>pcs := (pcs s)(i := ATas)\<rparr>)"
| tas_lost: "pcs s i = ATas \<Longrightarrow> locked (lk s) \<Longrightarrow> lstep s (s\<lparr>pcs := (pcs s)(i := ATest)\<rparr>)"
| tas_won: "pcs s i = ATas \<Longrightarrow> \<not> locked (lk s) \<Longrightarrow>
    lstep s (s\<lparr>lk := (lk s)\<lparr>locked := True\<rparr>, pcs := (pcs s)(i := ASetCpu)\<rparr>)"
| set_cpu: "pcs s i = ASetCpu \<Longrightarrow>
    lstep s (s\<lparr>lk := (lk s)\<lparr>lcpu := Some i\<rparr>, pcs := (pcs s)(i := Critical)\<rparr>)"
| rel_call: "pcs s i = Critical \<Longrightarrow> lstep s (s\<lparr>pcs := (pcs s)(i := RChkLocked)\<rparr>)"
| rel_locked: "pcs s i = RChkLocked \<Longrightarrow> locked (lk s) \<Longrightarrow> lstep s (s\<lparr>pcs := (pcs s)(i := RChkCpu)\<rparr>)"
| rel_unlocked: "pcs s i = RChkLocked \<Longrightarrow> \<not> locked (lk s) \<Longrightarrow> lstep s (s\<lparr>pcs := (pcs s)(i := Panicked)\<rparr>)"
| rel_mine: "pcs s i = RChkCpu \<Longrightarrow> lcpu (lk s) = Some i \<Longrightarrow> lstep s (s\<lparr>pcs := (pcs s)(i := RClrCpu)\<rparr>)"
| rel_other: "pcs s i = RChkCpu \<Longrightarrow> lcpu (lk s) \<noteq> Some i \<Longrightarrow> lstep s (s\<lparr>pcs := (pcs s)(i := Panicked)\<rparr>)"
| clr_cpu: "pcs s i = RClrCpu \<Longrightarrow>
    lstep s (s\<lparr>lk := (lk s)\<lparr>lcpu := None\<rparr>, pcs := (pcs s)(i := RClear)\<rparr>)"
| clear: "pcs s i = RClear \<Longrightarrow>
    lstep s (s\<lparr>lk := (lk s)\<lparr>locked := False\<rparr>, pcs := (pcs s)(i := Outside)\<rparr>)"

definition owns :: "lpc \<Rightarrow> bool" where
  "owns p \<longleftrightarrow> p \<in> {ASetCpu, Critical, RChkLocked, RChkCpu, RClrCpu, RClear}"

definition marked :: "lpc \<Rightarrow> bool" where
  "marked p \<longleftrightarrow> p \<in> {Critical, RChkLocked, RChkCpu, RClrCpu}"

inductive lreach :: "lsys \<Rightarrow> bool" where
  lstart: "lock_free (lk s) \<Longrightarrow> \<forall>i. pcs s i = Outside \<Longrightarrow> lreach s"
| lnext: "lreach s \<Longrightarrow> lstep s t \<Longrightarrow> lreach t"

definition linv :: "lsys \<Rightarrow> bool" where
  "linv s \<longleftrightarrow>
     (\<forall>i j. owns (pcs s i) \<longrightarrow> owns (pcs s j) \<longrightarrow> i = j) \<and>
     (locked (lk s) \<longleftrightarrow> (\<exists>i. owns (pcs s i))) \<and>
     (\<forall>i. lcpu (lk s) = Some i \<longleftrightarrow> marked (pcs s i)) \<and>
     (\<forall>i. pcs s i \<noteq> Panicked)"

lemma owns_simps [simp]:
  "\<not> owns Outside" "\<not> owns AChkLocked" "\<not> owns AChkCpu" "\<not> owns ATest" "\<not> owns ATas"
  "owns ASetCpu" "owns Critical" "owns RChkLocked" "owns RChkCpu" "owns RClrCpu" "owns RClear"
  "\<not> owns Panicked"
  by (simp_all add: owns_def)

lemma marked_simps [simp]:
  "\<not> marked Outside" "\<not> marked AChkLocked" "\<not> marked AChkCpu" "\<not> marked ATest" "\<not> marked ATas"
  "\<not> marked ASetCpu" "marked Critical" "marked RChkLocked" "marked RChkCpu" "marked RClrCpu"
  "\<not> marked RClear" "\<not> marked Panicked"
  by (simp_all add: marked_def)

lemma linv_init: "lock_free (lk s) \<Longrightarrow> \<forall>i. pcs s i = Outside \<Longrightarrow> linv s"
  by (simp add: linv_def lock_free_def)

lemma marked_owns: "marked p \<Longrightarrow> owns p"
  by (cases p) simp_all

lemma linv_move:
  assumes "linv s" "owns q = owns (pcs s i)" "marked q = marked (pcs s i)" "q \<noteq> Panicked"
  shows "linv (s\<lparr>pcs := (pcs s)(i := q)\<rparr>)"
proof -
  have "owns (((pcs s)(i := q)) j) = owns (pcs s j)" "marked (((pcs s)(i := q)) j) = marked (pcs s j)"
    "((pcs s)(i := q)) j \<noteq> Panicked" for j
    using assms by (auto simp: linv_def)
  with assms(1) show ?thesis unfolding linv_def by (simp del: fun_upd_apply)
qed

lemma linvD:
  assumes "linv s"
  shows "owns (pcs s i) \<Longrightarrow> locked (lk s)" "lcpu (lk s) = Some i \<longleftrightarrow> marked (pcs s i)"
    "owns (pcs s i) \<Longrightarrow> owns (pcs s j) \<Longrightarrow> i = j"
    "\<not> locked (lk s) \<Longrightarrow> \<not> owns (pcs s i)" "pcs s i \<noteq> Panicked"
  using assms by (auto simp: linv_def)

lemma linv_owner:
  assumes "linv s" "owns (pcs s i)"
  shows "owns (pcs s j) \<longleftrightarrow> j = i" "j \<noteq> i \<Longrightarrow> \<not> marked (pcs s j)" "locked (lk s)"
  using linvD(3) [OF assms(1), of i j] linvD(1) [OF assms] assms(2) marked_owns [of "pcs s j"]
  by blast+

lemma linv_no_owner:
  assumes "linv s" "\<not> locked (lk s)"
  shows "\<not> owns (pcs s j)" "\<not> marked (pcs s j)"
  using linvD(4) [OF assms, of j] marked_owns [of "pcs s j"] by blast+

lemma lstep_linv: "lstep s t \<Longrightarrow> linv s \<Longrightarrow> linv t"
proof (induction rule: lstep.induct)
  case (acq_mine s i)
  then show ?case using linvD(2) [of s i] by simp
next
  case (rel_unlocked s i)
  then show ?case using linvD(4) [of s i] by simp
next
  case (rel_other s i)
  then show ?case using linvD(2) [of s i] by simp
next
  case (tas_won s i)
  note inv = tas_won.prems
  show ?case
    using linv_no_owner [OF inv tas_won.hyps(2)] linvD(2,5) [OF inv] by (simp add: linv_def)
next
  case (set_cpu s i)
  note inv = set_cpu.prems
  have o: "owns (pcs s i)" using set_cpu.hyps by simp
  show ?case
    using linv_owner [OF inv o] linvD(5) [OF inv] by (auto simp: linv_def)
next
  case (clr_cpu s i)
  note inv = clr_cpu.prems
  have o: "owns (pcs s i)" using clr_cpu.hyps by simp
  show ?case
    using linv_owner [OF inv o] linvD(5) [OF inv] by (auto simp: linv_def)
next
  case (clear s i)
  note inv = clear.prems
  have o: "owns (pcs s i)" "\<not> marked (pcs s i)" using clear.hyps by simp_all
  show ?case
    using linv_owner [OF inv o(1)] linvD(2,5) [OF inv] o(2) by (auto simp: linv_def)
qed (auto intro: linv_move)

lemma lreach_linv: "lreach s \<Longrightarrow> linv s"
  by (induction rule: lreach.induct) (auto intro: linv_init lstep_linv)

lemma spinlock_mutual_exclusion:
  assumes "lreach s"
  shows "(pcs s i = Critical \<and> pcs s j = Critical \<longrightarrow> i = j) \<and> pcs s i \<noteq> Panicked \<and>
         (holding_spinlock i (lk s) \<longleftrightarrow> marked (pcs s i))"
proof -
  note inv = lreach_linv [OF assms]
  have "marked (pcs s i) \<Longrightarrow> locked (lk s)"
    using linvD(1) [OF inv] marked_owns by blast
  then show ?thesis
    using linvD(3) [OF inv, of i j] linvD(5) [OF inv, of i] linvD(2) [OF inv, of i]
    by (auto simp: holding_spinlock_def)
qed

text \<open>C10: however the memory accesses of any number of CPUs interleave, at most one CPU is between the end
  of \<open>acquire_spinlock\<close> and the call of \<open>release_spinlock\<close>, neither ever panics when calls are paired, and
  \<open>holding_spinlock\<close> is true exactly for the holder.\<close>

theorem spinlock_exclusive:
  assumes "lreach s"
  shows "(pcs s i = Critical \<and> pcs s j = Critical \<longrightarrow> i = j) \<and> pcs s i \<noteq> Panicked \<and>
         (holding_spinlock i (lk s) \<longleftrightarrow> marked (pcs s i))"
  by (rule spinlock_mutual_exclusion [OF assms])

text \<open>CPU 0 is inside; CPU 1 has started to acquire and waits.\<close>

definition contended :: lsys where
  "contended = \<lparr>lk = \<lparr>locked = True, lcpu = Some 0, lname = ''pmem''\<rparr>, pcs = (\<lambda>_. Outside)(0 := Critical, 1 := ATest)\<rparr>"

lemma contended_reached: "lreach contended"
proof -
  let ?s = "\<lambda>l c p q. \<lparr>lk = \<lparr>locked = l, lcpu = c, lname = ''pmem''\<rparr>, pcs = (\<lambda>_. Outside)(0 := p, 1 := q)\<rparr>"
  have "lreach (?s False None Outside Outside)" by (rule lstart) (simp_all add: lock_free_def)
  then have "lreach (?s False None AChkLocked Outside)" using lnext acq_call [of "?s False None Outside Outside" 0] by (simp add: fun_upd_twist)
  then have "lreach (?s False None AChkLocked AChkLocked)" using lnext acq_call [of "?s False None AChkLocked Outside" 1] by simp
  then have "lreach (?s False None ATest AChkLocked)" using lnext acq_unlocked [of "?s False None AChkLocked AChkLocked" 0] by (simp add: fun_upd_twist)
  then have "lreach (?s False None ATest ATest)" using lnext acq_unlocked [of "?s False None ATest AChkLocked" 1] by simp
  then have "lreach (?s False None ATas ATest)" using lnext test_clear [of "?s False None ATest ATest" 0] by (simp add: fun_upd_twist)
  then have "lreach (?s True None ASetCpu ATest)" using lnext tas_won [of "?s False None ATas ATest" 0] by (simp add: fun_upd_twist)
  then have "lreach (?s True (Some 0) Critical ATest)" using lnext set_cpu [of "?s True None ASetCpu ATest" 0] by (simp add: fun_upd_twist)
  then show ?thesis by (simp add: contended_def)
qed

theorem spinlock_exclusive_witness:
  "pcs contended 0 = Critical \<and> holding_spinlock 0 (lk contended) \<and> \<not> holding_spinlock 1 (lk contended) \<and> {j. pcs contended j = Critical} = {0}"
proof -
  have "pcs contended 0 = Critical" "pcs contended 1 = ATest" by (simp_all add: contended_def)
  then show ?thesis
    using spinlock_exclusive [OF contended_reached, of 0] spinlock_exclusive [OF contended_reached, of 1 0] by auto
qed

end
