(* ===== verification/KDefs.thy ===== *)
theory KDefs
  imports KPrelude
begin

text \<open>The arithmetic helpers of \<open>src/common/defines.h\<close> and the reference counter of \<open>src/common/rc.c\<close>.
  The counter field is an \<open>isize\<close>: it is kept as a 64-bit word and read with \<open>sint\<close>.\<close>

definition BIT :: "nat \<Rightarrow> u64" where
  "BIT i = push_bit i 1"

definition round_down :: "u64 \<Rightarrow> u64 \<Rightarrow> u64" where
  "round_down a b = a - a mod b"

definition round_up :: "u64 \<Rightarrow> u64 \<Rightarrow> u64" where
  "round_up a b = round_down (a + b - 1) b"

record RefCount =
  rc_count :: u64

definition init_rc :: "RefCount \<Rightarrow> RefCount" where
  "init_rc rc = rc\<lparr>rc_count := 0\<rparr>"

definition increment_rc :: "RefCount \<Rightarrow> RefCount" where
  "increment_rc rc = rc\<lparr>rc_count := rc_count rc + 1\<rparr>"

definition decrement_rc :: "RefCount \<Rightarrow> bool \<times> RefCount" where
  "decrement_rc rc =
     (let rc' = rc\<lparr>rc_count := rc_count rc - 1\<rparr> in (sint (rc_count rc') \<le> 0, rc'))"

lemma unat_round_down: "unat (round_down a b) = unat a - unat a mod unat b"
  by (simp add: round_down_def unat_sub_if' unat_mod word_le_nat_alt)

lemma dvd_unat_round_down: "unat b dvd unat (round_down a b)"
  by (simp add: unat_round_down)

lemma round_down_le: "unat (round_down a b) \<le> unat a"
  by (simp add: unat_round_down)

lemma round_down_spec:
  assumes "b \<noteq> 0"
  shows "unat b dvd unat (round_down a b) \<and> round_down a b \<le> a \<and>
         (\<forall>c. unat b dvd unat c \<longrightarrow> c \<le> a \<longrightarrow> c \<le> round_down a b)"
proof (intro conjI allI impI)
  show "unat b dvd unat (round_down a b)" by (rule dvd_unat_round_down)
  show "round_down a b \<le> a" by (simp add: word_le_nat_alt round_down_le)
  fix c assume c: "unat b dvd unat c" "c \<le> a"
  then obtain k where k: "unat c = unat b * k" by blast
  have "unat b * k \<le> unat a" using c k by (simp add: word_le_nat_alt)
  then have "k \<le> unat a div unat b"
    using assms by (simp add: less_eq_div_iff_mult_less_eq unat_gt_0 mult.commute)
  then have "unat b * k \<le> unat b * (unat a div unat b)" by simp
  also have "\<dots> = unat a - unat a mod unat b" by (simp add: minus_mod_eq_mult_div)
  finally show "c \<le> round_down a b" by (simp add: word_le_nat_alt unat_round_down k)
qed

lemma round_up_spec:
  assumes "b \<noteq> 0" and "unat a + unat b \<le> 2 ^ 64"
  shows "unat b dvd unat (round_up a b) \<and> a \<le> round_up a b \<and>
         (\<forall>c. unat b dvd unat c \<longrightarrow> a \<le> c \<longrightarrow> round_up a b \<le> c)"
proof -
  have b: "0 < unat b" using assms(1) by (simp add: unat_gt_0)
  have ab: "unat (a + b - 1) = unat a + unat b - 1"
  proof -
    have "a + b - 1 = of_nat (unat a + unat b - 1)"
      using b by (simp add: of_nat_diff)
    then have "unat (a + b - 1) = unat (of_nat (unat a + unat b - 1) :: u64)" by (rule arg_cong)
    also have "\<dots> = unat a + unat b - 1"
      by (rule unat_of_nat_u64) (use assms(2) b in linarith)
    finally show ?thesis .
  qed
  let ?x = "unat a + unat b - 1"
  have ru: "unat (round_up a b) = unat b * (?x div unat b)"
    by (simp add: round_up_def unat_round_down ab minus_mod_eq_mult_div)
  have ge: "unat a \<le> unat b * (?x div unat b)"
  proof -
    have "?x mod unat b < unat b" using b by simp
    moreover have "?x = unat b * (?x div unat b) + ?x mod unat b" by simp
    ultimately show ?thesis using b by linarith
  qed
  have "round_up a b \<le> c" if c: "unat b dvd unat c" "a \<le> c" for c
  proof -
    obtain k where k: "unat c = unat b * k" using c by blast
    have "?x < unat b * Suc k" using c k b by (simp add: word_le_nat_alt)
    then have "?x div unat b < Suc k" using b by (simp add: less_mult_imp_div_less mult.commute)
    then show ?thesis by (simp add: word_le_nat_alt ru k)
  qed
  with ge ru show ?thesis by (simp add: word_le_nat_alt)
qed

end
