(* ===== verification/KPhysMem.thy ===== *)
theory KPhysMem
  imports KLock KDefs "HOL-Library.Signed_Division"
begin

text \<open>The physical page allocator \<open>src/core/physical_memory.c\<close>: a pool of page marks, first fit for runs
  of pages. The interface \<open>page_allocator\<close> is what page tables and arenas rely on; \<open>kalloc\<close> and
  \<open>kfree\<close> implement it.\<close>

abbreviation PAGE_SIZE :: nat where
  "PAGE_SIZE \<equiv> 4096"

abbreviation PAGEPOOLSIZE :: nat where
  "PAGEPOOLSIZE \<equiv> 200000"

definition KSPACE_MASK :: u64 where
  "KSPACE_MASK = 0xffff000000000000"

definition K2P :: "u64 \<Rightarrow> u64" where
  "K2P a = a - KSPACE_MASK"

definition P2K :: "u64 \<Rightarrow> u64" where
  "P2K a = a + KSPACE_MASK"

record PMemory =
  pmemlock :: SpinLock
  pagepool :: "nat \<Rightarrow> u8"
  poolnumend :: u64
  pagestart :: addr

definition pool_init :: "PMemory \<Rightarrow> addr \<Rightarrow> addr \<Rightarrow> PMemory" where
  "pool_init pm start stop =
     (let pagenum = (word_of_int (sint (stop - start) sdiv int PAGE_SIZE) :: u64);
          num = min (poolnumend pm) pagenum
      in pm\<lparr>poolnumend := num, pagestart := start,
            pagepool := (\<lambda>i. if i < unat num then 0 else pagepool pm i)\<rparr>)"

primrec pool_scan :: "PMemory \<Rightarrow> nat \<Rightarrow> nat \<Rightarrow> nat \<Rightarrow> (addr \<times> nat) res" where
  "pool_scan pm i j 0 = Inr (0, j)"
| "pool_scan pm i j (Suc r) =
     (if PAGEPOOLSIZE \<le> i + j then Inl (Fault ''pagepool'')
      else if pagepool pm (i + j) \<noteq> 0 then Inr (0, j)
      else if r = 0 then Inr (pagestart pm + of_nat (PAGE_SIZE * i), Suc j)
      else pool_scan pm i (Suc j) r)"

function pool_search :: "PMemory \<Rightarrow> u64 \<Rightarrow> nat \<Rightarrow> nat \<Rightarrow> (addr \<times> nat) res" where
  "pool_search pm bound numpages i =
     (if i \<le> unat bound then
        (case pool_scan pm i 0 numpages of
           Inl e \<Rightarrow> Inl e
         | Inr (page, j) \<Rightarrow>
             if page \<noteq> 0 then Inr (page, i) else pool_search pm bound numpages (i + j + 1))
      else Inr (0, i))"
  by pat_completeness auto
termination
  by (relation "measure (\<lambda>(pm, bound, n, i). unat bound + 1 - i)") auto

declare pool_search.simps [simp del]

definition pool_alloc :: "nat \<Rightarrow> PMemory \<Rightarrow> nat \<Rightarrow> (addr \<times> PMemory) res" where
  "pool_alloc cpu pm numpages =
     bind_res (acquire_spinlock cpu (pmemlock pm)) (\<lambda>lk1.
     bind_res (pool_search pm (poolnumend pm - of_nat numpages) numpages 0) (\<lambda>(page, i).
       let pm' = (if page \<noteq> 0
                  then pm\<lparr>pagepool := (\<lambda>k. if i \<le> k \<and> k < i + numpages then 1 else pagepool pm k)\<rparr>
                  else pm)
       in bind_res (release_spinlock cpu lk1) (\<lambda>lk2. Inr (page, pm'\<lparr>pmemlock := lk2\<rparr>))))"

primrec pool_clear :: "(nat \<Rightarrow> u8) \<Rightarrow> int \<Rightarrow> nat \<Rightarrow> (nat \<Rightarrow> u8) res" where
  "pool_clear pool i 0 = Inr pool"
| "pool_clear pool i (Suc r) =
     (if i < 0 \<or> int PAGEPOOLSIZE \<le> i then Inl (Fault ''pagepool'')
      else if pool (nat i) = 0 then Inl (Panic ''kmem: refree a free physical page.'')
      else pool_clear (pool(nat i := 0)) (i + 1) r)"

definition pool_free :: "nat \<Rightarrow> PMemory \<Rightarrow> addr \<Rightarrow> nat \<Rightarrow> PMemory res" where
  "pool_free cpu pm page_address numpages =
     (if page_address mod 4096 \<noteq> 0 then Inl (Panic ''kmem: page address not aligned.'')
      else
        let localstart = sint (ucast ((page_address - pagestart pm) div 4096) :: u32)
        in if \<not> (word_of_int (localstart + int numpages) \<le> poolnumend pm)
           then Inl (Panic ''localstart + numpages <= poolnumend'')
           else
             bind_res (acquire_spinlock cpu (pmemlock pm)) (\<lambda>lk1.
             bind_res (pool_clear (pagepool pm) localstart numpages) (\<lambda>pool'.
             bind_res (release_spinlock cpu lk1) (\<lambda>lk2.
               Inr (pm\<lparr>pagepool := pool', pmemlock := lk2\<rparr>)))))"

definition phystop :: u64 where
  "phystop = 0x3F000000"

definition init_memory_manager :: "PMemory \<Rightarrow> addr \<Rightarrow> PMemory" where
  "init_memory_manager pm stop =
     (let ROUNDUP_end = round_up stop 4096;
          pm1 = pm\<lparr>pmemlock := init_spinlock (pmemlock pm) ''pmem''\<rparr>
      in pool_init pm1 ROUNDUP_end (P2K phystop))"

definition nkalloc :: "nat \<Rightarrow> PMemory \<Rightarrow> nat \<Rightarrow> (addr \<times> PMemory) res" where
  "nkalloc cpu pm numpages =
     bind_res (pool_alloc cpu pm numpages) (\<lambda>(p, pm').
       if p = 0 then Inl (Panic ''kmem: nkalloc fails.'') else Inr (p, pm'))"

definition nfree :: "nat \<Rightarrow> PMemory \<Rightarrow> addr \<Rightarrow> nat \<Rightarrow> PMemory res" where
  "nfree cpu pm page_address numpages = pool_free cpu pm page_address numpages"

definition kalloc :: "nat \<Rightarrow> PMemory \<Rightarrow> (addr \<times> PMemory) res" where
  "kalloc cpu pm =
     bind_res (pool_alloc cpu pm 1) (\<lambda>(p, pm').
       if p = 0 then Inl (Panic ''kmem: kalloc fails.'') else Inr (p, pm'))"

definition kfree :: "nat \<Rightarrow> PMemory \<Rightarrow> addr \<Rightarrow> PMemory res" where
  "kfree cpu pm page_address = pool_free cpu pm page_address 1"

text \<open>Abstraction\<close>

definition page_at :: "PMemory \<Rightarrow> nat \<Rightarrow> addr" where
  "page_at pm i = pagestart pm + of_nat (PAGE_SIZE * i)"

definition pm_pages :: "PMemory \<Rightarrow> addr set" where
  "pm_pages pm = page_at pm ` {i. i < unat (poolnumend pm)}"

definition pm_live :: "PMemory \<Rightarrow> addr set" where
  "pm_live pm = page_at pm ` {i. i < unat (poolnumend pm) \<and> pagepool pm i \<noteq> 0}"

definition pm_inv :: "PMemory \<Rightarrow> bool" where
  "pm_inv pm \<longleftrightarrow> lock_free (pmemlock pm) \<and> 0 < unat (poolnumend pm) \<and>
     unat (poolnumend pm) \<le> PAGEPOOLSIZE \<and>
     4096 dvd unat (pagestart pm) \<and> pagestart pm \<noteq> 0 \<and>
     unat (pagestart pm) + PAGE_SIZE * unat (poolnumend pm) \<le> 2 ^ 64"

definition free_run :: "PMemory \<Rightarrow> nat \<Rightarrow> nat \<Rightarrow> bool" where
  "free_run pm i n \<longleftrightarrow> i + n \<le> unat (poolnumend pm) \<and> (\<forall>k<n. pagepool pm (i + k) = 0)"

lemma unat_page_at:
  assumes "pm_inv pm" "i < unat (poolnumend pm)"
  shows "unat (page_at pm i) = unat (pagestart pm) + PAGE_SIZE * i"
proof -
  have "unat (pagestart pm) + PAGE_SIZE * i < 2 ^ 64"
    using assms unfolding pm_inv_def by linarith
  then show ?thesis
    by (simp add: page_at_def unat_word_ariths unat_of_nat mult.commute)
qed


lemma page_at_nonzero: "pm_inv pm \<Longrightarrow> i < unat (poolnumend pm) \<Longrightarrow> page_at pm i \<noteq> 0"
  using unat_page_at [of pm i] by (auto simp: pm_inv_def unat_eq_zero)

lemma page_at_inj:
  "pm_inv pm \<Longrightarrow> i < unat (poolnumend pm) \<Longrightarrow> j < unat (poolnumend pm) \<Longrightarrow>
   page_at pm i = page_at pm j \<longleftrightarrow> i = j"
  by (simp add: word_unat_eq_iff unat_page_at)

lemma page_at_aligned: "pm_inv pm \<Longrightarrow> i < unat (poolnumend pm) \<Longrightarrow> PAGE_SIZE dvd unat (page_at pm i)"
  using unat_page_at [of pm i] by (auto simp: pm_inv_def)

lemma pool_scan_spec:
  assumes "i + j + r \<le> PAGEPOOLSIZE" "0 < r"
  shows "(\<forall>k<r. pagepool pm (i + j + k) = 0) \<and> pool_scan pm i j r = Inr (page_at pm i, j + r) \<or>
         (\<exists>k<r. pagepool pm (i + j + k) \<noteq> 0 \<and> pool_scan pm i j r = Inr (0, j + k))"
  using assms
proof (induction r arbitrary: j)
  case 0
  then show ?case by simp
next
  case (Suc r)
  show ?case
  proof (cases "pagepool pm (i + j) = 0")
    case False
    with Suc.prems show ?thesis by (intro disjI2 exI [of _ 0]) auto
  next
    case free: True
    show ?thesis
    proof (cases "r = 0")
      case True
      with free Suc.prems show ?thesis by (intro disjI1) (auto simp: page_at_def)
    next
      case False
      have eq: "pool_scan pm i j (Suc r) = pool_scan pm i (Suc j) r"
        using free False Suc.prems by simp
      have all: "(\<forall>k<Suc r. pagepool pm (i + j + k) = 0) \<longleftrightarrow> (\<forall>k<r. pagepool pm (i + Suc j + k) = 0)"
        using free by (auto simp: less_Suc_eq_0_disj)
      have ex: "pagepool pm (i + Suc j + k) \<noteq> 0 \<Longrightarrow> k < r \<Longrightarrow>
          Suc k < Suc r \<and> pagepool pm (i + j + Suc k) \<noteq> 0 \<and> Suc j + k = j + Suc k" for k
        by simp
      from Suc.IH [of "Suc j"] Suc.prems False
      consider "\<forall>k<r. pagepool pm (i + Suc j + k) = 0" "pool_scan pm i (Suc j) r = Inr (page_at pm i, Suc j + r)"
        | k where "k < r" "pagepool pm (i + Suc j + k) \<noteq> 0" "pool_scan pm i (Suc j) r = Inr (0, Suc j + k)"
        by auto
      then show ?thesis
      proof cases
        case 1
        then show ?thesis unfolding eq all by simp
      next
        case (2 k)
        then show ?thesis unfolding eq using ex [of k] by (intro disjI2 exI [of _ "Suc k"]) simp
      qed
    qed
  qed
qed

lemma pool_search_spec:
  assumes "pm_inv pm" "0 < n" "n \<le> unat (poolnumend pm)"
    and "bound = poolnumend pm - of_nat n" "\<forall>k<i. \<not> free_run pm k n"
  shows "\<exists>page i'. pool_search pm bound n i = Inr (page, i') \<and>
     (if page = 0 then \<forall>k. \<not> free_run pm k n
      else page = page_at pm i' \<and> free_run pm i' n \<and> (\<forall>k<i'. \<not> free_run pm k n))"
  using assms
proof (induction pm bound n i rule: pool_search.induct)
  case (1 pm bound n i)
  have n64: "n < 2 ^ 64" using "1.prems"(3) unat_u64_less [of "poolnumend pm"] by linarith
  have bnd: "unat bound = unat (poolnumend pm) - n"
    using "1.prems"(3,4) n64 by (simp add: unat_sub word_le_nat_alt unat_of_nat)
  show ?case
  proof (cases "i \<le> unat bound")
    case False
    then have "\<not> free_run pm k n" for k
      using "1.prems"(3,5) bnd by (cases "k < i") (auto simp: free_run_def)
    with False show ?thesis by (simp add: pool_search.simps [of pm bound n i])
  next
    case True
    then have ib: "i + n \<le> unat (poolnumend pm)" using "1.prems"(3) bnd by simp
    have "i + 0 + n \<le> PAGEPOOLSIZE" using ib "1.prems"(1) by (simp add: pm_inv_def)
    from pool_scan_spec [OF this "1.prems"(2), of pm]
    consider (found) "\<forall>k<n. pagepool pm (i + k) = 0" "pool_scan pm i 0 n = Inr (page_at pm i, n)"
      | (busy) j where "j < n" "pagepool pm (i + j) \<noteq> 0" "pool_scan pm i 0 n = Inr (0, j)"
      by auto
    then show ?thesis
    proof cases
      case found
      moreover have "page_at pm i \<noteq> 0"
        using page_at_nonzero [OF "1.prems"(1)] ib "1.prems"(2) by simp
      ultimately show ?thesis
        using True ib "1.prems"(5) by (simp add: pool_search.simps [of pm bound n i] free_run_def)
    next
      case busy
      have skip: "\<forall>k < i + j + 1. \<not> free_run pm k n"
      proof (intro allI impI)
        fix k assume k: "k < i + j + 1"
        show "\<not> free_run pm k n"
        proof (cases "k < i")
          case True
          with "1.prems"(5) show ?thesis by blast
        next
          case False
          then have "i + j - k < n" "k + (i + j - k) = i + j" using k busy(1) by auto
          with busy(2) show ?thesis unfolding free_run_def by metis
        qed
      qed
      have step: "pool_search pm bound n i = pool_search pm bound n (i + j + 1)"
        using True busy by (simp add: pool_search.simps [of pm bound n i])
      show ?thesis
        unfolding step
        by (rule "1.IH" [OF True busy(3) refl]) (use "1.prems" skip in auto)
    qed
  qed
qed


definition mark_pages :: "PMemory \<Rightarrow> nat \<Rightarrow> nat \<Rightarrow> PMemory" where
  "mark_pages pm i n = pm\<lparr>pagepool := (\<lambda>k. if i \<le> k \<and> k < i + n then 1 else pagepool pm k)\<rparr>"

lemma mark_pages_simps [simp]:
  "pmemlock (mark_pages pm i n) = pmemlock pm" "poolnumend (mark_pages pm i n) = poolnumend pm"
  "pagestart (mark_pages pm i n) = pagestart pm" "page_at (mark_pages pm i n) k = page_at pm k"
  "pm_inv (mark_pages pm i n) = pm_inv pm"
  by (simp_all add: mark_pages_def page_at_def pm_inv_def)

lemma pm_live_mark_pages:
  "i + n \<le> unat (poolnumend pm) \<Longrightarrow> pm_live (mark_pages pm i n) = pm_live pm \<union> page_at pm ` {i..<i + n}"
  by (auto simp: pm_live_def mark_pages_def page_at_def)

lemma free_run_not_live:
  assumes "pm_inv pm" "free_run pm i n"
  shows "page_at pm ` {i..<i + n} \<inter> pm_live pm = {}"
proof -
  have "pagepool pm k = 0" "k < unat (poolnumend pm)" if "k \<in> {i..<i + n}" for k
    using that assms(2) unfolding free_run_def
    by (auto dest: spec [of _ "k - i"])
  then show ?thesis
    using page_at_inj [OF assms(1)] by (fastforce simp: pm_live_def)
qed

lemma pool_alloc_spec:
  assumes "pm_inv pm" "0 < n" "n \<le> unat (poolnumend pm)"
  shows "(\<exists>i. pool_alloc cpu pm n = Inr (page_at pm i, mark_pages pm i n) \<and> free_run pm i n \<and>
             (\<forall>k<i. \<not> free_run pm k n)) \<or>
         (pool_alloc cpu pm n = Inr (0, pm) \<and> (\<forall>k. \<not> free_run pm k n))"
proof -
  have lf: "lock_free (pmemlock pm)" using assms(1) by (simp add: pm_inv_def)
  from pool_search_spec [OF assms refl, of 0]
  obtain page i where ps: "pool_search pm (poolnumend pm - of_nat n) n 0 = Inr (page, i)"
    and sp: "if page = 0 then \<forall>k. \<not> free_run pm k n
             else page = page_at pm i \<and> free_run pm i n \<and> (\<forall>k<i. \<not> free_run pm k n)"
    by auto
  have "pool_alloc cpu pm n = Inr (page, if page \<noteq> 0 then mark_pages pm i n else pm)"
    using lf by (simp add: pool_alloc_def ps Let_def mark_pages_def)
  with sp show ?thesis by (cases "page = 0") auto
qed

lemma nkalloc_spec:
  assumes "pm_inv pm" "0 < n" "n \<le> unat (poolnumend pm)"
  shows "if \<exists>i. free_run pm i n
         then \<exists>i pm'. nkalloc cpu pm n = Inr (page_at pm i, pm') \<and>
                free_run pm i n \<and> (\<forall>k<i. \<not> free_run pm k n) \<and> pm_inv pm' \<and>
                page_at pm ` {i..<i + n} \<inter> pm_live pm = {} \<and>
                pm_live pm' = pm_live pm \<union> page_at pm ` {i..<i + n}
         else nkalloc cpu pm n = Inl (Panic ''kmem: nkalloc fails.'')"
  using pool_alloc_spec [OF assms, of cpu]
proof (elim disjE exE conjE)
  fix i assume i: "pool_alloc cpu pm n = Inr (page_at pm i, mark_pages pm i n)"
    "free_run pm i n" "\<forall>k<i. \<not> free_run pm k n"
  then have le: "i + n \<le> unat (poolnumend pm)" by (simp add: free_run_def)
  then have "page_at pm i \<noteq> 0" using page_at_nonzero [OF assms(1)] assms(2) by simp
  with i have nk: "nkalloc cpu pm n = Inr (page_at pm i, mark_pages pm i n)" by (simp add: nkalloc_def)
  have "\<exists>i pm'. nkalloc cpu pm n = Inr (page_at pm i, pm') \<and>
                free_run pm i n \<and> (\<forall>k<i. \<not> free_run pm k n) \<and> pm_inv pm' \<and>
                page_at pm ` {i..<i + n} \<inter> pm_live pm = {} \<and>
                pm_live pm' = pm_live pm \<union> page_at pm ` {i..<i + n}"
    by (rule exI [of _ i], rule exI [of _ "mark_pages pm i n"])
      (simp add: nk i(2,3) assms(1) pm_live_mark_pages [OF le] free_run_not_live [OF assms(1) i(2)])
  with i(2) show ?thesis by auto
next
  assume "pool_alloc cpu pm n = Inr (0, pm)" "\<forall>k. \<not> free_run pm k n"
  then show ?thesis by (simp add: nkalloc_def)
qed

lemma page_index:
  assumes "pm_inv pm" "i < unat (poolnumend pm)"
  shows "sint (ucast ((page_at pm i - pagestart pm) div 4096) :: u32) = int i"
proof -
  have i: "i < 200000" using assms by (simp add: pm_inv_def)
  have "page_at pm i - pagestart pm = of_nat (4096 * i)" by (simp add: page_at_def)
  moreover have "(of_nat (4096 * i) :: u64) div 4096 = of_nat i"
  proof -
    have "unat (of_nat (4096 * i) :: u64) = 4096 * i"
      by (rule unat_of_nat_u64) (use i in simp)
    moreover have "unat (of_nat i :: u64) = i" by (rule unat_of_nat_u64) (use i in simp)
    ultimately show ?thesis unfolding word_unat_eq_iff unat_div_distrib by simp
  qed
  moreover have "(ucast (of_nat i :: u64) :: u32) = of_nat i"
    by (rule bit_word_eqI) (use i in \<open>simp add: bit_simps\<close>)
  moreover have "sint (of_nat i :: u32) = int i"
    using i by (simp add: signed_of_nat signed_take_bit_int_eq_self)
  ultimately show ?thesis by simp
qed

lemma kfree_eq:
  assumes "pm_inv pm" "i < unat (poolnumend pm)"
  shows "kfree cpu pm (page_at pm i) =
           (if pagepool pm i = 0 then Inl (Panic ''kmem: refree a free physical page.'')
            else Inr (pm\<lparr>pagepool := (pagepool pm)(i := 0)\<rparr>))"
proof -
  have lf: "lock_free (pmemlock pm)" and i: "i < 200000" using assms by (simp_all add: pm_inv_def)
  have al: "page_at pm i mod 4096 = 0"
    using page_at_aligned [OF assms] by (simp add: word_unat_eq_iff unat_mod dvd_imp_mod_0)
  have "unat (of_nat (Suc i) :: u64) = Suc i" by (rule unat_of_nat_u64) (use i in simp)
  moreover have "(word_of_int (int i + 1) :: u64) = of_nat (Suc i)" by simp
  ultimately have bnd: "word_of_int (int i + 1) \<le> poolnumend pm"
    using assms(2) unfolding word_le_nat_alt by (simp add: add.commute)
  show ?thesis
    unfolding kfree_def pool_free_def Let_def page_index [OF assms]
    using lf al bnd i by (simp add: numeral_2_eq_2)
qed

text \<open>The contract of a page allocator: what \<open>kalloc\<close> and \<open>kfree\<close> promise to their clients (the
  page tables and the arena).\<close>

locale page_allocator =
  fixes allocate :: "'s \<Rightarrow> (addr \<times> 's) res"
    and deallocate :: "'s \<Rightarrow> addr \<Rightarrow> 's res"
    and live :: "'s \<Rightarrow> addr set"
    and pool :: "'s \<Rightarrow> addr set"
    and okay :: "'s \<Rightarrow> bool"
  assumes allocate_ok: "okay s \<Longrightarrow> allocate s = Inr (p, s') \<Longrightarrow>
      p \<notin> live s \<and> live s' = insert p (live s) \<and> pool s' = pool s \<and> okay s'"
    and live_page: "okay s \<Longrightarrow> p \<in> live s \<Longrightarrow> p \<in> pool s \<and> p \<noteq> 0 \<and> PAGE_SIZE dvd unat p"
    and deallocate_ok: "okay s \<Longrightarrow> p \<in> live s \<Longrightarrow>
      \<exists>s'. deallocate s p = Inr s' \<and> live s' = live s - {p} \<and> pool s' = pool s \<and> okay s'"
begin

lemma allocate_fresh: "okay s \<Longrightarrow> allocate s = Inr (p, s') \<Longrightarrow> p \<noteq> 0 \<and> PAGE_SIZE dvd unat p"
  using allocate_ok [of s p s'] live_page [of s' p] by auto

lemma allocate_twice_distinct:
  "okay s \<Longrightarrow> allocate s = Inr (p, s1) \<Longrightarrow> allocate s1 = Inr (q, s2) \<Longrightarrow> p \<noteq> q"
  using allocate_ok [of s p s1] allocate_ok [of s1 q s2] by auto

lemma allocate_deallocate:
  assumes "okay s" "allocate s = Inr (p, s1)"
  shows "\<exists>s2. deallocate s1 p = Inr s2 \<and> live s2 = live s \<and> okay s2"
  using allocate_ok [OF assms] deallocate_ok [of s1 p] by auto

text \<open>Two live pages never share a byte.\<close>

lemma live_pages_disjoint:
  assumes "okay s" "p \<in> live s" "q \<in> live s" "p \<noteq> q" "i < PAGE_SIZE" "j < PAGE_SIZE"
  shows "unat p + i \<noteq> unat q + j"
proof
  assume eq: "unat p + i = unat q + j"
  obtain a b where ab: "unat p = PAGE_SIZE * a" "unat q = PAGE_SIZE * b"
    using live_page [OF assms(1,2)] live_page [OF assms(1,3)] unfolding dvd_def by blast
  have "(PAGE_SIZE * a + i) div PAGE_SIZE = a" "(PAGE_SIZE * b + j) div PAGE_SIZE = b"
    using assms(5,6) by (simp_all add: div_mult_self4)
  with eq ab have "unat p = unat q" by metis
  with assms(4) show False by (simp add: word_unat_eq_iff)
qed

end

lemma kalloc_eq_nkalloc:
  "kalloc cpu pm = Inr r \<longleftrightarrow> nkalloc cpu pm 1 = Inr r"
  by (auto simp: kalloc_def nkalloc_def)

lemma kalloc_Inr:
  assumes "pm_inv pm" "kalloc cpu pm = Inr (p, pm')"
  shows "\<exists>i < unat (poolnumend pm). p = page_at pm i \<and> pagepool pm i = 0 \<and> pm' = mark_pages pm i 1"
proof -
  have "1 \<le> unat (poolnumend pm)" using assms(1) by (simp add: pm_inv_def)
  from pool_alloc_spec [OF assms(1) _ this, of cpu]
  consider i where "pool_alloc cpu pm 1 = Inr (page_at pm i, mark_pages pm i 1)" "free_run pm i 1"
    | "pool_alloc cpu pm 1 = Inr (0, pm)"
    by auto
  then show ?thesis
    using assms(2) by cases (auto simp: kalloc_def free_run_def Suc_le_eq split: if_splits)
qed

lemma kalloc_Inl:
  assumes "pm_inv pm" "kalloc cpu pm = Inl e"
  shows "e = Panic ''kmem: kalloc fails.'' \<and> (\<forall>i < unat (poolnumend pm). pagepool pm i \<noteq> 0)"
proof -
  have "1 \<le> unat (poolnumend pm)" using assms(1) by (simp add: pm_inv_def)
  from pool_alloc_spec [OF assms(1) _ this, of cpu]
  consider i where "pool_alloc cpu pm 1 = Inr (page_at pm i, mark_pages pm i 1)" "free_run pm i 1"
    | "pool_alloc cpu pm 1 = Inr (0, pm)" "\<forall>k. \<not> free_run pm k 1"
    by auto
  then show ?thesis
  proof cases
    case 1
    then have "page_at pm i \<noteq> 0" by (intro page_at_nonzero [OF assms(1)]) (simp add: free_run_def)
    with 1 assms(2) show ?thesis by (simp add: kalloc_def)
  next
    case 2
    with assms(2) show ?thesis by (auto simp: kalloc_def free_run_def)
  qed
qed

text \<open>The number of free pages; \<open>kalloc\<close> succeeds as long as there is one and takes one.\<close>

definition free_count :: "PMemory \<Rightarrow> nat" where
  "free_count pm = card {i. i < unat (poolnumend pm) \<and> pagepool pm i = 0}"

lemma free_count_empty: "pm_live pm = {} \<Longrightarrow> free_count pm = unat (poolnumend pm)"
proof -
  assume "pm_live pm = {}"
  then have "{i. i < unat (poolnumend pm) \<and> pagepool pm i = 0} = {..<unat (poolnumend pm)}" by (auto simp: pm_live_def)
  then show ?thesis by (simp add: free_count_def)
qed

lemma kalloc_free_count:
  assumes "pm_inv pm" "0 < free_count pm"
  shows "\<exists>p pm'. kalloc cpu pm = Inr (p, pm') \<and> free_count pm = Suc (free_count pm')"
proof (cases "kalloc cpu pm")
  case (Inl e)
  then have "{i. i < unat (poolnumend pm) \<and> pagepool pm i = 0} = {}"
    using kalloc_Inl [OF assms(1) Inl] by auto
  with assms(2) show ?thesis unfolding free_count_def by (metis card.empty less_numeral_extra(3))
next
  case (Inr r)
  obtain p pm' where r: "r = (p, pm')" by (cases r)
  from kalloc_Inr [OF assms(1) Inr [unfolded r]] obtain i where
    i: "i < unat (poolnumend pm)" "pagepool pm i = 0" "pm' = mark_pages pm i 1" by auto
  let ?F = "{i. i < unat (poolnumend pm) \<and> pagepool pm i = 0}"
  have "{k. k < unat (poolnumend pm') \<and> pagepool pm' k = 0} = ?F - {i}"
    unfolding i(3) by (auto simp: mark_pages_def split: if_splits)
  moreover have "finite ?F" "i \<in> ?F" using i by auto
  ultimately have "free_count pm = Suc (free_count pm')"
    unfolding free_count_def by (simp only: card.remove)
  with Inr r show ?thesis by blast
qed

lemma pm_live_free:
  assumes "pm_inv pm" "i < unat (poolnumend pm)"
  shows "pm_live (pm\<lparr>pagepool := (pagepool pm)(i := 0)\<rparr>) = pm_live pm - {page_at pm i}"
proof -
  have "pm_live (pm\<lparr>pagepool := (pagepool pm)(i := 0)\<rparr>) =
      page_at pm ` ({k. k < unat (poolnumend pm) \<and> pagepool pm k \<noteq> 0} - {i})"
    unfolding pm_live_def by (rule image_cong) (auto simp: page_at_def)
  also have "\<dots> = page_at pm ` {k. k < unat (poolnumend pm) \<and> pagepool pm k \<noteq> 0} - {page_at pm i}"
    using page_at_inj [OF assms(1)] assms(2) by auto
  finally show ?thesis by (simp add: pm_live_def)
qed

lemma pm_inv_pagepool [simp]: "pm_inv (pm\<lparr>pagepool := f\<rparr>) = pm_inv pm"
  by (simp add: pm_inv_def)

text \<open>With the lock free it does not matter which CPU calls the allocator.\<close>

lemma kalloc_any_cpu: "pm_inv pm \<Longrightarrow> kalloc c pm = kalloc d pm"
  by (auto simp: kalloc_def pool_alloc_def pm_inv_def Let_def bind_res_def split: sum.splits)

lemma kfree_any_cpu: "pm_inv pm \<Longrightarrow> kfree c pm p = kfree d pm p"
  by (auto simp: kfree_def pool_free_def pm_inv_def Let_def bind_res_def split: sum.splits)

interpretation kmem: page_allocator "kalloc cpu" "kfree cpu" pm_live pm_pages pm_inv for cpu
proof
  fix s p s'
  assume inv: "pm_inv s" and al: "kalloc cpu s = Inr (p, s')"
  from kalloc_Inr [OF this] obtain i where i: "i < unat (poolnumend s)" "p = page_at s i"
    "pagepool s i = 0" "s' = mark_pages s i 1" by auto
  then have "free_run s i 1" by (simp add: free_run_def)
  with free_run_not_live [OF inv this] i inv pm_live_mark_pages [of i 1 s]
  show "p \<notin> pm_live s \<and> pm_live s' = insert p (pm_live s) \<and> pm_pages s' = pm_pages s \<and> pm_inv s'"
    by (auto simp: pm_pages_def)
next
  fix s p
  assume inv: "pm_inv s" and p: "p \<in> pm_live s"
  then obtain i where i: "p = page_at s i" "i < unat (poolnumend s)" "pagepool s i \<noteq> 0"
    by (auto simp: pm_live_def)
  show "p \<in> pm_pages s \<and> p \<noteq> 0 \<and> PAGE_SIZE dvd unat p"
    unfolding i(1) using page_at_nonzero [OF inv i(2)] page_at_aligned [OF inv i(2)] i(2) by (auto simp: pm_pages_def)
  have "pm_pages (s\<lparr>pagepool := f\<rparr>) = pm_pages s" for f by (simp add: pm_pages_def page_at_def [abs_def])
  then show "\<exists>s'. kfree cpu s p = Inr s' \<and> pm_live s' = pm_live s - {p} \<and> pm_pages s' = pm_pages s \<and> pm_inv s'"
    using kfree_eq [OF inv i(2)] pm_live_free [OF inv i(2)] i inv by simp
qed

definition pmem_boot :: PMemory where
  "pmem_boot = \<lparr>pmemlock = \<lparr>locked = False, lcpu = None, lname = []\<rparr>, pagepool = (\<lambda>_. 0),
     poolnumend = of_nat PAGEPOOLSIZE, pagestart = 0\<rparr>"

lemma sdiv_of_nat: "int d sdiv int m = int (d div m)"
  by (cases "d = 0"; cases "m = 0") (simp_all add: signed_divide_int_def zdiv_int)

lemma pool_init_spec:
  assumes "lock_free (pmemlock pm)" "start \<noteq> 0" "PAGE_SIZE dvd unat start"
    and "unat start + PAGE_SIZE \<le> unat stop" "unat stop - unat start < 2 ^ 63"
    and "0 < unat (poolnumend pm)" "unat (poolnumend pm) \<le> PAGEPOOLSIZE"
  shows "pm_inv (pool_init pm start stop) \<and> pm_live (pool_init pm start stop) = {} \<and>
         unat (poolnumend (pool_init pm start stop)) =
           min (unat (poolnumend pm)) ((unat stop - unat start) div PAGE_SIZE)"
proof -
  let ?d = "unat stop - unat start"
  have sz: "unat (stop - start) = ?d"
    using assms(4) by (simp add: unat_sub word_le_nat_alt)
  have "stop - start = of_nat ?d" using sz by (metis of_nat_unat ucast_id)
  then have "sint (stop - start) = int ?d"
    using assms(5) by (simp del: of_nat_diff add: signed_of_nat signed_take_bit_int_eq_self)
  then have sd: "sint (stop - start) sdiv int PAGE_SIZE = int (?d div PAGE_SIZE)"
    by (simp only: sdiv_of_nat)
  have un: "unat (word_of_int (int (?d div PAGE_SIZE)) :: u64) = ?d div PAGE_SIZE"
    using assms(5) by (simp add: unat_of_nat)
  have num: "unat (poolnumend (pool_init pm start stop)) = min (unat (poolnumend pm)) (?d div PAGE_SIZE)"
    unfolding pool_init_def Let_def sd using un by (simp add: min_def word_le_nat_alt)
  have "PAGE_SIZE * (?d div PAGE_SIZE) \<le> ?d" by simp
  then have "PAGE_SIZE * min (unat (poolnumend pm)) (?d div PAGE_SIZE) \<le> ?d"
    using mult_le_mono2 [of "min (unat (poolnumend pm)) (?d div PAGE_SIZE)" "?d div PAGE_SIZE" PAGE_SIZE]
    by linarith
  then have top: "unat start + PAGE_SIZE * min (unat (poolnumend pm)) (?d div PAGE_SIZE) \<le> 2 ^ 64"
    using assms(4) unat_u64_less [of stop] by linarith
  have pos: "0 < ?d div PAGE_SIZE" using assms(4) by (simp add: div_greater_zero_iff)
  show ?thesis
    using num top pos assms by (auto simp: pm_inv_def pm_live_def pool_init_def Let_def min.coboundedI1)
qed

lemma init_memory_manager_spec:
  assumes "KSPACE_MASK \<le> stop" "stop \<le> P2K (phystop - 4096)"
  shows "pm_inv (init_memory_manager pmem_boot stop) \<and>
         pm_live (init_memory_manager pmem_boot stop) = {} \<and>
         unat (poolnumend (init_memory_manager pmem_boot stop)) =
           min PAGEPOOLSIZE ((unat (P2K phystop) - unat (round_up stop 4096)) div PAGE_SIZE)"
proof -
  have k: "unat KSPACE_MASK = 0xffff000000000000" "unat (P2K (phystop - 4096)) = 0xffff00003effF000"
    "unat (P2K phystop) = 0xffff00003F000000"
    by (simp_all add: KSPACE_MASK_def P2K_def phystop_def)
  have s: "0xffff000000000000 \<le> unat stop" "unat stop \<le> 0xffff00003effF000"
    using assms k by (simp_all add: word_le_nat_alt)
  have "unat stop + unat (4096 :: u64) \<le> 2 ^ 64" using s by simp
  from round_up_spec [OF _ this]
  have ru: "4096 dvd unat (round_up stop 4096)" "stop \<le> round_up stop 4096"
    "\<forall>c. 4096 dvd unat c \<longrightarrow> stop \<le> c \<longrightarrow> round_up stop 4096 \<le> c"
    by simp_all
  have "4096 dvd unat (P2K (phystop - 4096))" unfolding k by simp
  with ru(3) assms(2) have "round_up stop 4096 \<le> P2K (phystop - 4096)" by blast
  then have r: "0xffff000000000000 \<le> unat (round_up stop 4096)" "unat (round_up stop 4096) \<le> 0xffff00003effF000"
    using k s ru(2) by (simp_all add: word_le_nat_alt)
  let ?pm = "pmem_boot\<lparr>pmemlock := init_spinlock (pmemlock pmem_boot) ''pmem''\<rparr>"
  have pm: "lock_free (pmemlock ?pm)" "unat (poolnumend ?pm) = PAGEPOOLSIZE"
    by (simp_all add: pmem_boot_def init_spinlock_def lock_free_def)
  have im: "init_memory_manager pmem_boot stop = pool_init ?pm (round_up stop 4096) (P2K phystop)"
    by (simp add: init_memory_manager_def)
  have nz: "round_up stop 4096 \<noteq> 0" using r(1) by auto
  from pool_init_spec [OF pm(1) nz ru(1), of "P2K phystop"] r k pm(2)
  show ?thesis unfolding im by simp
qed

lemma pool_clear_run:
  "i + n \<le> PAGEPOOLSIZE \<Longrightarrow> \<forall>k. i \<le> k \<and> k < i + n \<longrightarrow> pool k \<noteq> 0 \<Longrightarrow>
   pool_clear pool (int i) n = Inr (\<lambda>k. if i \<le> k \<and> k < i + n then 0 else pool k)"
proof (induction n arbitrary: pool i)
  case 0
  then show ?case by (simp add: fun_eq_iff)
next
  case (Suc n)
  have "pool_clear (pool(i := 0)) (int (Suc i)) n =
      Inr (\<lambda>k. if Suc i \<le> k \<and> k < Suc i + n then 0 else (pool(i := 0)) k)"
    by (rule Suc.IH) (use Suc.prems in auto)
  then show ?case
    using Suc.prems by (auto simp: fun_eq_iff add.commute)
qed

lemma nfree_run:
  assumes "pm_inv pm" "0 < n" "i + n \<le> unat (poolnumend pm)"
    and "\<forall>k. i \<le> k \<and> k < i + n \<longrightarrow> pagepool pm k \<noteq> 0"
  shows "nfree cpu pm (page_at pm i) n =
           Inr (pm\<lparr>pagepool := (\<lambda>k. if i \<le> k \<and> k < i + n then 0 else pagepool pm k)\<rparr>)"
proof -
  have lf: "lock_free (pmemlock pm)" and i: "i + n \<le> 200000" "i < unat (poolnumend pm)"
    using assms by (simp_all add: pm_inv_def)
  have al: "page_at pm i mod 4096 = 0"
    using page_at_aligned [OF assms(1) i(2)] by (simp add: word_unat_eq_iff unat_mod dvd_imp_mod_0)
  have "unat (of_nat (i + n) :: u64) = i + n" by (rule unat_of_nat_u64) (use i in simp)
  moreover have "(word_of_int (int i + int n) :: u64) = of_nat (i + n)" by simp
  ultimately have bnd: "word_of_int (int i + int n) \<le> poolnumend pm"
    using assms(3) unfolding word_le_nat_alt by simp
  show ?thesis
    unfolding nfree_def pool_free_def Let_def page_index [OF assms(1) i(2)]
    using lf al bnd pool_clear_run [OF i(1) assms(4)] by simp
qed

lemma nfree_after_nkalloc:
  assumes "pm_inv pm" "0 < n" "n \<le> unat (poolnumend pm)" "nkalloc cpu pm n = Inr (p, pm1)"
  shows "nfree cpu' pm1 p n = Inr pm"
proof -
  from pool_alloc_spec [OF assms(1-3), of cpu] assms(4)
  obtain i where i: "pool_alloc cpu pm n = Inr (page_at pm i, mark_pages pm i n)" "free_run pm i n"
    by (auto simp: nkalloc_def)
  then have p: "p = page_at pm1 i" "pm1 = mark_pages pm i n"
    using assms(4) by (auto simp: nkalloc_def split: if_splits)
  have z: "pagepool pm k = 0" if "i \<le> k" "k < i + n" for k
    using i(2) that unfolding free_run_def by (auto dest: spec [of _ "k - i"])
  have "nfree cpu' pm1 p n = Inr (pm1\<lparr>pagepool := (\<lambda>k. if i \<le> k \<and> k < i + n then 0 else pagepool pm1 k)\<rparr>)"
    unfolding p(1) using i(2) assms(1,2)
    by (intro nfree_run) (auto simp: p(2) free_run_def mark_pages_def [of pm i n])
  moreover have "(\<lambda>k. if i \<le> k \<and> k < i + n then 0 else pagepool pm1 k) = pagepool pm"
    by (auto simp: fun_eq_iff p(2) mark_pages_def z)
  ultimately show ?thesis by (simp add: p(2) mark_pages_def)
qed

text \<open>With the end of the kernel image anywhere in kernel space at least a page below the top of
  memory, initialisation leaves a well-formed pool with nothing allocated, whose size is the number of
  whole pages between the rounded-up end of the image and the top, at most \<open>PAGEPOOLSIZE\<close>.\<close>

theorem init_memory_manager_ready:
  assumes "KSPACE_MASK \<le> stop" and "stop \<le> P2K (phystop - 4096)"
  shows "pm_inv (init_memory_manager pmem_boot stop) \<and>
         pm_live (init_memory_manager pmem_boot stop) = {} \<and>
         unat (poolnumend (init_memory_manager pmem_boot stop)) =
           min PAGEPOOLSIZE ((unat (P2K phystop) - unat (round_up stop 4096)) div PAGE_SIZE)"
  by (rule init_memory_manager_spec [OF assms])

theorem init_memory_manager_ready_witness:
  "unat (poolnumend (init_memory_manager pmem_boot 0xffff0000000A1234)) = 200000"
  using init_memory_manager_ready [of "0xffff0000000A1234"]
  by (simp add: KSPACE_MASK_def P2K_def phystop_def round_up_def round_down_def)

text \<open>A pool after boot, used to evaluate the theorems.\<close>

definition pm_example :: PMemory where
  "pm_example = init_memory_manager pmem_boot 0xffff0000000A1000"

lemma pm_example_ok:
  "pm_inv pm_example" "pm_live pm_example = {}" "unat (poolnumend pm_example) = PAGEPOOLSIZE"
  using init_memory_manager_spec [of "0xffff0000000A1000"]
  by (simp_all add: pm_example_def KSPACE_MASK_def P2K_def phystop_def round_up_def round_down_def)

lemma pm_example_free: "i + n \<le> PAGEPOOLSIZE \<Longrightarrow> free_run pm_example i n"
  using pm_example_ok(3)
  by (simp add: free_run_def) (simp add: pm_example_def init_memory_manager_def pool_init_def pmem_boot_def Let_def)

lemma nkalloc_example:
  assumes "0 < n" "n \<le> PAGEPOOLSIZE"
  shows "nkalloc cpu pm_example n = Inr (page_at pm_example 0, mark_pages pm_example 0 n)"
proof -
  have n: "n \<le> unat (poolnumend pm_example)" using assms(2) pm_example_ok(3) by simp
  have f: "free_run pm_example 0 n" by (rule pm_example_free) (use assms(2) in simp)
  from pool_alloc_spec [OF pm_example_ok(1) assms(1) n, of cpu] f
  obtain i where i: "pool_alloc cpu pm_example n = Inr (page_at pm_example i, mark_pages pm_example i n)"
    "\<forall>k<i. \<not> free_run pm_example k n" by blast
  with f have "i = 0" by (cases i) auto
  with i(1) page_at_nonzero [OF pm_example_ok(1), of 0] n assms(1) show ?thesis
    by (simp add: nkalloc_def)
qed

lemma free_count_example: "n \<le> 5 \<Longrightarrow> 5 \<le> free_count (mark_pages pm_example 0 n)"
proof -
  assume n: "n \<le> 5"
  have "pagepool pm_example (0 + k) = 0" if "k < 10" for k
    using pm_example_free [of 0 10] that unfolding free_run_def by auto
  then have "{5..<10} \<subseteq> {i. i < unat (poolnumend (mark_pages pm_example 0 n)) \<and> pagepool (mark_pages pm_example 0 n) i = 0}"
    using n pm_example_ok(3) by (auto simp: mark_pages_def)
  from card_mono [OF _ this] show ?thesis by (simp add: free_count_def)
qed

lemma kalloc_example: "kalloc cpu pm_example = Inr (page_at pm_example 0, mark_pages pm_example 0 1)"
  using nkalloc_example [of 1 cpu] kalloc_eq_nkalloc [of cpu pm_example] by simp

text \<open>C17: \<open>nkalloc\<close> returns the lowest run of \<open>n\<close> free pages when there is one: its pages were not live, exactly
  they become live, and the pool stays well formed; when there is none it panics.\<close>

theorem nkalloc_first_fit:
  assumes "pm_inv pm" and "0 < n" and "n \<le> unat (poolnumend pm)"
  shows "if \<exists>i. free_run pm i n
         then \<exists>i pm'. nkalloc cpu pm n = Inr (page_at pm i, pm') \<and>
                free_run pm i n \<and> (\<forall>k<i. \<not> free_run pm k n) \<and> pm_inv pm' \<and>
                page_at pm ` {i..<i + n} \<inter> pm_live pm = {} \<and>
                pm_live pm' = pm_live pm \<union> page_at pm ` {i..<i + n}
         else nkalloc cpu pm n = Inl (Panic ''kmem: nkalloc fails.'')"
  by (rule nkalloc_spec [OF assms])

theorem nkalloc_first_fit_witness:
  "\<exists>pm'. nkalloc 0 pm_example 3 = Inr (page_at pm_example 0, pm') \<and>
     pm_live pm' = page_at pm_example ` {0..<3}"
proof -
  have ex: "\<exists>i. free_run pm_example i 3" using pm_example_free [of 0 3] by auto
  have n: "3 \<le> unat (poolnumend pm_example)" using pm_example_ok(3) by simp
  obtain i pm' where i: "nkalloc 0 pm_example 3 = Inr (page_at pm_example i, pm')" "\<forall>k<i. \<not> free_run pm_example k 3"
      "pm_live pm' = pm_live pm_example \<union> page_at pm_example ` {i..<i + 3}"
    using nkalloc_first_fit [OF pm_example_ok(1) _ n, of 0, unfolded if_P [OF ex]] by auto
  have "i = 0" using i(2) pm_example_free [of 0 3] by (cases i) auto
  with i(1,3) pm_example_ok(2) show ?thesis by auto
qed

text \<open>C29: freeing a run that \<open>nkalloc\<close> returned, from any CPU, restores the allocator state exactly; freeing
  a page that is not allocated panics and an unaligned address panics.\<close>

theorem nfree_undoes_nkalloc:
  assumes "pm_inv pm" and "0 < n" and "n \<le> unat (poolnumend pm)" and "nkalloc cpu pm n = Inr (p, pm1)"
  shows "nfree cpu' pm1 p n = Inr pm \<and>
         (\<forall>i < unat (poolnumend pm). page_at pm i \<notin> pm_live pm \<longrightarrow>
            kfree cpu' pm (page_at pm i) = Inl (Panic ''kmem: refree a free physical page.'')) \<and>
         (\<forall>q. q mod 4096 \<noteq> 0 \<longrightarrow> nfree cpu' pm q n = Inl (Panic ''kmem: page address not aligned.''))"
proof (intro conjI allI impI)
  show "nfree cpu' pm1 p n = Inr pm" by (rule nfree_after_nkalloc [OF assms])
  show "kfree cpu' pm (page_at pm i) = Inl (Panic ''kmem: refree a free physical page.'')"
    if "i < unat (poolnumend pm)" "page_at pm i \<notin> pm_live pm" for i
    using kfree_eq [OF assms(1) that(1)] that by (auto simp: pm_live_def)
  show "nfree cpu' pm q n = Inl (Panic ''kmem: page address not aligned.'')" if "q mod 4096 \<noteq> 0" for q
    using that by (simp add: nfree_def pool_free_def)
qed

theorem nfree_undoes_nkalloc_witness:
  "\<exists>p pm1. nkalloc 0 pm_example 2 = Inr (p, pm1) \<and> nfree 1 pm1 p 2 = Inr pm_example"
proof -
  have n: "2 \<le> unat (poolnumend pm_example)" using pm_example_ok(3) by simp
  have al: "nkalloc 0 pm_example 2 = Inr (page_at pm_example 0, mark_pages pm_example 0 2)"
    by (rule nkalloc_example) simp_all
  from nfree_undoes_nkalloc [OF pm_example_ok(1) _ n al, of 1] al show ?thesis by auto
qed

text \<open>A request for more pages than the pool has is not refused: \<open>poolnumend - numpages\<close> wraps around, and the
  search may hand out page marks past the end of the managed memory, whose page lies past the last
  managed page.\<close>

theorem pool_alloc_wraps:
  assumes "pm_inv pm" and "unat (poolnumend pm) < n" and "n \<le> PAGEPOOLSIZE"
    and "\<forall>k<n. pagepool pm k = 0"
  shows "\<exists>pm'. nkalloc cpu pm n = Inr (pagestart pm, pm') \<and> pagepool pm' (unat (poolnumend pm)) = 1 \<and>
           PAGE_SIZE * unat (poolnumend pm) < PAGE_SIZE * n"
proof -
  have lf: "lock_free (pmemlock pm)" and ps: "pagestart pm \<noteq> 0" using assms(1) by (auto simp: pm_inv_def)
  have "page_at pm 0 = pagestart pm" by (simp add: page_at_def)
  then have sc: "pool_scan pm 0 0 n = Inr (pagestart pm, n)"
    using pool_scan_spec [of 0 0 n pm] assms(2-4) by auto
  have "pool_search pm (poolnumend pm - of_nat n) n 0 = Inr (pagestart pm, 0)"
    using ps by (simp add: pool_search.simps [of pm _ n 0] sc)
  then have "pool_alloc cpu pm n = Inr (pagestart pm, mark_pages pm 0 n)"
    using lf ps by (simp add: pool_alloc_def mark_pages_def Let_def)
  then show ?thesis using ps assms(2) by (simp add: nkalloc_def mark_pages_def)
qed

theorem pool_alloc_wraps_witness:
  "\<exists>pm'. nkalloc 0 (pmem_boot\<lparr>poolnumend := 4, pagestart := 4096\<rparr>) 5 = Inr (4096, pm')"
  using pool_alloc_wraps [of "pmem_boot\<lparr>poolnumend := 4, pagestart := 4096\<rparr>" 5 0]
  by (auto simp: pm_inv_def pmem_boot_def lock_free_def)

end
