(* ===== verification/KVirtMem.thy ===== *)
theory KVirtMem
  imports KPhysMem
begin

text \<open>
  User page tables: \<open>src/core/virtual_memory.c\<close> and the translation macros of \<open>src/aarch64/mmu.h\<close>. Page
  tables live in a store of 64-bit entries indexed by the kernel address of the entry; table pages come
  from \<open>kalloc\<close>. The functions behind \<open>pgdir_init\<close>, \<open>pgdir_walk\<close>, \<open>vm_free\<close> and \<open>uvm_map\<close>, which only call
  through the table of function pointers \<open>vmem\<close>, are the \<open>my_\<close> ones.\<close>

type_synonym PTEntry = u64

definition PTE_VALID :: u64 where "PTE_VALID = 0x1"
definition PTE_TABLE :: u64 where "PTE_TABLE = 0x3"
definition PTE_BLOCK :: u64 where "PTE_BLOCK = 0x1"
definition PTE_PAGE :: u64 where "PTE_PAGE = 0x3"
definition AF_USED :: u64 where "AF_USED = push_bit 10 1"
definition SH_OUTER :: u64 where "SH_OUTER = push_bit 8 2"
definition PTE_NORMAL :: u64 where "PTE_NORMAL = (push_bit 2 1 OR AF_USED) OR SH_OUTER"
definition PTE_DEVICE :: u64 where "PTE_DEVICE = push_bit 2 0 OR AF_USED"
definition PTE_KERNEL :: u64 where "PTE_KERNEL = push_bit 6 0"
definition PTE_USER :: u64 where "PTE_USER = push_bit 6 1"
definition PTE_KERNEL_DATA :: u64 where "PTE_KERNEL_DATA = (PTE_KERNEL OR PTE_NORMAL) OR PTE_BLOCK"
definition PTE_KERNEL_DEVICE :: u64 where "PTE_KERNEL_DEVICE = (PTE_KERNEL OR PTE_DEVICE) OR PTE_BLOCK"
definition PTE_USER_DATA :: u64 where "PTE_USER_DATA = (PTE_USER OR PTE_NORMAL) OR PTE_PAGE"

definition PTE_ADDRESS :: "u64 \<Rightarrow> u64" where
  "PTE_ADDRESS pte = pte AND NOT 0xFFF"

definition PTE_FLAGS :: "u64 \<Rightarrow> u64" where
  "PTE_FLAGS pte = pte AND 0xFFF"

definition KSPACE :: "u64 \<Rightarrow> u64" where
  "KSPACE a = a OR KSPACE_MASK"

definition PSPACE :: "u64 \<Rightarrow> u64" where
  "PSPACE a = a AND NOT KSPACE_MASK"

definition PTX :: "nat \<Rightarrow> u64 \<Rightarrow> u64" where
  "PTX index va = drop_bit (9 * index + 12) va AND 0x1ff"

record vmstate =
  ptmem :: "addr \<Rightarrow> PTEntry"
  pmem :: PMemory
  ttbr0 :: u64

definition entry :: "addr \<Rightarrow> u64 \<Rightarrow> addr" where
  "entry pgdir i = pgdir + 8 * i"

definition uvm_switch :: "vmstate \<Rightarrow> addr \<Rightarrow> vmstate" where
  "uvm_switch st pgdir = st\<lparr>ttbr0 := K2P pgdir\<rparr>"

definition my_pgdir_init :: "nat \<Rightarrow> vmstate \<Rightarrow> (addr \<times> vmstate) res" where
  "my_pgdir_init cpu st =
     bind_res (kalloc cpu (pmem st)) (\<lambda>(pgdir, pm).
       Inr (pgdir, st\<lparr>pmem := pm, ptmem := (\<lambda>a. if a - pgdir < 4096 then 0 else ptmem st a)\<rparr>))"

text \<open>The loop of \<open>my_pgdir_walk\<close> at level \<open>index\<close>; the result \<open>NULL\<close> is address 0.\<close>

primrec walk_from :: "nat \<Rightarrow> bool \<Rightarrow> u64 \<Rightarrow> nat \<Rightarrow> vmstate \<Rightarrow> addr \<Rightarrow> (addr \<times> vmstate) res" where
  "walk_from cpu alloc vak 0 st pgdir = Inr (entry pgdir (PTX 0 vak), st)"
| "walk_from cpu alloc vak (Suc n) st pgdir =
     (let p = entry pgdir (PTX (Suc n) vak) in
      if ptmem st p AND PTE_VALID \<noteq> 0
      then walk_from cpu alloc vak n st (P2K (PTE_ADDRESS (ptmem st p)))
      else if \<not> alloc then Inr (0, st)
      else
        bind_res (kalloc cpu (pmem st)) (\<lambda>(pgdir', pm).
          if pgdir' = 0 then Inr (0, st\<lparr>pmem := pm\<rparr>)
          else walk_from cpu alloc vak n
                 (st\<lparr>pmem := pm, ptmem := (ptmem st)(p := K2P pgdir' OR PTE_TABLE)\<rparr>) pgdir'))"

definition my_pgdir_walk :: "nat \<Rightarrow> vmstate \<Rightarrow> addr \<Rightarrow> u64 \<Rightarrow> bool \<Rightarrow> (addr \<times> vmstate) res" where
  "my_pgdir_walk cpu st pgdir vak alloc = walk_from cpu alloc vak 3 st pgdir"

text \<open>The body of \<open>my_vm_free_helper\<close>: the entries \<open>x\<close>, \<open>x + 1\<close>, \<dots> of one table, \<open>r\<close> of them, with
  \<open>sub\<close> the recursive call on the table below (absent at level 0).\<close>

primrec vm_free_entries ::
  "nat \<Rightarrow> (vmstate \<Rightarrow> addr \<Rightarrow> vmstate res) option \<Rightarrow> vmstate \<Rightarrow> addr \<Rightarrow> nat \<Rightarrow> nat \<Rightarrow> vmstate res" where
  "vm_free_entries cpu sub st pgdir x 0 = Inr st"
| "vm_free_entries cpu sub st pgdir x (Suc r) =
     bind_res
       (let p = entry pgdir (of_nat x) in
        if ptmem st p AND PTE_VALID \<noteq> 0 then
          let q = P2K (PTE_ADDRESS (ptmem st p)) in
          case sub of
            None \<Rightarrow>
              let st1 = st\<lparr>ptmem := (ptmem st)(p := 0)\<rparr>
              in bind_res (kfree cpu (pmem st1) q) (\<lambda>pm. Inr (st1\<lparr>pmem := pm\<rparr>))
          | Some f \<Rightarrow> f st q
        else Inr st)
       (\<lambda>st'. vm_free_entries cpu sub st' pgdir (Suc x) r)"

primrec my_vm_free_helper :: "nat \<Rightarrow> nat \<Rightarrow> vmstate \<Rightarrow> addr \<Rightarrow> vmstate res" where
  "my_vm_free_helper cpu 0 st pgdir = vm_free_entries cpu None st pgdir 0 512"
| "my_vm_free_helper cpu (Suc index) st pgdir =
     vm_free_entries cpu (Some (my_vm_free_helper cpu index)) st pgdir 0 512"

definition my_vm_free :: "nat \<Rightarrow> vmstate \<Rightarrow> addr \<Rightarrow> vmstate res" where
  "my_vm_free cpu st pgdir = my_vm_free_helper cpu 3 st pgdir"

text \<open>The loop of \<open>my_uvm_map\<close>. It walks to \<open>va\<close> at every iteration, as the source does. The bound
  \<open>stop\<close> may be the last page of the address space, in which case the loop does not end: the value is
  then \<open>None\<close>.\<close>

partial_function (option) uvm_map_loop ::
  "nat \<Rightarrow> addr \<Rightarrow> u64 \<Rightarrow> u64 \<Rightarrow> u64 \<Rightarrow> u64 \<Rightarrow> vmstate \<Rightarrow> (int \<times> vmstate) res option" where
  "uvm_map_loop cpu pgdir va stop p pa st =
     (if p \<le> stop then
        (case my_pgdir_walk cpu st pgdir va True of
           Inl e \<Rightarrow> Some (Inl e)
         | Inr (pte, st1) \<Rightarrow>
             if pte = 0 then Some (Inr (-1, st1))
             else uvm_map_loop cpu pgdir va stop (p + 4096) (pa + 4096)
                    (st1\<lparr>ptmem := (ptmem st1)(pte := PTE_ADDRESS pa OR PTE_USER_DATA)\<rparr>))
      else Some (Inr (0, st)))"

definition my_uvm_map :: "nat \<Rightarrow> vmstate \<Rightarrow> addr \<Rightarrow> u64 \<Rightarrow> u64 \<Rightarrow> u64 \<Rightarrow> (int \<times> vmstate) res option" where
  "my_uvm_map cpu st pgdir va sz pa =
     (let start = round_down va 4096;
          stop = round_down (va + sz - 1) 4096
      in uvm_map_loop cpu pgdir va stop start pa st)"

text \<open>The abstract view: the leaf entry a lookup of \<open>va\<close> finds, if the lookup succeeds and the entry is
  valid.\<close>

definition uvm_lookup :: "vmstate \<Rightarrow> addr \<Rightarrow> u64 \<Rightarrow> PTEntry option" where
  "uvm_lookup st pgdir va =
     (case my_pgdir_walk 0 st pgdir va False of
        Inl _ \<Rightarrow> None
      | Inr (pte, _) \<Rightarrow>
          if pte = 0 \<or> ptmem st pte AND PTE_VALID = 0 then None else Some (ptmem st pte))"

definition vpn :: "u64 \<Rightarrow> u64" where
  "vpn va = take_bit 36 (drop_bit 12 va)"

text \<open>A forest of tables: \<open>T\<close> gives, for every table page, the indices that lead to it from the root.\<close>

definition pt_wf :: "vmstate \<Rightarrow> addr \<Rightarrow> (addr \<rightharpoonup> u64 list) \<Rightarrow> bool" where
  "pt_wf st root T \<longleftrightarrow> pm_inv (pmem st) \<and> T root = Some [] \<and>
     (\<forall>t xs. T t = Some xs \<longrightarrow> t \<in> pm_live (pmem st) \<and> length xs \<le> 3) \<and>
     (\<forall>t xs i. T t = Some xs \<longrightarrow> length xs < 3 \<longrightarrow> i < 512 \<longrightarrow> bit (ptmem st (entry t i)) 0 \<longrightarrow>
        T (P2K (PTE_ADDRESS (ptmem st (entry t i)))) = Some (xs @ [i]))"

definition free_clean :: "vmstate \<Rightarrow> bool" where
  "free_clean st \<longleftrightarrow> (\<forall>p \<in> pm_pages (pmem st) - pm_live (pmem st). \<forall>i < 512. ptmem st (entry p i) = 0)"

primrec vpath :: "u64 \<Rightarrow> nat \<Rightarrow> u64 list" where
  "vpath va 0 = []"
| "vpath va (Suc n) = PTX (Suc n) va # vpath va n"

lemma length_vpath [simp]: "length (vpath va n) = n"
  by (induction n) auto

lemma pte_valid_iff [simp]: "(w AND PTE_VALID = 0) \<longleftrightarrow> \<not> bit w 0"
  using and_1_neq_0_iff [of w] by (auto simp: PTE_VALID_def)

lemma bit_PTX: "bit (PTX k va) j \<longleftrightarrow> j < 9 \<and> bit va (9 * k + 12 + j)"
proof -
  have "(0x1ff :: u64) = mask 9" by (simp add: mask_eq_exp_minus_1)
  then have "PTX k va = take_bit 9 (drop_bit (9 * k + 12) va)"
    unfolding PTX_def take_bit_eq_mask by (rule arg_cong)
  then show ?thesis by (auto simp: bit_simps)
qed

lemma PTX_less [simp]: "PTX k va < 512"
proof -
  have "PTX k va = take_bit 9 (PTX k va)" by (rule bit_eqI) (auto simp: bit_simps bit_PTX)
  then have "unat (PTX k va) = take_bit 9 (unat (PTX k va))" by (metis unsigned_take_bit_eq)
  moreover have "take_bit 9 (unat (PTX k va)) < 2 ^ 9" by (rule take_bit_nat_less_exp)
  ultimately show ?thesis by (simp add: word_less_nat_alt)
qed

lemma PTX_eq_iff: "PTX k va = PTX k va' \<longleftrightarrow> (\<forall>j<9. bit va (9 * k + 12 + j) = bit va' (9 * k + 12 + j))"
proof
  assume "PTX k va = PTX k va'"
  then show "\<forall>j<9. bit va (9 * k + 12 + j) = bit va' (9 * k + 12 + j)" by (metis bit_PTX)
next
  assume "\<forall>j<9. bit va (9 * k + 12 + j) = bit va' (9 * k + 12 + j)"
  then show "PTX k va = PTX k va'" by (intro bit_eqI) (auto simp: bit_PTX)
qed

lemma vpn_eq_iff: "vpn va = vpn va' \<longleftrightarrow> PTX 0 va = PTX 0 va' \<and> vpath va 3 = vpath va' 3"
proof
  assume "vpn va = vpn va'"
  then have *: "bit va (12 + j) = bit va' (12 + j)" if "j < 36" for j
    using that by (auto simp: vpn_def bit_eq_iff bit_simps dest: spec [of _ j])
  have "PTX k va = PTX k va'" if "k \<le> 3" for k
    unfolding PTX_eq_iff
  proof (intro allI impI)
    fix j :: nat assume "j < 9"
    then show "bit va (9 * k + 12 + j) = bit va' (9 * k + 12 + j)"
      using * [of "9 * k + j"] that by (simp add: ac_simps)
  qed
  then show "PTX 0 va = PTX 0 va' \<and> vpath va 3 = vpath va' 3" by (simp add: numeral_3_eq_3)
next
  assume eq: "PTX 0 va = PTX 0 va' \<and> vpath va 3 = vpath va' 3"
  have "bit va (12 + j) = bit va' (12 + j)" if "j < 36" for j
  proof -
    have k: "j div 9 < 4" using that by simp
    have "PTX (j div 9) va = PTX (j div 9) va'"
    proof -
      consider "j div 9 = 0" | "j div 9 = 1" | "j div 9 = 2" | "j div 9 = 3" using k by linarith
      then show ?thesis using eq by cases (simp_all add: numeral_3_eq_3 numeral_2_eq_2)
    qed
    then have "bit va (9 * (j div 9) + 12 + j mod 9) = bit va' (9 * (j div 9) + 12 + j mod 9)"
      unfolding PTX_eq_iff by (rule spec [of _ "j mod 9", THEN mp]) simp
    moreover have "9 * (j div 9) + 12 + j mod 9 = 12 + j" by simp
    ultimately show ?thesis by metis
  qed
  then show "vpn va = vpn va'" by (auto simp: vpn_def bit_eq_iff bit_simps)
qed

lemma unat_entry:
  assumes "PAGE_SIZE dvd unat t" "i < 512"
  shows "unat (entry t i) = unat t + 8 * unat i"
proof -
  obtain k where k: "unat t = 4096 * k" using assms(1) by (auto elim: dvdE)
  have i: "unat i < 512" using assms(2) by (simp add: word_less_nat_alt)
  have "unat t + 8 * unat i < 2 ^ 64" using k i unat_u64_less [of t] by simp
  moreover have "entry t i = of_nat (unat t + 8 * unat i)" by (simp add: entry_def)
  ultimately show ?thesis by (simp only: unat_of_nat_u64)
qed

lemma entry_eq_iff:
  assumes "PAGE_SIZE dvd unat t" "PAGE_SIZE dvd unat t'" "i < 512" "j < 512"
  shows "entry t i = entry t' j \<longleftrightarrow> t = t' \<and> i = j"
proof
  assume eq: "entry t i = entry t' j"
  obtain k l where kl: "unat t = 4096 * k" "unat t' = 4096 * l" using assms(1,2) by (auto elim!: dvdE)
  have b: "8 * unat i < 4096" "8 * unat j < 4096" using assms(3,4) by (simp_all add: word_less_nat_alt)
  have e: "4096 * k + 8 * unat i = 4096 * l + 8 * unat j"
    using eq unat_entry [OF assms(1,3)] unat_entry [OF assms(2,4)] kl by simp
  have "k = l"
  proof (rule ccontr)
    assume "k \<noteq> l"
    then have "k + 1 \<le> l \<or> l + 1 \<le> k" by linarith
    then show False using e b by linarith
  qed
  with e kl show "t = t' \<and> i = j" by (simp add: word_unat_eq_iff)
qed simp

text \<open>How a walk may extend the tables: new tables are empty, new links lead to new tables, valid entries
  stay.\<close>

definition pt_ext :: "vmstate \<Rightarrow> (addr \<rightharpoonup> u64 list) \<Rightarrow> vmstate \<Rightarrow> (addr \<rightharpoonup> u64 list) \<Rightarrow> bool" where
  "pt_ext st T st' T' \<longleftrightarrow> T \<subseteq>\<^sub>m T' \<and> (\<forall>a. bit (ptmem st a) 0 \<longrightarrow> ptmem st' a = ptmem st a) \<and>
     (\<forall>t xs i. T' t = Some xs \<longrightarrow> i < 512 \<longrightarrow> bit (ptmem st' (entry t i)) 0 \<longrightarrow>
        (t \<in> dom T \<and> ptmem st' (entry t i) = ptmem st (entry t i)) \<or>
        (length xs < 3 \<and> P2K (PTE_ADDRESS (ptmem st' (entry t i))) \<in> dom T' - dom T))"

lemma pt_ext_refl: "pt_ext st T st T"
  by (auto simp: pt_ext_def)

lemma pt_extD:
  assumes "pt_ext st T st' T'" "T' t = Some xs" "i < 512" "bit (ptmem st' (entry t i)) 0"
  obtains "t \<in> dom T" "ptmem st' (entry t i) = ptmem st (entry t i)"
    | "length xs < 3" "P2K (PTE_ADDRESS (ptmem st' (entry t i))) \<in> dom T'"
      "P2K (PTE_ADDRESS (ptmem st' (entry t i))) \<notin> dom T"
  using assms unfolding pt_ext_def by blast

lemma pt_ext_trans:
  assumes 1: "pt_ext st T st1 T1" and 2: "pt_ext st1 T1 st2 T2"
  shows "pt_ext st T st2 T2"
proof -
  have sub: "T \<subseteq>\<^sub>m T1" "T1 \<subseteq>\<^sub>m T2" "T \<subseteq>\<^sub>m T2"
    using 1 2 by (auto simp: pt_ext_def intro: map_le_trans)
  have d: "dom T \<subseteq> dom T1" "dom T1 \<subseteq> dom T2" using sub by (auto dest: map_le_implies_dom_le)
  have keep: "ptmem st2 a = ptmem st a" if "bit (ptmem st a) 0" for a
    using 1 2 that by (simp add: pt_ext_def)
  have "(t \<in> dom T \<and> ptmem st2 (entry t i) = ptmem st (entry t i)) \<or>
        (length xs < 3 \<and> P2K (PTE_ADDRESS (ptmem st2 (entry t i))) \<in> dom T2 - dom T)"
    if t: "T2 t = Some xs" "i < 512" "bit (ptmem st2 (entry t i)) 0" for t xs i
  proof -
    from pt_extD [OF 2 t] show ?thesis
    proof cases
      case a: 1
      then have t1: "T1 t = Some xs" using sub(2) t(1) by (auto simp: map_le_def)
      have "bit (ptmem st1 (entry t i)) 0" using a t(3) by simp
      from pt_extD [OF 1 t1 t(2) this] show ?thesis using a(2) d by cases auto
    next
      case 2
      with d show ?thesis by blast
    qed
  qed
  with sub(3) keep show ?thesis unfolding pt_ext_def by blast
qed

lemma pt_wf_table:
  assumes "pt_wf st root T" "T t = Some xs"
  shows "t \<in> pm_live (pmem st)" "t \<noteq> 0" "PAGE_SIZE dvd unat t" "length xs \<le> 3"
  using assms kmem.live_page [of "pmem st" t] by (auto simp: pt_wf_def)

lemma pt_wf_child:
  assumes "pt_wf st root T" "T t = Some xs" "length xs < 3" "i < 512" "bit (ptmem st (entry t i)) 0"
  shows "T (P2K (PTE_ADDRESS (ptmem st (entry t i)))) = Some (xs @ [i])"
  using assms unfolding pt_wf_def by blast

lemma aligned_bits:
  assumes "PAGE_SIZE dvd unat c" "j < 12"
  shows "\<not> bit c j"
proof -
  have "take_bit 12 (unat c) = 0" using assms(1) by (simp add: take_bit_eq_mod dvd_imp_mod_0)
  then have "unat (take_bit 12 c) = 0" by (simp add: unsigned_take_bit_eq)
  then have "take_bit 12 c = 0" by (simp add: unat_eq_zero)
  then have "\<not> bit (take_bit 12 c) j" by simp
  with assms(2) show ?thesis by (simp add: bit_take_bit_iff)
qed

lemma table_entry_address:
  assumes "PAGE_SIZE dvd unat c"
  shows "P2K (PTE_ADDRESS (K2P c OR PTE_TABLE)) = c" "bit (K2P c OR PTE_TABLE) 0"
proof -
  have m: "(0xFFF :: u64) = mask 12" by (simp add: mask_eq_exp_minus_1)
  have "K2P c = c + 0x1000000000000" by (simp add: K2P_def KSPACE_MASK_def)
  then have "PAGE_SIZE dvd unat (K2P c)"
    using assms by (simp add: unat_word_ariths dvd_mod)
  then have zk: "\<not> bit (K2P c) j" if "j < 12" for j using that by (rule aligned_bits)
  have "PTE_TABLE = take_bit 12 PTE_TABLE" by (simp add: PTE_TABLE_def)
  then have t: "bit PTE_TABLE j \<Longrightarrow> j < 12" for j by (metis bit_take_bit_iff)
  have "PTE_ADDRESS (K2P c OR PTE_TABLE) = K2P c"
    unfolding PTE_ADDRESS_def m by (rule bit_eqI) (use zk t in \<open>auto simp: bit_simps\<close>)
  then show "P2K (PTE_ADDRESS (K2P c OR PTE_TABLE)) = c" by (simp add: P2K_def K2P_def)
  show "bit (K2P c OR PTE_TABLE) 0" by (simp add: bit_or_iff PTE_TABLE_def)
qed

text \<open>One new table: what a step of the walk does when it finds an invalid entry.\<close>

lemma free_clean_upd:
  assumes wf: "pt_wf st root T" and cl: "free_clean st" and t: "T t = Some xs" "i < 512"
    and pm: "ptmem st' = (ptmem st)(entry t i := e)" "pm_pages (pmem st') - pm_live (pmem st') \<subseteq> pm_pages (pmem st) - pm_live (pmem st)"
  shows "free_clean st'"
  unfolding free_clean_def
proof (intro ballI allI impI)
  fix u and j :: u64 assume u: "u \<in> pm_pages (pmem st') - pm_live (pmem st')" and j: "j < 512"
  then have u': "u \<in> pm_pages (pmem st) - pm_live (pmem st)" using pm(2) by blast
  have pinv: "pm_inv (pmem st)" using wf by (simp add: pt_wf_def)
  have a: "PAGE_SIZE dvd unat u" using u' page_at_aligned [OF pinv] by (auto simp: pm_pages_def)
  have al: "PAGE_SIZE dvd unat t" using pt_wf_table(3) [OF wf t(1)] by simp
  have "u \<noteq> t" using u' pt_wf_table(1) [OF wf t(1)] by auto
  then have "entry u j \<noteq> entry t i" using entry_eq_iff [OF a al j t(2)] by simp
  then show "ptmem st' (entry u j) = 0" using cl u' j by (simp add: free_clean_def pm(1))
qed

lemma new_table_step:
  assumes wf: "pt_wf st root T" and cl: "free_clean st" and t: "T t = Some xs" "length xs < 3" "i < 512"
    and inv: "\<not> bit (ptmem st (entry t i)) 0" and al: "kalloc cpu (pmem st) = Inr (c, pm)"
    and st': "st' = st\<lparr>pmem := pm, ptmem := (ptmem st)(entry t i := K2P c OR PTE_TABLE)\<rparr>"
    and T': "T' = T(c \<mapsto> xs @ [i])"
  shows "pt_wf st' root T'" "free_clean st'" "pt_ext st T st' T'" "c \<noteq> 0"
proof -
  have pinv: "pm_inv (pmem st)" using wf by (simp add: pt_wf_def)
  note ao = kmem.allocate_ok [OF pinv al] and af = kmem.allocate_fresh [OF pinv al]
  show "c \<noteq> 0" using af by simp
  have pg: "pm_pages pm = pm_pages (pmem st)" and cp: "c \<in> pm_pages (pmem st)"
    using kalloc_Inr [OF pinv al] by (auto simp: pm_pages_def)
  show "free_clean st'" by (rule free_clean_upd [OF wf cl t(1,3)]) (use ao pg in \<open>auto simp: st'\<close>)
  have cT: "c \<notin> dom T" using ao pt_wf_table(1) [OF wf] by blast
  have ct: "c \<noteq> t" using cT t(1) by auto
  have mem: "ptmem st' (entry u j) = (if u = t \<and> j = i then K2P c OR PTE_TABLE else ptmem st (entry u j))"
    if "PAGE_SIZE dvd unat u" "j < 512" for u j
    using entry_eq_iff [OF that(1) _ that(2) t(3)] pt_wf_table(3) [OF wf t(1)] by (auto simp: st')
  have old: "T u = Some ys \<Longrightarrow> PAGE_SIZE dvd unat u" for u ys using pt_wf_table(3) [OF wf] by auto
  have new: "\<not> bit (ptmem st' (entry c j)) 0" if "j < 512" for j
    using cl cp ao that mem [of c j] af ct by (simp add: free_clean_def)
  note te = table_entry_address [of c, OF af [THEN conjunct2]]
  show "pt_wf st' root T'"
    unfolding pt_wf_def
  proof (intro conjI allI impI)
    show "pm_inv (pmem st')" using ao by (simp add: st')
    show "T' root = Some []" using wf cT by (auto simp: T' pt_wf_def)
    show "u \<in> pm_live (pmem st')" "length ys \<le> 3" if "T' u = Some ys" for u ys
      using that ao pt_wf_table [OF wf] t(2) by (auto simp: T' st' split: if_splits)
    fix u ys and j :: u64
    assume u: "T' u = Some ys" "length ys < 3" "j < 512" "bit (ptmem st' (entry u j)) 0"
    then have uT: "T u = Some ys" using new by (auto simp: T' split: if_splits)
    show "T' (P2K (PTE_ADDRESS (ptmem st' (entry u j)))) = Some (ys @ [j])"
      using mem [OF old [OF uT] u(3)] te(1) uT t(1) pt_wf_child [OF wf uT u(2,3)] u(4) cT by (auto simp: T' split: if_splits)
  qed
  show "pt_ext st T st' T'"
    unfolding pt_ext_def
  proof (intro conjI allI impI)
    show "T \<subseteq>\<^sub>m T'" using cT by (auto simp: T' map_le_def)
    show "ptmem st' a = ptmem st a" if "bit (ptmem st a) 0" for a using that inv by (auto simp: st')
    fix u ys and j :: u64
    assume u: "T' u = Some ys" "j < 512" "bit (ptmem st' (entry u j)) 0"
    then have uT: "T u = Some ys" using new by (auto simp: T' split: if_splits)
    show "u \<in> dom T \<and> ptmem st' (entry u j) = ptmem st (entry u j) \<or>
       length ys < 3 \<and> P2K (PTE_ADDRESS (ptmem st' (entry u j))) \<in> dom T' - dom T"
      using mem [OF old [OF uT] u(2)] te(1) uT t(1,2) cT by (auto simp: T')
  qed
qed

lemma walk_alloc_wf:
  assumes "walk_from cpu True va n st t = Inr (pte, st')" "pt_wf st root T" "free_clean st"
    and "T t = Some xs" "length xs + n = 3"
  shows "\<exists>T' t'. pt_wf st' root T' \<and> free_clean st' \<and> pt_ext st T st' T' \<and>
     T' t' = Some (xs @ vpath va n) \<and> pte = entry t' (PTX 0 va) \<and>
     walk_from cpu' False va n st' t = Inr (pte, st')"
  using assms
proof (induction n arbitrary: st t T xs)
  case 0
  then show ?case by (auto intro!: exI [of _ T] exI [of _ t] pt_ext_refl)
next
  case (Suc n)
  let ?p = "entry t (PTX (Suc n) va)"
  have len: "length xs < 3" "length (xs @ [PTX (Suc n) va]) + n = 3" using Suc.prems(5) by auto
  show ?case
  proof (cases "bit (ptmem st ?p) 0")
    case True
    let ?c = "P2K (PTE_ADDRESS (ptmem st ?p))"
    have w: "walk_from cpu True va n st ?c = Inr (pte, st')" using Suc.prems(1) True by (simp add: Let_def)
    have c: "T ?c = Some (xs @ [PTX (Suc n) va])"
      using pt_wf_child [OF Suc.prems(2,4) len(1) PTX_less True] .
    from Suc.IH [OF w Suc.prems(2,3) c len(2)] obtain T' t' where
      r: "pt_wf st' root T'" "free_clean st'" "pt_ext st T st' T'" "T' t' = Some ((xs @ [PTX (Suc n) va]) @ vpath va n)"
        "pte = entry t' (PTX 0 va)" "walk_from cpu' False va n st' ?c = Inr (pte, st')" by blast
    have "ptmem st' ?p = ptmem st ?p" using r(3) True by (simp add: pt_ext_def)
    then have "walk_from cpu' False va (Suc n) st' t = Inr (pte, st')" using r(6) True by (simp add: Let_def)
    with r show ?thesis by auto
  next
    case False
    from Suc.prems(1) False obtain c pm where al: "kalloc cpu (pmem st) = Inr (c, pm)"
      by (auto simp: Let_def)
    define st1 where "st1 = st\<lparr>pmem := pm, ptmem := (ptmem st)(?p := K2P c OR PTE_TABLE)\<rparr>"
    define T1 where "T1 = T(c \<mapsto> xs @ [PTX (Suc n) va])"
    note step = new_table_step [OF Suc.prems(2,3,4) len(1) PTX_less False al st1_def T1_def]
    have w: "walk_from cpu True va n st1 c = Inr (pte, st')"
      using Suc.prems(1) False al step(4) by (simp add: Let_def st1_def)
    have c: "T1 c = Some (xs @ [PTX (Suc n) va])" by (simp add: T1_def)
    from Suc.IH [OF w step(1,2) c len(2)] obtain T' t' where
      r: "pt_wf st' root T'" "free_clean st'" "pt_ext st1 T1 st' T'" "T' t' = Some ((xs @ [PTX (Suc n) va]) @ vpath va n)"
        "pte = entry t' (PTX 0 va)" "walk_from cpu' False va n st' c = Inr (pte, st')" by blast
    have "PAGE_SIZE dvd unat c" using pt_wf_table(3) [OF step(1) c] .
    note te = table_entry_address [OF this]
    have "ptmem st' ?p = K2P c OR PTE_TABLE" using r(3) te(2) by (simp add: pt_ext_def st1_def)
    then have "walk_from cpu' False va (Suc n) st' t = Inr (pte, st')" using r(6) te by (simp add: Let_def)
    with r pt_ext_trans [OF step(3) r(3)] show ?thesis by auto
  qed
qed

lemma walk_alloc_error:
  assumes "walk_from cpu True va n st t = Inl e" "pt_wf st root T" "free_clean st"
    and "T t = Some xs" "length xs + n = 3"
  shows "e = Panic ''kmem: kalloc fails.''"
  using assms
proof (induction n arbitrary: st t T xs)
  case (Suc n)
  let ?p = "entry t (PTX (Suc n) va)"
  have len: "length xs < 3" "length (xs @ [PTX (Suc n) va]) + n = 3" using Suc.prems(5) by auto
  have pinv: "pm_inv (pmem st)" using Suc.prems(2) by (simp add: pt_wf_def)
  show ?case
  proof (cases "bit (ptmem st ?p) 0")
    case True
    have c: "T (P2K (PTE_ADDRESS (ptmem st ?p))) = Some (xs @ [PTX (Suc n) va])"
      using pt_wf_child [OF Suc.prems(2,4) len(1) PTX_less True] .
    show ?thesis by (rule Suc.IH [OF _ Suc.prems(2,3) c len(2)]) (use Suc.prems(1) True in \<open>simp add: Let_def\<close>)
  next
    case False
    show ?thesis
    proof (cases "kalloc cpu (pmem st)")
      case (Inl e')
      then show ?thesis using kalloc_Inl [OF pinv Inl] Suc.prems(1) False by (simp add: Let_def)
    next
      case (Inr cp)
      then obtain c pm where al: "kalloc cpu (pmem st) = Inr (c, pm)" by (cases cp) auto
      define st1 where "st1 = st\<lparr>pmem := pm, ptmem := (ptmem st)(?p := K2P c OR PTE_TABLE)\<rparr>"
      define T1 where "T1 = T(c \<mapsto> xs @ [PTX (Suc n) va])"
      note step = new_table_step [OF Suc.prems(2,3,4) len(1) PTX_less False al st1_def T1_def]
      have c: "T1 c = Some (xs @ [PTX (Suc n) va])" by (simp add: T1_def)
      show ?thesis
        by (rule Suc.IH [OF _ step(1,2) c len(2)]) (use Suc.prems(1) False al step(4) in \<open>simp add: Let_def st1_def\<close>)
    qed
  qed
qed simp

lemma walk_alloc_total:
  assumes "pt_wf st root T" "free_clean st" "T t = Some xs" "length xs + n = 3" "n \<le> free_count (pmem st)"
  shows "\<exists>pte st'. walk_from cpu True va n st t = Inr (pte, st')"
  using assms
proof (induction n arbitrary: st t T xs)
  case (Suc n)
  let ?p = "entry t (PTX (Suc n) va)"
  have len: "length xs < 3" "length (xs @ [PTX (Suc n) va]) + n = 3" using Suc.prems(4) by auto
  have pinv: "pm_inv (pmem st)" using Suc.prems(1) by (simp add: pt_wf_def)
  show ?case
  proof (cases "bit (ptmem st ?p) 0")
    case True
    have c: "T (P2K (PTE_ADDRESS (ptmem st ?p))) = Some (xs @ [PTX (Suc n) va])"
      using pt_wf_child [OF Suc.prems(1,3) len(1) PTX_less True] .
    from Suc.IH [OF Suc.prems(1,2) c len(2)] Suc.prems(5) True show ?thesis by (simp add: Let_def)
  next
    case False
    obtain c pm where al: "kalloc cpu (pmem st) = Inr (c, pm)" "n \<le> free_count pm"
      using kalloc_free_count [OF pinv, of cpu] Suc.prems(5) by fastforce
    define st1 where "st1 = st\<lparr>pmem := pm, ptmem := (ptmem st)(?p := K2P c OR PTE_TABLE)\<rparr>"
    define T1 where "T1 = T(c \<mapsto> xs @ [PTX (Suc n) va])"
    note step = new_table_step [OF Suc.prems(1,2,3) len(1) PTX_less False al(1) st1_def T1_def]
    have c: "T1 c = Some (xs @ [PTX (Suc n) va])" by (simp add: T1_def)
    have "n \<le> free_count (pmem st1)" using al(2) by (simp add: st1_def)
    from Suc.IH [OF step(1,2) c len(2) this] False al(1) step(4) show ?thesis by (simp add: Let_def st1_def)
  qed
qed simp

text \<open>Extending the tables changes no translation.\<close>

lemma walk_lookup_keep:
  assumes "pt_ext st T st' T'" "walk_from cpu False va n st t = Inr (pte, st)" "pte \<noteq> 0"
  shows "walk_from cpu' False va n st' t = Inr (pte, st')"
  using assms(2,3)
proof (induction n arbitrary: t)
  case (Suc n)
  let ?p = "entry t (PTX (Suc n) va)"
  have v: "bit (ptmem st ?p) 0" using Suc.prems by (auto simp: Let_def split: if_splits)
  then have "ptmem st' ?p = ptmem st ?p" using assms(1) by (simp add: pt_ext_def)
  with Suc v show ?case by (simp add: Let_def)
qed simp

lemma walk_lookup_old:
  assumes ext: "pt_ext st T st' T'" and wf: "pt_wf st' root T'"
    and "T' t = Some xs" "length xs + n = 3" "walk_from cpu False va n st' t = Inr (pte, st')" "pte \<noteq> 0"
    and "bit (ptmem st' pte) 0"
  shows "t \<in> dom T \<and> walk_from cpu' False va n st t = Inr (pte, st) \<and> ptmem st pte = ptmem st' pte"
  using assms(3-)
proof (induction n arbitrary: t xs)
  case 0
  then have "bit (ptmem st' (entry t (PTX 0 va))) 0" by simp
  from pt_extD [OF ext 0(1) PTX_less this] 0 show ?case by cases auto
next
  case (Suc n)
  let ?p = "entry t (PTX (Suc n) va)"
  have v: "bit (ptmem st' ?p) 0" using Suc.prems by (auto simp: Let_def split: if_splits)
  have len: "length xs < 3" "length (xs @ [PTX (Suc n) va]) + n = 3" using Suc.prems(2) by auto
  let ?c = "P2K (PTE_ADDRESS (ptmem st' ?p))"
  have c: "T' ?c = Some (xs @ [PTX (Suc n) va])" by (rule pt_wf_child [OF wf Suc.prems(1) len(1) PTX_less v])
  have w: "walk_from cpu False va n st' ?c = Inr (pte, st')" using Suc.prems(3) v by (simp add: Let_def)
  note IH = Suc.IH [OF c len(2) w Suc.prems(4,5)]
  from pt_extD [OF ext Suc.prems(1) PTX_less v] show ?case
  proof cases
    case 1
    with IH v show ?thesis by (simp add: Let_def)
  next
    case 2
    with IH show ?thesis by blast
  qed
qed

lemma walk_noalloc_result:
  assumes "pt_wf st root T" "T t = Some xs" "length xs + n = 3"
  shows "\<exists>pte. walk_from cpu False va n st t = Inr (pte, st) \<and>
     (pte = 0 \<or> (\<exists>t'. T t' = Some (xs @ vpath va n) \<and> pte = entry t' (PTX 0 va)))"
  using assms(2,3)
proof (induction n arbitrary: t xs)
  case (Suc n)
  let ?p = "entry t (PTX (Suc n) va)"
  have len: "length xs < 3" "length (xs @ [PTX (Suc n) va]) + n = 3" using Suc.prems(2) by auto
  show ?case
  proof (cases "bit (ptmem st ?p) 0")
    case True
    with Suc.IH [OF pt_wf_child [OF assms(1) Suc.prems(1) len(1) PTX_less True] len(2)] show ?thesis
      by (simp add: Let_def)
  qed (simp add: Let_def)
qed auto

lemma uvm_lookup_alt:
  assumes "pt_wf st root T"
  shows "uvm_lookup st root va = Some e \<longleftrightarrow>
     (\<exists>pte. walk_from cpu False va 3 st root = Inr (pte, st) \<and> pte \<noteq> 0 \<and> bit (ptmem st pte) 0 \<and> e = ptmem st pte)"
proof -
  have r: "T root = Some []" using assms by (simp add: pt_wf_def)
  have "walk_from 0 False va 3 st root = walk_from cpu False va 3 st root"
  proof -
    have "walk_from c False va n st t = walk_from 0 False va n st t" for c n t
      by (induction n arbitrary: t) (simp_all add: Let_def)
    then show ?thesis by metis
  qed
  with walk_noalloc_result [OF assms r, of 3 cpu va] show ?thesis
    by (auto simp: uvm_lookup_def my_pgdir_walk_def split: if_splits)
qed

lemma option_eqI: "(\<And>e. x = Some e \<longleftrightarrow> y = Some e) \<Longrightarrow> x = y"
  by (cases x; cases y) auto

lemma uvm_lookup_ext:
  assumes ext: "pt_ext st T st' T'" and wf: "pt_wf st root T" and wf': "pt_wf st' root T'"
  shows "uvm_lookup st' root va = uvm_lookup st root va"
proof (rule option_eqI)
  fix e
  have r: "T' root = Some []" using wf' by (simp add: pt_wf_def)
  show "uvm_lookup st' root va = Some e \<longleftrightarrow> uvm_lookup st root va = Some e"
  proof
    assume "uvm_lookup st' root va = Some e"
    then obtain pte where "walk_from 0 False va 3 st' root = Inr (pte, st')" "pte \<noteq> 0" "bit (ptmem st' pte) 0"
      "e = ptmem st' pte" unfolding uvm_lookup_alt [OF wf', where cpu = 0] by blast
    with walk_lookup_old [OF ext wf' r, of 3 0 va pte 0] show "uvm_lookup st root va = Some e"
      unfolding uvm_lookup_alt [OF wf, where cpu = 0] by auto
  next
    assume "uvm_lookup st root va = Some e"
    then obtain pte where p: "walk_from 0 False va 3 st root = Inr (pte, st)" "pte \<noteq> 0" "bit (ptmem st pte) 0"
      "e = ptmem st pte" unfolding uvm_lookup_alt [OF wf, where cpu = 0] by blast
    moreover have "ptmem st' pte = ptmem st pte" using ext p(3) by (simp add: pt_ext_def)
    ultimately show "uvm_lookup st' root va = Some e"
      using walk_lookup_keep [OF ext p(1,2), of 0] unfolding uvm_lookup_alt [OF wf', where cpu = 0] by auto
  qed
qed

text \<open>Writing a leaf entry changes exactly the translation of its page.\<close>

lemma write_leaf:
  assumes wf: "pt_wf st root T" and cl: "free_clean st" and t: "T t = Some (vpath va 3)"
    and reach: "walk_from 0 False va 3 st root = Inr (entry t (PTX 0 va), st)"
    and st': "st' = st\<lparr>ptmem := (ptmem st)(entry t (PTX 0 va) := e)\<rparr>" and e: "bit e 0"
  shows "pt_wf st' root T" "free_clean st'"
    "uvm_lookup st' root va' = (if vpn va' = vpn va then Some e else uvm_lookup st root va')"
    "walk_from 0 False va 3 st' root = Inr (entry t (PTX 0 va), st')"
proof -
  have al: "PAGE_SIZE dvd unat u" if "T u = Some ys" for u ys using that pt_wf_table(3) [OF wf] by auto
  have mem: "ptmem st' (entry u i) = ptmem st (entry u i)" if "T u = Some ys" "length ys < 3" "i < 512" for u ys i
    using entry_eq_iff [OF al [OF that(1)] al [OF t] that(3) PTX_less [of 0 va]] that t by (auto simp: st')
  show wf': "pt_wf st' root T"
    unfolding pt_wf_def using wf mem by (auto simp: pt_wf_def st')
  show "free_clean st'" by (rule free_clean_upd [OF wf cl t PTX_less]) (simp_all add: st')
  have walk: "walk_from 0 False w n st u = Inr (pte, st) \<Longrightarrow> walk_from 0 False w n st' u = Inr (pte, st')"
    if "T u = Some ys" "length ys + n = 3" for w n u ys pte
    using that
  proof (induction n arbitrary: u ys)
    case (Suc n)
    let ?p = "entry u (PTX (Suc n) w)"
    have len: "length ys < 3" "length (ys @ [PTX (Suc n) w]) + n = 3" using Suc.prems by auto
    show ?case
      using Suc.IH [OF _ pt_wf_child [OF wf Suc.prems(2) len(1) PTX_less] len(2)] Suc.prems(1)
        mem [OF Suc.prems(2) len(1) PTX_less, of "Suc n" w]
      by (auto simp: Let_def split: if_splits)
  qed simp
  have r: "T root = Some []" using wf by (simp add: pt_wf_def)
  show wr: "walk_from 0 False va 3 st' root = Inr (entry t (PTX 0 va), st')"
    by (rule walk [OF r _ reach]) simp
  obtain pte where pte: "walk_from 0 False va' 3 st root = Inr (pte, st)"
      "pte = 0 \<or> (\<exists>t'. T t' = Some (vpath va' 3) \<and> pte = entry t' (PTX 0 va'))"
    using walk_noalloc_result [OF wf r, of 3 0 va'] by auto
  have pte': "walk_from 0 False va' 3 st' root = Inr (pte, st')" by (rule walk [OF r _ pte(1)]) simp
  have nz: "entry t (PTX 0 va) \<noteq> 0"
    using unat_entry [OF al [OF t] PTX_less [of 0 va]] pt_wf_table(2) [OF wf t] by (auto simp: unat_eq_zero [symmetric])
  show "uvm_lookup st' root va' = (if vpn va' = vpn va then Some e else uvm_lookup st root va')"
  proof (cases "vpn va' = vpn va")
    case True
    then have eq: "vpath va' 3 = vpath va 3" "PTX 0 va' = PTX 0 va" by (auto simp: vpn_eq_iff)
    have "walk_from 0 False va' n st u = walk_from 0 False va n st u" if "vpath va' n = vpath va n" for n u
      using that by (induction n arbitrary: u) (simp_all add: Let_def eq)
    then have "walk_from 0 False va' 3 st root = Inr (entry t (PTX 0 va), st)" using reach eq by simp
    then have "pte = entry t (PTX 0 va)" using pte(1) by simp
    with True pte' nz e show ?thesis by (simp add: uvm_lookup_def my_pgdir_walk_def st')
  next
    case False
    have "pte \<noteq> entry t (PTX 0 va)"
    proof
      assume p: "pte = entry t (PTX 0 va)"
      then obtain t' where t': "T t' = Some (vpath va' 3)" "pte = entry t' (PTX 0 va')" using pte(2) nz by auto
      have "entry t' (PTX 0 va') = entry t (PTX 0 va)" using p t'(2) by simp
      then have "t' = t" "PTX 0 va' = PTX 0 va"
        unfolding entry_eq_iff [OF al [OF t'(1)] al [OF t] PTX_less [of 0 va'] PTX_less [of 0 va]] by blast+
      with t' t False show False by (simp add: vpn_eq_iff)
    qed
    then have "ptmem st' pte = ptmem st pte" by (simp add: st')
    with False pte' pte(1) show ?thesis by (simp add: uvm_lookup_def my_pgdir_walk_def)
  qed
qed

text \<open>The loop of \<open>my_uvm_map\<close>: \<open>k + 1\<close> iterations left, the entry of \<open>va\<close> is written each time.\<close>

lemma user_data_valid: "bit (PTE_ADDRESS pa OR PTE_USER_DATA) 0"
  by (simp add: PTE_USER_DATA_def PTE_PAGE_def bit_or_iff)

lemma uvm_map_step:
  assumes wf: "pt_wf st root T" and cl: "free_clean st" and w: "my_pgdir_walk cpu st root va True = Inr (pte, st1)"
    and st': "st' = st1\<lparr>ptmem := (ptmem st1)(pte := PTE_ADDRESS pa OR PTE_USER_DATA)\<rparr>"
  shows "\<exists>T'. pt_wf st' root T' \<and> free_clean st' \<and> pte \<noteq> 0 \<and>
     (\<forall>va'. uvm_lookup st' root va' =
        (if vpn va' = vpn va then Some (PTE_ADDRESS pa OR PTE_USER_DATA) else uvm_lookup st root va'))"
proof -
  have r: "T root = Some []" using wf by (simp add: pt_wf_def)
  from walk_alloc_wf [OF w [unfolded my_pgdir_walk_def] wf cl r, of 0] obtain T' t where
    1: "pt_wf st1 root T'" "free_clean st1" "pt_ext st T st1 T'" "T' t = Some (vpath va 3)"
      "pte = entry t (PTX 0 va)" "walk_from 0 False va 3 st1 root = Inr (pte, st1)"
    by auto
  note leaf = write_leaf [OF 1(1,2,4) 1(6) [unfolded 1(5)] st' [unfolded 1(5)] user_data_valid]
  have "pte \<noteq> 0"
    using unat_entry [OF pt_wf_table(3) [OF 1(1,4)] PTX_less [of 0 va]] pt_wf_table(2) [OF 1(1,4)]
    by (auto simp: unat_eq_zero [symmetric] 1(5))
  with leaf(1,2,3) uvm_lookup_ext [OF 1(3) wf 1(1)] show ?thesis by auto
qed

lemma walk_present:
  "walk_from cpu False va n st t = Inr (pte, st) \<Longrightarrow> pte \<noteq> 0 \<Longrightarrow> walk_from cpu' True va n st t = Inr (pte, st)"
  by (induction n arbitrary: t) (auto simp: Let_def split: if_splits)

lemma uvm_map_error:
  assumes "pt_wf st root T" "free_clean st" "my_pgdir_walk cpu st root va True = Inl e"
  shows "e = Panic ''kmem: kalloc fails.''" "free_count (pmem st) < 3" "uvm_lookup st root va = None"
proof -
  have r: "T root = Some []" using assms(1) by (simp add: pt_wf_def)
  show "e = Panic ''kmem: kalloc fails.''"
    using walk_alloc_error [of cpu va 3 st root e root T "[]"] assms r by (simp add: my_pgdir_walk_def)
  show "free_count (pmem st) < 3"
    using walk_alloc_total [OF assms(1,2) r, of 3 cpu va] assms(3) by (force simp: my_pgdir_walk_def)
  show "uvm_lookup st root va = None"
  proof (rule ccontr)
    assume "uvm_lookup st root va \<noteq> None"
    then obtain pte where "walk_from 0 False va 3 st root = Inr (pte, st)" "pte \<noteq> 0"
      unfolding not_None_eq uvm_lookup_alt [OF assms(1), where cpu = 0] by blast
    from walk_present [OF this, of cpu] assms(3) show False by (simp add: my_pgdir_walk_def)
  qed
qed

lemma uvm_map_loop_spec:
  assumes "pt_wf st root T" "free_clean st" "unat stop = unat p + 4096 * k" "unat stop + 4096 < 2 ^ 64"
  shows "(uvm_map_loop cpu root va stop p pa st = Some (Inl (Panic ''kmem: kalloc fails.'')) \<and>
      free_count (pmem st) < 3 \<and> uvm_lookup st root va = None) \<or>
     (\<exists>st' T'. uvm_map_loop cpu root va stop p pa st = Some (Inr (0, st')) \<and> pt_wf st' root T' \<and> free_clean st' \<and>
       (\<forall>va'. uvm_lookup st' root va' =
         (if vpn va' = vpn va then Some (PTE_ADDRESS (pa + of_nat (4096 * k)) OR PTE_USER_DATA) else uvm_lookup st root va')))"
  using assms
proof (induction k arbitrary: st T p pa)
  case 0
  show ?case
  proof (cases "my_pgdir_walk cpu st root va True")
    case (Inl e)
    with 0 uvm_map_error [OF 0(1,2) Inl] show ?thesis by (simp add: uvm_map_loop.simps [of _ _ _ _ p] word_le_nat_alt)
  next
    case (Inr ps)
    then obtain pte st1 where w: "my_pgdir_walk cpu st root va True = Inr (pte, st1)" by (cases ps) auto
    define st' where "st' = st1\<lparr>ptmem := (ptmem st1)(pte := PTE_ADDRESS pa OR PTE_USER_DATA)\<rparr>"
    from uvm_map_step [OF 0(1,2) w st'_def] obtain T' where T': "pt_wf st' root T'" "free_clean st'" "pte \<noteq> 0"
      "\<forall>va'. uvm_lookup st' root va' =
        (if vpn va' = vpn va then Some (PTE_ADDRESS pa OR PTE_USER_DATA) else uvm_lookup st root va')" by blast
    have "unat (p + 4096) = unat p + 4096" using 0(3,4) by (simp add: unat_word_ariths)
    then have "uvm_map_loop cpu root va stop (p + 4096) (pa + 4096) st' = Some (Inr (0, st'))"
      using 0(3) by (simp add: uvm_map_loop.simps [of _ _ _ _ "p + 4096"] word_le_nat_alt)
    then have "uvm_map_loop cpu root va stop p pa st = Some (Inr (0, st'))"
      using w T'(3) 0(3) by (simp add: uvm_map_loop.simps [of _ _ _ _ p] word_le_nat_alt st'_def)
    with T' show ?thesis by auto
  qed
next
  case (Suc k)
  show ?case
  proof (cases "my_pgdir_walk cpu st root va True")
    case (Inl e)
    with Suc.prems uvm_map_error [OF Suc.prems(1,2) Inl] show ?thesis by (simp add: uvm_map_loop.simps [of _ _ _ _ p] word_le_nat_alt)
  next
    case (Inr ps)
    then obtain pte st1 where w: "my_pgdir_walk cpu st root va True = Inr (pte, st1)" by (cases ps) auto
    define st' where "st' = st1\<lparr>ptmem := (ptmem st1)(pte := PTE_ADDRESS pa OR PTE_USER_DATA)\<rparr>"
    from uvm_map_step [OF Suc.prems(1,2) w st'_def] obtain T' where T': "pt_wf st' root T'" "free_clean st'" "pte \<noteq> 0"
      "\<forall>va'. uvm_lookup st' root va' =
        (if vpn va' = vpn va then Some (PTE_ADDRESS pa OR PTE_USER_DATA) else uvm_lookup st root va')" by blast
    have un: "unat (p + 4096) = unat p + 4096" using Suc.prems(3,4) by (simp add: unat_word_ariths)
    have step: "uvm_map_loop cpu root va stop p pa st = uvm_map_loop cpu root va stop (p + 4096) (pa + 4096) st'"
      using w T'(3) Suc.prems(3) by (simp add: uvm_map_loop.simps [of _ _ _ _ p] word_le_nat_alt st'_def)
    have st: "unat stop = unat (p + 4096) + 4096 * k" using un Suc.prems(3) by simp
    have pa: "pa + 4096 + of_nat (4096 * k) = pa + of_nat (4096 * Suc k)" by simp
    have "uvm_lookup st' root va \<noteq> None" using T'(4) by simp
    with Suc.IH [OF T'(1,2) st Suc.prems(4), of "pa + 4096", unfolded pa] T'(4) show ?thesis
      unfolding step by auto
  qed
qed

lemma pgdir_init_wf:
  assumes inv: "pm_inv (pmem st)" and cl: "free_clean st" and init: "my_pgdir_init cpu st = Inr (root, st')"
  shows "pt_wf st' root [root \<mapsto> []]" "free_clean st'" "uvm_lookup st' root va = None"
proof -
  from init obtain pm where al: "kalloc cpu (pmem st) = Inr (root, pm)"
    and st': "st' = st\<lparr>pmem := pm, ptmem := (\<lambda>a. if a - root < 4096 then 0 else ptmem st a)\<rparr>"
    by (auto simp: my_pgdir_init_def)
  note ao = kmem.allocate_ok [OF inv al] and af = kmem.allocate_fresh [OF inv al]
  have z: "ptmem st' (entry root i) = 0" if "i < 512" for i
  proof -
    have "unat (entry root i - root) = 8 * unat i"
      using that by (simp add: entry_def unat_word_ariths word_less_nat_alt)
    then show ?thesis using that by (simp add: st' word_less_nat_alt)
  qed
  show wf: "pt_wf st' root [root \<mapsto> []]"
    using ao z by (auto simp: pt_wf_def st' split: if_splits)
  have pg: "pm_pages pm = pm_pages (pmem st)"
    using kalloc_Inr [OF inv al] by (auto simp: pm_pages_def)
  show "free_clean st'"
    using cl ao pg by (auto simp: free_clean_def st')
  show "uvm_lookup st' root va = None"
    using z [of "PTX 3 va"] by (simp add: uvm_lookup_def my_pgdir_walk_def numeral_3_eq_3 Let_def)
qed

text \<open>C9: a walk that creates tables returns the address that every later walk without creation returns for
  the same virtual address, changes no translation, and keeps the tables well formed. The pages the
  allocator hands out must be zero, because the walk does not clear them.\<close>

theorem pgdir_walk_lookup:
  assumes "pt_wf st root T" and "free_clean st" and "my_pgdir_walk cpu st root va True = Inr (pte, st')"
  shows "\<exists>T'. pt_wf st' root T' \<and> free_clean st' \<and> T \<subseteq>\<^sub>m T' \<and> pte \<noteq> 0 \<and>
     my_pgdir_walk cpu' st' root va False = Inr (pte, st') \<and>
     (\<forall>va'. uvm_lookup st' root va' = uvm_lookup st root va')"
proof -
  have r: "T root = Some []" using assms(1) by (simp add: pt_wf_def)
  from walk_alloc_wf [OF assms(3) [unfolded my_pgdir_walk_def] assms(1,2) r, of cpu'] obtain T' t where
    1: "pt_wf st' root T'" "free_clean st'" "pt_ext st T st' T'" "T' t = Some (vpath va 3)"
      "pte = entry t (PTX 0 va)" "walk_from cpu' False va 3 st' root = Inr (pte, st')"
    by auto
  have "pte \<noteq> 0"
    using unat_entry [OF pt_wf_table(3) [OF 1(1,4)] PTX_less [of 0 va]] pt_wf_table(2) [OF 1(1,4)]
    by (auto simp: unat_eq_zero [symmetric] 1(5))
  with 1 uvm_lookup_ext [OF 1(3) assms(1) 1(1)] show ?thesis
    by (auto simp: my_pgdir_walk_def pt_ext_def)
qed

text \<open>C26: what \<open>my_uvm_map\<close> really does for a region of \<open>k + 1\<close> pages below the last page of the address
  space: it terminates, fails only when fewer than three pages are free, and otherwise returns 0 having
  mapped the one page of \<open>va\<close>, to the physical page \<open>pa + 4096 * k\<close>, leaving every other translation as
  it was. For a region within one page (\<open>k = 0\<close>) that is the mapping asked for; for a longer one the
  pages after the first are not mapped at all.\<close>

theorem uvm_map_effect:
  assumes "pt_wf st root T" and "free_clean st"
    and "unat (round_down (va + sz - 1) 4096) = unat (round_down va 4096) + 4096 * k"
    and "unat (round_down (va + sz - 1) 4096) + 4096 < 2 ^ 64"
  shows "(my_uvm_map cpu st root va sz pa = Some (Inl (Panic ''kmem: kalloc fails.'')) \<and> free_count (pmem st) < 3) \<or>
     (\<exists>st' T'. my_uvm_map cpu st root va sz pa = Some (Inr (0, st')) \<and> pt_wf st' root T' \<and> free_clean st' \<and>
       (\<forall>va'. uvm_lookup st' root va' =
         (if vpn va' = vpn va then Some (PTE_ADDRESS (pa + of_nat (4096 * k)) OR PTE_USER_DATA)
          else uvm_lookup st root va')))"
  using uvm_map_loop_spec [OF assms, of cpu va pa] by (auto simp: my_uvm_map_def Let_def)

text \<open>A machine after boot with zeroed memory and an empty page directory.\<close>

definition vm_example :: vmstate where
  "vm_example = \<lparr>ptmem = (\<lambda>_. 0), pmem = mark_pages pm_example 0 1, ttbr0 = 0\<rparr>"

lemma vm_example_ok: "pt_wf vm_example (page_at pm_example 0) [page_at pm_example 0 \<mapsto> []]" "free_clean vm_example"
proof -
  have "page_at pm_example 0 \<in> pm_live (mark_pages pm_example 0 1)"
    using pm_live_mark_pages [of 0 1 pm_example] pm_example_ok(3) by simp
  then show "pt_wf vm_example (page_at pm_example 0) [page_at pm_example 0 \<mapsto> []]"
    using pm_example_ok(1) by (simp add: pt_wf_def vm_example_def)
  show "free_clean vm_example" by (simp add: free_clean_def vm_example_def)
qed

theorem pgdir_walk_lookup_witness:
  "\<exists>pte st'. my_pgdir_walk 0 vm_example (page_at pm_example 0) 0x5000 True = Inr (pte, st') \<and>
     my_pgdir_walk 1 st' (page_at pm_example 0) 0x5000 False = Inr (pte, st') \<and> pte \<noteq> 0"
proof -
  have "3 \<le> free_count (pmem vm_example)" using free_count_example [of 1] by (simp add: vm_example_def)
  with walk_alloc_total [OF vm_example_ok, of "page_at pm_example 0" "[]" 3 0 "0x5000"] obtain pte st' where
    w: "my_pgdir_walk 0 vm_example (page_at pm_example 0) 0x5000 True = Inr (pte, st')"
    by (auto simp: my_pgdir_walk_def)
  from pgdir_walk_lookup [OF vm_example_ok w, of 1] w show ?thesis by blast
qed

theorem uvm_map_effect_witness:
  "\<exists>st'. my_uvm_map 0 vm_example (page_at pm_example 0) 0x5000 0x2000 0x80000 = Some (Inr (0, st')) \<and>
      uvm_lookup st' (page_at pm_example 0) 0x5000 = Some (PTE_ADDRESS 0x81000 OR PTE_USER_DATA) \<and>
      uvm_lookup st' (page_at pm_example 0) 0x6000 = uvm_lookup vm_example (page_at pm_example 0) 0x6000"
proof -
  have 1: "unat (round_down (0x5000 + 0x2000 - 1) 4096) = unat (round_down 0x5000 4096) + 4096 * 1"
    "unat (round_down (0x5000 + 0x2000 - 1) 4096) + 4096 < 2 ^ 64"
    by (simp_all add: round_down_def)
  have 2: "vpn 0x6000 \<noteq> vpn 0x5000" by (simp add: vpn_def)
  have 3: "\<not> free_count (pmem vm_example) < 3" using free_count_example [of 1] by (simp add: vm_example_def)
  show ?thesis using uvm_map_effect [OF vm_example_ok 1, of 0 "0x80000"] 2 3 by auto
qed

end
