(* ===== verification/KPageTable.thy ===== *)
theory KPageTable
  imports KVirtMem
begin

text \<open>
  The static kernel page table of \<open>src/aarch64/kernel_pt.c\<close>, entry by entry as the source lists it (in four
  parts, so that the parts can be evaluated separately), with the addresses of the three tables as
  parameters: the linker places them. \<open>kpt_translate\<close> is the translation the hardware performs for a
  4 KiB granule and 48-bit addresses (three of its four levels are used): a valid entry with bit 1 set
  is a table, one without is a block.\<close>

definition kernel_pt_level3_a :: "PTEntry list" where
  "kernel_pt_level3_a = [
    0x0 OR PTE_KERNEL_DATA, 0x200000 OR PTE_KERNEL_DATA, 0x400000 OR PTE_KERNEL_DATA,
    0x600000 OR PTE_KERNEL_DATA, 0x800000 OR PTE_KERNEL_DATA, 0xa00000 OR PTE_KERNEL_DATA,
    0xc00000 OR PTE_KERNEL_DATA, 0xe00000 OR PTE_KERNEL_DATA, 0x1000000 OR PTE_KERNEL_DATA,
    0x1200000 OR PTE_KERNEL_DATA, 0x1400000 OR PTE_KERNEL_DATA, 0x1600000 OR PTE_KERNEL_DATA,
    0x1800000 OR PTE_KERNEL_DATA, 0x1a00000 OR PTE_KERNEL_DATA, 0x1c00000 OR PTE_KERNEL_DATA,
    0x1e00000 OR PTE_KERNEL_DATA, 0x2000000 OR PTE_KERNEL_DATA, 0x2200000 OR PTE_KERNEL_DATA,
    0x2400000 OR PTE_KERNEL_DATA, 0x2600000 OR PTE_KERNEL_DATA, 0x2800000 OR PTE_KERNEL_DATA,
    0x2a00000 OR PTE_KERNEL_DATA, 0x2c00000 OR PTE_KERNEL_DATA, 0x2e00000 OR PTE_KERNEL_DATA,
    0x3000000 OR PTE_KERNEL_DATA, 0x3200000 OR PTE_KERNEL_DATA, 0x3400000 OR PTE_KERNEL_DATA,
    0x3600000 OR PTE_KERNEL_DATA, 0x3800000 OR PTE_KERNEL_DATA, 0x3a00000 OR PTE_KERNEL_DATA,
    0x3c00000 OR PTE_KERNEL_DATA, 0x3e00000 OR PTE_KERNEL_DATA, 0x4000000 OR PTE_KERNEL_DATA,
    0x4200000 OR PTE_KERNEL_DATA, 0x4400000 OR PTE_KERNEL_DATA, 0x4600000 OR PTE_KERNEL_DATA,
    0x4800000 OR PTE_KERNEL_DATA, 0x4a00000 OR PTE_KERNEL_DATA, 0x4c00000 OR PTE_KERNEL_DATA,
    0x4e00000 OR PTE_KERNEL_DATA, 0x5000000 OR PTE_KERNEL_DATA, 0x5200000 OR PTE_KERNEL_DATA,
    0x5400000 OR PTE_KERNEL_DATA, 0x5600000 OR PTE_KERNEL_DATA, 0x5800000 OR PTE_KERNEL_DATA,
    0x5a00000 OR PTE_KERNEL_DATA, 0x5c00000 OR PTE_KERNEL_DATA, 0x5e00000 OR PTE_KERNEL_DATA,
    0x6000000 OR PTE_KERNEL_DATA, 0x6200000 OR PTE_KERNEL_DATA, 0x6400000 OR PTE_KERNEL_DATA,
    0x6600000 OR PTE_KERNEL_DATA, 0x6800000 OR PTE_KERNEL_DATA, 0x6a00000 OR PTE_KERNEL_DATA,
    0x6c00000 OR PTE_KERNEL_DATA, 0x6e00000 OR PTE_KERNEL_DATA, 0x7000000 OR PTE_KERNEL_DATA,
    0x7200000 OR PTE_KERNEL_DATA, 0x7400000 OR PTE_KERNEL_DATA, 0x7600000 OR PTE_KERNEL_DATA,
    0x7800000 OR PTE_KERNEL_DATA, 0x7a00000 OR PTE_KERNEL_DATA, 0x7c00000 OR PTE_KERNEL_DATA,
    0x7e00000 OR PTE_KERNEL_DATA, 0x8000000 OR PTE_KERNEL_DATA, 0x8200000 OR PTE_KERNEL_DATA,
    0x8400000 OR PTE_KERNEL_DATA, 0x8600000 OR PTE_KERNEL_DATA, 0x8800000 OR PTE_KERNEL_DATA,
    0x8a00000 OR PTE_KERNEL_DATA, 0x8c00000 OR PTE_KERNEL_DATA, 0x8e00000 OR PTE_KERNEL_DATA,
    0x9000000 OR PTE_KERNEL_DATA, 0x9200000 OR PTE_KERNEL_DATA, 0x9400000 OR PTE_KERNEL_DATA,
    0x9600000 OR PTE_KERNEL_DATA, 0x9800000 OR PTE_KERNEL_DATA, 0x9a00000 OR PTE_KERNEL_DATA,
    0x9c00000 OR PTE_KERNEL_DATA, 0x9e00000 OR PTE_KERNEL_DATA, 0xa000000 OR PTE_KERNEL_DATA,
    0xa200000 OR PTE_KERNEL_DATA, 0xa400000 OR PTE_KERNEL_DATA, 0xa600000 OR PTE_KERNEL_DATA,
    0xa800000 OR PTE_KERNEL_DATA, 0xaa00000 OR PTE_KERNEL_DATA, 0xac00000 OR PTE_KERNEL_DATA,
    0xae00000 OR PTE_KERNEL_DATA, 0xb000000 OR PTE_KERNEL_DATA, 0xb200000 OR PTE_KERNEL_DATA,
    0xb400000 OR PTE_KERNEL_DATA, 0xb600000 OR PTE_KERNEL_DATA, 0xb800000 OR PTE_KERNEL_DATA,
    0xba00000 OR PTE_KERNEL_DATA, 0xbc00000 OR PTE_KERNEL_DATA, 0xbe00000 OR PTE_KERNEL_DATA,
    0xc000000 OR PTE_KERNEL_DATA, 0xc200000 OR PTE_KERNEL_DATA, 0xc400000 OR PTE_KERNEL_DATA,
    0xc600000 OR PTE_KERNEL_DATA, 0xc800000 OR PTE_KERNEL_DATA, 0xca00000 OR PTE_KERNEL_DATA,
    0xcc00000 OR PTE_KERNEL_DATA, 0xce00000 OR PTE_KERNEL_DATA, 0xd000000 OR PTE_KERNEL_DATA,
    0xd200000 OR PTE_KERNEL_DATA, 0xd400000 OR PTE_KERNEL_DATA, 0xd600000 OR PTE_KERNEL_DATA,
    0xd800000 OR PTE_KERNEL_DATA, 0xda00000 OR PTE_KERNEL_DATA, 0xdc00000 OR PTE_KERNEL_DATA,
    0xde00000 OR PTE_KERNEL_DATA, 0xe000000 OR PTE_KERNEL_DATA, 0xe200000 OR PTE_KERNEL_DATA,
    0xe400000 OR PTE_KERNEL_DATA, 0xe600000 OR PTE_KERNEL_DATA, 0xe800000 OR PTE_KERNEL_DATA,
    0xea00000 OR PTE_KERNEL_DATA, 0xec00000 OR PTE_KERNEL_DATA, 0xee00000 OR PTE_KERNEL_DATA,
    0xf000000 OR PTE_KERNEL_DATA, 0xf200000 OR PTE_KERNEL_DATA, 0xf400000 OR PTE_KERNEL_DATA,
    0xf600000 OR PTE_KERNEL_DATA, 0xf800000 OR PTE_KERNEL_DATA, 0xfa00000 OR PTE_KERNEL_DATA,
    0xfc00000 OR PTE_KERNEL_DATA, 0xfe00000 OR PTE_KERNEL_DATA]"

definition kernel_pt_level3_b :: "PTEntry list" where
  "kernel_pt_level3_b = [
    0x10000000 OR PTE_KERNEL_DATA, 0x10200000 OR PTE_KERNEL_DATA, 0x10400000 OR PTE_KERNEL_DATA,
    0x10600000 OR PTE_KERNEL_DATA, 0x10800000 OR PTE_KERNEL_DATA, 0x10a00000 OR PTE_KERNEL_DATA,
    0x10c00000 OR PTE_KERNEL_DATA, 0x10e00000 OR PTE_KERNEL_DATA, 0x11000000 OR PTE_KERNEL_DATA,
    0x11200000 OR PTE_KERNEL_DATA, 0x11400000 OR PTE_KERNEL_DATA, 0x11600000 OR PTE_KERNEL_DATA,
    0x11800000 OR PTE_KERNEL_DATA, 0x11a00000 OR PTE_KERNEL_DATA, 0x11c00000 OR PTE_KERNEL_DATA,
    0x11e00000 OR PTE_KERNEL_DATA, 0x12000000 OR PTE_KERNEL_DATA, 0x12200000 OR PTE_KERNEL_DATA,
    0x12400000 OR PTE_KERNEL_DATA, 0x12600000 OR PTE_KERNEL_DATA, 0x12800000 OR PTE_KERNEL_DATA,
    0x12a00000 OR PTE_KERNEL_DATA, 0x12c00000 OR PTE_KERNEL_DATA, 0x12e00000 OR PTE_KERNEL_DATA,
    0x13000000 OR PTE_KERNEL_DATA, 0x13200000 OR PTE_KERNEL_DATA, 0x13400000 OR PTE_KERNEL_DATA,
    0x13600000 OR PTE_KERNEL_DATA, 0x13800000 OR PTE_KERNEL_DATA, 0x13a00000 OR PTE_KERNEL_DATA,
    0x13c00000 OR PTE_KERNEL_DATA, 0x13e00000 OR PTE_KERNEL_DATA, 0x14000000 OR PTE_KERNEL_DATA,
    0x14200000 OR PTE_KERNEL_DATA, 0x14400000 OR PTE_KERNEL_DATA, 0x14600000 OR PTE_KERNEL_DATA,
    0x14800000 OR PTE_KERNEL_DATA, 0x14a00000 OR PTE_KERNEL_DATA, 0x14c00000 OR PTE_KERNEL_DATA,
    0x14e00000 OR PTE_KERNEL_DATA, 0x15000000 OR PTE_KERNEL_DATA, 0x15200000 OR PTE_KERNEL_DATA,
    0x15400000 OR PTE_KERNEL_DATA, 0x15600000 OR PTE_KERNEL_DATA, 0x15800000 OR PTE_KERNEL_DATA,
    0x15a00000 OR PTE_KERNEL_DATA, 0x15c00000 OR PTE_KERNEL_DATA, 0x15e00000 OR PTE_KERNEL_DATA,
    0x16000000 OR PTE_KERNEL_DATA, 0x16200000 OR PTE_KERNEL_DATA, 0x16400000 OR PTE_KERNEL_DATA,
    0x16600000 OR PTE_KERNEL_DATA, 0x16800000 OR PTE_KERNEL_DATA, 0x16a00000 OR PTE_KERNEL_DATA,
    0x16c00000 OR PTE_KERNEL_DATA, 0x16e00000 OR PTE_KERNEL_DATA, 0x17000000 OR PTE_KERNEL_DATA,
    0x17200000 OR PTE_KERNEL_DATA, 0x17400000 OR PTE_KERNEL_DATA, 0x17600000 OR PTE_KERNEL_DATA,
    0x17800000 OR PTE_KERNEL_DATA, 0x17a00000 OR PTE_KERNEL_DATA, 0x17c00000 OR PTE_KERNEL_DATA,
    0x17e00000 OR PTE_KERNEL_DATA, 0x18000000 OR PTE_KERNEL_DATA, 0x18200000 OR PTE_KERNEL_DATA,
    0x18400000 OR PTE_KERNEL_DATA, 0x18600000 OR PTE_KERNEL_DATA, 0x18800000 OR PTE_KERNEL_DATA,
    0x18a00000 OR PTE_KERNEL_DATA, 0x18c00000 OR PTE_KERNEL_DATA, 0x18e00000 OR PTE_KERNEL_DATA,
    0x19000000 OR PTE_KERNEL_DATA, 0x19200000 OR PTE_KERNEL_DATA, 0x19400000 OR PTE_KERNEL_DATA,
    0x19600000 OR PTE_KERNEL_DATA, 0x19800000 OR PTE_KERNEL_DATA, 0x19a00000 OR PTE_KERNEL_DATA,
    0x19c00000 OR PTE_KERNEL_DATA, 0x19e00000 OR PTE_KERNEL_DATA, 0x1a000000 OR PTE_KERNEL_DATA,
    0x1a200000 OR PTE_KERNEL_DATA, 0x1a400000 OR PTE_KERNEL_DATA, 0x1a600000 OR PTE_KERNEL_DATA,
    0x1a800000 OR PTE_KERNEL_DATA, 0x1aa00000 OR PTE_KERNEL_DATA, 0x1ac00000 OR PTE_KERNEL_DATA,
    0x1ae00000 OR PTE_KERNEL_DATA, 0x1b000000 OR PTE_KERNEL_DATA, 0x1b200000 OR PTE_KERNEL_DATA,
    0x1b400000 OR PTE_KERNEL_DATA, 0x1b600000 OR PTE_KERNEL_DATA, 0x1b800000 OR PTE_KERNEL_DATA,
    0x1ba00000 OR PTE_KERNEL_DATA, 0x1bc00000 OR PTE_KERNEL_DATA, 0x1be00000 OR PTE_KERNEL_DATA,
    0x1c000000 OR PTE_KERNEL_DATA, 0x1c200000 OR PTE_KERNEL_DATA, 0x1c400000 OR PTE_KERNEL_DATA,
    0x1c600000 OR PTE_KERNEL_DATA, 0x1c800000 OR PTE_KERNEL_DATA, 0x1ca00000 OR PTE_KERNEL_DATA,
    0x1cc00000 OR PTE_KERNEL_DATA, 0x1ce00000 OR PTE_KERNEL_DATA, 0x1d000000 OR PTE_KERNEL_DATA,
    0x1d200000 OR PTE_KERNEL_DATA, 0x1d400000 OR PTE_KERNEL_DATA, 0x1d600000 OR PTE_KERNEL_DATA,
    0x1d800000 OR PTE_KERNEL_DATA, 0x1da00000 OR PTE_KERNEL_DATA, 0x1dc00000 OR PTE_KERNEL_DATA,
    0x1de00000 OR PTE_KERNEL_DATA, 0x1e000000 OR PTE_KERNEL_DATA, 0x1e200000 OR PTE_KERNEL_DATA,
    0x1e400000 OR PTE_KERNEL_DATA, 0x1e600000 OR PTE_KERNEL_DATA, 0x1e800000 OR PTE_KERNEL_DATA,
    0x1ea00000 OR PTE_KERNEL_DATA, 0x1ec00000 OR PTE_KERNEL_DATA, 0x1ee00000 OR PTE_KERNEL_DATA,
    0x1f000000 OR PTE_KERNEL_DATA, 0x1f200000 OR PTE_KERNEL_DATA, 0x1f400000 OR PTE_KERNEL_DATA,
    0x1f600000 OR PTE_KERNEL_DATA, 0x1f800000 OR PTE_KERNEL_DATA, 0x1fa00000 OR PTE_KERNEL_DATA,
    0x1fc00000 OR PTE_KERNEL_DATA, 0x1fe00000 OR PTE_KERNEL_DATA]"

definition kernel_pt_level3_c :: "PTEntry list" where
  "kernel_pt_level3_c = [
    0x20000000 OR PTE_KERNEL_DATA, 0x20200000 OR PTE_KERNEL_DATA, 0x20400000 OR PTE_KERNEL_DATA,
    0x20600000 OR PTE_KERNEL_DATA, 0x20800000 OR PTE_KERNEL_DATA, 0x20a00000 OR PTE_KERNEL_DATA,
    0x20c00000 OR PTE_KERNEL_DATA, 0x20e00000 OR PTE_KERNEL_DATA, 0x21000000 OR PTE_KERNEL_DATA,
    0x21200000 OR PTE_KERNEL_DATA, 0x21400000 OR PTE_KERNEL_DATA, 0x21600000 OR PTE_KERNEL_DATA,
    0x21800000 OR PTE_KERNEL_DATA, 0x21a00000 OR PTE_KERNEL_DATA, 0x21c00000 OR PTE_KERNEL_DATA,
    0x21e00000 OR PTE_KERNEL_DATA, 0x22000000 OR PTE_KERNEL_DATA, 0x22200000 OR PTE_KERNEL_DATA,
    0x22400000 OR PTE_KERNEL_DATA, 0x22600000 OR PTE_KERNEL_DATA, 0x22800000 OR PTE_KERNEL_DATA,
    0x22a00000 OR PTE_KERNEL_DATA, 0x22c00000 OR PTE_KERNEL_DATA, 0x22e00000 OR PTE_KERNEL_DATA,
    0x23000000 OR PTE_KERNEL_DATA, 0x23200000 OR PTE_KERNEL_DATA, 0x23400000 OR PTE_KERNEL_DATA,
    0x23600000 OR PTE_KERNEL_DATA, 0x23800000 OR PTE_KERNEL_DATA, 0x23a00000 OR PTE_KERNEL_DATA,
    0x23c00000 OR PTE_KERNEL_DATA, 0x23e00000 OR PTE_KERNEL_DATA, 0x24000000 OR PTE_KERNEL_DATA,
    0x24200000 OR PTE_KERNEL_DATA, 0x24400000 OR PTE_KERNEL_DATA, 0x24600000 OR PTE_KERNEL_DATA,
    0x24800000 OR PTE_KERNEL_DATA, 0x24a00000 OR PTE_KERNEL_DATA, 0x24c00000 OR PTE_KERNEL_DATA,
    0x24e00000 OR PTE_KERNEL_DATA, 0x25000000 OR PTE_KERNEL_DATA, 0x25200000 OR PTE_KERNEL_DATA,
    0x25400000 OR PTE_KERNEL_DATA, 0x25600000 OR PTE_KERNEL_DATA, 0x25800000 OR PTE_KERNEL_DATA,
    0x25a00000 OR PTE_KERNEL_DATA, 0x25c00000 OR PTE_KERNEL_DATA, 0x25e00000 OR PTE_KERNEL_DATA,
    0x26000000 OR PTE_KERNEL_DATA, 0x26200000 OR PTE_KERNEL_DATA, 0x26400000 OR PTE_KERNEL_DATA,
    0x26600000 OR PTE_KERNEL_DATA, 0x26800000 OR PTE_KERNEL_DATA, 0x26a00000 OR PTE_KERNEL_DATA,
    0x26c00000 OR PTE_KERNEL_DATA, 0x26e00000 OR PTE_KERNEL_DATA, 0x27000000 OR PTE_KERNEL_DATA,
    0x27200000 OR PTE_KERNEL_DATA, 0x27400000 OR PTE_KERNEL_DATA, 0x27600000 OR PTE_KERNEL_DATA,
    0x27800000 OR PTE_KERNEL_DATA, 0x27a00000 OR PTE_KERNEL_DATA, 0x27c00000 OR PTE_KERNEL_DATA,
    0x27e00000 OR PTE_KERNEL_DATA, 0x28000000 OR PTE_KERNEL_DATA, 0x28200000 OR PTE_KERNEL_DATA,
    0x28400000 OR PTE_KERNEL_DATA, 0x28600000 OR PTE_KERNEL_DATA, 0x28800000 OR PTE_KERNEL_DATA,
    0x28a00000 OR PTE_KERNEL_DATA, 0x28c00000 OR PTE_KERNEL_DATA, 0x28e00000 OR PTE_KERNEL_DATA,
    0x29000000 OR PTE_KERNEL_DATA, 0x29200000 OR PTE_KERNEL_DATA, 0x29400000 OR PTE_KERNEL_DATA,
    0x29600000 OR PTE_KERNEL_DATA, 0x29800000 OR PTE_KERNEL_DATA, 0x29a00000 OR PTE_KERNEL_DATA,
    0x29c00000 OR PTE_KERNEL_DATA, 0x29e00000 OR PTE_KERNEL_DATA, 0x2a000000 OR PTE_KERNEL_DATA,
    0x2a200000 OR PTE_KERNEL_DATA, 0x2a400000 OR PTE_KERNEL_DATA, 0x2a600000 OR PTE_KERNEL_DATA,
    0x2a800000 OR PTE_KERNEL_DATA, 0x2aa00000 OR PTE_KERNEL_DATA, 0x2ac00000 OR PTE_KERNEL_DATA,
    0x2ae00000 OR PTE_KERNEL_DATA, 0x2b000000 OR PTE_KERNEL_DATA, 0x2b200000 OR PTE_KERNEL_DATA,
    0x2b400000 OR PTE_KERNEL_DATA, 0x2b600000 OR PTE_KERNEL_DATA, 0x2b800000 OR PTE_KERNEL_DATA,
    0x2ba00000 OR PTE_KERNEL_DATA, 0x2bc00000 OR PTE_KERNEL_DATA, 0x2be00000 OR PTE_KERNEL_DATA,
    0x2c000000 OR PTE_KERNEL_DATA, 0x2c200000 OR PTE_KERNEL_DATA, 0x2c400000 OR PTE_KERNEL_DATA,
    0x2c600000 OR PTE_KERNEL_DATA, 0x2c800000 OR PTE_KERNEL_DATA, 0x2ca00000 OR PTE_KERNEL_DATA,
    0x2cc00000 OR PTE_KERNEL_DATA, 0x2ce00000 OR PTE_KERNEL_DATA, 0x2d000000 OR PTE_KERNEL_DATA,
    0x2d200000 OR PTE_KERNEL_DATA, 0x2d400000 OR PTE_KERNEL_DATA, 0x2d600000 OR PTE_KERNEL_DATA,
    0x2d800000 OR PTE_KERNEL_DATA, 0x2da00000 OR PTE_KERNEL_DATA, 0x2dc00000 OR PTE_KERNEL_DATA,
    0x2de00000 OR PTE_KERNEL_DATA, 0x2e000000 OR PTE_KERNEL_DATA, 0x2e200000 OR PTE_KERNEL_DATA,
    0x2e400000 OR PTE_KERNEL_DATA, 0x2e600000 OR PTE_KERNEL_DATA, 0x2e800000 OR PTE_KERNEL_DATA,
    0x2ea00000 OR PTE_KERNEL_DATA, 0x2ec00000 OR PTE_KERNEL_DATA, 0x2ee00000 OR PTE_KERNEL_DATA,
    0x2f000000 OR PTE_KERNEL_DATA, 0x2f200000 OR PTE_KERNEL_DATA, 0x2f400000 OR PTE_KERNEL_DATA,
    0x2f600000 OR PTE_KERNEL_DATA, 0x2f800000 OR PTE_KERNEL_DATA, 0x2fa00000 OR PTE_KERNEL_DATA,
    0x2fc00000 OR PTE_KERNEL_DATA, 0x2fe00000 OR PTE_KERNEL_DATA]"

definition kernel_pt_level3_d :: "PTEntry list" where
  "kernel_pt_level3_d = [
    0x30000000 OR PTE_KERNEL_DATA, 0x30200000 OR PTE_KERNEL_DATA, 0x30400000 OR PTE_KERNEL_DATA,
    0x30600000 OR PTE_KERNEL_DATA, 0x30800000 OR PTE_KERNEL_DATA, 0x30a00000 OR PTE_KERNEL_DATA,
    0x30c00000 OR PTE_KERNEL_DATA, 0x30e00000 OR PTE_KERNEL_DATA, 0x31000000 OR PTE_KERNEL_DATA,
    0x31200000 OR PTE_KERNEL_DATA, 0x31400000 OR PTE_KERNEL_DATA, 0x31600000 OR PTE_KERNEL_DATA,
    0x31800000 OR PTE_KERNEL_DATA, 0x31a00000 OR PTE_KERNEL_DATA, 0x31c00000 OR PTE_KERNEL_DATA,
    0x31e00000 OR PTE_KERNEL_DATA, 0x32000000 OR PTE_KERNEL_DATA, 0x32200000 OR PTE_KERNEL_DATA,
    0x32400000 OR PTE_KERNEL_DATA, 0x32600000 OR PTE_KERNEL_DATA, 0x32800000 OR PTE_KERNEL_DATA,
    0x32a00000 OR PTE_KERNEL_DATA, 0x32c00000 OR PTE_KERNEL_DATA, 0x32e00000 OR PTE_KERNEL_DATA,
    0x33000000 OR PTE_KERNEL_DATA, 0x33200000 OR PTE_KERNEL_DATA, 0x33400000 OR PTE_KERNEL_DATA,
    0x33600000 OR PTE_KERNEL_DATA, 0x33800000 OR PTE_KERNEL_DATA, 0x33a00000 OR PTE_KERNEL_DATA,
    0x33c00000 OR PTE_KERNEL_DATA, 0x33e00000 OR PTE_KERNEL_DATA, 0x34000000 OR PTE_KERNEL_DATA,
    0x34200000 OR PTE_KERNEL_DATA, 0x34400000 OR PTE_KERNEL_DATA, 0x34600000 OR PTE_KERNEL_DATA,
    0x34800000 OR PTE_KERNEL_DATA, 0x34a00000 OR PTE_KERNEL_DATA, 0x34c00000 OR PTE_KERNEL_DATA,
    0x34e00000 OR PTE_KERNEL_DATA, 0x35000000 OR PTE_KERNEL_DATA, 0x35200000 OR PTE_KERNEL_DATA,
    0x35400000 OR PTE_KERNEL_DATA, 0x35600000 OR PTE_KERNEL_DATA, 0x35800000 OR PTE_KERNEL_DATA,
    0x35a00000 OR PTE_KERNEL_DATA, 0x35c00000 OR PTE_KERNEL_DATA, 0x35e00000 OR PTE_KERNEL_DATA,
    0x36000000 OR PTE_KERNEL_DATA, 0x36200000 OR PTE_KERNEL_DATA, 0x36400000 OR PTE_KERNEL_DATA,
    0x36600000 OR PTE_KERNEL_DATA, 0x36800000 OR PTE_KERNEL_DATA, 0x36a00000 OR PTE_KERNEL_DATA,
    0x36c00000 OR PTE_KERNEL_DATA, 0x36e00000 OR PTE_KERNEL_DATA, 0x37000000 OR PTE_KERNEL_DATA,
    0x37200000 OR PTE_KERNEL_DATA, 0x37400000 OR PTE_KERNEL_DATA, 0x37600000 OR PTE_KERNEL_DATA,
    0x37800000 OR PTE_KERNEL_DATA, 0x37a00000 OR PTE_KERNEL_DATA, 0x37c00000 OR PTE_KERNEL_DATA,
    0x37e00000 OR PTE_KERNEL_DATA, 0x38000000 OR PTE_KERNEL_DATA, 0x38200000 OR PTE_KERNEL_DATA,
    0x38400000 OR PTE_KERNEL_DATA, 0x38600000 OR PTE_KERNEL_DATA, 0x38800000 OR PTE_KERNEL_DATA,
    0x38a00000 OR PTE_KERNEL_DATA, 0x38c00000 OR PTE_KERNEL_DATA, 0x38e00000 OR PTE_KERNEL_DATA,
    0x39000000 OR PTE_KERNEL_DATA, 0x39200000 OR PTE_KERNEL_DATA, 0x39400000 OR PTE_KERNEL_DATA,
    0x39600000 OR PTE_KERNEL_DATA, 0x39800000 OR PTE_KERNEL_DATA, 0x39a00000 OR PTE_KERNEL_DATA,
    0x39c00000 OR PTE_KERNEL_DATA, 0x39e00000 OR PTE_KERNEL_DATA, 0x3a000000 OR PTE_KERNEL_DATA,
    0x3a200000 OR PTE_KERNEL_DATA, 0x3a400000 OR PTE_KERNEL_DATA, 0x3a600000 OR PTE_KERNEL_DATA,
    0x3a800000 OR PTE_KERNEL_DATA, 0x3aa00000 OR PTE_KERNEL_DATA, 0x3ac00000 OR PTE_KERNEL_DATA,
    0x3ae00000 OR PTE_KERNEL_DATA, 0x3b000000 OR PTE_KERNEL_DATA, 0x3b200000 OR PTE_KERNEL_DATA,
    0x3b400000 OR PTE_KERNEL_DATA, 0x3b600000 OR PTE_KERNEL_DATA, 0x3b800000 OR PTE_KERNEL_DATA,
    0x3ba00000 OR PTE_KERNEL_DATA, 0x3bc00000 OR PTE_KERNEL_DATA, 0x3be00000 OR PTE_KERNEL_DATA,
    0x3c000000 OR PTE_KERNEL_DATA, 0x3c200000 OR PTE_KERNEL_DATA, 0x3c400000 OR PTE_KERNEL_DATA,
    0x3c600000 OR PTE_KERNEL_DATA, 0x3c800000 OR PTE_KERNEL_DATA, 0x3ca00000 OR PTE_KERNEL_DATA,
    0x3cc00000 OR PTE_KERNEL_DATA, 0x3ce00000 OR PTE_KERNEL_DATA, 0x3d000000 OR PTE_KERNEL_DATA,
    0x3d200000 OR PTE_KERNEL_DATA, 0x3d400000 OR PTE_KERNEL_DATA, 0x3d600000 OR PTE_KERNEL_DATA,
    0x3d800000 OR PTE_KERNEL_DATA, 0x3da00000 OR PTE_KERNEL_DATA, 0x3dc00000 OR PTE_KERNEL_DATA,
    0x3de00000 OR PTE_KERNEL_DATA, 0x3e000000 OR PTE_KERNEL_DATA, 0x3e200000 OR PTE_KERNEL_DATA,
    0x3e400000 OR PTE_KERNEL_DATA, 0x3e600000 OR PTE_KERNEL_DATA, 0x3e800000 OR PTE_KERNEL_DATA,
    0x3ea00000 OR PTE_KERNEL_DATA, 0x3ec00000 OR PTE_KERNEL_DATA, 0x3ee00000 OR PTE_KERNEL_DATA,
    0x3f000000 OR PTE_KERNEL_DEVICE, 0x3f200000 OR PTE_KERNEL_DEVICE, 0x3f400000 OR PTE_KERNEL_DEVICE,
    0x3f600000 OR PTE_KERNEL_DEVICE, 0x3f800000 OR PTE_KERNEL_DEVICE, 0x3fa00000 OR PTE_KERNEL_DEVICE,
    0x3fc00000 OR PTE_KERNEL_DEVICE, 0x3fe00000 OR PTE_KERNEL_DEVICE]"

definition kernel_pt_level3 :: "PTEntry list" where
  "kernel_pt_level3 = kernel_pt_level3_a @ kernel_pt_level3_b @ kernel_pt_level3_c @ kernel_pt_level3_d"

definition kernel_pt_level2 :: "addr \<Rightarrow> PTEntry list" where
  "kernel_pt_level2 level3 = [K2P level3 + PTE_TABLE, 0x40000000 OR PTE_KERNEL_DEVICE, 0, 0xC0000000 OR PTE_KERNEL_DEVICE]"

definition kernel_pt :: "addr \<Rightarrow> PTEntry list" where
  "kernel_pt level2 = [K2P level2 + PTE_TABLE]"

definition static_entry :: "PTEntry list \<Rightarrow> nat \<Rightarrow> PTEntry" where
  "static_entry tbl i = (if i < length tbl then tbl ! i else 0)"

text \<open>The physical tables and the hardware walk from level \<open>n\<close> on; the result is the physical address
  and the low twelve attribute bits.\<close>

definition kpt_tables :: "addr \<Rightarrow> addr \<Rightarrow> addr \<Rightarrow> addr \<Rightarrow> PTEntry list" where
  "kpt_tables l1 l2 l3 a =
     (if a = K2P l1 then kernel_pt l2
      else if a = K2P l2 then kernel_pt_level2 l3
      else if a = K2P l3 then kernel_pt_level3 else [])"

primrec kpt_walk :: "(addr \<Rightarrow> PTEntry list) \<Rightarrow> nat \<Rightarrow> addr \<Rightarrow> u64 \<Rightarrow> (u64 \<times> u64) option" where
  "kpt_walk tabs 0 t va =
     (let e = static_entry (tabs t) (unat (PTX 0 va)) in
      if bit e 0 \<and> bit e 1 then Some (PTE_ADDRESS e OR take_bit 12 va, PTE_FLAGS e) else None)"
| "kpt_walk tabs (Suc n) t va =
     (let e = static_entry (tabs t) (unat (PTX (Suc n) va)) in
      if \<not> bit e 0 then None
      else if bit e 1 then kpt_walk tabs n (PTE_ADDRESS e) va
      else Some (e AND NOT (mask (9 * Suc n + 12)) OR take_bit (9 * Suc n + 12) va, PTE_FLAGS e))"

declare kpt_walk.simps [simp del]

definition kpt_translate :: "addr \<Rightarrow> addr \<Rightarrow> addr \<Rightarrow> u64 \<Rightarrow> (u64 \<times> u64) option" where
  "kpt_translate l1 l2 l3 va = kpt_walk (kpt_tables l1 l2 l3) 3 (K2P l1) va"

lemma level3_parts:
  "kernel_pt_level3_a = map (\<lambda>i. of_nat i * 0x200000 OR PTE_KERNEL_DATA) [0..<128]"
  "kernel_pt_level3_b = map (\<lambda>i. of_nat i * 0x200000 OR PTE_KERNEL_DATA) [128..<256]"
  "kernel_pt_level3_c = map (\<lambda>i. of_nat i * 0x200000 OR PTE_KERNEL_DATA) [256..<384]"
  "kernel_pt_level3_d = map (\<lambda>i. of_nat i * 0x200000 OR PTE_KERNEL_DATA) [384..<504] @
     map (\<lambda>i. of_nat i * 0x200000 OR PTE_KERNEL_DEVICE) [504..<512]"
  by (simp_all add: kernel_pt_level3_a_def kernel_pt_level3_b_def kernel_pt_level3_c_def kernel_pt_level3_d_def upt_rec)

lemma kernel_pt_level3_eq:
  "kernel_pt_level3 = map (\<lambda>i. of_nat i * 0x200000 OR (if i < 504 then PTE_KERNEL_DATA else PTE_KERNEL_DEVICE)) [0..<512]"
proof -
  have "[0..<512] = [0..<128] @ [128..<256] @ [256..<384] @ [384..<504] @ [504..<512]"
    by (simp add: upt_add_eq_append [of 0 128 384, simplified] upt_add_eq_append [of 128 128 256, simplified]
        upt_add_eq_append [of 256 128 128, simplified] upt_add_eq_append [of 384 120 8, simplified])
  then show ?thesis unfolding kernel_pt_level3_def level3_parts by (simp del: upt_conv_Cons_Cons upt_rec_numeral)
qed

lemma level3_entry:
  "i < 512 \<Longrightarrow> static_entry kernel_pt_level3 i =
     of_nat i * 0x200000 OR (if i < 504 then PTE_KERNEL_DATA else PTE_KERNEL_DEVICE)"
  by (simp add: static_entry_def kernel_pt_level3_eq del: upt_conv_Cons_Cons upt_rec_numeral)

lemma unat_PTX: "unat (PTX k va) = unat va div 2 ^ (9 * k + 12) mod 512"
proof -
  have "PTX k va = take_bit 9 (drop_bit (9 * k + 12) va)" by (rule bit_eqI) (auto simp: bit_PTX bit_simps)
  then have "unat (PTX k va) = take_bit 9 (drop_bit (9 * k + 12) (unat va))"
    by (simp only: unsigned_take_bit_eq unsigned_drop_bit_eq) (simp add: take_bit_nat_eq_self)
  then show ?thesis by (simp add: take_bit_eq_mod drop_bit_eq_div)
qed

lemma kernel_address:
  assumes "unat pa < 2 ^ 48"
  shows "take_bit 48 (P2K pa) = pa"
proof -
  have "unat (P2K pa) = unat pa + 0xffff000000000000"
    using assms by (simp add: P2K_def KSPACE_MASK_def unat_word_ariths)
  then have "unat (P2K pa) = unat pa + 0xffff * 2 ^ 48" by simp
  then have "take_bit 48 (unat (P2K pa)) = unat pa"
    unfolding take_bit_eq_mod using assms by (simp only: mod_mult_self1 mod_less)
  then have "unat (take_bit 48 (P2K pa)) = unat pa" by (simp only: unsigned_take_bit_eq)
  then show ?thesis by (simp add: word_unat_eq_iff)
qed

lemma kernel_address_bits:
  assumes "unat pa < 2 ^ 48"
  shows "k \<le> 3 \<Longrightarrow> PTX k (P2K pa) = PTX k pa" "n \<le> 48 \<Longrightarrow> take_bit n (P2K pa) = take_bit n pa"
proof -
  have b: "bit (P2K pa) j = bit pa j" if "j < 48" for j
    using kernel_address [OF assms] that by (metis bit_take_bit_iff)
  show "k \<le> 3 \<Longrightarrow> PTX k (P2K pa) = PTX k pa" by (simp add: PTX_eq_iff b)
  show "n \<le> 48 \<Longrightarrow> take_bit n (P2K pa) = take_bit n pa" by (rule bit_eqI) (auto simp: bit_simps b)
qed

lemma block_address:
  assumes "take_bit 12 F = F" "12 \<le> n"
  shows "(push_bit n (drop_bit n pa) OR F) AND NOT (mask n) OR take_bit n pa = (pa :: u64)"
proof (rule bit_eqI)
  fix j assume "possible_bit TYPE(u64) j"
  then have j: "j < 64" by simp
  have "bit F j \<Longrightarrow> j < 12" for j using assms(1) by (metis bit_take_bit_iff)
  then have "\<not> (bit F j \<and> \<not> j < n)" using assms(2) by force
  with j show "bit ((push_bit n (drop_bit n pa) OR F) AND NOT (mask n) OR take_bit n pa) j = bit pa j"
    by (auto simp: bit_simps)
qed

lemma table_link:
  assumes "PAGE_SIZE dvd unat c"
  shows "PTE_ADDRESS (K2P c + PTE_TABLE) = K2P c" "bit (K2P c + PTE_TABLE) 0" "bit (K2P c + PTE_TABLE) 1"
proof -
  have "K2P c = c + 0x1000000000000" by (simp add: K2P_def KSPACE_MASK_def)
  then have "PAGE_SIZE dvd unat (K2P c)" using assms by (simp add: unat_word_ariths dvd_mod)
  then have zk: "\<not> bit (K2P c) j" if "j < 12" for j using that by (rule aligned_bits)
  have "PTE_TABLE = take_bit 12 PTE_TABLE" by (simp add: PTE_TABLE_def)
  then have "\<not> bit (K2P c) j \<or> \<not> bit PTE_TABLE j" for j using zk by (metis bit_take_bit_iff)
  then have "K2P c AND PTE_TABLE = 0" by (intro bit_eqI) (auto simp: bit_simps)
  then have eq: "K2P c + PTE_TABLE = K2P c OR PTE_TABLE" by (simp add: disjunctive_add_eq_or)
  show "PTE_ADDRESS (K2P c + PTE_TABLE) = K2P c"
  proof -
    have "PTE_ADDRESS (K2P c + PTE_TABLE) = K2P (P2K (PTE_ADDRESS (K2P c OR PTE_TABLE)))"
      unfolding eq by (simp add: P2K_def K2P_def)
    then show ?thesis by (simp only: table_entry_address(1) [OF assms])
  qed
  show "bit (K2P c + PTE_TABLE) 0" "bit (K2P c + PTE_TABLE) 1" unfolding eq
    by (simp_all add: bit_or_iff PTE_TABLE_def)
qed

lemma kernel_flags:
  "PTE_KERNEL_DATA = 0x605" "PTE_KERNEL_DEVICE = 0x401"
  by (simp_all add: PTE_KERNEL_DATA_def PTE_KERNEL_DEVICE_def PTE_KERNEL_def PTE_NORMAL_def PTE_DEVICE_def
      AF_USED_def SH_OUTER_def PTE_BLOCK_def)

lemma block_flags:
  assumes "take_bit 12 F = F" "12 \<le> n"
  shows "PTE_FLAGS (push_bit n w OR F) = F" "j < 12 \<Longrightarrow> bit (push_bit n w OR F) j = bit F j"
proof -
  show "bit (push_bit n w OR F) j = bit F j" if "j < 12" using that assms(2) by (auto simp: bit_simps)
  have m: "(0xFFF :: u64) = mask 12" by (simp add: mask_eq_exp_minus_1)
  show "PTE_FLAGS (push_bit n w OR F) = F"
    unfolding PTE_FLAGS_def m take_bit_eq_mask [symmetric]
    by (subst assms(1) [symmetric]) (rule bit_eqI, use assms(2) in \<open>auto simp: bit_simps\<close>)
qed

lemma unat_less_drop:
  assumes "unat (pa :: u64) div 2 ^ n = k" "k < 2 ^ 64"
  shows "drop_bit n pa = of_nat k"
proof -
  have "drop_bit n (unat pa) = unat (of_nat k :: u64)"
    using assms by (simp add: drop_bit_eq_div unat_of_nat)
  moreover have "unat (drop_bit n pa) = drop_bit n (take_bit LENGTH(64) (unat pa))"
    by (simp add: unsigned_drop_bit_eq take_bit_nat_eq_self)
  ultimately show ?thesis by (simp add: word_unat_eq_iff take_bit_nat_eq_self)
qed

text \<open>The 2 MiB blocks of the first gigabyte and the 1 GiB blocks of the level above.\<close>

lemma walk_block:
  assumes i: "unat (PTX (Suc n) va) = i" and e: "static_entry (tabs t) i = push_bit (9 * Suc n + 12) (drop_bit (9 * Suc n + 12) pa) OR F"
    and F: "take_bit 12 F = F" "bit F 0" "\<not> bit F 1" and low: "take_bit (9 * Suc n + 12) va = take_bit (9 * Suc n + 12) pa"
  shows "kpt_walk tabs (Suc n) t va = Some (pa, F)"
proof -
  let ?m = "9 * Suc n + 12"
  have m: "12 \<le> ?m" by simp
  have "bit (push_bit ?m (drop_bit ?m pa) OR F) 0" "\<not> bit (push_bit ?m (drop_bit ?m pa) OR F) 1"
    using block_flags(2) [OF F(1) m, of 0 "drop_bit ?m pa"] block_flags(2) [OF F(1) m, of 1 "drop_bit ?m pa"] F(2,3)
    by simp_all
  then show ?thesis
    unfolding kpt_walk.simps Let_def i e low
    by (simp only: if_False if_True not_True_eq_False block_address [OF F(1) m] block_flags(1) [OF F(1) m])
qed

lemma walk_level3:
  assumes t: "tabs t = kernel_pt_level3" and pa: "unat pa < 2 ^ 30"
  shows "kpt_walk tabs 1 t (P2K pa) = Some (pa, if unat pa < 0x3f000000 then PTE_KERNEL_DATA else PTE_KERNEL_DEVICE)"
proof -
  define i where "i = unat pa div 2 ^ 21"
  let ?F = "if unat pa < 0x3f000000 then PTE_KERNEL_DATA else PTE_KERNEL_DEVICE"
  have 48: "unat pa < 2 ^ 48" using pa by simp
  have i: "i < 512" using pa by (simp add: less_mult_imp_div_less i_def)
  have ix: "unat (PTX (Suc 0) (P2K pa)) = i"
    using kernel_address_bits(1) [OF 48, of 1] i by (simp add: unat_PTX i_def)
  have dr: "drop_bit 21 pa = of_nat i" by (rule unat_less_drop) (use i in \<open>simp_all add: i_def\<close>)
  have lt: "i < 504 \<longleftrightarrow> unat pa < 0x3f000000" by (simp add: div_less_iff_less_mult i_def)
  have e: "static_entry (tabs t) i = push_bit (9 * Suc 0 + 12) (drop_bit (9 * Suc 0 + 12) pa) OR ?F"
    unfolding t level3_entry [OF i] lt by (simp add: dr push_bit_eq_mult)
  have "kpt_walk tabs (Suc 0) t (P2K pa) = Some (pa, ?F)"
  proof (rule walk_block [where tabs = tabs, OF ix e])
    show "take_bit (9 * Suc 0 + 12) (P2K pa) = take_bit (9 * Suc 0 + 12) pa"
      by (rule kernel_address_bits(2) [OF 48]) simp
  qed (simp_all add: kernel_flags)
  then show ?thesis by simp
qed

lemma static_entry_small:
  "static_entry (kernel_pt l2) i = (if i = 0 then K2P l2 + PTE_TABLE else 0)"
  "static_entry (kernel_pt_level2 l3) i =
     (if i = 0 then K2P l3 + PTE_TABLE else if i = 1 then 0x40000000 OR PTE_KERNEL_DEVICE
      else if i = 3 then 0xC0000000 OR PTE_KERNEL_DEVICE else 0)"
proof -
  show "static_entry (kernel_pt l2) i = (if i = 0 then K2P l2 + PTE_TABLE else 0)"
    by (simp add: static_entry_def kernel_pt_def)
  consider "i = 0" | "i = 1" | "i = 2" | "i = 3" | "4 \<le> i" by linarith
  then show "static_entry (kernel_pt_level2 l3) i =
     (if i = 0 then K2P l3 + PTE_TABLE else if i = 1 then 0x40000000 OR PTE_KERNEL_DEVICE
      else if i = 3 then 0xC0000000 OR PTE_KERNEL_DEVICE else 0)"
    by cases (simp_all add: static_entry_def kernel_pt_level2_def)
qed

lemma walk_level2:
  assumes t: "tabs t = kernel_pt_level2 l3" "tabs (K2P l3) = kernel_pt_level3" and l3: "PAGE_SIZE dvd unat l3"
    and pa: "unat pa < 2 ^ 39"
  shows "kpt_walk tabs 2 t (P2K pa) =
    (if unat pa < 0x3f000000 then Some (pa, PTE_KERNEL_DATA)
     else if unat pa < 0x80000000 then Some (pa, PTE_KERNEL_DEVICE)
     else if unat pa < 0xC0000000 then None
     else if unat pa < 0x100000000 then Some (pa, PTE_KERNEL_DEVICE) else None)"
proof -
  define i where "i = unat pa div 2 ^ 30"
  have 48: "unat pa < 2 ^ 48" using pa by simp
  have i: "i < 512" using pa by (simp add: less_mult_imp_div_less i_def)
  have ix: "unat (PTX (Suc (Suc 0)) (P2K pa)) = i"
    using kernel_address_bits(1) [OF 48, of 2] i by (simp add: unat_PTX i_def numeral_2_eq_2)
  have dr: "drop_bit 30 pa = of_nat i" by (rule unat_less_drop) (use i in \<open>simp_all add: i_def\<close>)
  have low: "take_bit (9 * Suc (Suc 0) + 12) (P2K pa) = take_bit (9 * Suc (Suc 0) + 12) pa"
    by (rule kernel_address_bits(2) [OF 48]) simp
  have blk: "kpt_walk tabs (Suc (Suc 0)) t (P2K pa) = Some (pa, PTE_KERNEL_DEVICE)"
    if "static_entry (tabs t) i = push_bit 30 (drop_bit 30 pa) OR PTE_KERNEL_DEVICE"
  proof (rule walk_block [where tabs = tabs, OF ix])
    show "static_entry (tabs t) i = push_bit (9 * Suc (Suc 0) + 12) (drop_bit (9 * Suc (Suc 0) + 12) pa) OR PTE_KERNEL_DEVICE"
      using that by simp
  qed (use low in \<open>simp_all add: kernel_flags\<close>)
  have i_le: "i \<le> k \<longleftrightarrow> unat pa < (k + 1) * 2 ^ 30" for k
    using div_less_iff_less_mult [of "2 ^ 30" "unat pa" "k + 1"] by (simp add: i_def less_Suc_eq_le)
  have two: "kpt_walk tabs 2 t (P2K pa) = kpt_walk tabs (Suc (Suc 0)) t (P2K pa)" by (simp only: numeral_2_eq_2)
  consider "i = 0" | "i = 1" | "i = 2" | "i = 3" | "4 \<le> i" by linarith
  then show ?thesis
  proof cases
    case 1
    then have "static_entry (tabs t) i = K2P l3 + PTE_TABLE" by (simp add: t static_entry_small)
    then have "kpt_walk tabs (Suc (Suc 0)) t (P2K pa) = kpt_walk tabs (Suc 0) (K2P l3) (P2K pa)"
      unfolding kpt_walk.simps(2) [of tabs "Suc 0"] Let_def ix
      using table_link [OF l3] by (simp only: if_True if_False not_True_eq_False)
    moreover have "unat pa < 2 ^ 30" using 1 i_le [of 0] by simp
    ultimately show ?thesis unfolding two using walk_level3 [of tabs, OF t(2), of pa] by simp
  next
    case 2
    then have "static_entry (tabs t) i = push_bit 30 (drop_bit 30 pa) OR PTE_KERNEL_DEVICE"
      by (simp add: t static_entry_small dr)
    then show ?thesis unfolding two using blk 2 i_le [of 0] i_le [of 1] by simp
  next
    case 3
    then have "static_entry (tabs t) i = 0" by (simp add: t static_entry_small)
    then have "kpt_walk tabs (Suc (Suc 0)) t (P2K pa) = None"
      unfolding kpt_walk.simps(2) [of tabs "Suc 0"] Let_def ix by simp
    then show ?thesis unfolding two using 3 i_le [of 1] i_le [of 2] by simp
  next
    case 4
    then have "static_entry (tabs t) i = push_bit 30 (drop_bit 30 pa) OR PTE_KERNEL_DEVICE"
      by (simp add: t static_entry_small dr)
    then show ?thesis unfolding two using blk 4 i_le [of 2] i_le [of 3] by simp
  next
    case 5
    then have "static_entry (tabs t) i = 0" by (simp add: t static_entry_small)
    then have "kpt_walk tabs (Suc (Suc 0)) t (P2K pa) = None"
      unfolding kpt_walk.simps(2) [of tabs "Suc 0"] Let_def ix by simp
    then show ?thesis unfolding two using 5 i_le [of 3] by simp
  qed
qed

text \<open>C27: the static kernel page table maps kernel address \<open>P2K pa\<close> to \<open>pa\<close>: as normal memory below
  \<open>0x3f000000\<close> (the top of memory the page allocator uses), as device memory from there to 2 GiB and in
  the fourth gigabyte, and maps nothing else of the 48-bit kernel space.\<close>

theorem kernel_map_linear:
  assumes "PAGE_SIZE dvd unat l2" and "PAGE_SIZE dvd unat l3" and "distinct [l1, l2, l3]" and "unat pa < 2 ^ 48"
  shows "kpt_translate l1 l2 l3 (P2K pa) =
    (if unat pa < 0x3f000000 then Some (pa, PTE_KERNEL_DATA)
     else if unat pa < 0x80000000 then Some (pa, PTE_KERNEL_DEVICE)
     else if unat pa < 0xC0000000 then None
     else if unat pa < 0x100000000 then Some (pa, PTE_KERNEL_DEVICE) else None)"
proof -
  let ?tabs = "kpt_tables l1 l2 l3"
  define i where "i = unat pa div 2 ^ 39"
  have tb: "?tabs (K2P l1) = kernel_pt l2" "?tabs (K2P l2) = kernel_pt_level2 l3" "?tabs (K2P l3) = kernel_pt_level3"
    using assms(3) by (auto simp: kpt_tables_def K2P_def)
  have i: "i < 512" using assms(4) by (simp add: less_mult_imp_div_less i_def)
  have ix: "unat (PTX (Suc (Suc (Suc 0))) (P2K pa)) = i"
    using kernel_address_bits(1) [OF assms(4), of 3] i by (simp add: unat_PTX i_def numeral_3_eq_3)
  show ?thesis
  proof (cases "i = 0")
    case True
    then have "static_entry (?tabs (K2P l1)) i = K2P l2 + PTE_TABLE" by (simp add: tb static_entry_small)
    then have "kpt_walk ?tabs (Suc (Suc (Suc 0))) (K2P l1) (P2K pa) = kpt_walk ?tabs (Suc (Suc 0)) (K2P l2) (P2K pa)"
      unfolding kpt_walk.simps(2) [of ?tabs "Suc (Suc 0)"] Let_def ix
      using table_link [OF assms(1)] by (simp only: if_True if_False not_True_eq_False)
    moreover have "unat pa < 2 ^ 39" using True by (simp add: i_def div_eq_0_iff)
    ultimately show ?thesis
      using walk_level2 [of ?tabs, OF tb(2,3) assms(2), of pa] by (simp only: kpt_translate_def numeral_3_eq_3 numeral_2_eq_2)
  next
    case False
    then have "static_entry (?tabs (K2P l1)) i = 0" by (simp add: tb static_entry_small)
    then have "kpt_walk ?tabs (Suc (Suc (Suc 0))) (K2P l1) (P2K pa) = None"
      unfolding kpt_walk.simps(2) [of ?tabs "Suc (Suc 0)"] Let_def ix by simp
    moreover have "\<not> unat pa < 0x100000000" using False by (auto simp: i_def)
    ultimately show ?thesis by (simp add: kpt_translate_def numeral_3_eq_3)
  qed
qed

theorem kernel_map_linear_witness:
  "kpt_translate 0xffff000000080000 0xffff000000081000 0xffff000000082000 (P2K 0x3f201000) =
     Some (0x3f201000, PTE_KERNEL_DEVICE)"
  using kernel_map_linear [of "0xffff000000081000" "0xffff000000082000" "0xffff000000080000" "0x3f201000"] by simp

end
