(* ===== verification/KBitmap.thy ===== *)
theory KBitmap
  imports KDefs
begin

text \<open>\<open>src/common/bitmap.h\<close> and \<open>bitmap.c\<close>: bit arrays in 64-bit cells. An index outside the declared
  array is a \<open>Fault\<close>. The interface \<open>bit_vector\<close> states what clients rely on.\<close>

type_synonym BitmapCell = u64
type_synonym bitmap = "BitmapCell list"

definition BITMAP_BITS_PER_CELL :: nat where
  "BITMAP_BITS_PER_CELL = 64"

definition BITMAP_TO_NUM_CELLS :: "nat \<Rightarrow> nat" where
  "BITMAP_TO_NUM_CELLS nbits = (nbits + BITMAP_BITS_PER_CELL - 1) div BITMAP_BITS_PER_CELL"

definition BITMAP_PARSE_INDEX :: "nat \<Rightarrow> nat \<times> nat" where
  "BITMAP_PARSE_INDEX index = (index div BITMAP_BITS_PER_CELL, index mod BITMAP_BITS_PER_CELL)"

definition bitmap_get :: "bitmap \<Rightarrow> nat \<Rightarrow> bool res" where
  "bitmap_get bitmap index =
     (case BITMAP_PARSE_INDEX index of (idx, offset) \<Rightarrow>
        if idx < length bitmap then Inr (drop_bit offset (bitmap ! idx) AND 1 \<noteq> 0)
        else Inl (Fault ''bitmap_get''))"

definition bitmap_set :: "bitmap \<Rightarrow> nat \<Rightarrow> bitmap res" where
  "bitmap_set bitmap index =
     (case BITMAP_PARSE_INDEX index of (idx, offset) \<Rightarrow>
        if idx < length bitmap then Inr (bitmap[idx := bitmap ! idx OR BIT offset])
        else Inl (Fault ''bitmap_set''))"

definition bitmap_clear :: "bitmap \<Rightarrow> nat \<Rightarrow> bitmap res" where
  "bitmap_clear bitmap index =
     (case BITMAP_PARSE_INDEX index of (idx, offset) \<Rightarrow>
        if idx < length bitmap then Inr (bitmap[idx := bitmap ! idx AND NOT (BIT offset)])
        else Inl (Fault ''bitmap_clear''))"

definition init_bitmap :: "bitmap \<Rightarrow> nat \<Rightarrow> bitmap res" where
  "init_bitmap bitmap nbits =
     (let n = BITMAP_TO_NUM_CELLS nbits in
      if n \<le> length bitmap then Inr (replicate n 0 @ drop n bitmap)
      else Inl (Fault ''init_bitmap''))"

definition bm_bits :: "bitmap \<Rightarrow> nat set" where
  "bm_bits bm = {i. i < 64 * length bm \<and> bit (bm ! (i div 64)) (i mod 64)}"

locale bit_vector =
  fixes get :: "'b \<Rightarrow> nat \<Rightarrow> bool res"
    and set1 :: "'b \<Rightarrow> nat \<Rightarrow> 'b res"
    and clear1 :: "'b \<Rightarrow> nat \<Rightarrow> 'b res"
    and bits :: "'b \<Rightarrow> nat set"
    and cap :: "'b \<Rightarrow> nat"
  assumes get_eq: "i < cap b \<Longrightarrow> get b i = Inr (i \<in> bits b)"
    and set_ok: "i < cap b \<Longrightarrow> \<exists>b'. set1 b i = Inr b' \<and> bits b' = insert i (bits b) \<and> cap b' = cap b"
    and clear_ok: "i < cap b \<Longrightarrow> \<exists>b'. clear1 b i = Inr b' \<and> bits b' = bits b - {i} \<and> cap b' = cap b"
    and bits_bound: "bits b \<subseteq> {..<cap b}"
begin

lemma finite_bits [simp]: "finite (bits b)"
  by (rule finite_subset [OF bits_bound]) simp

lemma get_set1:
  assumes "i < cap b" "j < cap b" "set1 b i = Inr b'"
  shows "get b' j = Inr (j = i \<or> j \<in> bits b)"
  using set_ok [OF assms(1)] get_eq [of j b'] assms by auto

lemma get_clear1:
  assumes "i < cap b" "j < cap b" "clear1 b i = Inr b'"
  shows "get b' j = Inr (j \<noteq> i \<and> j \<in> bits b)"
  using clear_ok [OF assms(1)] get_eq [of j b'] assms by auto

lemma card_set1:
  assumes "i < cap b" "i \<notin> bits b" "set1 b i = Inr b'"
  shows "card (bits b') = Suc (card (bits b))"
  using set_ok [OF assms(1)] assms by auto

lemma card_clear1:
  assumes "i < cap b" "i \<in> bits b" "clear1 b i = Inr b'"
  shows "card (bits b) = Suc (card (bits b'))"
  using clear_ok [OF assms(1)] assms card.remove [OF finite_bits assms(2)] by auto

lemma clear_after_set:
  assumes "i < cap b" "i \<notin> bits b" "set1 b i = Inr b'"
  shows "\<exists>b''. clear1 b' i = Inr b'' \<and> bits b'' = bits b"
  using set_ok [OF assms(1)] assms clear_ok [of i b'] by force

end

lemma div_mod_eq_iff64: "(i div 64 = j div 64 \<and> i mod 64 = j mod 64) \<longleftrightarrow> i = (j :: nat)"
  by (metis div_mult_mod_eq)

lemmas bitmap_defs = BITMAP_PARSE_INDEX_def BITMAP_BITS_PER_CELL_def BITMAP_TO_NUM_CELLS_def

lemma idx_in_range: "i < 64 * n \<Longrightarrow> i div 64 < (n :: nat)"
  by simp

interpretation bmp: bit_vector bitmap_get bitmap_set bitmap_clear bm_bits "\<lambda>b. 64 * length b"
proof
  fix i :: nat and b :: bitmap
  assume i: "i < 64 * length b"
  then have idx: "i div 64 < length b" by simp
  show "bitmap_get b i = Inr (i \<in> bm_bits b)"
    using i by (simp add: bitmap_get_def bitmap_defs bm_bits_def and_1_neq_0_iff bit_simps)
  have same: "j div 64 = i div 64 \<Longrightarrow> j mod 64 = i mod 64 \<Longrightarrow> j = i" for j
    by (metis div_mult_mod_eq)
  have "bm_bits (b[i div 64 := b ! (i div 64) OR BIT (i mod 64)]) = insert i (bm_bits b)"
    using i same by (auto simp: bm_bits_def BIT_def nth_list_update bit_simps)
  with idx show "\<exists>b'. bitmap_set b i = Inr b' \<and> bm_bits b' = insert i (bm_bits b) \<and> 64 * length b' = 64 * length b"
    by (simp add: bitmap_set_def bitmap_defs)
  have "bm_bits (b[i div 64 := b ! (i div 64) AND NOT (BIT (i mod 64))]) = bm_bits b - {i}"
    using i same by (auto simp: bm_bits_def BIT_def nth_list_update bit_simps)
  with idx show "\<exists>b'. bitmap_clear b i = Inr b' \<and> bm_bits b' = bm_bits b - {i} \<and> 64 * length b' = 64 * length b"
    by (simp add: bitmap_clear_def bitmap_defs)
next
  fix b show "bm_bits b \<subseteq> {..<64 * length b}" by (auto simp: bm_bits_def)
qed

text \<open>Setting bit \<open>i\<close> of a bitmap and reading bit \<open>j\<close> back gives true exactly when \<open>j\<close> is \<open>i\<close> or was set, and
  clearing it then restores the set of bits.\<close>

lemma bitmap_set_get:
  assumes "i < 64 * length bm" and "j < 64 * length bm"
  shows "\<exists>bm1 bm2. bitmap_set bm i = Inr bm1 \<and> bitmap_get bm1 j = Inr (j = i \<or> j \<in> bm_bits bm) \<and>
           bitmap_clear bm1 i = Inr bm2 \<and> bitmap_get bm2 j = Inr (j \<noteq> i \<and> j \<in> bm_bits bm)"
proof -
  obtain bm1 where 1: "bitmap_set bm i = Inr bm1" "bm_bits bm1 = insert i (bm_bits bm)" "length bm1 = length bm"
    using bmp.set_ok [OF assms(1)] by auto
  obtain bm2 where 2: "bitmap_clear bm1 i = Inr bm2" using bmp.clear_ok [of i bm1] assms(1) 1(3) by auto
  have "bitmap_get bm2 j = Inr (j \<noteq> i \<and> j \<in> bm_bits bm1)"
    by (rule bmp.get_clear1) (use assms 1(3) 2 in auto)
  with 1 2 bmp.get_set1 [OF assms 1(1)] show ?thesis by auto
qed

end
