(* ===== verification/KList.thy ===== *)
theory KList
  imports KPrelude
begin

text \<open>The intrusive circular doubly linked list of \<open>src/common/list.c\<close>. The list nodes of all objects live
  in one heap of previous and next pointers; \<open>cyc h xs\<close> says that \<open>xs\<close> is a ring in \<open>h\<close>. The interface
  \<open>ring_list\<close> states what merging and detaching do to rings; its clients are the arena, the block cache
  and the request queue of the disk driver.\<close>

record links =
  lprev :: "addr \<Rightarrow> addr"
  lnext :: "addr \<Rightarrow> addr"

abbreviation NULL :: addr where
  "NULL \<equiv> 0"

definition init_list_node :: "links \<Rightarrow> addr \<Rightarrow> links" where
  "init_list_node h node = h\<lparr>lprev := (lprev h)(node := node), lnext := (lnext h)(node := node)\<rparr>"

definition merge_list :: "links \<Rightarrow> addr \<Rightarrow> addr \<Rightarrow> addr \<times> links" where
  "merge_list h node1 node2 =
     (if node1 = NULL then (node2, h)
      else if node2 = NULL then (node1, h)
      else
        let node3 = lnext h node1;
            node4 = lprev h node2;
            h1 = h\<lparr>lnext := (lnext h)(node1 := node2)\<rparr>;
            h2 = h1\<lparr>lprev := (lprev h1)(node2 := node1)\<rparr>;
            h3 = h2\<lparr>lnext := (lnext h2)(node4 := node3)\<rparr>;
            h4 = h3\<lparr>lprev := (lprev h3)(node3 := node4)\<rparr>
        in (node1, h4))"

definition detach_from_list :: "links \<Rightarrow> addr \<Rightarrow> addr \<times> links" where
  "detach_from_list h node =
     (let prev = lprev h node;
          h1 = h\<lparr>lnext := (lnext h)(lprev h node := lnext h node)\<rparr>;
          h2 = h1\<lparr>lprev := (lprev h1)(lnext h1 node := lprev h1 node)\<rparr>;
          h3 = init_list_node h2 node
      in (if prev = node then NULL else prev, h3))"

definition linked :: "links \<Rightarrow> addr \<Rightarrow> addr \<Rightarrow> bool" where
  "linked h a b \<longleftrightarrow> lnext h a = b \<and> lprev h b = a"

fun chain :: "links \<Rightarrow> addr list \<Rightarrow> bool" where
  "chain h (a # b # xs) = (linked h a b \<and> chain h (b # xs))"
| "chain h xs = True"

definition cyc :: "links \<Rightarrow> addr list \<Rightarrow> bool" where
  "cyc h xs \<longleftrightarrow> xs \<noteq> [] \<and> distinct xs \<and> chain h (xs @ [hd xs])"

lemma chain_Cons: "chain h (x # xs) \<longleftrightarrow> (xs \<noteq> [] \<longrightarrow> linked h x (hd xs)) \<and> chain h xs"
  by (cases xs) auto

lemma chain_append:
  "chain h (xs @ ys) \<longleftrightarrow>
   chain h xs \<and> chain h ys \<and> (xs \<noteq> [] \<longrightarrow> ys \<noteq> [] \<longrightarrow> linked h (last xs) (hd ys))"
  by (induction xs) (auto simp: chain_Cons)

lemma chain_cong:
  assumes "\<And>x. x \<in> set (butlast xs) \<Longrightarrow> lnext h' x = lnext h x"
    and "\<And>x. x \<in> set (tl xs) \<Longrightarrow> lprev h' x = lprev h x"
  shows "chain h' xs = chain h xs"
  using assms
proof (induction xs)
  case Nil
  then show ?case by simp
next
  case (Cons a xs)
  have "chain h' xs = chain h xs"
  proof (rule Cons.IH)
    show "lnext h' x = lnext h x" if "x \<in> set (butlast xs)" for x
      using that Cons.prems(1) by (cases xs) auto
    show "lprev h' x = lprev h x" if "x \<in> set (tl xs)" for x
      using that Cons.prems(2) by (cases xs) auto
  qed
  moreover have "xs \<noteq> [] \<Longrightarrow> linked h' a (hd xs) = linked h a (hd xs)"
    using Cons.prems by (simp add: linked_def)
  ultimately show ?case by (auto simp: chain_Cons)
qed

lemma cyc_rotate: "cyc h (xs @ ys) \<longleftrightarrow> cyc h (ys @ xs)"
  by (cases "xs = []"; cases "ys = []") (auto simp: cyc_def chain_append)

lemma cyc_single: "cyc h [x] \<longleftrightarrow> lnext h x = x \<and> lprev h x = x"
  by (auto simp: cyc_def linked_def)

lemma cyc_init: "cyc (init_list_node h x) [x]"
  by (simp add: cyc_single init_list_node_def)

lemma cyc_cong:
  assumes "\<And>x. x \<in> set xs \<Longrightarrow> lnext h' x = lnext h x" "\<And>x. x \<in> set xs \<Longrightarrow> lprev h' x = lprev h x"
  shows "cyc h' xs = cyc h xs"
proof (cases "xs = []")
  case False
  have "chain h' (xs @ [hd xs]) = chain h (xs @ [hd xs])"
  proof (rule chain_cong)
    fix x
    show "lnext h' x = lnext h x" if "x \<in> set (butlast (xs @ [hd xs]))"
      using that assms(1) by simp
    have "set (tl (xs @ [hd xs])) \<subseteq> set xs" using False by (cases xs) auto
    then show "lprev h' x = lprev h x" if "x \<in> set (tl (xs @ [hd xs]))"
      using that assms(2) by blast
  qed
  then show ?thesis by (simp add: cyc_def)
qed (simp add: cyc_def)

lemma cycD:
  assumes "cyc h (x # xs)"
  shows "lnext h x = hd (xs @ [x])" "lprev h x = last (x # xs)" "lprev h (hd (xs @ [x])) = x"
    "lnext h (last (x # xs)) = x" "chain h xs" "distinct xs" "x \<notin> set xs"
  using assms by (auto simp: cyc_def chain_Cons chain_append linked_def)

lemma cycI:
  "xs \<noteq> [] \<Longrightarrow> distinct xs \<Longrightarrow> chain h xs \<Longrightarrow> linked h (last xs) (hd xs) \<Longrightarrow> cyc h xs"
  by (simp add: cyc_def chain_append)

lemma last_notin_butlast: "distinct xs \<Longrightarrow> xs \<noteq> [] \<Longrightarrow> last xs \<notin> set (butlast xs)"
  by (metis append_butlast_last_id distinct_append disjoint_insert(1) list.set(2) Int_commute)

lemma hd_notin_tl: "distinct xs \<Longrightarrow> xs \<noteq> [] \<Longrightarrow> hd xs \<notin> set (tl xs)"
  by (cases xs) auto

text \<open>Redirecting the next pointer of the last node and the previous pointer of the first node of a
chain, or pointers outside it, leaves the chain in place.\<close>

lemma chain_frame:
  assumes "chain h xs" "distinct xs"
    and "\<And>x. x \<in> set xs \<Longrightarrow> x \<noteq> last xs \<Longrightarrow> lnext h' x = lnext h x"
    and "\<And>x. x \<in> set xs \<Longrightarrow> x \<noteq> hd xs \<Longrightarrow> lprev h' x = lprev h x"
  shows "chain h' xs"
proof (cases "xs = []")
  case False
  have "chain h' xs = chain h xs"
  proof (rule chain_cong)
    fix x
    show "lnext h' x = lnext h x" if "x \<in> set (butlast xs)"
      using that assms(3) [of x] last_notin_butlast [OF assms(2) False] by (metis in_set_butlastD)
    show "lprev h' x = lprev h x" if "x \<in> set (tl xs)"
      using that assms(4) [of x] hd_notin_tl [OF assms(2) False] by (metis list.set_sel(2) False)
  qed
  with assms(1) show ?thesis by simp
qed simp

lemma merge_list_pointers:
  assumes "cyc h (a # as)" "cyc h (b # bs)" "a \<noteq> NULL" "b \<noteq> NULL"
  shows "lnext (snd (merge_list h a b)) = (lnext h)(a := b, last (b # bs) := hd (as @ [a]))"
    and "lprev (snd (merge_list h a b)) = (lprev h)(b := a, hd (as @ [a]) := last (b # bs))"
  using assms(3,4) cycD(1) [OF assms(1)] cycD(2) [OF assms(2)]
  by (auto simp: merge_list_def Let_def)

lemma merge_list_cyc:
  assumes a: "cyc h (a # as)" and b: "cyc h (b # bs)"
    and dis: "set (a # as) \<inter> set (b # bs) = {}" and nn: "a \<noteq> NULL" "b \<noteq> NULL"
  shows "cyc (snd (merge_list h a b)) (a # b # bs @ as)"
proof -
  define h' where "h' = snd (merge_list h a b)"
  let ?n3 = "hd (as @ [a])" and ?n4 = "last (b # bs)"
  note h' = merge_list_pointers [OF a b nn, folded h'_def]
  have n3: "?n3 \<in> set (a # as)" by (cases as) auto
  have n4: "?n4 \<in> set (b # bs)" by (rule last_in_set) simp
  have neq: "a \<noteq> ?n4" "b \<noteq> ?n3" using n3 n4 dis by auto
  have da: "distinct (a # as)" and db: "distinct (b # bs)" using a b by (auto simp: cyc_def)
  have cb: "chain h' (b # bs)"
  proof (rule chain_frame)
    show "chain h (b # bs)" using b unfolding cyc_def by (simp only: chain_append)
    show "lnext h' x = lnext h x" if "x \<in> set (b # bs)" "x \<noteq> last (b # bs)" for x
      using that dis by (auto simp: h')
    show "lprev h' x = lprev h x" if "x \<in> set (b # bs)" "x \<noteq> hd (b # bs)" for x
      using that dis n3 by (auto simp: h')
  qed (rule db)
  have ca: "chain h' as"
  proof (rule chain_frame [OF cycD(5) [OF a]])
    show "lnext h' x = lnext h x" if "x \<in> set as" "x \<noteq> last as" for x
      using that dis n4 da by (auto simp: h')
    show "lprev h' x = lprev h x" if "x \<in> set as" "x \<noteq> hd as" for x
      using that dis da by (auto simp: h' hd_append)
  qed (use da in simp)
  have l12: "linked h' a b" "linked h' ?n4 ?n3" using neq by (auto simp: linked_def h')
  have l3: "linked h' (last as) a" if "as \<noteq> []"
  proof -
    have "last as \<in> set as" "?n3 \<in> set as" using that by auto
    then have "last as \<noteq> a" "last as \<noteq> ?n4" "a \<noteq> ?n3" "a \<noteq> b"
      using da dis n4 by (metis distinct.simps(2) disjoint_iff list.set_intros)+
    then show ?thesis using cycD(2,4) [OF a] that by (simp add: linked_def h')
  qed
  show ?thesis
    unfolding h'_def [symmetric] using da db dis ca cb l12 l3
    by (intro cycI) (auto simp: chain_Cons chain_append last_append hd_append split: if_splits)
qed

lemma detach_from_list_pointers:
  assumes "cyc h (x # y # ys)"
  shows "lnext (snd (detach_from_list h x)) = (lnext h)(last (y # ys) := y, x := x)"
    and "lprev (snd (detach_from_list h x)) = (lprev h)(y := last (y # ys), x := x)"
proof -
  have "lnext h x = y" "lprev h x = last (y # ys)" "x \<noteq> y" "x \<noteq> last (y # ys)"
    using cycD [OF assms] by (auto split: if_splits)
  then show "lnext (snd (detach_from_list h x)) = (lnext h)(last (y # ys) := y, x := x)"
    and "lprev (snd (detach_from_list h x)) = (lprev h)(y := last (y # ys), x := x)"
    by (auto simp: detach_from_list_def init_list_node_def Let_def)
qed

lemma detach_from_list_cyc:
  assumes "cyc h (x # xs)"
  shows "cyc (snd (detach_from_list h x)) [x]"
    and "xs \<noteq> [] \<Longrightarrow> cyc (snd (detach_from_list h x)) xs"
    and "fst (detach_from_list h x) = (if xs = [] then NULL else last xs)"
proof -
  show "cyc (snd (detach_from_list h x)) [x]"
    by (simp add: detach_from_list_def cyc_init Let_def)
  show "fst (detach_from_list h x) = (if xs = [] then NULL else last xs)"
    using cycD(2,7) [OF assms] by (auto simp: detach_from_list_def Let_def split: if_splits)
  assume "xs \<noteq> []"
  then obtain y ys where xs: "xs = y # ys" by (cases xs) auto
  note h' = detach_from_list_pointers [OF assms [unfolded xs]]
  show "cyc (snd (detach_from_list h x)) xs"
  proof (rule cycI)
    show "chain (snd (detach_from_list h x)) xs"
      by (rule chain_frame [OF cycD(5,6) [OF assms]]) (use cycD(7) [OF assms] in \<open>auto simp: h' xs\<close>)
    have "last xs \<noteq> x" using cycD(7) [OF assms] last_in_set [OF \<open>xs \<noteq> []\<close>] by metis
    then show "linked (snd (detach_from_list h x)) (last xs) (hd xs)"
      using cycD(7) [OF assms] by (auto simp: linked_def h' xs)
  qed (use cycD(6) [OF assms] \<open>xs \<noteq> []\<close> in auto)
qed


lemma cyc_disjoint_frame:
  assumes "cyc h cs" "set cs \<inter> A = {}"
    and "\<And>x. x \<notin> A \<Longrightarrow> lnext h' x = lnext h x" "\<And>x. x \<notin> A \<Longrightarrow> lprev h' x = lprev h x"
  shows "cyc h' cs"
proof -
  have "cyc h' cs = cyc h cs"
    by (rule cyc_cong) (use assms in \<open>auto simp: disjoint_iff\<close>)
  with assms(1) show ?thesis by simp
qed

lemma merge_list_other:
  assumes "cyc h (a # as)" "cyc h (b # bs)" "a \<noteq> NULL" "b \<noteq> NULL"
    and "cyc h cs" "set cs \<inter> (set (a # as) \<union> set (b # bs)) = {}"
  shows "cyc (snd (merge_list h a b)) cs"
proof (rule cyc_disjoint_frame [OF assms(5,6)])
  have "last (b # bs) \<in> set (b # bs)" "hd (as @ [a]) \<in> set (a # as)"
    by (rule last_in_set, simp) (cases as, auto)
  then show "lnext (snd (merge_list h a b)) x = lnext h x"
    and "lprev (snd (merge_list h a b)) x = lprev h x"
    if "x \<notin> set (a # as) \<union> set (b # bs)" for x
    using that by (auto simp: merge_list_pointers [OF assms(1-4)])
qed

lemma detach_from_list_other:
  assumes "cyc h (x # xs)" "cyc h cs" "set cs \<inter> set (x # xs) = {}"
  shows "cyc (snd (detach_from_list h x)) cs"
proof (rule cyc_disjoint_frame [OF assms(2,3)])
  fix z assume z: "z \<notin> set (x # xs)"
  have "hd (xs @ [x]) \<in> set (x # xs)" "last (x # xs) \<in> set (x # xs)"
    by (cases xs; auto)+
  then show "lnext (snd (detach_from_list h x)) z = lnext h z"
    and "lprev (snd (detach_from_list h x)) z = lprev h z"
    using z cycD(1,2) [OF assms(1)]
    by (auto simp: detach_from_list_def init_list_node_def Let_def)
qed

locale ring_list =
  fixes join :: "'h \<Rightarrow> addr \<Rightarrow> addr \<Rightarrow> 'h"
    and cut :: "'h \<Rightarrow> addr \<Rightarrow> 'h"
    and fresh :: "'h \<Rightarrow> addr \<Rightarrow> 'h"
    and ring :: "'h \<Rightarrow> addr list \<Rightarrow> bool"
  assumes ring_fresh: "ring (fresh h x) [x]"
    and fresh_other: "ring h xs \<Longrightarrow> x \<notin> set xs \<Longrightarrow> ring (fresh h x) xs"
    and ring_join: "ring h (a # as) \<Longrightarrow> ring h (b # bs) \<Longrightarrow> set (a # as) \<inter> set (b # bs) = {} \<Longrightarrow>
      a \<noteq> NULL \<Longrightarrow> b \<noteq> NULL \<Longrightarrow> ring (join h a b) (a # b # bs @ as)"
    and ring_cut: "ring h (x # xs) \<Longrightarrow> xs \<noteq> [] \<Longrightarrow> ring (cut h x) xs"
    and ring_cut_self: "ring h (x # xs) \<Longrightarrow> ring (cut h x) [x]"
    and ring_rotate: "ring h (xs @ ys) \<Longrightarrow> ring h (ys @ xs)"
    and ring_distinct: "ring h xs \<Longrightarrow> distinct xs"
begin

lemma push_front:
  assumes "ring h (head # xs)" "x \<notin> set (head # xs)" "head \<noteq> NULL" "x \<noteq> NULL"
  shows "ring (join (fresh h x) head x) (head # x # xs)"
  using ring_join [of "fresh h x" head xs x "[]"] fresh_other [OF assms(1,2)] ring_fresh assms by simp

lemma push_back:
  assumes "ring h (head # xs)" "x \<notin> set (head # xs)" "head \<noteq> NULL" "x \<noteq> NULL"
  shows "ring (join (fresh h x) x head) (x # head # xs)"
proof -
  have "set [x] \<inter> set (head # xs) = {}" using assms(2) by auto
  from ring_join [OF ring_fresh fresh_other [OF assms(1,2)] this assms(4,3)] show ?thesis by simp
qed

lemma remove_middle:
  assumes "ring h (head # xs @ x # ys)"
  shows "ring (cut h x) (head # xs @ ys)"
proof -
  have "ring h ((x # ys) @ (head # xs))"
    by (rule ring_rotate) (use assms in simp)
  then have "ring (cut h x) (ys @ (head # xs))" using ring_cut [of h x "ys @ head # xs"] by simp
  from ring_rotate [OF this] show ?thesis by simp
qed

end

interpretation clist: ring_list
  "\<lambda>h a b. snd (merge_list h a b)" "\<lambda>h x. snd (detach_from_list h x)" init_list_node cyc
proof
  show "cyc (init_list_node h x) [x]" for h x by (rule cyc_init)
  show "cyc (init_list_node h x) xs" if "cyc h xs" "x \<notin> set xs" for h x xs
    using that by (intro cyc_disjoint_frame [where A = "{x}", OF that(1)])
      (auto simp: init_list_node_def)
  show "distinct xs" if "cyc h xs" for h xs using that by (simp add: cyc_def)
qed (rule merge_list_cyc detach_from_list_cyc cyc_rotate [THEN iffD1], assumption+)+

text \<open>Merging two disjoint rings gives one ring with \<open>node1->next == node2\<close>, the rest of the second
  ring and then the rest of the first; detaching a node leaves a ring of the others and a ring of the
  node alone, and returns its predecessor, or \<open>NULL\<close> when it was alone.\<close>

theorem list_ops_rings:
  assumes "cyc h (a # as)" and "cyc h (b # bs)" and "set (a # as) \<inter> set (b # bs) = {}"
    and "a \<noteq> NULL" and "b \<noteq> NULL"
  shows "fst (merge_list h a b) = a \<and> cyc (snd (merge_list h a b)) (a # b # bs @ as) \<and>
         cyc (snd (detach_from_list h a)) [a] \<and>
         (as \<noteq> [] \<longrightarrow> cyc (snd (detach_from_list h a)) as) \<and> cyc (snd (detach_from_list h a)) (b # bs) \<and>
         fst (detach_from_list h a) = (if as = [] then NULL else last as)"
proof -
  have "fst (merge_list h a b) = a" using assms(4,5) by (simp add: merge_list_def Let_def)
  moreover have "cyc (snd (detach_from_list h a)) (b # bs)"
    by (rule detach_from_list_other [OF assms(1,2)]) (use assms(3) in blast)
  ultimately show ?thesis
    using merge_list_cyc [OF assms] detach_from_list_cyc [OF assms(1)] by blast
qed

theorem list_ops_rings_witness:
  "cyc (snd (merge_list \<lparr>lprev = id, lnext = id\<rparr> 8 16)) [8, 16]"
  using list_ops_rings [of "\<lparr>lprev = id, lnext = id\<rparr>" 8 "[]" 16 "[]"] by (simp add: cyc_single)

end
