(* ===== verification/KArena.thy ===== *)
theory KArena
  imports KPhysMem KBitmap KList
begin

text \<open>The object arena \<open>src/core/arena.c\<close>: pages from a page allocator, each with a header (owner, list
  node at offset 8, bitmap of used slots, count) followed by equal slots from offset 64 on. Pages of an
  arena form a ring whose partially used pages come first, so a slot is found in the head page or in a
  fresh one.\<close>

abbreviation ARENA_PAGE_SIZE :: usize where
  "ARENA_PAGE_SIZE \<equiv> 4096"

abbreviation ARENA_MIN_OBJECT_SIZE :: usize where
  "ARENA_MIN_OBJECT_SIZE \<equiv> 16"

abbreviation ARENA_BITMAP_SIZE :: nat where
  "ARENA_BITMAP_SIZE \<equiv> 256"

record 's ArenaPageAllocator =
  allocate_fn :: "'s \<Rightarrow> (addr \<times> 's) res"
  free_fn :: "'s \<Rightarrow> addr \<Rightarrow> 's res"

record ArenaPage =
  arena :: addr
  used :: bitmap
  count :: usize

abbreviation list_offset :: usize where
  "list_offset \<equiv> 8"

abbreviation sizeof_ArenaPage :: usize where
  "sizeof_ArenaPage \<equiv> 64"

abbreviation ARENA_PAGE_CAPACITY :: usize where
  "ARENA_PAGE_CAPACITY \<equiv> 4032"

record 's Arena =
  alock :: SpinLock
  allocator :: "'s ArenaPageAllocator"
  object_size :: usize
  max_count :: usize
  pages :: addr
  num_objects :: usize
  num_pages :: usize

text \<open>The memory an arena operation works on: the arenas, the headers of the arena pages, the list
  nodes embedded in the headers (at \<open>page + 8\<close>) and the state of the page allocator.\<close>

record 's aheap =
  arenas :: "addr \<Rightarrow> 's Arena"
  apages :: "addr \<Rightarrow> ArenaPage"
  anodes :: links
  apmem :: 's

definition page_list :: "addr \<Rightarrow> addr" where
  "page_list page = page + list_offset"

definition list_page :: "addr \<Rightarrow> addr" where
  "list_page node = node - list_offset"

definition page_data :: "addr \<Rightarrow> addr" where
  "page_data page = page + sizeof_ArenaPage"

definition upd_arena :: "'s aheap \<Rightarrow> addr \<Rightarrow> ('s Arena \<Rightarrow> 's Arena) \<Rightarrow> 's aheap" where
  "upd_arena h a f = h\<lparr>arenas := (arenas h)(a := f (arenas h a))\<rparr>"

definition upd_page :: "'s aheap \<Rightarrow> addr \<Rightarrow> (ArenaPage \<Rightarrow> ArenaPage) \<Rightarrow> 's aheap" where
  "upd_page h p f = h\<lparr>apages := (apages h)(p := f (apages h p))\<rparr>"

definition init_arena :: "'s aheap \<Rightarrow> addr \<Rightarrow> usize \<Rightarrow> 's ArenaPageAllocator \<Rightarrow> 's aheap res" where
  "init_arena h a osize alloc =
     (if \<not> ARENA_MIN_OBJECT_SIZE \<le> osize then Inl (Panic ''object_size is too small'')
      else if \<not> osize \<le> ARENA_PAGE_CAPACITY then Inl (Panic ''object_size is too large'')
      else Inr (upd_arena h a (\<lambda>r. r\<lparr>alock := init_spinlock (alock r) ''arena'', allocator := alloc,
             object_size := osize, max_count := ARENA_PAGE_CAPACITY div osize, pages := NULL,
             num_objects := 0, num_pages := 0\<rparr>)))"

partial_function (option) clear_loop ::
  "'s ArenaPageAllocator \<Rightarrow> links \<Rightarrow> addr \<Rightarrow> addr \<Rightarrow> 's \<Rightarrow> 's res option" where
  "clear_loop alloc ln head current s =
     (let next = lnext ln current in
      case free_fn alloc s (list_page current) of
        Inl e \<Rightarrow> Some (Inl e)
      | Inr s' \<Rightarrow> if next \<noteq> head then clear_loop alloc ln head next s' else Some (Inr s'))"

definition lock_arena :: "nat \<Rightarrow> 's aheap \<Rightarrow> addr \<Rightarrow> 's aheap res" where
  "lock_arena cpu h a =
     bind_res (acquire_spinlock cpu (alock (arenas h a))) (\<lambda>l. Inr (upd_arena h a (\<lambda>r. r\<lparr>alock := l\<rparr>)))"

definition unlock_arena :: "nat \<Rightarrow> 's aheap \<Rightarrow> addr \<Rightarrow> 's aheap res" where
  "unlock_arena cpu h a =
     bind_res (release_spinlock cpu (alock (arenas h a))) (\<lambda>l. Inr (upd_arena h a (\<lambda>r. r\<lparr>alock := l\<rparr>)))"

definition clear_arena :: "nat \<Rightarrow> 's aheap \<Rightarrow> addr \<Rightarrow> 's aheap res option" where
  "clear_arena cpu h0 a =
     (case lock_arena cpu h0 a of
        Inl e \<Rightarrow> Some (Inl e)
      | Inr h \<Rightarrow>
          if pages (arenas h a) \<noteq> NULL then
            let head = page_list (pages (arenas h a)) in
            case clear_loop (allocator (arenas h a)) (anodes h) head head (apmem h) of
              None \<Rightarrow> None
            | Some (Inl e) \<Rightarrow> Some (Inl e)
            | Some (Inr s) \<Rightarrow>
                let h1 = upd_arena (h\<lparr>apmem := s\<rparr>) a
                           (\<lambda>r. r\<lparr>pages := NULL, num_objects := 0, num_pages := 0\<rparr>)
                in Some (unlock_arena cpu h1 a)
          else Some (unlock_arena cpu h a))"

definition init_arena_page :: "'s aheap \<Rightarrow> addr \<Rightarrow> addr \<Rightarrow> 's aheap res" where
  "init_arena_page h a page =
     bind_res (init_bitmap (used (apages h page)) ARENA_BITMAP_SIZE) (\<lambda>bm.
       Inr (upd_page (h\<lparr>anodes := init_list_node (anodes h) (page_list page)\<rparr>) page
              (\<lambda>p. p\<lparr>arena := a, used := bm, count := 0\<rparr>)))"

definition insert_page :: "'s aheap \<Rightarrow> addr \<Rightarrow> addr \<Rightarrow> 's aheap" where
  "insert_page h a page =
     (if pages (arenas h a) \<noteq> NULL then
        (case merge_list (anodes h) (page_list page) (page_list (pages (arenas h a))) of
           (head, ln) \<Rightarrow> upd_arena (h\<lparr>anodes := ln\<rparr>) a (\<lambda>r. r\<lparr>pages := list_page head\<rparr>))
      else upd_arena h a (\<lambda>r. r\<lparr>pages := page\<rparr>))"

definition add_page :: "'s aheap \<Rightarrow> addr \<Rightarrow> (addr \<times> 's aheap) res" where
  "add_page h a =
     bind_res (allocate_fn (allocator (arenas h a)) (apmem h)) (\<lambda>(page, s).
       if page mod ARENA_PAGE_SIZE \<noteq> 0
       then Inl (Panic ''page address must be aligned on ARENA_PAGE_SIZE'')
       else
         let h1 = h\<lparr>apmem := s\<rparr> in
         if page \<noteq> NULL then
           bind_res (init_arena_page h1 a page) (\<lambda>h2.
             let h3 = insert_page h2 a page
             in Inr (page, upd_arena h3 a (\<lambda>r. r\<lparr>num_pages := num_pages r + 1\<rparr>)))
         else Inr (page, h1))"

text \<open>The search for a clear bit of \<open>page->used\<close>: the first free index from \<open>index\<close> on, of the
  \<open>r\<close> that are left.\<close>

primrec find_slot :: "bitmap \<Rightarrow> nat \<Rightarrow> nat \<Rightarrow> nat option res" where
  "find_slot bm index 0 = Inr None"
| "find_slot bm index (Suc r) =
     bind_res (bitmap_get bm index) (\<lambda>b.
       if \<not> b then Inr (Some index) else find_slot bm (Suc index) r)"

text \<open>The second half of \<open>alloc_object\<close>: take a slot of the head page, move the head on when the page
  is full, release the lock.\<close>

definition alloc_in_head :: "nat \<Rightarrow> 's aheap \<Rightarrow> addr \<Rightarrow> (addr \<times> 's aheap) res" where
  "alloc_in_head cpu h2 a =
     (let page = pages (arenas h2 a) in
      if page = NULL then Inl (Fault ''arena->pages'')
      else
      bind_res (find_slot (used (apages h2 page)) 0 (unat (max_count (arenas h2 a)))) (\<lambda>slot.
        case slot of
          None \<Rightarrow> Inl (Panic ''arena failed to allocate object'')
        | Some index \<Rightarrow>
            bind_res (bitmap_set (used (apages h2 page)) index) (\<lambda>bm.
            let object = page_data page + of_nat index * object_size (arenas h2 a);
                h3 = upd_page h2 page (\<lambda>p. p\<lparr>used := bm, count := count p + 1\<rparr>);
                h4 = upd_arena h3 a (\<lambda>r. r\<lparr>num_objects := num_objects r + 1\<rparr>)
            in if object = NULL then Inl (Panic ''arena failed to allocate object'')
               else
                 let h5 = (if max_count (arenas h4 a) \<le> count (apages h4 page)
                           then upd_arena h4 a
                                  (\<lambda>r. r\<lparr>pages := list_page (lnext (anodes h4) (page_list page))\<rparr>)
                           else h4)
                 in bind_res (unlock_arena cpu h5 a) (\<lambda>h6. Inr (object, h6)))))"

definition alloc_object :: "nat \<Rightarrow> 's aheap \<Rightarrow> addr \<Rightarrow> (addr \<times> 's aheap) res" where
  "alloc_object cpu h0 a =
     bind_res (lock_arena cpu h0 a) (\<lambda>h1.
     bind_res
       (if pages (arenas h1 a) = NULL \<or>
           max_count (arenas h1 a) \<le> count (apages h1 (pages (arenas h1 a)))
        then bind_res (add_page h1 a) (\<lambda>(_, h). Inr h) else Inr h1)
       (\<lambda>h2. alloc_in_head cpu h2 a))"

definition get_container_page :: "addr \<Rightarrow> addr" where
  "get_container_page object = round_down object ARENA_PAGE_SIZE"

definition move_page_to_head :: "'s aheap \<Rightarrow> addr \<Rightarrow> addr \<Rightarrow> 's aheap" where
  "move_page_to_head h a page =
     (if pages (arenas h a) \<noteq> page then
        insert_page (h\<lparr>anodes := snd (detach_from_list (anodes h) (page_list page))\<rparr>) a page
      else h)"

definition free_object :: "nat \<Rightarrow> 's aheap \<Rightarrow> addr \<Rightarrow> 's aheap res" where
  "free_object cpu h0 object =
     (let page = get_container_page object;
          a = arena (apages h0 page)
      in bind_res (lock_arena cpu h0 a) (\<lambda>h1.
         let offset = object - page_data page in
         if offset mod object_size (arenas h1 a) \<noteq> 0 then Inl (Panic ''unexpected object offset'')
         else
           let index = unat (offset div object_size (arenas h1 a)) in
           bind_res (bitmap_get (used (apages h1 page)) index) (\<lambda>b.
           if \<not> b then Inl (Panic ''double free object'')
           else
             bind_res (bitmap_clear (used (apages h1 page)) index) (\<lambda>bm.
             let h2 = upd_page h1 page (\<lambda>p. p\<lparr>used := bm, count := count p - 1\<rparr>);
                 h3 = upd_arena h2 a (\<lambda>r. r\<lparr>num_objects := num_objects r - 1\<rparr>);
                 h4 = move_page_to_head h3 a page
             in unlock_arena cpu h4 a))))"

text \<open>Well-formed arena pages and arenas. \<open>ps\<close> lists the pages from the list head on.\<close>

definition slots :: "'s aheap \<Rightarrow> addr \<Rightarrow> nat set" where
  "slots h p = bm_bits (used (apages h p))"

definition page_ok :: "'s aheap \<Rightarrow> addr \<Rightarrow> addr \<Rightarrow> bool" where
  "page_ok h a p \<longleftrightarrow> arena (apages h p) = a \<and> slots h p \<subseteq> {..<unat (max_count (arenas h a))} \<and>
     count (apages h p) = of_nat (card (slots h p))"

definition full_page :: "'s aheap \<Rightarrow> addr \<Rightarrow> addr \<Rightarrow> bool" where
  "full_page h a p \<longleftrightarrow> slots h p = {..<unat (max_count (arenas h a))}"

primrec partial_first :: "('p \<Rightarrow> bool) \<Rightarrow> 'p list \<Rightarrow> bool" where
  "partial_first full [] = True"
| "partial_first full (p # ps) = (if full p then \<forall>q\<in>set ps. full q else partial_first full ps)"

definition arena_wf :: "'s aheap \<Rightarrow> addr \<Rightarrow> addr list \<Rightarrow> bool" where
  "arena_wf h a ps \<longleftrightarrow>
     16 \<le> object_size (arenas h a) \<and> object_size (arenas h a) \<le> ARENA_PAGE_CAPACITY \<and>
     max_count (arenas h a) = ARENA_PAGE_CAPACITY div object_size (arenas h a) \<and>
     (\<forall>p. length (used (apages h p)) = 4) \<and>
     pages (arenas h a) = (case ps of [] \<Rightarrow> NULL | p # _ \<Rightarrow> p) \<and>
     (ps \<noteq> [] \<longrightarrow> cyc (anodes h) (map page_list ps)) \<and>
     (\<forall>p\<in>set ps. p \<noteq> NULL \<and> PAGE_SIZE dvd unat p \<and> page_ok h a p) \<and>
     partial_first (full_page h a) ps \<and>
     num_objects (arenas h a) = of_nat (sum_list (map (\<lambda>p. card (slots h p)) ps)) \<and>
     num_pages (arenas h a) = of_nat (length ps)"

definition slot_addr :: "'s aheap \<Rightarrow> addr \<Rightarrow> addr \<Rightarrow> nat \<Rightarrow> addr" where
  "slot_addr h a p i = page_data p + of_nat i * object_size (arenas h a)"

definition aobjects :: "'s aheap \<Rightarrow> addr \<Rightarrow> addr list \<Rightarrow> addr set" where
  "aobjects h a ps = (\<lambda>(p, i). slot_addr h a p i) ` (SIGMA p:set ps. slots h p)"

lemma partial_first_all: "\<forall>q\<in>set ps. full q \<Longrightarrow> partial_first full ps"
  by (induction ps) auto

lemma partial_first_snoc: "partial_first full ps \<Longrightarrow> full p \<Longrightarrow> partial_first full (ps @ [p])"
  by (induction ps) auto

lemma partial_first_remove: "partial_first full (xs @ p # ys) \<Longrightarrow> partial_first full (xs @ ys)"
  by (induction xs) (auto simp: partial_first_all split: if_splits)

lemma partial_first_cong: "(\<And>p. p \<in> set ps \<Longrightarrow> f p = g p) \<Longrightarrow> partial_first f ps = partial_first g ps"
  by (induction ps) auto

lemma upd_arena_sel [simp]:
  "arenas (upd_arena h a f) b = (if b = a then f (arenas h a) else arenas h b)"
  "apages (upd_arena h a f) = apages h" "anodes (upd_arena h a f) = anodes h"
  "apmem (upd_arena h a f) = apmem h"
  by (simp_all add: upd_arena_def)

lemma upd_page_sel [simp]:
  "arenas (upd_page h p g) = arenas h" "anodes (upd_page h p g) = anodes h"
  "apages (upd_page h p g) q = (if q = p then g (apages h p) else apages h q)"
  "apmem (upd_page h p g) = apmem h"
  by (simp_all add: upd_page_def)

lemma max_count_bounds:
  assumes "arena_wf h a ps"
  shows "0 < unat (max_count (arenas h a))" "unat (max_count (arenas h a)) \<le> 252"
    "unat (max_count (arenas h a)) * unat (object_size (arenas h a)) \<le> 4032"
proof -
  let ?o = "unat (object_size (arenas h a))"
  have o: "16 \<le> ?o" "?o \<le> 4032" using assms by (simp_all add: arena_wf_def word_le_nat_alt)
  have m: "unat (max_count (arenas h a)) = 4032 div ?o"
    using assms by (simp add: arena_wf_def unat_div_distrib)
  show "0 < unat (max_count (arenas h a))" unfolding m using o by (simp add: div_greater_zero_iff)
  show "unat (max_count (arenas h a)) * ?o \<le> 4032" unfolding m by simp
  have "4032 div ?o \<le> 4032 div 16" using o by (intro div_le_mono2) auto
  then show "unat (max_count (arenas h a)) \<le> 252" unfolding m by simp
qed

lemma find_slot_spec:
  assumes "index + r \<le> 64 * length bm"
  shows "find_slot bm index r =
    Inr (if {index..<index + r} \<subseteq> bm_bits bm then None
         else Some (LEAST i. index \<le> i \<and> i \<notin> bm_bits bm))"
  using assms
proof (induction r arbitrary: index)
  case 0
  then show ?case by simp
next
  case (Suc r)
  have get: "bitmap_get bm index = Inr (index \<in> bm_bits bm)"
    by (rule bmp.get_eq) (use Suc.prems in simp)
  show ?case
  proof (cases "index \<in> bm_bits bm")
    case True
    have "{index..<index + Suc r} = insert index {Suc index..<Suc index + r}" by auto
    moreover have "index \<le> i \<and> i \<notin> bm_bits bm \<longleftrightarrow> Suc index \<le> i \<and> i \<notin> bm_bits bm" for i
      using True by (cases "i = index") auto
    ultimately show ?thesis using Suc.IH [of "Suc index"] Suc.prems get True by simp
  next
    case False
    then have "(LEAST i. index \<le> i \<and> i \<notin> bm_bits bm) = index"
      by (intro Least_equality) auto
    moreover have "\<not> {index..<index + Suc r} \<subseteq> bm_bits bm" using False by (auto simp: subset_eq)
    ultimately show ?thesis using False get by simp
  qed
qed

lemma slots_cong: "apages h' p = apages h p \<Longrightarrow> slots h' p = slots h p"
  by (simp add: slots_def)

lemma finite_slots [simp]: "finite (slots h p)"
  by (simp add: slots_def)

lemma page_list_inj [simp]: "page_list p = page_list q \<longleftrightarrow> p = q"
  by (simp add: page_list_def)

lemma list_page_list [simp]: "list_page (page_list p) = p"
  by (simp add: page_list_def list_page_def)

lemma arena_wf_distinct: "arena_wf h a ps \<Longrightarrow> distinct ps"
  by (cases "ps = []") (auto simp: arena_wf_def cyc_def distinct_map)

lemma arena_wf_page:
  assumes "arena_wf h a ps" "p \<in> set ps"
  shows "p \<noteq> NULL" "PAGE_SIZE dvd unat p" "page_ok h a p"
  using assms by (auto simp: arena_wf_def)

lemma page_list_nonnull: "PAGE_SIZE dvd unat p \<Longrightarrow> page_list p \<noteq> NULL"
proof
  assume d: "PAGE_SIZE dvd unat p" and "page_list p = NULL"
  then have "p = - 8" by (simp add: page_list_def eq_neg_iff_add_eq_0)
  then have "unat p = 18446744073709551608" by simp
  with d show False by simp
qed

lemma card_slots_le: "page_ok h a p \<Longrightarrow> card (slots h p) \<le> unat (max_count (arenas h a))"
  unfolding page_ok_def by (metis card_lessThan card_mono finite_lessThan)

lemma count_full_iff:
  assumes "page_ok h a p"
  shows "max_count (arenas h a) \<le> count (apages h p) \<longleftrightarrow> full_page h a p"
proof -
  let ?m = "unat (max_count (arenas h a))"
  have sub: "slots h p \<subseteq> {..<?m}" and c: "count (apages h p) = of_nat (card (slots h p))"
    using assms by (auto simp: page_ok_def)
  have le: "card (slots h p) \<le> ?m" by (rule card_slots_le [OF assms])
  then have "card (slots h p) < 2 ^ 64" using unat_u64_less [of "max_count (arenas h a)"] by linarith
  then have "max_count (arenas h a) \<le> count (apages h p) \<longleftrightarrow> ?m \<le> card (slots h p)"
    using c by (simp add: word_le_nat_alt unat_of_nat_u64)
  also have "\<dots> \<longleftrightarrow> full_page h a p"
  proof
    assume "?m \<le> card (slots h p)"
    with le have "card (slots h p) = card {..<?m}" by simp
    then show "full_page h a p"
      unfolding full_page_def by (rule card_subset_eq [OF finite_lessThan sub])
  qed (simp add: full_page_def)
  finally show ?thesis .
qed

lemma arena_wf_lock [simp]:
  "arena_wf (upd_arena h a (alock_update f)) a ps = arena_wf h a ps"
  by (simp add: arena_wf_def page_ok_def slots_def full_page_def [abs_def] fun_eq_iff)

text \<open>A new page at the head of an arena whose pages are all full.\<close>

lemma insert_page_cyc:
  assumes "cyc (anodes h) [page_list p]" "ps \<noteq> [] \<longrightarrow> cyc (anodes h) (map page_list ps)" "p \<notin> set ps"
    and "pages (arenas h a) = (case ps of [] \<Rightarrow> NULL | q # _ \<Rightarrow> q)"
    and "\<forall>q\<in>set (p # ps). q \<noteq> NULL \<and> PAGE_SIZE dvd unat q"
  shows "\<exists>ln. insert_page h a p = upd_arena (h\<lparr>anodes := ln\<rparr>) a (\<lambda>r. r\<lparr>pages := p\<rparr>) \<and>
      cyc ln (map page_list (p # ps))"
proof (cases ps)
  case Nil
  then show ?thesis
    using assms by (intro exI [of _ "anodes h"]) (simp add: insert_page_def)
next
  case (Cons q qs)
  have pg: "pages (arenas h a) = q" using assms(4) Cons by simp
  have nn: "page_list p \<noteq> NULL" "page_list q \<noteq> NULL" "q \<noteq> NULL"
    using assms(5) Cons page_list_nonnull by auto
  have "set [page_list p] \<inter> set (page_list q # map page_list qs) = {}"
    using assms(3) Cons by auto
  from clist.ring_join [OF assms(1) _ this nn(1,2)] assms(2) Cons
  have "cyc (snd (merge_list (anodes h) (page_list p) (page_list q))) (map page_list (p # ps))"
    by simp
  moreover have "fst (merge_list (anodes h) (page_list p) (page_list q)) = page_list p"
    using nn by (simp add: merge_list_def Let_def)
  ultimately show ?thesis
    using nn pg
    by (intro exI [of _ "snd (merge_list (anodes h) (page_list p) (page_list q))"])
      (simp add: insert_page_def case_prod_unfold)
qed

lemma init_bitmap_arena: "length bm = 4 \<Longrightarrow> init_bitmap bm ARENA_BITMAP_SIZE = Inr (replicate 4 0)"
  by (simp add: init_bitmap_def bitmap_defs)

lemma bm_bits_zero [simp]: "bm_bits (replicate n 0) = {}"
  by (auto simp: bm_bits_def)

lemma add_page_wf:
  assumes wf: "arena_wf h a ps" and full: "\<forall>q\<in>set ps. full_page h a q"
    and al: "allocate_fn (allocator (arenas h a)) (apmem h) = Inr (p, s)"
    and p: "p \<noteq> NULL" "PAGE_SIZE dvd unat p" "p \<notin> set ps"
  shows "\<exists>h'. add_page h a = Inr (p, h') \<and> arena_wf h' a (p # ps) \<and> slots h' p = {} \<and> apmem h' = s \<and>
     (\<forall>q. q \<noteq> p \<longrightarrow> apages h' q = apages h q) \<and> (\<forall>b. b \<noteq> a \<longrightarrow> arenas h' b = arenas h b) \<and>
     object_size (arenas h' a) = object_size (arenas h a) \<and> alock (arenas h' a) = alock (arenas h a) \<and>
     max_count (arenas h' a) = max_count (arenas h a) \<and> allocator (arenas h' a) = allocator (arenas h a)"
proof -
  have al0: "p mod 4096 = 0" using p(2) by (simp add: word_unat_eq_iff unat_mod dvd_imp_mod_0)
  define h2 where "h2 = upd_page (h\<lparr>apmem := s, anodes := init_list_node (anodes h) (page_list p)\<rparr>) p
              (\<lambda>q. q\<lparr>arena := a, used := replicate 4 0, count := 0\<rparr>)"
  have len: "length (used (apages h q)) = 4" for q using wf by (simp add: arena_wf_def)
  have ip: "init_arena_page (h\<lparr>apmem := s\<rparr>) a p = Inr h2"
    by (simp add: init_arena_page_def init_bitmap_arena len h2_def upd_page_def)
  have pg: "pages (arenas h2 a) = (case ps of [] \<Rightarrow> NULL | q # _ \<Rightarrow> q)"
    using wf by (simp add: arena_wf_def h2_def)
  have cy: "ps \<noteq> [] \<longrightarrow> cyc (anodes h2) (map page_list ps)"
    using wf p(3) by (auto simp: arena_wf_def h2_def intro!: clist.fresh_other)
  have c1: "cyc (anodes h2) [page_list p]" by (simp add: h2_def cyc_init)
  have nn: "\<forall>q\<in>set (p # ps). q \<noteq> NULL \<and> PAGE_SIZE dvd unat q"
    using arena_wf_page [OF wf] p by auto
  from insert_page_cyc [OF c1 cy p(3) pg nn] obtain ln where
    ln: "insert_page h2 a p = upd_arena (h2\<lparr>anodes := ln\<rparr>) a (\<lambda>r. r\<lparr>pages := p\<rparr>)"
      "cyc ln (map page_list (p # ps))" by blast
  define h' where "h' = upd_arena (insert_page h2 a p) a (\<lambda>r. r\<lparr>num_pages := num_pages r + 1\<rparr>)"
  have ap: "add_page h a = Inr (p, h')"
    using al al0 p(1) by (simp add: add_page_def ip h'_def)
  have pages': "apages h' q = (if q = p then (apages h p)\<lparr>arena := a, used := replicate 4 0, count := 0\<rparr> else apages h q)" for q
    unfolding h'_def ln(1) by (simp add: h2_def)
  have ar: "arenas h' a = (arenas h a)\<lparr>pages := p, num_pages := num_pages (arenas h a) + 1\<rparr>"
    "\<And>b. b \<noteq> a \<Longrightarrow> arenas h' b = arenas h b"
    unfolding h'_def ln(1) by (simp_all add: h2_def)
  have pm: "apmem h' = s" unfolding h'_def ln(1) by (simp add: h2_def)
  have sl: "slots h' q = (if q = p then {} else slots h q)" for q
    by (simp add: slots_def pages')
  have ok: "page_ok h' a q = page_ok h a q" "full_page h' a q = full_page h a q" if "q \<noteq> p" for q
    using that by (simp_all add: page_ok_def full_page_def sl pages' ar(1))
  have okp: "page_ok h' a p" by (simp add: page_ok_def sl pages')
  have nfull: "\<not> full_page h' a p"
    using max_count_bounds(1) [OF wf] by (auto simp: full_page_def sl ar(1))
  have oth: "q \<noteq> p" if "q \<in> set ps" for q using that p(3) by auto
  have sum: "sum_list (map (\<lambda>q. card (slots h' q)) ps) = sum_list (map (\<lambda>q. card (slots h q)) ps)"
    by (rule arg_cong [where f = sum_list], rule map_cong) (use oth in \<open>auto simp: sl\<close>)
  have pf: "partial_first (full_page h' a) (p # ps)"
    using nfull full ok(2) oth by (auto intro!: partial_first_all)
  have cy': "cyc (anodes h') (map page_list (p # ps))"
    using ln(2) by (simp add: h'_def ln(1))
  have "arena_wf h' a (p # ps)"
    unfolding arena_wf_def
  proof (intro conjI)
    show "\<forall>q\<in>set (p # ps). q \<noteq> NULL \<and> PAGE_SIZE dvd unat q \<and> page_ok h' a q"
      using nn okp ok(1) oth arena_wf_page(3) [OF wf] by auto
    show "num_objects (arenas h' a) = of_nat (sum_list (map (\<lambda>q. card (slots h' q)) (p # ps)))"
    proof -
      have "card (slots h' p) = 0" by (simp add: sl)
      then show ?thesis using wf by (simp add: ar(1) sum arena_wf_def)
    qed
  qed (use wf pf cy' in \<open>auto simp: arena_wf_def ar(1) pages'\<close>)
  with ap show ?thesis by (intro exI [of _ h']) (auto simp: sl pages' ar pm)
qed

text \<open>One page's header changes and the list is reordered.\<close>

lemma arena_wf_update:
  assumes wf: "arena_wf h a ps" and p: "p \<in> set ps"
    and ar: "arenas h' a = (arenas h a)\<lparr>num_objects := n, pages := hd ps'\<rparr>"
    and ap: "apages h' = (apages h)(p := P)"
    and P: "arena P = a" "length (used P) = 4" "bm_bits (used P) \<subseteq> {..<unat (max_count (arenas h a))}"
      "count P = of_nat (card (bm_bits (used P)))"
    and ring: "cyc (anodes h') (map page_list ps')" and perm: "set ps' = set ps" "distinct ps'"
    and pf: "partial_first (full_page h' a) ps'"
    and n: "n + of_nat (card (slots h p)) = num_objects (arenas h a) + of_nat (card (bm_bits (used P)))"
  shows "arena_wf h' a ps'"
  unfolding arena_wf_def
proof (intro conjI)
  have d: "distinct ps" by (rule arena_wf_distinct [OF wf])
  have ne: "ps' \<noteq> []" using perm p by auto
  have sl: "slots h' q = (if q = p then bm_bits (used P) else slots h q)" for q
    by (simp add: slots_def ap)
  have sum: "sum_list (map (\<lambda>q. card (slots g q)) qs) = card (slots g p) + (\<Sum>q\<in>set ps - {p}. card (slots g q))"
    if "set qs = set ps" "distinct qs" for g :: "'a aheap" and qs
    using that p by (simp add: sum_list_distinct_conv_sum_set sum.remove)
  have "(\<Sum>q\<in>set ps - {p}. card (slots h' q)) = (\<Sum>q\<in>set ps - {p}. card (slots h q))"
    by (rule sum.cong) (auto simp: sl)
  with sum [OF perm, of h'] sum [OF refl d, of h] sl [of p]
  have eq: "sum_list (map (\<lambda>q. card (slots h' q)) ps') + card (slots h p) =
      sum_list (map (\<lambda>q. card (slots h q)) ps) + card (bm_bits (used P))"
    by simp
  have "of_nat (sum_list (map (\<lambda>q. card (slots h' q)) ps')) + of_nat (card (slots h p)) =
      n + (of_nat (card (slots h p)) :: u64)"
    unfolding n of_nat_add [symmetric] eq using wf by (simp add: arena_wf_def)
  then show "num_objects (arenas h' a) = of_nat (sum_list (map (\<lambda>q. card (slots h' q)) ps'))"
    by (simp add: ar)
  show "\<forall>q\<in>set ps'. q \<noteq> NULL \<and> PAGE_SIZE dvd unat q \<and> page_ok h' a q"
    using arena_wf_page [OF wf] perm(1) P by (auto simp: page_ok_def sl ar ap)
  show "pages (arenas h' a) = (case ps' of [] \<Rightarrow> NULL | p # _ \<Rightarrow> p)"
    using ne by (cases ps') (simp_all add: ar)
  show "num_pages (arenas h' a) = of_nat (length ps')"
    using wf perm d by (simp add: ar arena_wf_def distinct_card [symmetric])
qed (use wf ring pf P in \<open>auto simp: arena_wf_def ar ap\<close>)

lemma of_nat_card_insert: "finite S \<Longrightarrow> i \<notin> S \<Longrightarrow> of_nat (card (insert i S)) = of_nat (card S) + (1 :: u64)"
  by simp

lemma of_nat_card_remove: "finite S \<Longrightarrow> i \<in> S \<Longrightarrow> of_nat (card (S - {i})) = of_nat (card S) - (1 :: u64)"
  using card.remove [of S i] by simp

text \<open>Where a slot lies, and that the address determines it.\<close>

lemma unat_slot_addr:
  assumes wf: "arena_wf h a ps" and p: "p \<in> set ps" and i: "i < unat (max_count (arenas h a))"
  shows "unat (slot_addr h a p i) = unat p + 64 + i * unat (object_size (arenas h a))"
    and "i * unat (object_size (arenas h a)) + unat (object_size (arenas h a)) \<le> 4032"
    and "unat p + 4096 \<le> 2 ^ 64"
proof -
  let ?o = "unat (object_size (arenas h a))"
  have "Suc i * ?o \<le> unat (max_count (arenas h a)) * ?o" using i by (intro mult_le_mono1) simp
  then show io: "i * ?o + ?o \<le> 4032" using max_count_bounds(3) [OF wf] by simp
  obtain k where k: "unat p = 4096 * k" using arena_wf_page(2) [OF wf p] by (auto elim: dvdE)
  show pb: "unat p + 4096 \<le> 2 ^ 64" using k unat_u64_less [of p] by simp
  have "slot_addr h a p i = of_nat (unat p + 64 + i * ?o)"
    by (simp add: slot_addr_def page_data_def)
  then have "unat (slot_addr h a p i) = unat (of_nat (unat p + 64 + i * ?o) :: u64)" by (rule arg_cong)
  also have "\<dots> = unat p + 64 + i * ?o"
    by (rule unat_of_nat_u64) (use io pb max_count_bounds(3) [OF wf] wf in \<open>simp add: arena_wf_def word_le_nat_alt\<close>)
  finally show "unat (slot_addr h a p i) = unat p + 64 + i * ?o" .
qed

lemma container_of_slot:
  assumes wf: "arena_wf h a ps" and p: "p \<in> set ps" and i: "i < unat (max_count (arenas h a))"
  shows "get_container_page (slot_addr h a p i) = p"
    and "(slot_addr h a p i - page_data p) mod object_size (arenas h a) = 0"
    and "unat ((slot_addr h a p i - page_data p) div object_size (arenas h a)) = i"
proof -
  let ?o = "unat (object_size (arenas h a))"
  note sa = unat_slot_addr [OF wf p i]
  have o: "16 \<le> ?o" using wf by (simp add: arena_wf_def word_le_nat_alt)
  obtain k where k: "unat p = 4096 * k" using arena_wf_page(2) [OF wf p] by (auto elim: dvdE)
  have lt: "64 + i * ?o < 4096" using sa(2) o by linarith
  have "unat (get_container_page (slot_addr h a p i)) =
      (unat p + (64 + i * ?o)) - (unat p + (64 + i * ?o)) mod 4096"
    by (simp add: get_container_page_def unat_round_down sa(1) add.assoc)
  also have "\<dots> = unat p" unfolding k using lt by simp
  finally show "get_container_page (slot_addr h a p i) = p" by (simp add: word_unat_eq_iff)
  have off: "slot_addr h a p i - page_data p = of_nat (i * ?o)" by (simp add: slot_addr_def)
  have un: "unat (of_nat (i * ?o) :: u64) = i * ?o" by (rule unat_of_nat_u64) (use lt in simp)
  show "(slot_addr h a p i - page_data p) mod object_size (arenas h a) = 0"
    unfolding off word_unat_eq_iff unat_mod_distrib un by simp
  show "unat ((slot_addr h a p i - page_data p) div object_size (arenas h a)) = i"
    unfolding off unat_div_distrib un using o by simp
qed

definition held :: "nat \<Rightarrow> SpinLock \<Rightarrow> SpinLock" where
  "held cpu l = l\<lparr>locked := True, lcpu := Some cpu\<rparr>"

lemma lock_arena_free:
  "lock_free (alock (arenas h a)) \<Longrightarrow>
   lock_arena cpu h a = Inr (upd_arena h a (\<lambda>r. r\<lparr>alock := held cpu (alock r)\<rparr>))"
  by (simp add: lock_arena_def held_def upd_arena_def)

lemma unlock_arena_held:
  "lock_free l \<Longrightarrow> alock (arenas h a) = held cpu l \<Longrightarrow>
   unlock_arena cpu h a = Inr (upd_arena h a (\<lambda>r. r\<lparr>alock := l\<rparr>))"
  by (simp add: unlock_arena_def held_def)

lemma find_free_slot:
  assumes wf: "arena_wf h a ps" and p: "p \<in> set ps" and nf: "\<not> full_page h a p"
  shows "\<exists>i. find_slot (used (apages h p)) 0 (unat (max_count (arenas h a))) = Inr (Some i) \<and>
     i < unat (max_count (arenas h a)) \<and> i \<notin> slots h p"
proof -
  let ?m = "unat (max_count (arenas h a))" and ?bm = "used (apages h p)"
  have len: "length ?bm = 4" using wf by (simp add: arena_wf_def)
  have sub: "slots h p \<subseteq> {..<?m}" using arena_wf_page(3) [OF wf p] by (simp add: page_ok_def)
  with nf obtain j where j: "j < ?m" "j \<notin> slots h p" unfolding full_page_def by auto
  let ?i = "LEAST i. 0 \<le> i \<and> i \<notin> bm_bits ?bm"
  have "?i \<le> j" "?i \<notin> bm_bits ?bm"
    using Least_le [of "\<lambda>i. 0 \<le> i \<and> i \<notin> bm_bits ?bm" j] LeastI [of "\<lambda>i. 0 \<le> i \<and> i \<notin> bm_bits ?bm" j] j(2)
    by (auto simp: slots_def)
  moreover have "find_slot ?bm 0 ?m = Inr (Some ?i)"
    using find_slot_spec [of 0 ?m ?bm] max_count_bounds(2) [OF wf] len j by (auto simp: slots_def)
  ultimately show ?thesis using j(1) by (intro exI [of _ ?i]) (auto simp: slots_def)
qed

lemma pages_upd_same:
  "pages r = p \<Longrightarrow> r\<lparr>num_objects := n, pages := p, alock := l\<rparr> = r\<lparr>num_objects := n, alock := l\<rparr>"
  by (cases r) simp

lemma alloc_in_head_ok:
  assumes wf: "arena_wf h a (p # ps)" and nf: "\<not> full_page h a p"
    and lk: "lock_free l" "alock (arenas h a) = held cpu l"
  shows "\<exists>i h' ps'. alloc_in_head cpu h a = Inr (slot_addr h a p i, h') \<and>
     i < unat (max_count (arenas h a)) \<and> i \<notin> slots h p \<and>
     arena_wf h' a ps' \<and> set ps' = set (p # ps) \<and> alock (arenas h' a) = l \<and> apmem h' = apmem h \<and>
     (\<forall>q. slots h' q = (if q = p then insert i (slots h p) else slots h q)) \<and>
     (\<forall>q. q \<noteq> p \<longrightarrow> apages h' q = apages h q) \<and> (\<forall>b. b \<noteq> a \<longrightarrow> arenas h' b = arenas h b) \<and>
     object_size (arenas h' a) = object_size (arenas h a) \<and> allocator (arenas h' a) = allocator (arenas h a)"
proof -
  let ?mc = "max_count (arenas h a)"
  have pin: "p \<in> set (p # ps)" by simp
  obtain i where i: "find_slot (used (apages h p)) 0 (unat ?mc) = Inr (Some i)" "i < unat ?mc" "i \<notin> slots h p"
    using find_free_slot [OF wf pin nf] by blast
  have len: "length (used (apages h p)) = 4" using wf by (simp add: arena_wf_def)
  obtain bm where bm: "bitmap_set (used (apages h p)) i = Inr bm" "bm_bits bm = insert i (slots h p)" "length bm = 4"
    using bmp.set_ok [of i "used (apages h p)"] i(2) max_count_bounds(2) [OF wf] len by (auto simp: slots_def)
  have pg: "pages (arenas h a) = p" "p \<noteq> NULL" using wf arena_wf_page(1) [OF wf pin] by (auto simp: arena_wf_def)
  have ok: "page_ok h a p" by (rule arena_wf_page(3) [OF wf pin])
  define P where "P = (apages h p)\<lparr>used := bm, count := count (apages h p) + 1\<rparr>"
  have P: "arena P = a" "length (used P) = 4" "bm_bits (used P) \<subseteq> {..<unat ?mc}"
    "count P = of_nat (card (bm_bits (used P)))"
    using ok i(2,3) bm by (auto simp: P_def page_ok_def)
  define h4 where "h4 = upd_arena (upd_page h p (\<lambda>_. P)) a (\<lambda>r. r\<lparr>num_objects := num_objects r + 1\<rparr>)"
  define nx where "nx = (if ?mc \<le> count P then list_page (lnext (anodes h) (page_list p)) else p)"
  define h6 where "h6 = upd_arena h4 a (\<lambda>r. r\<lparr>pages := nx, alock := l\<rparr>)"
  have nn: "slot_addr h a p i \<noteq> NULL"
    using unat_slot_addr(1) [OF wf pin i(2)] by (auto simp: unat_eq_zero [symmetric])
  have run: "alloc_in_head cpu h a = Inr (slot_addr h a p i, h6)"
    using pg nn i(1) bm(1) lk(2)
    by (simp add: unlock_arena_held [OF lk(1)] pages_upd_same alloc_in_head_def slot_addr_def Let_def h6_def h4_def P_def nx_def upd_arena_def upd_page_def)
  define ps' where "ps' = (if ?mc \<le> count P then ps @ [p] else p # ps)"
  have cy: "cyc (anodes h) (map page_list (p # ps))" using wf by (simp add: arena_wf_def)
  have nx: "nx = hd ps'"
    using cycD(1) [of "anodes h" "page_list p" "map page_list ps"] cy
    by (cases ps) (auto simp: nx_def ps'_def)
  have sl: "slots h6 q = (if q = p then insert i (slots h p) else slots h q)" for q
    by (simp add: slots_def h6_def h4_def P_def bm(2))
  have wfk: "arena_wf (upd_arena h6 a (\<lambda>r. r\<lparr>alock := alock (arenas h a)\<rparr>)) a ps'"
  proof (rule arena_wf_update [OF wf pin])
    let ?h = "upd_arena h6 a (\<lambda>r. r\<lparr>alock := alock (arenas h a)\<rparr>)"
    show "arenas ?h a = (arenas h a)\<lparr>num_objects := num_objects (arenas h a) + 1, pages := hd ps'\<rparr>"
      by (simp add: h6_def h4_def nx)
    show "apages ?h = (apages h)(p := P)" by (auto simp: h6_def h4_def)
    show "cyc (anodes ?h) (map page_list ps')"
      using cy cyc_rotate [of "anodes h" "[page_list p]" "map page_list ps"]
      by (simp add: h6_def h4_def ps'_def)
    show "set ps' = set (p # ps)" "distinct ps'"
      using arena_wf_distinct [OF wf] by (auto simp: ps'_def)
    show "num_objects (arenas h a) + 1 + of_nat (card (slots h p)) =
        num_objects (arenas h a) + of_nat (card (bm_bits (used P)))"
      using i(3) by (simp add: P_def bm(2))
    have oth: "full_page ?h a q = full_page h a q" if "q \<in> set ps" for q
    proof -
      have "q \<noteq> p" using that arena_wf_distinct [OF wf] by auto
      then show ?thesis by (simp add: full_page_def slots_def h6_def h4_def)
    qed
    have okp: "page_ok ?h a p" using P by (simp add: page_ok_def slots_def h6_def h4_def)
    have fp: "full_page ?h a p \<longleftrightarrow> ?mc \<le> count P"
      using count_full_iff [OF okp] by (simp add: h6_def h4_def)
    have "partial_first (full_page h a) ps" using wf nf by (simp add: arena_wf_def)
    then have "partial_first (full_page ?h a) ps" using partial_first_cong [of ps "full_page ?h a"] oth by blast
    then show "partial_first (full_page ?h a) ps'"
      using fp by (auto simp: ps'_def intro: partial_first_snoc)
  qed (use P in auto)
  have "arena_wf h6 a ps'"
    using arena_wf_lock [of h6 a "\<lambda>_. alock (arenas h a)" ps'] wfk by simp
  moreover have "set ps' = set (p # ps)" by (auto simp: ps'_def)
  ultimately show ?thesis
    using run i(2,3) sl
    by (intro exI [of _ i] exI [of _ h6] exI [of _ ps']) (simp add: h6_def h4_def)
qed

lemma pages_same: "pages r = p \<Longrightarrow> r\<lparr>pages := p\<rparr> = r"
  by (cases r) simp

lemma upd_arena_same: "f (arenas h a) = arenas h a \<Longrightarrow> upd_arena h a f = h"
  by (cases h) (simp add: upd_arena_def)

lemma move_page_to_head_ring:
  assumes cy: "cyc (anodes h) (map page_list (xs @ p # ys))" and d: "distinct (xs @ p # ys)"
    and nn: "\<forall>q\<in>set (xs @ p # ys). q \<noteq> NULL \<and> PAGE_SIZE dvd unat q"
    and pg: "pages (arenas h a) = hd (xs @ [p])"
  shows "\<exists>ln. move_page_to_head h a p = upd_arena (h\<lparr>anodes := ln\<rparr>) a (\<lambda>r. r\<lparr>pages := p\<rparr>) \<and>
      cyc ln (map page_list (p # xs @ ys))"
proof (cases xs)
  case Nil
  then show ?thesis
    using cy pg by (intro exI [of _ "anodes h"]) (simp add: move_page_to_head_def upd_arena_same pages_same)
next
  case (Cons x xs')
  define h1 where "h1 = h\<lparr>anodes := snd (detach_from_list (anodes h) (page_list p))\<rparr>"
  have ne: "pages (arenas h a) \<noteq> p" using pg d Cons by auto
  have 1: "cyc (anodes h1) [page_list p]"
    using clist.ring_cut_self [of "anodes h" "page_list p" "map page_list (ys @ xs)"]
      clist.ring_rotate [of "anodes h" "map page_list xs" "map page_list (p # ys)"] cy
    by (simp add: h1_def)
  have 2: "cyc (anodes h1) (map page_list (xs @ ys))"
    using clist.remove_middle [of "anodes h" "page_list x" "map page_list xs'" "page_list p" "map page_list ys"] cy Cons
    by (simp add: h1_def)
  have 3: "pages (arenas h1 a) = (case xs @ ys of [] \<Rightarrow> NULL | q # _ \<Rightarrow> q)"
    using pg Cons by (simp add: h1_def)
  have "\<exists>ln. insert_page h1 a p = upd_arena (h1\<lparr>anodes := ln\<rparr>) a (\<lambda>r. r\<lparr>pages := p\<rparr>) \<and>
      cyc ln (map page_list (p # xs @ ys))"
    by (rule insert_page_cyc [OF 1 _ _ 3]) (use 2 d nn in auto)
  moreover have "move_page_to_head h a p = insert_page h1 a p"
    using ne by (simp add: move_page_to_head_def h1_def)
  ultimately show ?thesis by (simp add: h1_def)
qed

lemma free_object_ok:
  assumes wf: "arena_wf h a ps" and p: "p \<in> set ps" and i: "i \<in> slots h p"
    and lk: "lock_free (alock (arenas h a))"
  shows "\<exists>h'. free_object cpu h (slot_addr h a p i) = Inr h' \<and>
     arena_wf h' a (p # remove1 p ps) \<and> alock (arenas h' a) = alock (arenas h a) \<and> apmem h' = apmem h \<and>
     (\<forall>q. slots h' q = (if q = p then slots h p - {i} else slots h q)) \<and>
     (\<forall>q. q \<noteq> p \<longrightarrow> apages h' q = apages h q) \<and> (\<forall>b. b \<noteq> a \<longrightarrow> arenas h' b = arenas h b) \<and>
     object_size (arenas h' a) = object_size (arenas h a) \<and> allocator (arenas h' a) = allocator (arenas h a)"
proof -
  let ?mc = "max_count (arenas h a)" and ?l = "alock (arenas h a)"
  have ok: "page_ok h a p" by (rule arena_wf_page(3) [OF wf p])
  have im: "i < unat ?mc" using i ok by (auto simp: page_ok_def)
  have len: "length (used (apages h p)) = 4" using wf by (simp add: arena_wf_def)
  have i64: "i < 64 * length (used (apages h p))" using im max_count_bounds(2) [OF wf] len by simp
  have get: "bitmap_get (used (apages h p)) i = Inr True"
    using bmp.get_eq [OF i64] i by (simp add: slots_def)
  obtain bm where bm: "bitmap_clear (used (apages h p)) i = Inr bm" "bm_bits bm = slots h p - {i}" "length bm = 4"
    using bmp.clear_ok [OF i64] len by (auto simp: slots_def)
  note cs = container_of_slot [OF wf p im]
  define P where "P = (apages h p)\<lparr>used := bm, count := count (apages h p) - 1\<rparr>"
  have P: "arena P = a" "length (used P) = 4" "bm_bits (used P) \<subseteq> {..<unat ?mc}"
    "count P = of_nat (card (bm_bits (used P)))"
    using ok i bm of_nat_card_remove [OF finite_slots i] by (auto simp: P_def page_ok_def)
  define h3 where "h3 = upd_arena (upd_page h p (\<lambda>_. P)) a
     (\<lambda>r. r\<lparr>alock := held cpu ?l, num_objects := num_objects r - 1\<rparr>)"
  have d: "distinct ps" by (rule arena_wf_distinct [OF wf])
  obtain xs ys where ps: "ps = xs @ p # ys" using p by (meson split_list)
  have rem: "remove1 p ps = xs @ ys" using d by (simp add: ps remove1_append)
  have cy: "cyc (anodes h3) (map page_list (xs @ p # ys))"
    using wf ps by (simp add: arena_wf_def h3_def)
  have nn: "\<forall>q\<in>set (xs @ p # ys). q \<noteq> NULL \<and> PAGE_SIZE dvd unat q"
    using arena_wf_page [OF wf] ps by auto
  have pg: "pages (arenas h3 a) = hd (xs @ [p])"
    using wf ps by (cases xs) (simp_all add: arena_wf_def h3_def)
  obtain ln where ln: "move_page_to_head h3 a p = upd_arena (h3\<lparr>anodes := ln\<rparr>) a (\<lambda>r. r\<lparr>pages := p\<rparr>)"
    "cyc ln (map page_list (p # xs @ ys))"
    using move_page_to_head_ring [OF cy d [unfolded ps] nn pg] by blast
  define h5 where "h5 = upd_arena (upd_page (h\<lparr>anodes := ln\<rparr>) p (\<lambda>_. P)) a
     (\<lambda>r. r\<lparr>num_objects := num_objects r - 1, pages := p\<rparr>)"
  have un: "unlock_arena cpu (move_page_to_head h3 a p) a = Inr h5"
    unfolding ln(1) using lk
    by (simp add: unlock_arena_held [where l = ?l] h3_def) (simp add: h5_def upd_arena_def upd_page_def)
  have run: "free_object cpu h (slot_addr h a p i) = Inr h5"
    using cs get bm(1) ok un lk
    by (simp add: free_object_def Let_def lock_arena_free page_ok_def h3_def P_def upd_arena_def upd_page_def)
  have sl: "slots h5 q = (if q = p then slots h p - {i} else slots h q)" for q
    by (simp add: slots_def h5_def P_def bm(2))
  have "arena_wf h5 a (p # xs @ ys)"
  proof (rule arena_wf_update [OF wf p])
    show "arenas h5 a = (arenas h a)\<lparr>num_objects := num_objects (arenas h a) - 1, pages := hd (p # xs @ ys)\<rparr>"
      by (simp add: h5_def)
    show "apages h5 = (apages h)(p := P)" by (auto simp: h5_def)
    show "num_objects (arenas h a) - 1 + of_nat (card (slots h p)) =
        num_objects (arenas h a) + of_nat (card (bm_bits (used P)))"
      using of_nat_card_remove [OF finite_slots i] by (simp add: P_def bm(2))
    have oth: "full_page h5 a q = full_page h a q" if "q \<in> set (xs @ ys)" for q
    proof -
      have "q \<noteq> p" using that d ps by auto
      then show ?thesis by (simp add: full_page_def slots_def h5_def)
    qed
    have "partial_first (full_page h a) (xs @ p # ys)" using wf ps by (simp add: arena_wf_def)
    then have "partial_first (full_page h a) (xs @ ys)" by (rule partial_first_remove)
    then have "partial_first (full_page h5 a) (xs @ ys)"
      using partial_first_cong [of "xs @ ys" "full_page h5 a"] oth by blast
    moreover have "\<not> full_page h5 a p"
    proof
      assume "full_page h5 a p"
      then have "slots h p - {i} = {..<unat ?mc}" by (simp add: full_page_def sl) (simp add: h5_def)
      with im show False by blast
    qed
    ultimately show "partial_first (full_page h5 a) (p # xs @ ys)" by simp
  qed (use P ln(2) d ps in \<open>auto simp: h5_def\<close>)
  with run sl show ?thesis unfolding rem by (intro exI [of _ h5]) (simp add: h5_def)
qed

text \<open>A quiescent arena over a page allocator with live pages \<open>live\<close> and invariant \<open>okay\<close>.\<close>

definition arena_ok :: "('s \<Rightarrow> addr set) \<Rightarrow> ('s \<Rightarrow> bool) \<Rightarrow> 's aheap \<Rightarrow> addr \<Rightarrow> addr list \<Rightarrow> bool" where
  "arena_ok live okay h a ps \<longleftrightarrow> arena_wf h a ps \<and> lock_free (alock (arenas h a)) \<and>
     okay (apmem h) \<and> set ps \<subseteq> live (apmem h)"

lemma slot_addr_in_objects:
  assumes wf: "arena_wf h a ps" and p: "p \<in> set ps" and i: "i < unat (max_count (arenas h a))"
  shows "slot_addr h a p i \<in> aobjects h a ps \<longleftrightarrow> i \<in> slots h p"
proof
  assume "slot_addr h a p i \<in> aobjects h a ps"
  then obtain q j where q: "q \<in> set ps" "j \<in> slots h q" "slot_addr h a p i = slot_addr h a q j"
    by (auto simp: aobjects_def)
  have j: "j < unat (max_count (arenas h a))"
    using arena_wf_page(3) [OF wf q(1)] q(2) by (auto simp: page_ok_def)
  have "p = q" using container_of_slot(1) [OF wf p i] container_of_slot(1) [OF wf q(1) j] q(3) by metis
  moreover have "i = j"
    using container_of_slot(3) [OF wf p i] container_of_slot(3) [OF wf q(1) j] q(3) \<open>p = q\<close> by metis
  ultimately show "i \<in> slots h p" using q(2) by simp
qed (use p in \<open>auto simp: aobjects_def\<close>)

lemma slot_addr_inj:
  assumes wf: "arena_wf h a ps"
  shows "inj_on (\<lambda>(p, i). slot_addr h a p i) (SIGMA q:set ps. slots h q)"
proof (rule inj_onI, clarify)
  fix q j q' j'
  assume q: "q \<in> set ps" "j \<in> slots h q" "q' \<in> set ps" "j' \<in> slots h q'" "slot_addr h a q j = slot_addr h a q' j'"
  have m: "j < unat (max_count (arenas h a))" if "q \<in> set ps" "j \<in> slots h q" for q j
    using arena_wf_page(3) [OF wf that(1)] that(2) by (auto simp: page_ok_def)
  show "q = q' \<and> j = j'"
    using container_of_slot(1,3) [OF wf q(1) m [OF q(1,2)]] container_of_slot(1,3) [OF wf q(3) m [OF q(3,4)]] q(5)
    by metis
qed

text \<open>The counter of the arena is the number of its live objects, at most as many as its pages hold and exactly as many if all of them are full.\<close>

lemma card_aobjects:
  assumes wf: "arena_wf h a ps"
  shows "card (aobjects h a ps) = (\<Sum>p\<in>set ps. card (slots h p))" "num_objects (arenas h a) = of_nat (card (aobjects h a ps))"
    "card (aobjects h a ps) \<le> length ps * unat (max_count (arenas h a))"
    "(\<forall>p\<in>set ps. full_page h a p) \<longleftrightarrow> card (aobjects h a ps) = length ps * unat (max_count (arenas h a))"
proof -
  let ?m = "unat (max_count (arenas h a))"
  show c: "card (aobjects h a ps) = (\<Sum>p\<in>set ps. card (slots h p))"
    unfolding aobjects_def card_image [OF slot_addr_inj [OF wf]] by (simp add: card_SigmaI)
  have d: "distinct ps" by (rule arena_wf_distinct [OF wf])
  then show "num_objects (arenas h a) = of_nat (card (aobjects h a ps))"
    using wf c by (simp add: arena_wf_def sum_list_distinct_conv_sum_set)
  have l: "card (set ps) = length ps" using d by (rule distinct_card)
  have sub: "card (slots h p) \<le> ?m" if "p \<in> set ps" for p using card_slots_le arena_wf_page(3) [OF wf that] .
  have full: "full_page h a p \<longleftrightarrow> card (slots h p) = ?m" if "p \<in> set ps" for p
    using arena_wf_page(3) [OF wf that] card_subset_eq [of "{..<?m}" "slots h p"] by (auto simp: page_ok_def full_page_def)
  show "card (aobjects h a ps) \<le> length ps * ?m" unfolding c using sum_bounded_above [of "set ps" "\<lambda>p. card (slots h p)" ?m] sub l by simp
  have "(\<forall>p\<in>set ps. card (slots h p) = ?m) \<longleftrightarrow> (\<Sum>p\<in>set ps. card (slots h p)) = length ps * ?m"
  proof
    assume e: "(\<Sum>p\<in>set ps. card (slots h p)) = length ps * ?m"
    show "\<forall>p\<in>set ps. card (slots h p) = ?m"
    proof (rule ccontr)
      assume "\<not> (\<forall>p\<in>set ps. card (slots h p) = ?m)"
      then obtain p where "p \<in> set ps" "card (slots h p) < ?m" using sub nat_less_le by blast
      then have "(\<Sum>p\<in>set ps. card (slots h p)) < (\<Sum>p\<in>set ps. ?m)" using sub by (intro sum_strict_mono_ex1) auto
      with e l show False by simp
    qed
  qed (simp add: l)
  then show "(\<forall>p\<in>set ps. full_page h a p) \<longleftrightarrow> card (aobjects h a ps) = length ps * ?m" using c full by simp
qed

lemma aobjects_insert:
  assumes "set ps' = insert p (set ps)" "object_size (arenas h' a) = object_size (arenas h a)"
    and "\<forall>q\<in>set ps'. slots h' q = (if q = p then insert i (if p \<in> set ps then slots h p else {}) else slots h q)"
  shows "aobjects h' a ps' = insert (slot_addr h a p i) (aobjects h a ps)"
proof -
  have "(SIGMA q:set ps'. slots h' q) = insert (p, i) (SIGMA q:set ps. slots h q)"
    using assms by (auto split: if_splits)
  moreover have "slot_addr h' a = slot_addr h a" using assms(2) by (simp add: slot_addr_def fun_eq_iff)
  ultimately show ?thesis by (simp add: aobjects_def)
qed

lemma aobjects_delete:
  assumes wf: "arena_wf h a ps" and p: "p \<in> set ps" and i: "i \<in> slots h p"
    and "set ps' = set ps" "object_size (arenas h' a) = object_size (arenas h a)"
    and "\<forall>q\<in>set ps'. slots h' q = (if q = p then slots h p - {i} else slots h q)"
  shows "aobjects h' a ps' = aobjects h a ps - {slot_addr h a p i}"
proof -
  have "(SIGMA q:set ps'. slots h' q) = (SIGMA q:set ps. slots h q) - {(p, i)}"
    using assms(4,6) by (auto split: if_splits)
  moreover have "slot_addr h' a = slot_addr h a" using assms(5) by (simp add: slot_addr_def fun_eq_iff)
  ultimately show ?thesis
    using p i slot_addr_inj [OF wf] by (simp add: aobjects_def inj_on_image_set_diff [where C = "SIGMA q:set ps. slots h q"])
qed

lemma objects_disjoint:
  assumes wf: "arena_wf h a ps" and x: "x \<in> aobjects h a ps" and y: "y \<in> aobjects h a ps" and ne: "x \<noteq> y"
  shows "unat x + unat (object_size (arenas h a)) \<le> unat y \<or> unat y + unat (object_size (arenas h a)) \<le> unat x"
proof -
  let ?o = "unat (object_size (arenas h a))" and ?m = "unat (max_count (arenas h a))"
  have dest: "\<exists>p i k. p \<in> set ps \<and> i < ?m \<and> z = slot_addr h a p i \<and> unat p = 4096 * k"
    if z: "z \<in> aobjects h a ps" for z
  proof -
    obtain p i where p: "p \<in> set ps" "i \<in> slots h p" "z = slot_addr h a p i" using z by (auto simp: aobjects_def)
    moreover have "i < ?m" using arena_wf_page(3) [OF wf p(1)] p(2) by (auto simp: page_ok_def)
    moreover obtain k where "unat p = 4096 * k" using arena_wf_page(2) [OF wf p(1)] by (auto elim: dvdE)
    ultimately show ?thesis by blast
  qed
  obtain p i k where p: "p \<in> set ps" "i < ?m" "x = slot_addr h a p i" "unat p = 4096 * k" using dest [OF x] by blast
  obtain q j l where q: "q \<in> set ps" "j < ?m" "y = slot_addr h a q j" "unat q = 4096 * l" using dest [OF y] by blast
  note sp = unat_slot_addr [OF wf p(1,2), folded p(3)] and sq = unat_slot_addr [OF wf q(1,2), folded q(3)]
  consider "k < l" | "l < k" | "k = l" "i < j" | "k = l" "j < i" | "k = l" "i = j" by linarith
  then show ?thesis
  proof cases
    case 1
    then show ?thesis using sp sq p(4) q(4) by linarith
  next
    case 2
    then show ?thesis using sp sq p(4) q(4) by linarith
  next
    case 3
    then have "Suc i * ?o \<le> j * ?o" by (intro mult_le_mono1) simp
    then show ?thesis using sp(1) sq(1) p(4) q(4) 3(1) by simp
  next
    case 4
    then have "Suc j * ?o \<le> i * ?o" by (intro mult_le_mono1) simp
    then show ?thesis using sp(1) sq(1) p(4) q(4) 4(1) by simp
  next
    case 5
    then have "unat x = unat y" using sp(1) sq(1) p(4) q(4) by simp
    with ne show ?thesis by (simp add: word_unat_eq_iff)
  qed
qed

lemma aobjects_new_page:
  assumes "slots h2 p = {}" "\<And>q. q \<in> set ps \<Longrightarrow> apages h2 q = apages h q" "object_size (arenas h2 a) = object_size (arenas h a)"
  shows "aobjects h2 a (p # ps) = aobjects h a ps"
proof -
  have "slot_addr h2 a = slot_addr h a" using assms(3) by (simp add: slot_addr_def fun_eq_iff)
  moreover have "slots h2 q = slots h q" if "q \<in> set ps" for q using assms(2) [OF that] by (simp add: slots_def)
  ultimately show ?thesis using assms(1) by (auto simp: aobjects_def)
qed

context page_allocator
begin

text \<open>The two ways of \<open>alloc_object\<close> end alike: the object comes from a page at the head of the list that is not full.\<close>

lemma alloc_from_head:
  assumes wf: "arena_wf g a (p # qs)" and nf: "\<not> full_page g a p" and lf: "lock_free l" and lk: "alock (arenas g a) = held cpu l"
    and inv: "okay (apmem g)" and sub: "set (p # qs) \<subseteq> live (apmem g)"
  shows "\<exists>obj h' ps'. alloc_in_head cpu g a = Inr (obj, h') \<and> arena_ok live okay h' a ps' \<and> obj \<notin> aobjects g a (p # qs) \<and>
    aobjects h' a ps' = insert obj (aobjects g a (p # qs)) \<and> set ps' = set (p # qs) \<and>
    allocator (arenas h' a) = allocator (arenas g a) \<and> object_size (arenas h' a) = object_size (arenas g a) \<and>
    apmem h' = apmem g \<and> (\<forall>q. q \<noteq> p \<longrightarrow> apages h' q = apages g q) \<and> (\<forall>b. b \<noteq> a \<longrightarrow> arenas h' b = arenas g b)"
proof -
  from alloc_in_head_ok [OF wf nf lf lk] obtain i h' ps' where
    r: "alloc_in_head cpu g a = Inr (slot_addr g a p i, h')" "i < unat (max_count (arenas g a))" "i \<notin> slots g p"
      "arena_wf h' a ps'" "set ps' = set (p # qs)" "alock (arenas h' a) = l" "apmem h' = apmem g"
      "\<forall>q. slots h' q = (if q = p then insert i (slots g p) else slots g q)"
      "\<forall>q. q \<noteq> p \<longrightarrow> apages h' q = apages g q" "\<forall>b. b \<noteq> a \<longrightarrow> arenas h' b = arenas g b"
      "object_size (arenas h' a) = object_size (arenas g a)" "allocator (arenas h' a) = allocator (arenas g a)"
    by metis
  have "slot_addr g a p i \<notin> aobjects g a (p # qs)" using slot_addr_in_objects [OF wf _ r(2)] r(3) by simp
  moreover have "aobjects h' a ps' = insert (slot_addr g a p i) (aobjects g a (p # qs))"
    by (rule aobjects_insert) (use r in auto)
  moreover have "arena_ok live okay h' a ps'" using r lf inv sub by (simp add: arena_ok_def)
  ultimately show ?thesis using r by blast
qed

lemma head_full_iff:
  assumes "arena_wf h a ps"
  shows "(pages (arenas h a) = NULL \<or> max_count (arenas h a) \<le> count (apages h (pages (arenas h a)))) \<longleftrightarrow> (\<forall>p\<in>set ps. full_page h a p)"
proof (cases ps)
  case Nil
  then show ?thesis using assms by (simp add: arena_wf_def)
next
  case (Cons p qs)
  have "page_ok h a p" using arena_wf_page(3) [OF assms, of p] Cons by simp
  then show ?thesis using assms count_full_iff [of h a p] Cons by (auto simp: arena_wf_def)
qed

lemma arena_alloc:
  assumes ok: "arena_ok live okay h a ps" and af: "allocate_fn (allocator (arenas h a)) = allocate"
  shows "case alloc_object cpu h a of
      Inl e \<Rightarrow> (\<forall>p\<in>set ps. full_page h a p) \<and> allocate (apmem h) = Inl e
    | Inr (obj, h') \<Rightarrow> \<exists>ps'. arena_ok live okay h' a ps' \<and> obj \<notin> aobjects h a ps \<and>
        aobjects h' a ps' = insert obj (aobjects h a ps) \<and> set ps \<subseteq> set ps' \<and>
        allocator (arenas h' a) = allocator (arenas h a) \<and> object_size (arenas h' a) = object_size (arenas h a) \<and>
        pool (apmem h') = pool (apmem h) \<and>
        (set ps' = set ps \<and> apmem h' = apmem h \<or>
         (\<forall>p\<in>set ps. full_page h a p) \<and> (\<exists>p. p \<notin> set ps \<and> set ps' = insert p (set ps) \<and> allocate (apmem h) = Inr (p, apmem h'))) \<and>
        (\<forall>q. q \<notin> set ps' \<longrightarrow> apages h' q = apages h q) \<and> (\<forall>b. b \<noteq> a \<longrightarrow> arenas h' b = arenas h b)"
proof -
  let ?l = "alock (arenas h a)"
  define h1 where "h1 = upd_arena h a (\<lambda>r. r\<lparr>alock := held cpu ?l\<rparr>)"
  have wf: "arena_wf h a ps" and lf: "lock_free ?l" and inv: "okay (apmem h)" and sub: "set ps \<subseteq> live (apmem h)"
    using ok by (auto simp: arena_ok_def)
  have wf1: "arena_wf h1 a ps" using wf by (simp add: h1_def)
  have lk: "lock_arena cpu h a = Inr h1" using lf by (simp add: lock_arena_free h1_def upd_arena_def)
  have h1s: "apages h1 = apages h" "apmem h1 = apmem h" "alock (arenas h1 a) = held cpu ?l"
    "object_size (arenas h1 a) = object_size (arenas h a)" "allocator (arenas h1 a) = allocator (arenas h a)"
    "full_page h1 a = full_page h a" "aobjects h1 a = aobjects h a" "\<And>b. b \<noteq> a \<Longrightarrow> arenas h1 b = arenas h b"
    by (auto simp: h1_def slots_def full_page_def aobjects_def slot_addr_def fun_eq_iff)
  note need = head_full_iff [OF wf1, unfolded h1s(6)]
  show ?thesis
  proof (cases "\<forall>p\<in>set ps. full_page h a p")
    case False
    then obtain p qs where ps: "ps = p # qs" by (cases ps) auto
    have nf: "\<not> full_page h1 a p" using False wf h1s(6) ps by (auto simp: arena_wf_def)
    have run: "alloc_object cpu h a = alloc_in_head cpu h1 a" using need False by (simp add: alloc_object_def lk)
    obtain obj h' ps' where r: "alloc_in_head cpu h1 a = Inr (obj, h')" "arena_ok live okay h' a ps'" "obj \<notin> aobjects h a ps"
        "aobjects h' a ps' = insert obj (aobjects h a ps)" "set ps' = set ps"
        "allocator (arenas h' a) = allocator (arenas h1 a)" "object_size (arenas h' a) = object_size (arenas h1 a)"
        "apmem h' = apmem h1" "\<forall>q. q \<noteq> p \<longrightarrow> apages h' q = apages h1 q" "\<forall>b. b \<noteq> a \<longrightarrow> arenas h' b = arenas h1 b"
      using alloc_from_head [OF wf1 [unfolded ps] nf lf h1s(3)] inv sub unfolding ps h1s(2,7) by auto
    then show ?thesis unfolding run r(1) using h1s ps by auto
  next
    case full: True
    show ?thesis
    proof (cases "allocate (apmem h)")
      case (Inl e)
      then have "alloc_object cpu h a = Inl e"
        using need full by (simp add: alloc_object_def lk add_page_def h1s af)
      with full Inl show ?thesis by simp
    next
      case (Inr x)
      obtain p s where al: "allocate (apmem h) = Inr (p, s)" using Inr by (cases x) auto
      have fresh: "p \<notin> live (apmem h)" "live s = insert p (live (apmem h))" "okay s" "pool s = pool (apmem h)"
        using allocate_ok [OF inv al] by auto
      have pn: "p \<noteq> NULL" "PAGE_SIZE dvd unat p" using allocate_fresh [OF inv al] by auto
      have pp: "p \<notin> set ps" using fresh sub by auto
      have al1: "allocate_fn (allocator (arenas h1 a)) (apmem h1) = Inr (p, s)" using al af h1s by simp
      from add_page_wf [OF wf1 _ al1 pn pp] full h1s obtain h2 where
        2: "add_page h1 a = Inr (p, h2)" "arena_wf h2 a (p # ps)" "slots h2 p = {}" "apmem h2 = s"
          "\<forall>q. q \<noteq> p \<longrightarrow> apages h2 q = apages h1 q" "\<forall>b. b \<noteq> a \<longrightarrow> arenas h2 b = arenas h1 b"
          "object_size (arenas h2 a) = object_size (arenas h1 a)" "alock (arenas h2 a) = alock (arenas h1 a)"
          "allocator (arenas h2 a) = allocator (arenas h1 a)"
        by auto
      have nf: "\<not> full_page h2 a p" using max_count_bounds(1) [OF 2(2)] 2(3) by (auto simp: full_page_def)
      have run: "alloc_object cpu h a = alloc_in_head cpu h2 a"
        using need full 2(1) by (simp add: alloc_object_def lk)
      have same: "aobjects h2 a (p # ps) = aobjects h a ps"
        by (rule aobjects_new_page) (use 2(3,5,7) h1s(1,4) pp in \<open>simp_all, metis\<close>)
      have lk2: "alock (arenas h2 a) = held cpu ?l" using 2(8) h1s(3) by simp
      have live2: "okay (apmem h2)" "set (p # ps) \<subseteq> live (apmem h2)" using fresh sub 2(4) by auto
      obtain obj h' ps' where r: "alloc_in_head cpu h2 a = Inr (obj, h')" "arena_ok live okay h' a ps'" "obj \<notin> aobjects h a ps"
          "aobjects h' a ps' = insert obj (aobjects h a ps)" "set ps' = set (p # ps)"
          "allocator (arenas h' a) = allocator (arenas h2 a)" "object_size (arenas h' a) = object_size (arenas h2 a)"
          "apmem h' = apmem h2" "\<forall>q. q \<noteq> p \<longrightarrow> apages h' q = apages h2 q" "\<forall>b. b \<noteq> a \<longrightarrow> arenas h' b = arenas h2 b"
        using alloc_from_head [OF 2(2) nf lf lk2 live2] unfolding same by blast
      then show ?thesis unfolding run r(1) using 2 h1s fresh(4) full pp al by auto
    qed
  qed
qed

lemma arena_free:
  assumes ok: "arena_ok live okay h a ps" and obj: "obj \<in> aobjects h a ps"
  shows "\<exists>h' ps'. free_object cpu h obj = Inr h' \<and> arena_ok live okay h' a ps' \<and>
     aobjects h' a ps' = aobjects h a ps - {obj} \<and> set ps' = set ps \<and>
     allocator (arenas h' a) = allocator (arenas h a) \<and> object_size (arenas h' a) = object_size (arenas h a) \<and>
     apmem h' = apmem h \<and>
     (\<forall>q. q \<notin> set ps' \<longrightarrow> apages h' q = apages h q) \<and> (\<forall>b. b \<noteq> a \<longrightarrow> arenas h' b = arenas h b)"
proof -
  have wf: "arena_wf h a ps" and lf: "lock_free (alock (arenas h a))" and inv: "okay (apmem h)"
    and sub: "set ps \<subseteq> live (apmem h)"
    using ok by (auto simp: arena_ok_def)
  from obj obtain p i where p: "p \<in> set ps" "i \<in> slots h p" "obj = slot_addr h a p i"
    by (auto simp: aobjects_def)
  have st: "set (p # remove1 p ps) = set ps"
    using p(1) arena_wf_distinct [OF wf] by auto
  from free_object_ok [OF wf p(1,2) lf, of cpu] obtain h' where
    r: "free_object cpu h obj = Inr h'" "arena_wf h' a (p # remove1 p ps)"
      "alock (arenas h' a) = alock (arenas h a)" "apmem h' = apmem h"
      "\<forall>q. slots h' q = (if q = p then slots h p - {i} else slots h q)"
      "\<forall>q. q \<noteq> p \<longrightarrow> apages h' q = apages h q" "\<forall>b. b \<noteq> a \<longrightarrow> arenas h' b = arenas h b"
      "object_size (arenas h' a) = object_size (arenas h a)" "allocator (arenas h' a) = allocator (arenas h a)"
    using p(3) by auto
  have "aobjects h' a (p # remove1 p ps) = aobjects h a ps - {obj}"
    unfolding p(3) by (rule aobjects_delete [OF wf p(1,2) st r(8)]) (use r(5) in auto)
  moreover have "arena_ok live okay h' a (p # remove1 p ps)"
    unfolding arena_ok_def st using r lf inv sub by simp
  ultimately show ?thesis
    using r st p(1) by (intro exI [of _ h'] exI [of _ "p # remove1 p ps"]) auto
qed

text \<open>Walking the ring frees every page once.\<close>

lemma clear_loop_frees:
  assumes "chain ln (map page_list ps @ [head])" "ps \<noteq> []" "distinct ps" "head \<notin> page_list ` set (tl ps)"
    and "okay s" "set ps \<subseteq> live s" "free_fn al = deallocate"
  shows "\<exists>s'. clear_loop al ln head (page_list (hd ps)) s = Some (Inr s') \<and> okay s' \<and> live s' = live s - set ps"
  using assms
proof (induction ps arbitrary: s)
  case Nil
  then show ?case by simp
next
  case (Cons p ps)
  obtain s1 where s1: "deallocate s p = Inr s1" "live s1 = live s - {p}" "okay s1"
    using deallocate_ok [of s p] Cons.prems by auto
  have nx: "lnext ln (page_list p) = hd (map page_list ps @ [head])"
    using Cons.prems(1) by (cases ps) (auto simp: linked_def)
  have step: "clear_loop al ln head (page_list p) s =
      (if hd (map page_list ps @ [head]) \<noteq> head
       then clear_loop al ln head (hd (map page_list ps @ [head])) s1 else Some (Inr s1))"
    using s1(1) Cons.prems(7) nx by (simp add: clear_loop.simps [of al ln head "page_list p" s])
  show ?case
  proof (cases ps)
    case Nil
    then show ?thesis using step s1 by simp
  next
    case (Cons q qs)
    have ne: "page_list q \<noteq> head" using Cons.prems(4) Cons by auto
    have "\<exists>s'. clear_loop al ln head (page_list (hd ps)) s1 = Some (Inr s') \<and> okay s' \<and> live s' = live s1 - set ps"
    proof (rule Cons.IH)
      show "chain ln (map page_list ps @ [head])"
        using Cons.prems(1) by (simp add: chain_Cons)
    qed (use Cons.prems s1 \<open>ps = q # qs\<close> in auto)
    then show ?thesis using step ne s1(2) \<open>ps = q # qs\<close> by auto
  qed
qed

lemma arena_clear:
  assumes ok: "arena_ok live okay h a ps" and ff: "free_fn (allocator (arenas h a)) = deallocate"
  shows "\<exists>h'. clear_arena cpu h a = Some (Inr h') \<and> arena_ok live okay h' a [] \<and>
     aobjects h' a [] = {} \<and> live (apmem h') = live (apmem h) - set ps"
proof -
  let ?l = "alock (arenas h a)"
  have wf: "arena_wf h a ps" and lf: "lock_free ?l" and inv: "okay (apmem h)" and sub: "set ps \<subseteq> live (apmem h)"
    using ok by (auto simp: arena_ok_def)
  show ?thesis
  proof (cases ps)
    case Nil
    then have "pages (arenas h a) = NULL" using wf by (simp add: arena_wf_def)
    then have "clear_arena cpu h a = Some (Inr h)"
      using lf by (simp add: clear_arena_def lock_arena_free unlock_arena_held [of ?l]) (simp add: upd_arena_def)
    with ok Nil show ?thesis by (auto simp: aobjects_def)
  next
    case (Cons p qs)
    have pg: "pages (arenas h a) = p" "p \<noteq> NULL" using wf Cons by (auto simp: arena_wf_def)
    have cy: "cyc (anodes h) (map page_list ps)" using wf Cons by (simp add: arena_wf_def)
    have "\<exists>s'. clear_loop (allocator (arenas h a)) (anodes h) (page_list p) (page_list (hd ps)) (apmem h) = Some (Inr s') \<and>
        okay s' \<and> live s' = live (apmem h) - set ps"
      by (rule clear_loop_frees) (use cy Cons arena_wf_distinct [OF wf] inv sub ff in \<open>auto simp: cyc_def\<close>)
    then obtain s' where s': "clear_loop (allocator (arenas h a)) (anodes h) (page_list p) (page_list p) (apmem h) = Some (Inr s')"
      "okay s'" "live s' = live (apmem h) - set ps" using Cons by auto
    define h' where "h' = upd_arena (h\<lparr>apmem := s'\<rparr>) a (\<lambda>r. r\<lparr>pages := NULL, num_objects := 0, num_pages := 0\<rparr>)"
    have "clear_arena cpu h a = Some (Inr h')"
      using lf pg s'(1) by (simp add: clear_arena_def lock_arena_free unlock_arena_held [of ?l])
        (simp add: upd_arena_def h'_def)
    moreover have "arena_ok live okay h' a []"
      using wf lf s'(2) by (simp add: arena_ok_def arena_wf_def h'_def)
    ultimately show ?thesis using s'(3) by (auto simp: aobjects_def h'_def)
  qed
qed

end

text \<open>The branches that do not change the arena.\<close>

lemma double_free_panics:
  assumes wf: "arena_wf h a ps" and p: "p \<in> set ps" and i: "i < unat (max_count (arenas h a))" "i \<notin> slots h p"
    and lk: "lock_free (alock (arenas h a))"
  shows "free_object cpu h (slot_addr h a p i) = Inl (Panic ''double free object'')"
proof -
  have ok: "page_ok h a p" by (rule arena_wf_page(3) [OF wf p])
  have len: "length (used (apages h p)) = 4" using wf by (simp add: arena_wf_def)
  have "bitmap_get (used (apages h p)) i = Inr False"
    using bmp.get_eq [of i "used (apages h p)"] i max_count_bounds(2) [OF wf] len by (simp add: slots_def)
  then show ?thesis
    using container_of_slot [OF wf p i(1)] ok lk
    by (simp add: free_object_def Let_def lock_arena_free page_ok_def)
qed

lemma init_arena_ok:
  assumes "16 \<le> osize" "osize \<le> ARENA_PAGE_CAPACITY" "\<forall>p. length (used (apages h p)) = 4" "okay (apmem h)"
  shows "\<exists>h'. init_arena h a osize al = Inr h' \<and> arena_ok live okay h' a [] \<and>
     allocator (arenas h' a) = al \<and> apmem h' = apmem h"
  using assms by (simp add: init_arena_def arena_ok_def arena_wf_def init_spinlock_def lock_free_def)

text \<open>The allocator the kernel gives its arenas: pointers to \<open>kalloc\<close> and \<open>kfree\<close>, with the CPU that initialised the arena; on a well-formed pool the functions do not depend on the
  CPU (\<open>kalloc_any_cpu\<close>, \<open>kfree_any_cpu\<close>).\<close>

definition kernel_allocator :: "nat \<Rightarrow> PMemory ArenaPageAllocator" where
  "kernel_allocator cpu = \<lparr>allocate_fn = kalloc cpu, free_fn = kfree cpu\<rparr>"

text \<open>C8: \<open>alloc_object\<close> fails only when every page of the arena is full and the page allocator fails, and then
  with that failure; otherwise it returns an object that was not live, exactly that object becomes
  live, the arena stays well formed (counts, ring, partially used pages first), and no page of another
  owner and no other arena changes.\<close>

theorem alloc_object_fresh:
  assumes "arena_ok pm_live pm_inv h a ps" and "allocator (arenas h a) = kernel_allocator cpu"
  shows "case alloc_object cpu h a of
      Inl e \<Rightarrow> (\<forall>p\<in>set ps. full_page h a p) \<and> kalloc cpu (apmem h) = Inl e
    | Inr (obj, h') \<Rightarrow> \<exists>ps'. arena_ok pm_live pm_inv h' a ps' \<and> obj \<notin> aobjects h a ps \<and>
        aobjects h' a ps' = insert obj (aobjects h a ps) \<and> set ps \<subseteq> set ps' \<and>
        allocator (arenas h' a) = allocator (arenas h a) \<and>
        (\<forall>q. q \<notin> set ps' \<longrightarrow> apages h' q = apages h q) \<and> (\<forall>b. b \<noteq> a \<longrightarrow> arenas h' b = arenas h b)"
  using kmem.arena_alloc [OF assms(1), of cpu cpu] assms(2)
  by (auto simp: kernel_allocator_def split: sum.splits)

text \<open>An arena for objects of 1032 bytes (three to a page), the size \<open>arena_test\<close> uses.\<close>

definition arena_example :: "PMemory aheap" where
  "arena_example =
     (case init_arena \<lparr>arenas = (\<lambda>_. \<lparr>alock = \<lparr>locked = False, lcpu = None, lname = []\<rparr>,
              allocator = kernel_allocator 0, object_size = 0, max_count = 0, pages = 0, num_objects = 0,
              num_pages = 0\<rparr>),
            apages = (\<lambda>_. \<lparr>arena = 0, used = [0, 0, 0, 0], count = 0\<rparr>),
            anodes = \<lparr>lprev = (\<lambda>_. 0), lnext = (\<lambda>_. 0)\<rparr>, apmem = pm_example\<rparr> 256 1032 (kernel_allocator 0) of
        Inr h \<Rightarrow> h)"

lemma arena_example_ok:
  "arena_ok pm_live pm_inv arena_example 256 []" "allocator (arenas arena_example 256) = kernel_allocator 0"
  "apmem arena_example = pm_example"
  by (simp_all add: arena_example_def arena_ok_def arena_wf_def init_arena_def init_spinlock_def lock_free_def
      pm_example_ok)

theorem alloc_object_fresh_witness:
  "\<exists>obj h' ps'. alloc_object 0 arena_example 256 = Inr (obj, h') \<and> aobjects h' 256 ps' = {obj}"
proof -
  have ne: "kalloc 0 pm_example \<noteq> Inl e" for e
    by (simp add: kalloc_example)
  have "aobjects arena_example 256 [] = {}" by (simp add: aobjects_def)
  with alloc_object_fresh [OF arena_example_ok(1,2)] ne show ?thesis
    by (auto simp: arena_example_ok(3) split: sum.splits)
qed

text \<open>C28: freeing a live object makes exactly it dead and keeps the arena well formed; a second free of a
  slot that is not in use panics; live objects never overlap.\<close>

theorem free_object_exact:
  assumes "arena_ok pm_live pm_inv h a ps"
  shows "(\<forall>obj\<in>aobjects h a ps. \<exists>h' ps'. free_object cpu h obj = Inr h' \<and> arena_ok pm_live pm_inv h' a ps' \<and>
            aobjects h' a ps' = aobjects h a ps - {obj} \<and> set ps' = set ps) \<and>
         (\<forall>p\<in>set ps. \<forall>i < unat (max_count (arenas h a)). slot_addr h a p i \<notin> aobjects h a ps \<longrightarrow>
            free_object cpu h (slot_addr h a p i) = Inl (Panic ''double free object'')) \<and>
         (\<forall>x\<in>aobjects h a ps. \<forall>y\<in>aobjects h a ps. x \<noteq> y \<longrightarrow>
            unat x + unat (object_size (arenas h a)) \<le> unat y \<or> unat y + unat (object_size (arenas h a)) \<le> unat x)"
proof -
  have wf: "arena_wf h a ps" and lf: "lock_free (alock (arenas h a))" using assms by (auto simp: arena_ok_def)
  have "free_object cpu h (slot_addr h a p i) = Inl (Panic ''double free object'')"
    if "p \<in> set ps" "i < unat (max_count (arenas h a))" "slot_addr h a p i \<notin> aobjects h a ps" for p i
    using double_free_panics [OF wf that(1,2) _ lf] slot_addr_in_objects [OF wf that(1,2)] that(3) by blast
  moreover have "\<exists>h' ps'. free_object cpu h obj = Inr h' \<and> arena_ok pm_live pm_inv h' a ps' \<and>
            aobjects h' a ps' = aobjects h a ps - {obj} \<and> set ps' = set ps" if "obj \<in> aobjects h a ps" for obj
    using kmem.arena_free [OF assms that, of cpu] by blast
  ultimately show ?thesis using objects_disjoint [OF wf] by blast
qed

theorem free_object_exact_witness:
  "\<exists>obj h' h''. alloc_object 0 arena_example 256 = Inr (obj, h') \<and> free_object 0 h' obj = Inr h''"
proof -
  have ne: "kalloc 0 pm_example \<noteq> Inl e" for e
    by (simp add: kalloc_example)
  from kmem.arena_alloc [OF arena_example_ok(1), of 0 0] ne obtain obj h' ps' where
    r: "alloc_object 0 arena_example 256 = Inr (obj, h')" "arena_ok pm_live pm_inv h' 256 ps'" "obj \<in> aobjects h' 256 ps'"
    by (auto simp: arena_example_ok kernel_allocator_def split: sum.splits)
  with free_object_exact [OF r(2), of 0] show ?thesis by blast
qed

text \<open>C34: \<open>clear_arena\<close> terminates, returns every page of the arena to the page allocator exactly once and
  leaves an empty arena that can be used again.\<close>

theorem clear_arena_returns_pages:
  assumes "arena_ok pm_live pm_inv h a ps" and "allocator (arenas h a) = kernel_allocator cpu"
  shows "\<exists>h'. clear_arena cpu h a = Some (Inr h') \<and> arena_ok pm_live pm_inv h' a [] \<and>
     aobjects h' a [] = {} \<and> pm_live (apmem h') = pm_live (apmem h) - set ps"
  by (rule kmem.arena_clear [OF assms(1)]) (simp add: assms(2) kernel_allocator_def)

theorem clear_arena_returns_pages_witness:
  "\<exists>obj h page h'. alloc_object 0 arena_example 256 = Inr (obj, h) \<and> pm_live (apmem h) = {page} \<and>
     clear_arena 0 h 256 = Some (Inr h') \<and> pm_live (apmem h') = {}"
proof -
  have ne: "kalloc 0 pm_example \<noteq> Inl e" for e by (simp add: kalloc_example)
  from kmem.arena_alloc [OF arena_example_ok(1), of 0 0] ne obtain obj h ps where
    r: "alloc_object 0 arena_example 256 = Inr (obj, h)" "arena_ok pm_live pm_inv h 256 ps" "aobjects h 256 ps = {obj}"
      "allocator (arenas h 256) = kernel_allocator 0" "ps = [] \<or> (\<exists>p. set ps = {p} \<and> kalloc 0 pm_example = Inr (p, apmem h))"
    by (auto simp: arena_example_ok kernel_allocator_def aobjects_def split: sum.splits)
  then obtain p where p: "set ps = {p}" "kalloc 0 pm_example = Inr (p, apmem h)" by (auto simp: aobjects_def)
  then have l: "pm_live (apmem h) = {p}" using kmem.allocate_ok [of pm_example 0 p "apmem h"] pm_example_ok by auto
  obtain h' where "clear_arena 0 h 256 = Some (Inr h')" "pm_live (apmem h') = {}" using clear_arena_returns_pages [OF r(2,4)] p(1) l by auto
  with r(1) l show ?thesis by blast
qed

text \<open>A live object lies in a page of its arena, which is a page of the pool.\<close>

lemma object_in_page:
  assumes wf: "arena_wf h a ps" and x: "x \<in> aobjects h a ps"
  shows "\<exists>p \<in> set ps. unat p + 64 \<le> unat x \<and> unat x + unat (object_size (arenas h a)) \<le> unat p + 4096 \<and> unat p + 4096 \<le> 2 ^ 64"
proof -
  obtain p i where p: "p \<in> set ps" "i \<in> slots h p" "x = slot_addr h a p i" using x by (auto simp: aobjects_def)
  have "i < unat (max_count (arenas h a))" using arena_wf_page(3) [OF wf p(1)] p(2) by (auto simp: page_ok_def)
  with unat_slot_addr [OF wf p(1)] p show ?thesis by (intro bexI [of _ p]) auto
qed

lemma object_in_pool:
  assumes ok: "arena_ok pm_live pm_inv h a ps" and x: "x \<in> aobjects h a ps"
  shows "\<exists>p \<in> pm_pages (apmem h). unat p + 64 \<le> unat x \<and>
    unat x + unat (object_size (arenas h a)) \<le> unat p + 4096 \<and> unat p + 4096 \<le> 2 ^ 64"
proof -
  have wf: "arena_wf h a ps" and sub: "set ps \<subseteq> pm_live (apmem h)" and inv: "pm_inv (apmem h)"
    using ok by (auto simp: arena_ok_def)
  have "set ps \<subseteq> pm_pages (apmem h)" using kmem.live_page [OF inv] sub by auto
  with object_in_page [OF wf x] show ?thesis by blast
qed

end
