(* ===== verification/KSleepLock.thy ===== *)
theory KSleepLock
  imports KLock
begin

text \<open>
  The sleep lock of \<open>src/core/sleeplock.c\<close>. Of \<open>sleep\<close> (\<open>src/core/proc.c\<close>) only the effect on its lock
  argument matters here: it acquires the lock and gives up the CPU, so a call that gets past the
  acquisition does not return to this caller (\<open>Blocked\<close>). The wake-up at the end of \<open>release_sleeplock\<close>
  changes process states only, see the theory of processes.\<close>

record SleepLock =
  slock :: SpinLock
  slocked :: bool

definition sleep_on_lock :: "nat \<Rightarrow> SpinLock \<Rightarrow> SpinLock res" where
  "sleep_on_lock cpu l = bind_res (acquire_spinlock cpu l) (\<lambda>_. Inl Blocked)"

definition init_sleeplock :: "SleepLock \<Rightarrow> string \<Rightarrow> SleepLock" where
  "init_sleeplock l name = l\<lparr>slock := init_spinlock (slock l) name, slocked := False\<rparr>"

definition acquire_sleeplock :: "nat \<Rightarrow> SleepLock \<Rightarrow> SleepLock res" where
  "acquire_sleeplock cpu l =
     bind_res (acquire_spinlock cpu (slock l)) (\<lambda>k1.
     bind_res (if slocked l then sleep_on_lock cpu k1 else Inr k1) (\<lambda>k2.
     bind_res (release_spinlock cpu k2) (\<lambda>k3.
       Inr (l\<lparr>slock := k3, slocked := True\<rparr>))))"

definition release_sleeplock :: "nat \<Rightarrow> SleepLock \<Rightarrow> SleepLock res" where
  "release_sleeplock cpu l =
     bind_res (acquire_spinlock cpu (slock l)) (\<lambda>k1.
     bind_res (release_spinlock cpu k1) (\<lambda>k2.
       Inr (l\<lparr>slock := k2, slocked := False\<rparr>)))"

definition sleeplock_ok :: "SleepLock \<Rightarrow> bool" where
  "sleeplock_ok l \<longleftrightarrow> lock_free (slock l)"

lemma acquire_sleeplock_free [simp]:
  "sleeplock_ok l \<Longrightarrow> \<not> slocked l \<Longrightarrow> acquire_sleeplock cpu l = Inr (l\<lparr>slocked := True\<rparr>)"
  by (simp add: acquire_sleeplock_def sleeplock_ok_def)

lemma release_sleeplock_ok [simp]:
  "sleeplock_ok l \<Longrightarrow> release_sleeplock cpu l = Inr (l\<lparr>slocked := False\<rparr>)"
  by (simp add: release_sleeplock_def sleeplock_ok_def)

lemma sleeplock_ok_simps [simp]:
  "sleeplock_ok (l\<lparr>slocked := b\<rparr>) = sleeplock_ok l" "sleeplock_ok (init_sleeplock l name)"
  "\<not> slocked (init_sleeplock l name)"
  by (simp_all add: sleeplock_ok_def init_sleeplock_def lock_free_def init_spinlock_def)

text \<open>A free sleep lock is taken and released without blocking, but acquiring one that is held stops the
  kernel: \<open>sleep\<close> acquires the inner spin lock its caller already holds, instead of releasing it as its
  comment says.\<close>

theorem sleeplock_contended_panics:
  assumes "sleeplock_ok l"
  shows "acquire_sleeplock cpu l =
           (if slocked l then Inl (Panic (''acquire: lock '' @ lname (slock l) @ '' already held''))
            else Inr (l\<lparr>slocked := True\<rparr>)) \<and>
         release_sleeplock cpu (l\<lparr>slocked := True\<rparr>) = Inr (l\<lparr>slocked := False\<rparr>)"
proof -
  have "lock_free (slock l)" using assms by (simp add: sleeplock_ok_def)
  then show ?thesis using assms
    by (simp add: acquire_sleeplock_def sleep_on_lock_def acquire_spinlock_def [of cpu "(slock l)\<lparr>locked := X, lcpu := Y\<rparr>" for X Y]
        holding_spinlock_def)
qed

theorem sleeplock_contended_panics_witness:
  "acquire_sleeplock 2 \<lparr>slock = \<lparr>locked = False, lcpu = None, lname = ''block''\<rparr>, slocked = True\<rparr> =
     Inl (Panic ''acquire: lock block already held'')"
  using sleeplock_contended_panics [of "\<lparr>slock = \<lparr>locked = False, lcpu = None, lname = ''block''\<rparr>, slocked = True\<rparr>" 2]
  by (simp add: sleeplock_ok_def lock_free_def)

end
