(* ===== verification/KCache.thy ===== *)
theory KCache
  imports KArena KSleepLock
begin

text \<open>
  The block cache and its write-ahead log: \<open>src/fs/cache.c\<close>, \<open>cache_queue.c\<close>, \<open>cache.h\<close>, \<open>defines.h\<close> and the
  device layer \<open>block_device.c\<close>. The static variables of the two files are one record. Cached blocks are
  objects of an arena (theory \<open>KArena\<close>), linked by their nodes at offset 8 into a ring with a static head
  (theory \<open>KList\<close>). The disk holds 512-byte blocks and keeps the history of writes, which the theory of
  crashes replays; writing a block is atomic. Calls of \<open>wakeup\<close> are recorded as the list of channels.\<close>

abbreviation BLOCK_SIZE :: nat where "BLOCK_SIZE \<equiv> 512"
abbreviation LOG_MAX_SIZE :: nat where "LOG_MAX_SIZE \<equiv> 63"
abbreviation OP_MAX_NUM_BLOCKS :: usize where "OP_MAX_NUM_BLOCKS \<equiv> 10"
abbreviation EVICTION_THRESHOLD :: usize where "EVICTION_THRESHOLD \<equiv> 20"
abbreviation BIT_PER_BLOCK :: nat where "BIT_PER_BLOCK \<equiv> 4096"
abbreviation sizeof_Block :: usize where "sizeof_Block \<equiv> 584"

record SuperBlock =
  num_blocks :: u32
  num_data_blocks :: u32
  num_inodes :: u32
  num_log_blocks :: u32
  log_start :: u32
  inode_start :: u32
  bitmap_start :: u32

record LogHeader =
  hnum_blocks :: usize
  hblock_no :: "usize list"

definition header_bytes :: "LogHeader \<Rightarrow> u8 list" where
  "header_bytes h = le_bytes 8 (hnum_blocks h) @ concat (map (le_bytes 8) (hblock_no h))"

primrec words_of_bytes :: "nat \<Rightarrow> u8 list \<Rightarrow> u64 list" where
  "words_of_bytes 0 bs = []"
| "words_of_bytes (Suc n) bs = le_word (take 8 bs) # words_of_bytes n (drop 8 bs)"

definition bytes_header :: "u8 list \<Rightarrow> LogHeader" where
  "bytes_header bs = \<lparr>hnum_blocks = le_word (take 8 bs), hblock_no = words_of_bytes LOG_MAX_SIZE (drop 8 bs)\<rparr>"

text \<open>The block device behind the function table \<open>BlockDevice\<close>, as \<open>block_device.h\<close> describes it: reading and writing whole blocks.
  The numbers reach the driver as 32-bit words. The history lists the writes in order, so that a crash can be placed between any two.\<close>

record Disk =
  content :: "u32 \<Rightarrow> u8 list"
  history :: "(u32 \<times> u8 list) list"

definition device_read :: "Disk \<Rightarrow> usize \<Rightarrow> u8 list" where
  "device_read d no = content d (ucast no)"

definition device_write :: "Disk \<Rightarrow> usize \<Rightarrow> u8 list \<Rightarrow> Disk" where
  "device_write d no bs =
     d\<lparr>content := (content d)(ucast no := take BLOCK_SIZE bs), history := history d @ [(ucast no, take BLOCK_SIZE bs)]\<rparr>"

record Block =
  block_no :: usize
  acquired :: bool
  pinned :: bool
  block_lock :: SleepLock
  valid :: bool
  data :: "u8 list"

record OpContext =
  ts :: usize
  ops_cnt :: usize

record bcache =
  sblock :: SuperBlock
  dev :: Disk
  clock :: SpinLock
  header :: LogHeader
  barena :: "PMemory aheap"
  arena_addr :: addr
  outstanding :: usize
  end_pending :: usize
  cached_num :: usize
  qlock :: SpinLock
  qhead :: addr
  bnodes :: links
  blocks :: "addr \<Rightarrow> Block"
  woken :: "addr list"

definition blk_node :: "addr \<Rightarrow> addr" where
  "blk_node blk = blk + 8"

definition node2blk :: "addr \<Rightarrow> addr" where
  "node2blk node = node - 8"

definition upd_block :: "bcache \<Rightarrow> addr \<Rightarrow> (Block \<Rightarrow> Block) \<Rightarrow> bcache" where
  "upd_block st b f = st\<lparr>blocks := (blocks st)(b := f (blocks st b))\<rparr>"

subsection \<open>The queue of cached blocks\<close>

definition init_cache_list :: "bcache \<Rightarrow> bcache" where
  "init_cache_list st =
     st\<lparr>qlock := init_spinlock (qlock st) ''cache_queue.c'', bnodes := init_list_node (bnodes st) (qhead st)\<rparr>"

definition insert_cache :: "nat \<Rightarrow> bcache \<Rightarrow> addr \<Rightarrow> bcache res" where
  "insert_cache cpu st blk =
     bind_res (acquire_spinlock cpu (qlock st)) (\<lambda>l.
     let ln = snd (merge_list (bnodes st) (qhead st) (blk_node blk)) in
     bind_res (release_spinlock cpu l) (\<lambda>l'. Inr (st\<lparr>bnodes := ln, qlock := l'\<rparr>)))"

definition remove_cache :: "bcache \<Rightarrow> addr \<Rightarrow> bcache" where
  "remove_cache st blk = st\<lparr>bnodes := snd (detach_from_list (bnodes st) (blk_node blk))\<rparr>"

partial_function (option) get_cache_loop :: "links \<Rightarrow> (addr \<Rightarrow> Block) \<Rightarrow> addr \<Rightarrow> usize \<Rightarrow> addr \<Rightarrow> addr option" where
  "get_cache_loop ln bs head no node =
     (if node \<noteq> head then
        (if block_no (bs (node2blk node)) = no then Some (node2blk node)
         else get_cache_loop ln bs head no (lnext ln node))
      else Some NULL)"

definition get_cache :: "nat \<Rightarrow> bcache \<Rightarrow> usize \<Rightarrow> (addr \<times> bcache) res option" where
  "get_cache cpu st no =
     bind_run (Some (acquire_spinlock cpu (qlock st))) (\<lambda>l.
       case get_cache_loop (bnodes st) (blocks st) (qhead st) no (lnext (bnodes st) (qhead st)) of
         None \<Rightarrow> None
       | Some r \<Rightarrow> Some (bind_res (release_spinlock cpu l) (\<lambda>l'. Inr (r, st\<lparr>qlock := l'\<rparr>))))"

definition get_num_cached_blocks :: "bcache \<Rightarrow> usize" where
  "get_num_cached_blocks st = cached_num st"

definition exile_cache :: "nat \<Rightarrow> bcache \<Rightarrow> addr \<Rightarrow> bcache res" where
  "exile_cache cpu st blk =
     bind_res (free_object cpu (barena st) blk) (\<lambda>ar.
       Inr (st\<lparr>barena := ar, cached_num := cached_num st - 1\<rparr>))"

partial_function (option) scavenger_loop :: "nat \<Rightarrow> addr \<Rightarrow> bcache \<Rightarrow> bcache res option" where
  "scavenger_loop cpu node st =
     (if node \<noteq> qhead st \<and> EVICTION_THRESHOLD < get_num_cached_blocks st then
        (let blk = node2blk node; next = lnext (bnodes st) node in
         if \<not> acquired (blocks st blk) \<and> \<not> pinned (blocks st blk) then
           (case exile_cache cpu (remove_cache st blk) blk of
              Inl e \<Rightarrow> Some (Inl e)
            | Inr st' \<Rightarrow> scavenger_loop cpu next st')
         else scavenger_loop cpu next st)
      else Some (Inr st))"

definition scavenger :: "nat \<Rightarrow> bcache \<Rightarrow> bcache res option" where
  "scavenger cpu st =
     bind_run (Some (acquire_spinlock cpu (qlock st))) (\<lambda>l.
     bind_run (scavenger_loop cpu (lnext (bnodes st) (qhead st)) (st\<lparr>qlock := l\<rparr>)) (\<lambda>st1.
       Some (bind_res (release_spinlock cpu (qlock st1)) (\<lambda>l'. Inr (st1\<lparr>qlock := l'\<rparr>)))))"

subsection \<open>Blocks\<close>

definition init_block :: "bcache \<Rightarrow> addr \<Rightarrow> bcache" where
  "init_block st blk =
     upd_block (st\<lparr>bnodes := init_list_node (bnodes st) (blk_node blk)\<rparr>) blk
       (\<lambda>b. b\<lparr>block_no := 0, acquired := False, pinned := False, valid := False,
              block_lock := init_sleeplock (block_lock b) ''block'', data := replicate BLOCK_SIZE 0\<rparr>)"

definition lock_cache :: "nat \<Rightarrow> bool \<Rightarrow> bcache \<Rightarrow> bcache res" where
  "lock_cache cpu safe st =
     (if safe then bind_res (acquire_spinlock cpu (clock st)) (\<lambda>l. Inr (st\<lparr>clock := l\<rparr>)) else Inr st)"

definition unlock_cache :: "nat \<Rightarrow> bool \<Rightarrow> bcache \<Rightarrow> bcache res" where
  "unlock_cache cpu safe st =
     (if safe then bind_res (release_spinlock cpu (clock st)) (\<lambda>l. Inr (st\<lparr>clock := l\<rparr>)) else Inr st)"

text \<open>The body of the loop in \<open>unsafe_cache_acquire\<close> for a block that is not cached. \<open>alloc_object\<close> never
  returns \<open>NULL\<close>, so the loop runs once.\<close>

definition load_block :: "nat \<Rightarrow> bcache \<Rightarrow> usize \<Rightarrow> (addr \<times> bcache) res" where
  "load_block cpu st no =
     bind_res (alloc_object cpu (barena st) (arena_addr st)) (\<lambda>(blk, ar).
     let st1 = init_block (st\<lparr>barena := ar\<rparr>) blk in
     bind_res (insert_cache cpu st1 blk) (\<lambda>st2.
     let st3 = st2\<lparr>cached_num := cached_num st2 + 1\<rparr>;
         st4 = upd_block st3 blk (\<lambda>b. b\<lparr>valid := True, block_no := no, data := device_read (dev st3) no\<rparr>)
     in Inr (blk, st4)))"

definition unsafe_cache_acquire :: "nat \<Rightarrow> bcache \<Rightarrow> usize \<Rightarrow> bool \<Rightarrow> (addr \<times> bcache) res option" where
  "unsafe_cache_acquire cpu st no safe =
     bind_run (Some (lock_cache cpu safe st)) (\<lambda>st1.
     bind_run (get_cache cpu st1 no) (\<lambda>(found, st2).
     bind_run (if found = NULL then Some (load_block cpu st2 no) else Some (Inr (found, st2))) (\<lambda>(blk, st3).
     bind_run (Some (acquire_sleeplock cpu (block_lock (blocks st3 blk)))) (\<lambda>sl.
     let st4 = upd_block st3 blk (\<lambda>b. b\<lparr>block_lock := sl, acquired := True\<rparr>) in
     bind_run (if EVICTION_THRESHOLD < get_num_cached_blocks st4 then scavenger cpu st4 else Some (Inr st4)) (\<lambda>st5.
       Some (bind_res (unlock_cache cpu safe st5) (\<lambda>st6. Inr (blk, st6))))))))"

definition cache_acquire :: "nat \<Rightarrow> bcache \<Rightarrow> usize \<Rightarrow> (addr \<times> bcache) res option" where
  "cache_acquire cpu st no = unsafe_cache_acquire cpu st no True"

definition cache_release :: "nat \<Rightarrow> bcache \<Rightarrow> addr \<Rightarrow> bcache res" where
  "cache_release cpu st blk =
     (let st1 = upd_block st blk (\<lambda>b. b\<lparr>acquired := False\<rparr>) in
      bind_res (release_sleeplock cpu (block_lock (blocks st1 blk))) (\<lambda>sl.
        let st2 = upd_block st1 blk (\<lambda>b. b\<lparr>block_lock := sl\<rparr>)
        in Inr (st2\<lparr>woken := woken st2 @ [blk + 32]\<rparr>)))"

subsection \<open>Atomic operations\<close>

definition cache_begin_op :: "nat \<Rightarrow> bcache \<Rightarrow> OpContext \<Rightarrow> (OpContext \<times> bcache) res" where
  "cache_begin_op cpu st ctx =
     bind_res (lock_cache cpu True st) (\<lambda>st1.
     bind_res
       (if ucast (num_log_blocks (sblock st1)) < (outstanding st1 + 1) * OP_MAX_NUM_BLOCKS + end_pending st1
        then bind_res (sleep_on_lock cpu (clock st1)) (\<lambda>l. Inr (st1\<lparr>clock := l\<rparr>))
        else Inr st1) (\<lambda>st2.
     let st3 = st2\<lparr>outstanding := outstanding st2 + 1\<rparr> in
     bind_res (unlock_cache cpu True st3) (\<lambda>st4. Inr (ctx\<lparr>ops_cnt := 0\<rparr>, st4))))"

text \<open>The search of the header for a block number: its index, or the number of entries.\<close>

primrec header_find :: "usize list \<Rightarrow> usize \<Rightarrow> nat \<Rightarrow> nat \<Rightarrow> nat res" where
  "header_find bn no i 0 = Inr i"
| "header_find bn no i (Suc r) =
     (if length bn \<le> i then Inl (Fault ''header.block_no'')
      else if bn ! i = no then Inr i else header_find bn no (Suc i) r)"

definition unsafe_cache_sync ::
  "nat \<Rightarrow> bcache \<Rightarrow> OpContext option \<Rightarrow> addr \<Rightarrow> bool \<Rightarrow> (OpContext option \<times> bcache) res" where
  "unsafe_cache_sync cpu st ctx blk safe =
     bind_res (lock_cache cpu safe st) (\<lambda>st1.
     bind_res
       (case ctx of
          Some c \<Rightarrow>
            let n = unat (hnum_blocks (header st1)); bn = hblock_no (header st1); no = block_no (blocks st1 blk) in
            bind_res (header_find bn no 0 n) (\<lambda>i.
            bind_res
              (if i = n then
                 (if length bn \<le> i then Inl (Fault ''header.block_no'')
                  else Inr (c\<lparr>ops_cnt := ops_cnt c + 1\<rparr>,
                            st1\<lparr>header := \<lparr>hnum_blocks = hnum_blocks (header st1) + 1, hblock_no = bn[i := no]\<rparr>\<rparr>))
               else Inr (c, st1)) (\<lambda>(c', st2).
            let st3 = upd_block st2 blk (\<lambda>b. b\<lparr>pinned := True\<rparr>) in
            if OP_MAX_NUM_BLOCKS < ops_cnt c' then Inl (Panic ''operation numbers exceed limit'')
            else Inr (Some c', st3)))
        | None \<Rightarrow>
            Inr (None, st1\<lparr>dev := device_write (dev st1) (block_no (blocks st1 blk)) (data (blocks st1 blk))\<rparr>)) (\<lambda>(ctx', st4).
     bind_res (unlock_cache cpu safe st4) (\<lambda>st5. Inr (ctx', st5))))"

definition cache_sync :: "nat \<Rightarrow> bcache \<Rightarrow> OpContext option \<Rightarrow> addr \<Rightarrow> (OpContext option \<times> bcache) res" where
  "cache_sync cpu st ctx blk = unsafe_cache_sync cpu st ctx blk True"

subsection \<open>The log\<close>

definition read_header :: "bcache \<Rightarrow> bcache" where
  "read_header st = st\<lparr>header := bytes_header (device_read (dev st) (ucast (log_start (sblock st))))\<rparr>"

definition write_header :: "bcache \<Rightarrow> bcache" where
  "write_header st = st\<lparr>dev := device_write (dev st) (ucast (log_start (sblock st))) (header_bytes (header st))\<rparr>"

primrec recover_loop :: "usize \<Rightarrow> usize list \<Rightarrow> nat \<Rightarrow> nat \<Rightarrow> Disk \<Rightarrow> Disk res" where
  "recover_loop start bn i 0 d = Inr d"
| "recover_loop start bn i (Suc r) d =
     (if length bn \<le> i then Inl (Fault ''header.block_no'')
      else recover_loop start bn (Suc i) r (device_write d (bn ! i) (device_read d (start + 1 + of_nat i))))"

definition unsafe_crash_recover :: "nat \<Rightarrow> bcache \<Rightarrow> bool \<Rightarrow> bcache res" where
  "unsafe_crash_recover cpu st safe =
     bind_res (lock_cache cpu safe st) (\<lambda>st1.
     let st2 = read_header st1 in
     bind_res (recover_loop (ucast (log_start (sblock st2))) (hblock_no (header st2)) 0
                 (unat (hnum_blocks (header st2))) (dev st2)) (\<lambda>d.
     let st3 = st2\<lparr>dev := d, header := (header st2)\<lparr>hnum_blocks := 0\<rparr>\<rparr>;
         st4 = write_header st3
     in unlock_cache cpu safe st4))"

definition init_bcache :: "nat \<Rightarrow> bcache \<Rightarrow> SuperBlock \<Rightarrow> Disk \<Rightarrow> bcache res" where
  "init_bcache cpu st sb d =
     bind_res (init_arena (barena st) (arena_addr st) sizeof_Block (kernel_allocator cpu)) (\<lambda>ar.
     let st1 = st\<lparr>sblock := sb, dev := d, barena := ar\<rparr>;
         st2 = init_cache_list st1;
         st3 = st2\<lparr>clock := init_spinlock (clock st2) ''general lock for block cache'',
                   cached_num := 0, end_pending := 0\<rparr>
     in unsafe_crash_recover cpu st3 True)"

primrec commit_loop :: "nat \<Rightarrow> usize \<Rightarrow> nat \<Rightarrow> nat \<Rightarrow> bcache \<Rightarrow> bcache res option" where
  "commit_loop cpu start i 0 st = Some (Inr st)"
| "commit_loop cpu start i (Suc r) st =
     (if length (hblock_no (header st)) \<le> i then Some (Inl (Fault ''header.block_no''))
      else
        bind_run (get_cache cpu st (hblock_no (header st) ! i)) (\<lambda>(from, st1).
          if from = NULL then Some (Inl (Fault ''from->data''))
          else
            let st2 = st1\<lparr>dev := device_write (dev st1) (start + 1 + of_nat i) (data (blocks st1 from))\<rparr>;
                st3 = upd_block st2 from (\<lambda>b. b\<lparr>pinned := False\<rparr>)
            in commit_loop cpu start (Suc i) r st3))"

definition commit :: "nat \<Rightarrow> bcache \<Rightarrow> bcache res option" where
  "commit cpu st =
     bind_run (commit_loop cpu (ucast (log_start (sblock st))) 0 (unat (hnum_blocks (header st))) st) (\<lambda>st1.
       Some (unsafe_crash_recover cpu (write_header st1) False))"

definition cache_end_op :: "nat \<Rightarrow> bcache \<Rightarrow> OpContext \<Rightarrow> addr \<Rightarrow> bcache res option" where
  "cache_end_op cpu st ctx lock_addr =
     bind_run (Some (lock_cache cpu True st)) (\<lambda>st1.
     bind_run
       (if outstanding st1 = 1
        then bind_run (commit cpu st1) (\<lambda>s. Some (Inr (s\<lparr>end_pending := 0\<rparr>)))
        else Some (Inr (st1\<lparr>end_pending := end_pending st1 + ops_cnt ctx\<rparr>))) (\<lambda>st2.
     let st3 = st2\<lparr>outstanding := outstanding st2 - 1, woken := woken st2 @ [lock_addr]\<rparr>
     in Some (unlock_cache cpu True st3)))"

subsection \<open>The block bitmap\<close>

definition cells_of_data :: "u8 list \<Rightarrow> bitmap" where
  "cells_of_data bs = words_of_bytes 64 bs"

definition data_of_cells :: "bitmap \<Rightarrow> u8 list" where
  "data_of_cells cs = concat (map (le_bytes 8) cs)"

text \<open>One iteration of the outer loop of \<open>cache_alloc\<close> per bitmap block; \<open>r\<close> bitmap blocks are left.\<close>

primrec cache_alloc_loop :: "nat \<Rightarrow> OpContext option \<Rightarrow> nat \<Rightarrow> nat \<Rightarrow> bcache \<Rightarrow> (usize \<times> OpContext option \<times> bcache) res option" where
  "cache_alloc_loop cpu ctx b 0 st = Some (Inl (Panic ''cache_alloc: no free block''))"
| "cache_alloc_loop cpu ctx b (Suc r) st =
     (let totblk = unat (num_blocks (sblock st)) in
      bind_run (unsafe_cache_acquire cpu st (ucast (bitmap_start (sblock st)) + of_nat b) False) (\<lambda>(blk, st1).
      bind_run (Some (find_slot (cells_of_data (data (blocks st1 blk))) 0 (min BIT_PER_BLOCK (totblk - BIT_PER_BLOCK * b)))) (\<lambda>slot.
        case slot of
          None \<Rightarrow> bind_run (Some (cache_release cpu st1 blk)) (\<lambda>st2. cache_alloc_loop cpu ctx (Suc b) r st2)
        | Some j \<Rightarrow>
            bind_run (Some (bitmap_set (cells_of_data (data (blocks st1 blk))) j)) (\<lambda>cs.
            let st2 = upd_block st1 blk (\<lambda>x. x\<lparr>data := data_of_cells cs\<rparr>);
                no = of_nat (BIT_PER_BLOCK * b + j) :: usize in
            bind_run (Some (unsafe_cache_sync cpu st2 ctx blk False)) (\<lambda>(ctx', st3).
            bind_run (Some (cache_release cpu st3 blk)) (\<lambda>st4.
            let st5 = st4\<lparr>dev := device_write (dev st4) no (replicate BLOCK_SIZE 0)\<rparr> in
            Some (bind_res (unlock_cache cpu True st5) (\<lambda>st6. Inr (no, ctx', st6)))))))))"

definition cache_alloc :: "nat \<Rightarrow> bcache \<Rightarrow> OpContext option \<Rightarrow> (usize \<times> OpContext option \<times> bcache) res option" where
  "cache_alloc cpu st ctx =
     bind_run (Some (lock_cache cpu True st)) (\<lambda>st1.
       cache_alloc_loop cpu ctx 0 ((unat (num_blocks (sblock st1)) + BIT_PER_BLOCK - 1) div BIT_PER_BLOCK) st1)"

definition cache_free :: "nat \<Rightarrow> bcache \<Rightarrow> OpContext option \<Rightarrow> usize \<Rightarrow> (OpContext option \<times> bcache) res option" where
  "cache_free cpu st ctx no =
     bind_run (Some (lock_cache cpu True st)) (\<lambda>st1.
     bind_run (unsafe_cache_acquire cpu st1 (ucast (bitmap_start (sblock st1)) + no div of_nat BIT_PER_BLOCK) False) (\<lambda>(blk, st2).
     let cs = cells_of_data (data (blocks st2 blk)); j = unat (no mod of_nat BIT_PER_BLOCK) in
     bind_run (Some (bitmap_get cs j)) (\<lambda>b.
       if \<not> b then Some (Inl (Panic ''cache_free: trying free a free block''))
       else
         bind_run (Some (bitmap_clear cs j)) (\<lambda>cs'.
         let st3 = upd_block st2 blk (\<lambda>x. x\<lparr>data := data_of_cells cs'\<rparr>) in
         bind_run (Some (unsafe_cache_sync cpu st3 ctx blk False)) (\<lambda>(ctx', st4).
         bind_run (Some (cache_release cpu st4 blk)) (\<lambda>st5.
           Some (bind_res (unlock_cache cpu True st5) (\<lambda>st6. Inr (ctx', st6)))))))))"

end
