(* ===== verification/KCrash.thy ===== *)
theory KCrash
  imports KCache
begin

text \<open>
  Crash safety of the log. A crash leaves on disk the effect of a prefix of the writes made so far; the
  next boot runs \<open>unsafe_crash_recover\<close>. The theorems say what is then on disk outside the log area.\<close>

definition replay :: "(u32 \<times> u8 list) list \<Rightarrow> (u32 \<Rightarrow> u8 list) \<Rightarrow> u32 \<Rightarrow> u8 list" where
  "replay ws c = foldl (\<lambda>c (no, bs). c(no := bs)) c ws"

definition log_area :: "SuperBlock \<Rightarrow> u32 set" where
  "log_area sb = {no. unat (log_start sb) \<le> unat no \<and> unat no < unat (log_start sb) + unat (num_log_blocks sb)}"

definition log_slot :: "SuperBlock \<Rightarrow> nat \<Rightarrow> u32" where
  "log_slot sb i = log_start sb + 1 + of_nat i"

text \<open>The queue of cached blocks is a ring through the blocks \<open>qs\<close>.\<close>

definition queue_ok :: "bcache \<Rightarrow> addr list \<Rightarrow> bool" where
  "queue_ok st qs \<longleftrightarrow> lock_free (qlock st) \<and> cyc (bnodes st) (qhead st # map blk_node qs) \<and> NULL \<notin> set qs"

definition cached_data :: "bcache \<Rightarrow> addr list \<Rightarrow> usize \<Rightarrow> u8 list option" where
  "cached_data st qs no = map_option (\<lambda>b. data (blocks st b)) (find (\<lambda>b. block_no (blocks st b) = no) qs)"

lemma node2blk_node [simp]: "node2blk (blk_node b) = b"
  by (simp add: node2blk_def blk_node_def)

lemma blk_node_inj [simp]: "blk_node a = blk_node b \<longleftrightarrow> a = b"
  by (simp add: blk_node_def)

lemma find_in_set: "find P xs = Some x \<Longrightarrow> x \<in> set xs \<and> P x"
  by (induction xs) (auto split: if_splits)

lemma get_cache_loop_spec:
  "chain ln (map blk_node qs @ [head]) \<Longrightarrow> head \<notin> blk_node ` set qs \<Longrightarrow>
   get_cache_loop ln bs head no (hd (map blk_node qs @ [head])) =
     Some (case find (\<lambda>b. block_no (bs b) = no) qs of None \<Rightarrow> NULL | Some b \<Rightarrow> b)"
proof (induction qs)
  case Nil
  then show ?case by (simp add: get_cache_loop.simps)
next
  case (Cons q qs)
  have nx: "lnext ln (blk_node q) = hd (map blk_node qs @ [head])"
    using Cons.prems(1) by (cases qs) (auto simp: linked_def)
  have "chain ln (map blk_node qs @ [head])" using Cons.prems(1) by (simp add: chain_Cons)
  with Cons.IH Cons.prems(2) nx show ?case
    by (simp add: get_cache_loop.simps [of ln bs head no "blk_node q"]) blast
qed

lemma get_cache_spec:
  assumes "queue_ok st qs"
  shows "get_cache cpu st no =
    Some (Inr (case find (\<lambda>b. block_no (blocks st b) = no) qs of None \<Rightarrow> NULL | Some b \<Rightarrow> b, st))"
proof -
  have cy: "cyc (bnodes st) (qhead st # map blk_node qs)" and lf: "lock_free (qlock st)"
    using assms by (simp_all add: queue_ok_def)
  have "chain (bnodes st) (map blk_node qs @ [qhead st])" "qhead st \<notin> blk_node ` set qs"
    using cy by (auto simp: cyc_def chain_Cons)
  then have lp: "get_cache_loop (bnodes st) (blocks st) (qhead st) no (lnext (bnodes st) (qhead st)) =
      Some (case find (\<lambda>b. block_no (blocks st b) = no) qs of None \<Rightarrow> NULL | Some b \<Rightarrow> b)"
    using get_cache_loop_spec cycD(1) [OF cy] by simp
  show ?thesis using lf by (simp add: get_cache_def lp)
qed

lemma replay_append: "replay (ws @ vs) c = replay vs (replay ws c)"
  by (simp add: replay_def)

lemma replay_Nil [simp]: "replay [] c = c"
  by (simp add: replay_def)

lemma replay_Cons [simp]: "replay (w # ws) c = replay ws (c(fst w := snd w))"
  by (simp add: replay_def case_prod_unfold)

lemma replay_other: "no \<notin> fst ` set ws \<Longrightarrow> replay ws c no = c no"
  by (induction ws arbitrary: c) auto

lemma replay_hit: "(no, bs) \<in> set ws \<Longrightarrow> distinct (map fst ws) \<Longrightarrow> replay ws c no = bs"
  by (induction ws arbitrary: c) (auto simp: replay_other rev_image_eqI image_iff)

lemma replay_again:
  assumes "distinct (map fst ws)"
  shows "replay ws (replay (take j ws) c) = replay ws c"
proof (rule ext)
  fix no
  show "replay ws (replay (take j ws) c) no = replay ws c no"
  proof (cases "no \<in> fst ` set ws")
    case True
    then obtain bs where "(no, bs) \<in> set ws" by force
    then show ?thesis by (simp add: replay_hit [OF _ assms])
  next
    case False
    then have "no \<notin> fst ` set (take j ws)" using set_take_subset by fastforce
    with False show ?thesis by (simp add: replay_other)
  qed
qed

lemma replay_cong_on:
  assumes "\<And>no. no \<notin> A \<Longrightarrow> c no = c' no" "no \<notin> A"
  shows "replay ws c no = replay ws c' no"
  using assms
proof (induction ws arbitrary: c c')
  case (Cons w ws)
  show ?case by (simp, rule Cons.IH) (use Cons.prems in auto)
qed simp

text \<open>Encoding of the header: 512 bytes, and reading back gives the header.\<close>

lemma words_of_bytes_concat: "words_of_bytes (length ws) (concat (map (le_bytes 8) ws)) = (ws :: u64 list)"
  by (induction ws) simp_all

lemma length_concat_le_bytes: "length (concat (map (le_bytes 8) ws)) = 8 * length (ws :: u64 list)"
  by (induction ws) simp_all

lemma bytes_header_bytes:
  "length (hblock_no h) = LOG_MAX_SIZE \<Longrightarrow> bytes_header (header_bytes h) = h"
  using words_of_bytes_concat [of "hblock_no h"] by (simp add: bytes_header_def header_bytes_def)

lemma length_header_bytes: "length (hblock_no h) = LOG_MAX_SIZE \<Longrightarrow> length (header_bytes h) = BLOCK_SIZE"
  by (simp add: header_bytes_def length_concat_le_bytes)

lemma device_write_content:
  "content (device_write d no bs) = (content d)(ucast no := take BLOCK_SIZE bs)"
  "history (device_write d no bs) = history d @ [(ucast no, take BLOCK_SIZE bs)]"
  by (simp_all add: device_write_def)

text \<open>Block numbers of the log.\<close>

definition log_fits :: "SuperBlock \<Rightarrow> nat \<Rightarrow> bool" where
  "log_fits sb n \<longleftrightarrow> n < unat (num_log_blocks sb) \<and> unat (log_start sb) + unat (num_log_blocks sb) \<le> 2 ^ 32"

lemma unat_ucast_u32: "unat (w :: u64) < 2 ^ 32 \<Longrightarrow> unat (ucast w :: u32) = unat w"
  by (simp add: unsigned_ucast_eq take_bit_nat_eq_self)

lemma unat_ucast_u64: "unat (ucast (w :: u32) :: u64) = unat w"
proof -
  have "unat w < 2 ^ 32" using unsigned_less [of w] by simp
  then show ?thesis by (simp add: unsigned_ucast_eq take_bit_nat_eq_self)
qed

lemma log_slot_room:
  assumes b: "unat (log_start sb) + 1 + i < 2 ^ 32"
  shows "ucast (ucast (log_start sb) + 1 + of_nat i :: u64) = log_slot sb i"
    "unat (log_slot sb i) = unat (log_start sb) + 1 + i"
proof -
  show u: "unat (log_slot sb i) = unat (log_start sb) + 1 + i"
    using b by (simp add: log_slot_def unat_word_ariths unat_of_nat)
  have "unat (ucast (log_start sb) + 1 + of_nat i :: u64) = unat (log_start sb) + 1 + i"
    using b by (simp add: unat_word_ariths unat_of_nat unat_ucast_u64)
  then have "unat (ucast (ucast (log_start sb) + 1 + of_nat i :: u64) :: u32) = unat (log_slot sb i)"
    using u b by (simp add: unat_ucast_u32)
  then show "ucast (ucast (log_start sb) + 1 + of_nat i :: u64) = log_slot sb i" by (simp add: word_unat_eq_iff)
qed

lemma log_slot_props:
  assumes "log_fits sb n" "i < n"
  shows "ucast (ucast (log_start sb) + 1 + of_nat i :: u64) = log_slot sb i"
    "unat (log_slot sb i) = unat (log_start sb) + 1 + i" "log_slot sb i \<in> log_area sb"
proof -
  have b: "unat (log_start sb) + 1 + i < 2 ^ 32" using assms by (simp add: log_fits_def)
  show "ucast (ucast (log_start sb) + 1 + of_nat i :: u64) = log_slot sb i"
    "unat (log_slot sb i) = unat (log_start sb) + 1 + i" by (rule log_slot_room [OF b])+
  then show "log_slot sb i \<in> log_area sb" using assms by (simp add: log_area_def log_fits_def)
qed

lemma log_start_area: "log_fits sb n \<Longrightarrow> log_start sb \<in> log_area sb"
  by (simp add: log_area_def log_fits_def)

lemma ucast_log_start [simp]: "ucast (ucast (log_start sb) :: u64) = log_start sb"
  by (rule bit_word_eqI) (simp add: bit_simps)

text \<open>Recovery from a disk whose header names the blocks \<open>bn\<close> and whose log holds their contents.\<close>

lemma recover_loop_spec:
  assumes fits: "log_fits sb n" and len: "n \<le> length bn"
    and out: "\<forall>i<n. ucast (bn ! i) \<notin> log_area sb"
    and "i + r = n" "\<forall>k<n. content d (log_slot sb k) = D k" "\<forall>k<n. length (D k) = BLOCK_SIZE"
  shows "\<exists>d'. recover_loop (ucast (log_start sb)) bn i r d = Inr d' \<and>
     content d' = replay (map (\<lambda>k. (ucast (bn ! k), D k)) [i..<n]) (content d) \<and>
     history d' = history d @ map (\<lambda>k. (ucast (bn ! k), D k)) [i..<n]"
  using assms(4-)
proof (induction r arbitrary: i d)
  case 0
  then show ?case by simp
next
  case (Suc r)
  have i: "i < n" using Suc.prems(1) by simp
  let ?d = "device_write d (bn ! i) (device_read d (ucast (log_start sb) + 1 + of_nat i))"
  have rd: "device_read d (ucast (log_start sb) + 1 + of_nat i) = D i"
    using Suc.prems(2) i by (simp add: device_read_def log_slot_props(1) [OF fits i])
  have c: "content ?d = (content d)(ucast (bn ! i) := D i)" "history ?d = history d @ [(ucast (bn ! i), D i)]"
    using Suc.prems(3) i by (simp_all add: device_write_content rd)
  have keep: "\<forall>k<n. content ?d (log_slot sb k) = D k"
  proof (intro allI impI)
    fix k assume k: "k < n"
    have "log_slot sb k \<noteq> ucast (bn ! i)" using out i log_slot_props(3) [OF fits k] by metis
    then show "content ?d (log_slot sb k) = D k" using Suc.prems(2) k by (simp add: c(1))
  qed
  have up: "[i..<n] = i # [Suc i..<n]" using i by (simp add: upt_conv_Cons)
  from Suc.IH [OF _ keep Suc.prems(3), of "Suc i"] Suc.prems(1) len i show ?case
    by (simp add: up c fun_upd_def)
qed

lemma crash_recover_spec:
  assumes fits: "log_fits sb n" and sb: "sblock s = sb" and safe: "safe \<longrightarrow> lock_free (clock s)"
    and hdr: "bytes_header (content (dev s) (log_start sb)) = h" "unat (hnum_blocks h) = n" "length (hblock_no h) = LOG_MAX_SIZE"
    and n: "n \<le> LOG_MAX_SIZE" and out: "\<forall>i<n. ucast (hblock_no h ! i) \<notin> log_area sb"
    and log: "\<forall>k<n. content (dev s) (log_slot sb k) = D k" "\<forall>k<n. length (D k) = BLOCK_SIZE"
  shows "\<exists>s'. unsafe_crash_recover cpu s safe = Inr s' \<and>
     s' = s\<lparr>dev := dev s', header := h\<lparr>hnum_blocks := 0\<rparr>\<rparr> \<and>
     content (dev s') = (replay (map (\<lambda>k. (ucast (hblock_no h ! k), D k)) [0..<n]) (content (dev s)))
        (log_start sb := header_bytes (h\<lparr>hnum_blocks := 0\<rparr>)) \<and>
     history (dev s') = history (dev s) @ map (\<lambda>k. (ucast (hblock_no h ! k), D k)) [0..<n] @
        [(log_start sb, header_bytes (h\<lparr>hnum_blocks := 0\<rparr>))]"
proof -
  have len: "n \<le> length (hblock_no h)" using n hdr(3) by simp
  obtain d where d: "recover_loop (ucast (log_start sb)) (hblock_no h) 0 n (dev s) = Inr d"
    "content d = replay (map (\<lambda>k. (ucast (hblock_no h ! k), D k)) [0..<n]) (content (dev s))"
    "history d = history (dev s) @ map (\<lambda>k. (ucast (hblock_no h ! k), D k)) [0..<n]"
    using recover_loop_spec [OF fits len out _ log, of 0 n] by auto
  have hb: "take BLOCK_SIZE (header_bytes (h\<lparr>hnum_blocks := 0\<rparr>)) = header_bytes (h\<lparr>hnum_blocks := 0\<rparr>)"
    using length_header_bytes [of "h\<lparr>hnum_blocks := 0\<rparr>"] hdr(3) by simp
  have rh: "bytes_header (device_read (dev s) (ucast (log_start sb))) = h" using hdr(1) by (simp add: device_read_def)
  define s' where "s' = s\<lparr>dev := device_write d (ucast (log_start sb)) (header_bytes (h\<lparr>hnum_blocks := 0\<rparr>)),
     header := h\<lparr>hnum_blocks := 0\<rparr>\<rparr>"
  have "unsafe_crash_recover cpu s safe = Inr s'"
    using safe d(1) hdr(2)
    by (cases safe) (simp_all add: unsafe_crash_recover_def lock_cache_def unlock_cache_def read_header_def
        write_header_def Let_def sb rh s'_def)
  moreover have "s' = s\<lparr>dev := dev s', header := h\<lparr>hnum_blocks := 0\<rparr>\<rparr>" by (simp add: s'_def)
  ultimately show ?thesis by (intro exI [of _ s']) (simp add: s'_def device_write_content hb d(2,3))
qed

text \<open>The commit loop writes the cached contents of the blocks of the header to the log.\<close>

lemma commit_loop_spec:
  assumes "queue_ok st qs" "sblock st = sb" "unat (log_start sb) + 1 + n \<le> 2 ^ 32" "n \<le> length (hblock_no (header st))" "i + r = n"
    and "\<forall>k<n. cached_data st qs (hblock_no (header st) ! k) = Some (D k)" "\<forall>k<n. length (D k) = BLOCK_SIZE"
  shows "\<exists>st'. commit_loop cpu (ucast (log_start sb)) i r st = Some (Inr st') \<and>
     st' = st\<lparr>dev := dev st', blocks := blocks st'\<rparr> \<and>
     (\<forall>b. \<exists>p. blocks st' b = (blocks st b)\<lparr>pinned := p\<rparr>) \<and>
     (\<forall>b. pinned (blocks st' b) \<longrightarrow> pinned (blocks st b) \<and>
        (\<forall>k. i \<le> k \<and> k < n \<longrightarrow> find (\<lambda>b. block_no (blocks st b) = hblock_no (header st) ! k) qs \<noteq> Some b)) \<and>
     content (dev st') = replay (map (\<lambda>k. (log_slot sb k, D k)) [i..<n]) (content (dev st)) \<and>
     history (dev st') = history (dev st) @ map (\<lambda>k. (log_slot sb k, D k)) [i..<n]"
  using assms
proof (induction r arbitrary: i st)
  case 0
  have "\<exists>p. blocks st b = (blocks st b)\<lparr>pinned := p\<rparr>" for b
    by (rule exI [of _ "pinned (blocks st b)"]) simp
  then show ?case using 0 by auto
next
  case (Suc r)
  let ?no = "hblock_no (header st) ! i"
  have i: "i < n" using Suc.prems(5) by simp
  from Suc.prems(6) i obtain b where b: "find (\<lambda>b. block_no (blocks st b) = ?no) qs = Some b" "data (blocks st b) = D i"
    by (auto simp: cached_data_def)
  have b0: "b \<noteq> NULL" using find_in_set [OF b(1)] Suc.prems(1) by (auto simp: queue_ok_def)
  have gc: "get_cache cpu st ?no = Some (Inr (b, st))" using get_cache_spec [OF Suc.prems(1)] b(1) by simp
  define st3 where "st3 = upd_block (st\<lparr>dev := device_write (dev st) (ucast (log_start sb) + 1 + of_nat i) (D i)\<rparr>) b (\<lambda>x. x\<lparr>pinned := False\<rparr>)"
  have step: "commit_loop cpu (ucast (log_start sb)) i (Suc r) st = commit_loop cpu (ucast (log_start sb)) (Suc i) r st3"
    using Suc.prems(4) i gc b b0 by (simp add: st3_def Let_def)
  have c: "content (dev st3) = (content (dev st))(log_slot sb i := D i)"
      "history (dev st3) = history (dev st) @ [(log_slot sb i, D i)]"
    using Suc.prems(7) i Suc.prems(3) by (simp_all add: st3_def upd_block_def device_write_content log_slot_room(1))
  have bl: "block_no (blocks st3 x) = block_no (blocks st x)" "data (blocks st3 x) = data (blocks st x)" for x
    by (simp_all add: st3_def upd_block_def)
  have q3: "queue_ok st3 qs" using Suc.prems(1) by (simp add: queue_ok_def st3_def upd_block_def)
  have cd3: "cached_data st3 qs = cached_data st qs" by (simp add: cached_data_def bl fun_eq_iff)
  have h3: "header st3 = header st" "sblock st3 = sb" using Suc.prems(2) by (simp_all add: st3_def upd_block_def)
  obtain st' where st': "commit_loop cpu (ucast (log_start sb)) (Suc i) r st3 = Some (Inr st')"
    "st' = st3\<lparr>dev := dev st', blocks := blocks st'\<rparr>" "\<forall>b. \<exists>p. blocks st' b = (blocks st3 b)\<lparr>pinned := p\<rparr>"
    "\<forall>b. pinned (blocks st' b) \<longrightarrow> pinned (blocks st3 b) \<and>
        (\<forall>k. Suc i \<le> k \<and> k < n \<longrightarrow> find (\<lambda>b. block_no (blocks st b) = hblock_no (header st) ! k) qs \<noteq> Some b)"
    "content (dev st') = replay (map (\<lambda>k. (log_slot sb k, D k)) [Suc i..<n]) (content (dev st3))"
    "history (dev st') = history (dev st3) @ map (\<lambda>k. (log_slot sb k, D k)) [Suc i..<n]"
    using Suc.IH [OF q3 h3(2) Suc.prems(3), of "Suc i"] Suc.prems cd3 h3 bl by auto
  have up: "[i..<n] = i # [Suc i..<n]" using i by (simp add: upt_conv_Cons)
  have "\<exists>p. blocks st' x = (blocks st x)\<lparr>pinned := p\<rparr>" for x
  proof -
    obtain p where "blocks st' x = (blocks st3 x)\<lparr>pinned := p\<rparr>" using st'(3) by blast
    then show ?thesis by (intro exI [of _ p]) (simp add: st3_def upd_block_def)
  qed
  moreover have "st' = st\<lparr>dev := dev st', blocks := blocks st'\<rparr>"
    by (subst st'(2)) (simp add: st3_def upd_block_def)
  moreover have "pinned (blocks st x)" "find (\<lambda>b. block_no (blocks st b) = hblock_no (header st) ! k) qs \<noteq> Some x"
    if "pinned (blocks st' x)" "i \<le> k" "k < n" for x k
    using st'(4) [rule_format, OF that(1)] that b(1) by (auto simp: st3_def upd_block_def not_less_eq_eq le_eq_less_or_eq [of i] split: if_splits)
  ultimately show ?case using st' step c i by (fastforce simp: up)
qed

text \<open>What \<open>commit\<close> needs: the blocks of the header are cached, distinct and outside the log area, the log
  has room for them and the header on disk is empty.\<close>

definition commit_ready :: "bcache \<Rightarrow> addr list \<Rightarrow> bool" where
  "commit_ready st qs \<longleftrightarrow>
     (let n = unat (hnum_blocks (header st)); bn = hblock_no (header st) in
      queue_ok st qs \<and> log_fits (sblock st) n \<and> n \<le> LOG_MAX_SIZE \<and> length bn = LOG_MAX_SIZE \<and>
      (\<forall>i<n. (\<exists>bs. cached_data st qs (bn ! i) = Some bs \<and> length bs = BLOCK_SIZE) \<and>
             ucast (bn ! i) \<notin> log_area (sblock st)) \<and>
      distinct (map (\<lambda>i. ucast (bn ! i) :: u32) [0..<n]) \<and>
      hnum_blocks (bytes_header (content (dev st) (log_start (sblock st)))) = 0)"

text \<open>The contents an atomic operation installs: block number and cached data for every header entry.\<close>

definition install_list :: "bcache \<Rightarrow> addr list \<Rightarrow> (u32 \<times> u8 list) list" where
  "install_list st qs =
     map (\<lambda>no. (ucast no, the (cached_data st qs no))) (take (unat (hnum_blocks (header st))) (hblock_no (header st)))"

lemma words_of_bytes_length [simp]: "length (words_of_bytes n bs) = n"
  by (induction n arbitrary: bs) simp_all

text \<open>The writes of a commit: the blocks to the log, and the blocks to their homes.\<close>

abbreviation log_writes :: "SuperBlock \<Rightarrow> (nat \<Rightarrow> u8 list) \<Rightarrow> nat \<Rightarrow> (u32 \<times> u8 list) list" where
  "log_writes sb D n \<equiv> map (\<lambda>k. (log_slot sb k, D k)) [0..<n]"

abbreviation home_writes :: "LogHeader \<Rightarrow> (nat \<Rightarrow> u8 list) \<Rightarrow> nat \<Rightarrow> (u32 \<times> u8 list) list" where
  "home_writes h D n \<equiv> map (\<lambda>k. (ucast (hblock_no h ! k), D k)) [0..<n]"

lemma log_slot_not_start: "log_fits sb n \<Longrightarrow> k < n \<Longrightarrow> log_slot sb k \<noteq> log_start sb"
  using log_slot_props(2) [of sb n k] by auto

lemma log_written:
  assumes fits: "log_fits sb n" and k: "k < n"
  shows "replay (log_writes sb D n) c (log_slot sb k) = D k"
proof (rule replay_hit)
  have "x = y" if "x < n" "y < n" "log_slot sb x = log_slot sb y" for x y
  proof -
    have "unat (log_slot sb x) = unat (log_slot sb y)" using that(3) by (rule arg_cong)
    then show ?thesis unfolding log_slot_props(2) [OF fits that(1)] log_slot_props(2) [OF fits that(2)] by linarith
  qed
  then show "distinct (map fst (log_writes sb D n))" by (auto simp: distinct_map intro!: inj_onI)
  show "(log_slot sb k, D k) \<in> set (log_writes sb D n)" using k by auto
qed

lemma home_writes_outside:
  assumes "\<forall>i<n. ucast (hblock_no h ! i) \<notin> log_area sb" "no \<in> log_area sb"
  shows "replay (take j (home_writes h D n)) c no = c no"
proof (rule replay_other)
  have "fst ` set (take j (home_writes h D n)) \<subseteq> (\<lambda>i. ucast (hblock_no h ! i)) ` {..<n}" by (auto dest!: in_set_takeD)
  then show "no \<notin> fst ` set (take j (home_writes h D n))" using assms by auto
qed

lemma commit_trace:
  assumes ready: "commit_ready st qs"
  defines "sb \<equiv> sblock st" and "h \<equiv> header st" and "n \<equiv> unat (hnum_blocks (header st))"
    and "D \<equiv> (\<lambda>i. the (cached_data st qs (hblock_no (header st) ! i)))"
  shows "\<exists>st'. commit cpu st = Some (Inr st') \<and> header st' = h\<lparr>hnum_blocks := 0\<rparr> \<and>
     st' = st\<lparr>dev := dev st', blocks := blocks st', header := header st'\<rparr> \<and>
     (\<forall>b. \<exists>p. blocks st' b = (blocks st b)\<lparr>pinned := p\<rparr>) \<and>
     (\<forall>b. pinned (blocks st' b) \<longrightarrow> pinned (blocks st b) \<and>
        (\<forall>k<n. find (\<lambda>b. block_no (blocks st b) = hblock_no h ! k) qs \<noteq> Some b)) \<and>
     history (dev st') = history (dev st) @ log_writes sb D n @ [(log_start sb, header_bytes h)] @ home_writes h D n @
       [(log_start sb, header_bytes (h\<lparr>hnum_blocks := 0\<rparr>))] \<and>
     content (dev st') = replay (log_writes sb D n @ [(log_start sb, header_bytes h)] @ home_writes h D n @
       [(log_start sb, header_bytes (h\<lparr>hnum_blocks := 0\<rparr>))]) (content (dev st))"
proof -
  have q: "queue_ok st qs" and fits: "log_fits sb n" and n: "n \<le> LOG_MAX_SIZE" and len: "length (hblock_no h) = LOG_MAX_SIZE"
    and ent: "\<And>i. i < n \<Longrightarrow> \<exists>bs. cached_data st qs (hblock_no h ! i) = Some bs \<and> length bs = BLOCK_SIZE"
    and out: "\<forall>i<n. ucast (hblock_no h ! i) \<notin> log_area sb"
    using ready by (auto simp: commit_ready_def Let_def sb_def n_def h_def)
  have D: "\<forall>k<n. cached_data st qs (hblock_no (header st) ! k) = Some (D k)" "\<forall>k<n. length (D k) = BLOCK_SIZE"
    using ent by (force simp: D_def h_def)+
  have nl: "n \<le> length (hblock_no (header st))" using n len by (simp add: h_def)
  have sbe: "sblock st = sb" by (simp add: sb_def)
  have room: "unat (log_start sb) + 1 + n \<le> 2 ^ 32" using fits by (simp add: log_fits_def)
  obtain st1 where st1: "commit_loop cpu (ucast (log_start sb)) 0 n st = Some (Inr st1)"
    "st1 = st\<lparr>dev := dev st1, blocks := blocks st1\<rparr>" "(\<forall>b. \<exists>p. blocks st1 b = (blocks st b)\<lparr>pinned := p\<rparr>) \<and>
      (\<forall>b. pinned (blocks st1 b) \<longrightarrow> pinned (blocks st b) \<and> (\<forall>k<n. find (\<lambda>b. block_no (blocks st b) = hblock_no h ! k) qs \<noteq> Some b))"
    "content (dev st1) = replay (log_writes sb D n) (content (dev st))"
    "history (dev st1) = history (dev st) @ log_writes sb D n"
    using commit_loop_spec [OF q sbe room nl _ D, of 0 n cpu] unfolding h_def by auto
  have hb: "take BLOCK_SIZE (header_bytes h) = header_bytes h" using length_header_bytes [OF len] by simp
  have h1: "header st1 = h" "sblock st1 = sb" by (subst st1(2), simp add: h_def sb_def)+
  define st2 where "st2 = write_header st1"
  have c2: "content (dev st2) = (content (dev st1))(log_start sb := header_bytes h)"
    "history (dev st2) = history (dev st1) @ [(log_start sb, header_bytes h)]"
    by (simp_all add: st2_def write_header_def h1 device_write_content hb)
  have log: "\<forall>k<n. content (dev st2) (log_slot sb k) = D k"
    using log_slot_not_start [OF fits] log_written [OF fits] by (simp add: c2 st1(4))
  have hdr: "bytes_header (content (dev st2) (log_start sb)) = h" by (simp add: c2 bytes_header_bytes [OF len])
  have sb2: "sblock st2 = sb" by (simp add: st2_def write_header_def h1)
  obtain st' where st': "unsafe_crash_recover cpu st2 False = Inr st'"
    "st' = st2\<lparr>dev := dev st', header := h\<lparr>hnum_blocks := 0\<rparr>\<rparr>"
    "content (dev st') = (replay (home_writes h D n) (content (dev st2)))(log_start sb := header_bytes (h\<lparr>hnum_blocks := 0\<rparr>))"
    "history (dev st') = history (dev st2) @ home_writes h D n @ [(log_start sb, header_bytes (h\<lparr>hnum_blocks := 0\<rparr>))]"
    using crash_recover_spec [OF fits sb2 _ hdr _ len n out log D(2), of False cpu] by (auto simp: n_def h_def)
  have "commit cpu st = Some (Inr st')"
    using st1(1) st'(1) by (simp add: commit_def sb_def [symmetric] n_def [symmetric] st2_def)
  moreover have "header st' = h\<lparr>hnum_blocks := 0\<rparr>" "blocks st' = blocks st1" by (subst st'(2), simp add: st2_def write_header_def)+
  moreover have "st' = st\<lparr>dev := dev st', blocks := blocks st', header := header st'\<rparr>"
    by (subst st'(2), subst (3) st'(2), subst (2) st'(2)) (simp add: st2_def write_header_def, subst st1(2), simp)
  ultimately show ?thesis
    using st1(3) st'(3,4) st1(4,5) c2 by (intro exI [of _ st']) (simp add: replay_append)
qed

lemma install_list_alt:
  assumes "n = unat (hnum_blocks (header st))" "n \<le> length (hblock_no (header st))"
  shows "install_list st qs =
    map (\<lambda>k. (ucast (hblock_no (header st) ! k), the (cached_data st qs (hblock_no (header st) ! k)))) [0..<n]"
proof -
  have "take n (hblock_no (header st)) = map ((!) (hblock_no (header st))) [0..<n]"
    using assms(2) by (simp add: list_eq_iff_nth_eq)
  then show ?thesis by (simp add: install_list_def assms(1) [symmetric])
qed

text \<open>Outcome of recovery in the three phases of a commit.\<close>

lemma recover_empty_header:
  assumes fits: "log_fits sb n" and s: "sblock s = sb" "lock_free (clock s)"
    and h: "hnum_blocks (bytes_header (content (dev s) (log_start sb))) = 0"
  shows "\<exists>s'. unsafe_crash_recover cpu s True = Inr s' \<and> (\<forall>no. no \<notin> log_area sb \<longrightarrow> content (dev s') no = content (dev s) no)"
proof -
  let ?h = "bytes_header (content (dev s) (log_start sb))"
  have f0: "log_fits sb 0" using fits by (auto simp: log_fits_def)
  have len: "length (hblock_no ?h) = LOG_MAX_SIZE" by (simp add: bytes_header_def)
  have n0: "unat (hnum_blocks ?h) = 0" using h by simp
  from crash_recover_spec [OF f0 s(1) _ refl n0 len, of True "\<lambda>_. []" cpu] s(2)
  show ?thesis using log_start_area [OF fits] by auto
qed

lemma recover_full_header:
  assumes fits: "log_fits sb n" and s: "sblock s = sb" "lock_free (clock s)"
    and hdr: "content (dev s) (log_start sb) = header_bytes h" "unat (hnum_blocks h) = n" "length (hblock_no h) = LOG_MAX_SIZE"
    and n: "n \<le> LOG_MAX_SIZE" and out: "\<forall>i<n. ucast (hblock_no h ! i) \<notin> log_area sb"
    and log: "\<forall>k<n. content (dev s) (log_slot sb k) = D k" "\<forall>k<n. length (D k) = BLOCK_SIZE"
  shows "\<exists>s'. unsafe_crash_recover cpu s True = Inr s' \<and>
    (\<forall>no. no \<notin> log_area sb \<longrightarrow> content (dev s') no =
       replay (map (\<lambda>k. (ucast (hblock_no h ! k), D k)) [0..<n]) (content (dev s)) no)"
proof -
  have h: "bytes_header (content (dev s) (log_start sb)) = h" using hdr(1,3) by (simp add: bytes_header_bytes)
  from crash_recover_spec [OF fits s(1) _ h hdr(2,3) n out log, of True cpu] s(2)
  show ?thesis using log_start_area [OF fits] by auto
qed

lemma replay_log_outside:
  assumes "log_fits sb n" "no \<notin> log_area sb"
  shows "replay (take k (map (\<lambda>k. (log_slot sb k, D k)) [0..<n])) c no = c no"
proof (rule replay_other)
  have "fst ` set (take k (map (\<lambda>k. (log_slot sb k, D k)) [0..<n])) \<subseteq> log_area sb"
    using log_slot_props(3) [OF assms(1)] by (auto dest!: in_set_takeD)
  with assms(2) show "no \<notin> fst ` set (take k (map (\<lambda>k. (log_slot sb k, D k)) [0..<n]))" by blast
qed

text \<open>A crash before the header is written, while the blocks are installed, and after the log is emptied.\<close>

lemma crash_before_header:
  assumes fits: "log_fits sb n" and s: "sblock s = sb" "lock_free (clock s)"
    and h0: "hnum_blocks (bytes_header (cold (log_start sb))) = 0"
    and c: "content (dev s) = replay (take k (log_writes sb D n)) cold"
  shows "\<exists>s'. unsafe_crash_recover cpu s True = Inr s' \<and> (\<forall>no. no \<notin> log_area sb \<longrightarrow> content (dev s') no = cold no)"
proof -
  have "log_start sb \<notin> fst ` set (take k (log_writes sb D n))"
    using log_slot_not_start [OF fits] by (force dest!: in_set_takeD)
  then have "content (dev s) (log_start sb) = cold (log_start sb)" by (simp add: c replay_other)
  then have "hnum_blocks (bytes_header (content (dev s) (log_start sb))) = 0" using h0 by simp
  from recover_empty_header [OF fits s this, of cpu] show ?thesis
    using replay_log_outside [OF fits, of _ k D cold] by (auto simp: c)
qed

lemma header_on_disk:
  assumes fits: "log_fits sb n" and no: "no \<notin> log_area sb"
  shows "((replay (log_writes sb D n) cold)(log_start sb := x)) no = cold no"
proof -
  have "no \<noteq> log_start sb" using no log_start_area [OF fits] by auto
  then show ?thesis using replay_log_outside [OF fits no, of n D cold] by simp
qed

lemma crash_installing:
  assumes fits: "log_fits sb n" and h: "unat (hnum_blocks h) = n" "length (hblock_no h) = LOG_MAX_SIZE" "n \<le> LOG_MAX_SIZE"
    and out: "\<forall>i<n. ucast (hblock_no h ! i) \<notin> log_area sb" and D: "\<forall>k<n. length (D k) = BLOCK_SIZE"
    and dist: "distinct (map (\<lambda>i. ucast (hblock_no h ! i) :: u32) [0..<n])" and s: "sblock s = sb" "lock_free (clock s)"
    and c: "content (dev s) = replay (take j (home_writes h D n)) ((replay (log_writes sb D n) cold)(log_start sb := header_bytes h))"
  shows "\<exists>s'. unsafe_crash_recover cpu s True = Inr s' \<and>
    (\<forall>no. no \<notin> log_area sb \<longrightarrow> content (dev s') no = replay (home_writes h D n) cold no)"
proof -
  let ?c = "(replay (log_writes sb D n) cold)(log_start sb := header_bytes h)"
  have hd: "content (dev s) (log_start sb) = header_bytes h"
    using home_writes_outside [OF out log_start_area [OF fits]] by (simp add: c)
  have lg: "\<forall>i<n. content (dev s) (log_slot sb i) = D i"
    using home_writes_outside [OF out log_slot_props(3) [OF fits]] log_slot_not_start [OF fits] log_written [OF fits] by (simp add: c)
  have d: "distinct (map fst (home_writes h D n))" using dist by (simp add: comp_def)
  have "replay (home_writes h D n) (content (dev s)) no = replay (home_writes h D n) cold no" if "no \<notin> log_area sb" for no
    unfolding c replay_again [OF d] by (rule replay_cong_on [OF header_on_disk [OF fits] that])
  with recover_full_header [OF fits s hd h out lg D, of cpu] show ?thesis by auto
qed

lemma crash_emptied:
  assumes fits: "log_fits sb n" and h: "length (hblock_no h) = LOG_MAX_SIZE" and s: "sblock s = sb" "lock_free (clock s)"
    and c: "content (dev s) = (replay (home_writes h D n) ((replay (log_writes sb D n) cold)(log_start sb := x)))
      (log_start sb := header_bytes (h\<lparr>hnum_blocks := 0\<rparr>))"
  shows "\<exists>s'. unsafe_crash_recover cpu s True = Inr s' \<and>
    (\<forall>no. no \<notin> log_area sb \<longrightarrow> content (dev s') no = replay (home_writes h D n) cold no)"
proof -
  have "hnum_blocks (bytes_header (content (dev s) (log_start sb))) = 0"
    using bytes_header_bytes [of "h\<lparr>hnum_blocks := 0\<rparr>"] h by (simp add: c)
  from recover_empty_header [OF fits s this, of cpu] obtain s' where
    s': "unsafe_crash_recover cpu s True = Inr s'" "\<forall>no. no \<notin> log_area sb \<longrightarrow> content (dev s') no = content (dev s) no" by blast
  have "content (dev s) no = replay (home_writes h D n) cold no" if no: "no \<notin> log_area sb" for no
  proof -
    have "no \<noteq> log_start sb" using no log_start_area [OF fits] by auto
    moreover have "replay (home_writes h D n) ((replay (log_writes sb D n) cold)(log_start sb := x)) no = replay (home_writes h D n) cold no"
      by (rule replay_cong_on [OF header_on_disk [OF fits] no])
    ultimately show ?thesis by (simp add: c)
  qed
  with s' show ?thesis by auto
qed

lemma crash_phases:
  assumes fits: "log_fits sb n" and h: "unat (hnum_blocks h) = n" "length (hblock_no h) = LOG_MAX_SIZE" "n \<le> LOG_MAX_SIZE"
    and out: "\<forall>i<n. ucast (hblock_no h ! i) \<notin> log_area sb" and D: "\<forall>k<n. length (D k) = BLOCK_SIZE"
    and dist: "distinct (map (\<lambda>i. ucast (hblock_no h ! i) :: u32) [0..<n])"
    and h0: "hnum_blocks (bytes_header (cold (log_start sb))) = 0"
    and s: "sblock s = sb" "lock_free (clock s)"
    and c: "content (dev s) = replay (take k (log_writes sb D n @ [(log_start sb, header_bytes h)] @ home_writes h D n @
      [(log_start sb, header_bytes (h\<lparr>hnum_blocks := 0\<rparr>))])) cold"
  shows "\<exists>s'. unsafe_crash_recover cpu s True = Inr s' \<and>
    (\<forall>no. no \<notin> log_area sb \<longrightarrow> content (dev s') no = (if k \<le> n then cold no else replay (home_writes h D n) cold no))"
proof -
  consider (pre) "k \<le> n" | (mid) j where "k = n + 1 + j" "j \<le> n" | (post) "2 * n + 2 \<le> k"
  proof (cases "k \<le> n \<or> 2 * n + 2 \<le> k")
    case False
    then have "k = n + 1 + (k - (n + 1))" "k - (n + 1) \<le> n" by auto
    then show ?thesis using that(2) by blast
  qed (use that in blast)
  then show ?thesis
  proof cases
    case pre
    then have "content (dev s) = replay (take k (log_writes sb D n)) cold" using c by simp
    from crash_before_header [OF fits s h0 this] pre show ?thesis by simp
  next
    case mid
    then have "content (dev s) = replay (take j (home_writes h D n)) ((replay (log_writes sb D n) cold)(log_start sb := header_bytes h))"
      using c by (simp add: replay_append take_append [of k "log_writes sb D n"])
    from crash_installing [OF fits h out D dist s this] mid show ?thesis by simp
  next
    case post
    then have "content (dev s) = (replay (home_writes h D n) ((replay (log_writes sb D n) cold)(log_start sb := header_bytes h)))
        (log_start sb := header_bytes (h\<lparr>hnum_blocks := 0\<rparr>))" using c by (simp add: replay_append)
    from crash_emptied [OF fits h(2) s this] post show ?thesis by simp
  qed
qed

lemma commit_atomic:
  assumes "commit_ready st qs"
  shows "\<exists>st' ws. commit cpu st = Some (Inr st') \<and> history (dev st') = history (dev st) @ ws \<and>
    content (dev st') = replay ws (content (dev st)) \<and> header st' = (header st)\<lparr>hnum_blocks := 0\<rparr> \<and>
    st' = st\<lparr>dev := dev st', blocks := blocks st', header := header st'\<rparr> \<and>
    (\<forall>b. \<exists>p. blocks st' b = (blocks st b)\<lparr>pinned := p\<rparr>) \<and>
    (\<forall>b. pinned (blocks st' b) \<longrightarrow> pinned (blocks st b) \<and>
      (\<forall>k<unat (hnum_blocks (header st)). find (\<lambda>b. block_no (blocks st b) = hblock_no (header st) ! k) qs \<noteq> Some b)) \<and>
    (\<forall>k s. sblock s = sblock st \<and> lock_free (clock s) \<and> content (dev s) = replay (take k ws) (content (dev st)) \<longrightarrow>
       (\<exists>s'. unsafe_crash_recover cpu' s True = Inr s' \<and>
         (\<forall>no. no \<notin> log_area (sblock st) \<longrightarrow> content (dev s') no =
            (if k \<le> unat (hnum_blocks (header st)) then content (dev st) no
             else replay (install_list st qs) (content (dev st)) no))))"
proof -
  let ?sb = "sblock st" and ?h = "header st" and ?n = "unat (hnum_blocks (header st))"
  let ?D = "\<lambda>i. the (cached_data st qs (hblock_no (header st) ! i))"
  have r: "log_fits ?sb ?n" "?n \<le> LOG_MAX_SIZE" "length (hblock_no ?h) = LOG_MAX_SIZE"
    "\<forall>i<?n. ucast (hblock_no ?h ! i) \<notin> log_area ?sb" "distinct (map (\<lambda>i. ucast (hblock_no ?h ! i) :: u32) [0..<?n])"
    "hnum_blocks (bytes_header (content (dev st) (log_start ?sb))) = 0"
    and D: "\<forall>k<?n. length (?D k) = BLOCK_SIZE"
    using assms unfolding commit_ready_def Let_def by force+
  have il: "install_list st qs = map (\<lambda>k. (ucast (hblock_no ?h ! k), ?D k)) [0..<?n]"
    by (rule install_list_alt) (use r in auto)
  obtain st' where st': "commit cpu st = Some (Inr st')" "header st' = ?h\<lparr>hnum_blocks := 0\<rparr>"
    "st' = st\<lparr>dev := dev st', blocks := blocks st', header := header st'\<rparr>"
    "\<forall>b. \<exists>p. blocks st' b = (blocks st b)\<lparr>pinned := p\<rparr>"
    "\<forall>b. pinned (blocks st' b) \<longrightarrow> pinned (blocks st b) \<and> (\<forall>k<?n. find (\<lambda>b. block_no (blocks st b) = hblock_no ?h ! k) qs \<noteq> Some b)"
    "history (dev st') = history (dev st) @ map (\<lambda>k. (log_slot ?sb k, ?D k)) [0..<?n] @
       [(log_start ?sb, header_bytes ?h)] @ map (\<lambda>k. (ucast (hblock_no ?h ! k), ?D k)) [0..<?n] @
       [(log_start ?sb, header_bytes (?h\<lparr>hnum_blocks := 0\<rparr>))]"
    "content (dev st') = replay (map (\<lambda>k. (log_slot ?sb k, ?D k)) [0..<?n] @
       [(log_start ?sb, header_bytes ?h)] @ map (\<lambda>k. (ucast (hblock_no ?h ! k), ?D k)) [0..<?n] @
       [(log_start ?sb, header_bytes (?h\<lparr>hnum_blocks := 0\<rparr>))]) (content (dev st))"
    using commit_trace [OF assms, of cpu] by blast
  note cp = crash_phases [where D = ?D and h = ?h and cold = "content (dev st)" and sb = ?sb and cpu = cpu', OF r(1) refl r(3,2,4) D r(5,6)]
  have rec: "\<exists>s'. unsafe_crash_recover cpu' s True = Inr s' \<and>
         (\<forall>no. no \<notin> log_area ?sb \<longrightarrow> content (dev s') no =
            (if k \<le> ?n then content (dev st) no else replay (install_list st qs) (content (dev st)) no))"
    if "sblock s = ?sb \<and> lock_free (clock s) \<and> content (dev s) = replay (take k (map (\<lambda>k. (log_slot ?sb k, ?D k)) [0..<?n] @
       [(log_start ?sb, header_bytes ?h)] @ map (\<lambda>k. (ucast (hblock_no ?h ! k), ?D k)) [0..<?n] @
       [(log_start ?sb, header_bytes (?h\<lparr>hnum_blocks := 0\<rparr>))])) (content (dev st))" for k s
    unfolding il by (rule cp) (use that in blast)+
  with st' show ?thesis by blast
qed

text \<open>C2: a commit terminates, and it is atomic under crashes: let the machine crash after any number \<open>k\<close> of the
  writes the commit makes and let any memory state boot on that disk; recovery succeeds, and outside the
  log area the disk then holds the old contents if the header had not been written (\<open>k\<close> at most the
  number of logged blocks) and otherwise the old contents with every logged block replaced by its cached
  data. The hypotheses are those of \<open>commit_ready\<close>; in particular the log must have room for the header
  and all entries.\<close>

theorem commit_crash_atomic:
  assumes "commit_ready st qs"
  shows "\<exists>st' ws. commit cpu st = Some (Inr st') \<and> history (dev st') = history (dev st) @ ws \<and>
    content (dev st') = replay ws (content (dev st)) \<and> hnum_blocks (header st') = 0 \<and>
    (\<forall>k s. sblock s = sblock st \<and> lock_free (clock s) \<and> content (dev s) = replay (take k ws) (content (dev st)) \<longrightarrow>
       (\<exists>s'. unsafe_crash_recover cpu' s True = Inr s' \<and>
         (\<forall>no. no \<notin> log_area (sblock st) \<longrightarrow> content (dev s') no =
            (if k \<le> unat (hnum_blocks (header st)) then content (dev st) no
             else replay (install_list st qs) (content (dev st)) no))))"
proof -
  obtain st' ws where r: "commit cpu st = Some (Inr st')" "history (dev st') = history (dev st) @ ws"
      "content (dev st') = replay ws (content (dev st))" "header st' = (header st)\<lparr>hnum_blocks := 0\<rparr>"
    and rec: "\<forall>k s. sblock s = sblock st \<and> lock_free (clock s) \<and> content (dev s) = replay (take k ws) (content (dev st)) \<longrightarrow>
       (\<exists>s'. unsafe_crash_recover cpu' s True = Inr s' \<and>
         (\<forall>no. no \<notin> log_area (sblock st) \<longrightarrow> content (dev s') no =
            (if k \<le> unat (hnum_blocks (header st)) then content (dev st) no
             else replay (install_list st qs) (content (dev st)) no)))"
    using commit_atomic [OF assms, of cpu cpu'] by blast
  have "hnum_blocks (header st') = 0" by (simp add: r(4))
  with r rec show ?thesis by blast
qed

text \<open>A small disk and cache: the log area is blocks 2 to 5, block 9 is cached and logged.\<close>

definition cache_example :: bcache where
  "cache_example =
     \<lparr>sblock = \<lparr>num_blocks = 100, num_data_blocks = 80, num_inodes = 8, num_log_blocks = 4, log_start = 2,
        inode_start = 6, bitmap_start = 8\<rparr>,
      dev = \<lparr>content = (\<lambda>_. replicate 512 0), history = []\<rparr>,
      clock = \<lparr>locked = False, lcpu = None, lname = []\<rparr>,
      header = \<lparr>hnum_blocks = 1, hblock_no = 9 # replicate 62 0\<rparr>,
      barena = arena_example, arena_addr = 256, outstanding = 1, end_pending = 0, cached_num = 1,
      qlock = \<lparr>locked = False, lcpu = None, lname = []\<rparr>, qhead = 1024,
      bnodes = \<lparr>lprev = (\<lambda>a. if a = 1024 then 4168 else 1024), lnext = (\<lambda>a. if a = 1024 then 4168 else 1024)\<rparr>,
      blocks = (\<lambda>_. \<lparr>block_no = 9, acquired = False, pinned = True,
         block_lock = \<lparr>slock = \<lparr>locked = False, lcpu = None, lname = ''block''\<rparr>, slocked = False\<rparr>,
         valid = True, data = replicate 512 7\<rparr>),
      woken = []\<rparr>"

lemma words_of_bytes_zero: "words_of_bytes n (replicate m 0) = replicate n 0"
proof (induction n arbitrary: m)
  case (Suc n)
  have "le_word (replicate k 0) = (0 :: u64)" for k by (induction k) simp_all
  with Suc show ?case by (simp add: min_def)
qed simp

lemma cache_example_ready: "commit_ready cache_example [4160]"
proof -
  have "hnum_blocks (bytes_header (replicate 512 0)) = 0"
  proof -
    have "le_word (replicate k 0) = (0 :: u64)" for k by (induction k) simp_all
    then show ?thesis by (simp add: bytes_header_def)
  qed
  moreover have "cyc (bnodes cache_example) [1024, 4168]"
    by (simp add: cache_example_def cyc_def linked_def)
  moreover have "cached_data cache_example [4160] 9 = Some (replicate 512 7)"
    by (simp add: cached_data_def cache_example_def)
  ultimately show ?thesis
    by (simp add: commit_ready_def Let_def queue_ok_def log_fits_def log_area_def lock_free_def cache_example_def blk_node_def)
qed

theorem commit_crash_atomic_witness:
  "\<exists>st'. commit 0 cache_example = Some (Inr st') \<and> hnum_blocks (header st') = 0"
  using commit_crash_atomic [OF cache_example_ready, of 0 1] by blast

text \<open>C12: recovery may itself be interrupted: after any number of its writes, running it again gives, outside the
  log area, the same contents as an uninterrupted recovery.\<close>

theorem recovery_idempotent:
  assumes "log_fits (sblock s) n" and "lock_free (clock s)"
    and "content (dev s) (log_start (sblock s)) = header_bytes h" and "unat (hnum_blocks h) = n"
    and "length (hblock_no h) = LOG_MAX_SIZE" and "n \<le> LOG_MAX_SIZE"
    and "\<forall>i<n. ucast (hblock_no h ! i) \<notin> log_area (sblock s)"
    and "\<forall>k<n. length (content (dev s) (log_slot (sblock s) k)) = BLOCK_SIZE"
    and "distinct (map (\<lambda>i. ucast (hblock_no h ! i) :: u32) [0..<n])"
  shows "\<exists>s' ws. unsafe_crash_recover cpu s True = Inr s' \<and> history (dev s') = history (dev s) @ ws \<and>
    (\<forall>k r. sblock r = sblock s \<and> lock_free (clock r) \<and> content (dev r) = replay (take k ws) (content (dev s)) \<longrightarrow>
       (\<exists>r'. unsafe_crash_recover cpu' r True = Inr r' \<and>
         (\<forall>no. no \<notin> log_area (sblock s) \<longrightarrow> content (dev r') no = content (dev s') no)))"
proof -
  let ?sb = "sblock s" and ?D = "\<lambda>k. content (dev s) (log_slot (sblock s) k)" and ?c = "content (dev s)"
  let ?B = "map (\<lambda>k. (ucast (hblock_no h ! k) :: u32, ?D k)) [0..<n]" and ?Z = "header_bytes (h\<lparr>hnum_blocks := 0\<rparr>)"
  have bh: "bytes_header (?c (log_start ?sb)) = h" using assms(3,5) by (simp add: bytes_header_bytes)
  obtain s' where s': "unsafe_crash_recover cpu s True = Inr s'"
    "content (dev s') = (replay ?B ?c)(log_start ?sb := ?Z)" "history (dev s') = history (dev s) @ ?B @ [(log_start ?sb, ?Z)]"
    using crash_recover_spec [where D = ?D and cpu = cpu and safe = True, OF assms(1) refl _ bh assms(4-7) _ assms(8)] assms(2) by auto
  have ls: "log_start ?sb \<in> log_area ?sb" by (rule log_start_area [OF assms(1)])
  have Bout: "replay (take j ?B) c no = c no" if "no \<in> log_area ?sb" for j c no
  proof (rule replay_other)
    have "fst ` set (take j ?B) \<subseteq> (\<lambda>i. ucast (hblock_no h ! i)) ` {..<n}" by (auto dest!: in_set_takeD)
    then show "no \<notin> fst ` set (take j ?B)" using assms(7) that by auto
  qed
  have distB: "distinct (map fst ?B)" using assms(9) by (simp add: comp_def)
  have "\<exists>r'. unsafe_crash_recover cpu' r True = Inr r' \<and>
         (\<forall>no. no \<notin> log_area ?sb \<longrightarrow> content (dev r') no = content (dev s') no)"
    if r: "sblock r = ?sb" "lock_free (clock r)" "content (dev r) = replay (take k (?B @ [(log_start ?sb, ?Z)])) ?c" for k r
  proof (cases "k \<le> n")
    case True
    then have cr: "content (dev r) = replay (take k ?B) ?c" using r(3) by simp
    have hd: "content (dev r) (log_start ?sb) = header_bytes h" using Bout [OF ls] assms(3) by (simp add: cr)
    have lg: "\<forall>i<n. content (dev r) (log_slot ?sb i) = ?D i"
      using Bout [OF log_slot_props(3) [OF assms(1)]] by (simp add: cr)
    from recover_full_header [where D = ?D and cpu = cpu', OF assms(1) r(1,2) hd assms(4-7) lg assms(8)] show ?thesis
      using replay_again [OF distB, of k ?c] ls by (auto simp: s'(2) cr)
  next
    case False
    then have cr: "content (dev r) = (replay ?B ?c)(log_start ?sb := ?Z)" using r(3) by (simp add: replay_append)
    have "hnum_blocks (bytes_header (content (dev r) (log_start ?sb))) = 0"
      using bytes_header_bytes [of "h\<lparr>hnum_blocks := 0\<rparr>"] assms(5) by (simp add: cr)
    from recover_empty_header [OF assms(1) r(1,2) this, of cpu'] show ?thesis by (auto simp: s'(2) cr)
  qed
  with s' show ?thesis by blast
qed

text \<open>A disk whose log holds one committed block, block 9.\<close>

definition crashed_example :: bcache where
  "crashed_example = cache_example\<lparr>dev := \<lparr>content = (\<lambda>no. if no = 2 then header_bytes \<lparr>hnum_blocks = 1, hblock_no = 9 # replicate 62 0\<rparr>
       else replicate 512 3), history = []\<rparr>\<rparr>"

theorem recovery_idempotent_witness:
  "\<exists>s'. unsafe_crash_recover 0 crashed_example True = Inr s'"
proof -
  let ?h = "\<lparr>hnum_blocks = 1, hblock_no = 9 # replicate 62 0\<rparr> :: LogHeader"
  have "log_slot (sblock crashed_example) 0 = 3" by (simp add: log_slot_def crashed_example_def cache_example_def)
  then show ?thesis
    using recovery_idempotent [of crashed_example 1 ?h 0 0]
    by (auto simp: crashed_example_def cache_example_def log_fits_def log_area_def lock_free_def)
qed

end
