(* ===== verification/KCacheInv.thy ===== *)
theory KCacheInv
  imports KCrash
begin

text \<open>
  The invariant of the block cache and what acquiring, evicting and releasing blocks do to it: the ring
  of cached blocks consists of exactly the live objects of the arena, no block is cached twice, and the
  sleep lock of a block is held exactly while it is acquired.\<close>

definition block_ok :: "Block \<Rightarrow> bool" where
  "block_ok b \<longleftrightarrow> sleeplock_ok (block_lock b) \<and> slocked (block_lock b) = acquired b \<and> valid b"

definition head_outside :: "bcache \<Rightarrow> bool" where
  "head_outside st \<longleftrightarrow> qhead st \<noteq> NULL \<and>
     (\<forall>p \<in> pm_pages (apmem (barena st)). unat (qhead st) < unat p \<or> unat p + PAGE_SIZE \<le> unat (qhead st))"

text \<open>\<open>qs\<close> lists the cached blocks in queue order, \<open>ps\<close> the pages of their arena, \<open>c\<close> is the CPU whose
  allocator functions the arena holds. The locks \<open>clock\<close> and \<open>qlock\<close> are not mentioned.\<close>

definition bc_core :: "nat \<Rightarrow> bcache \<Rightarrow> addr list \<Rightarrow> addr list \<Rightarrow> bool" where
  "bc_core c st qs ps \<longleftrightarrow>
     arena_ok pm_live pm_inv (barena st) (arena_addr st) ps \<and>
     allocator (arenas (barena st) (arena_addr st)) = kernel_allocator c \<and>
     object_size (arenas (barena st) (arena_addr st)) = sizeof_Block \<and>
     cyc (bnodes st) (qhead st # map blk_node qs) \<and>
     set qs = aobjects (barena st) (arena_addr st) ps \<and>
     cached_num st = of_nat (length qs) \<and>
     distinct (map (\<lambda>b. block_no (blocks st b)) qs) \<and>
     (\<forall>b\<in>set qs. block_ok (blocks st b)) \<and> head_outside st"

definition bc_ok :: "nat \<Rightarrow> bcache \<Rightarrow> addr list \<Rightarrow> addr list \<Rightarrow> bool" where
  "bc_ok c st qs ps \<longleftrightarrow> bc_core c st qs ps \<and> lock_free (qlock st) \<and> lock_free (clock st)"

lemma bc_core_locks [simp]:
  "bc_core c (st\<lparr>qlock := l\<rparr>) qs ps = bc_core c st qs ps" "bc_core c (st\<lparr>clock := l\<rparr>) qs ps = bc_core c st qs ps"
  by (simp_all add: bc_core_def head_outside_def)

lemma bc_core_distinct: "bc_core c st qs ps \<Longrightarrow> distinct qs"
  by (auto simp: bc_core_def cyc_def distinct_map)

lemma bc_core_nonnull:
  assumes "bc_core c st qs ps" "b \<in> set qs"
  shows "b \<noteq> NULL" "blk_node b \<noteq> NULL" "blk_node b \<noteq> qhead st"
proof -
  have ok: "arena_ok pm_live pm_inv (barena st) (arena_addr st) ps" and b: "b \<in> aobjects (barena st) (arena_addr st) ps"
    using assms by (auto simp: bc_core_def)
  have sz: "unat (object_size (arenas (barena st) (arena_addr st))) = 584" using assms by (simp add: bc_core_def)
  obtain p where p: "p \<in> pm_pages (apmem (barena st))" "unat p + 64 \<le> unat b" "unat b + 584 \<le> unat p + 4096"
    "unat p + 4096 \<le> 2 ^ 64" using object_in_pool [OF ok b] sz by auto
  have n: "unat (blk_node b) = unat b + 8" using p by (simp add: blk_node_def unat_word_ariths)
  show "b \<noteq> NULL" using p(2) by auto
  show "blk_node b \<noteq> NULL" using n by auto
  have "unat (qhead st) < unat p \<or> unat p + PAGE_SIZE \<le> unat (qhead st)"
    using assms(1) p(1) by (simp add: bc_core_def head_outside_def)
  with n p show "blk_node b \<noteq> qhead st" by auto
qed

lemma bc_queue_ok: "bc_core c st qs ps \<Longrightarrow> lock_free (qlock st) \<Longrightarrow> queue_ok st qs"
proof -
  assume core: "bc_core c st qs ps" and lf: "lock_free (qlock st)"
  have "NULL \<notin> set qs" using bc_core_nonnull(1) [OF core] by blast
  then show ?thesis using core lf by (simp add: queue_ok_def bc_core_def)
qed

text \<open>Evicting one block.\<close>

lemma evict_block:
  assumes core: "bc_core c st (xs @ b # ys) ps"
  shows "\<exists>st' ps'. exile_cache cpu (remove_cache st b) b = Inr st' \<and> bc_core c st' (xs @ ys) ps' \<and>
    st' = st\<lparr>bnodes := bnodes st', barena := barena st', cached_num := cached_num st - 1\<rparr> \<and>
    lnext (bnodes st) (blk_node b) = hd (map blk_node ys @ [qhead st])"
proof -
  let ?h = "barena st" and ?a = "arena_addr st"
  have ok: "arena_ok pm_live pm_inv ?h ?a ps" and al: "allocator (arenas ?h ?a) = kernel_allocator c"
    and b: "b \<in> aobjects ?h ?a ps" and cy: "cyc (bnodes st) (qhead st # map blk_node xs @ blk_node b # map blk_node ys)"
    using core by (auto simp: bc_core_def)
  from kmem.arena_free [OF ok b, of cpu] obtain h' ps' where
    h': "free_object cpu ?h b = Inr h'" "arena_ok pm_live pm_inv h' ?a ps'" "aobjects h' ?a ps' = aobjects ?h ?a ps - {b}"
      "allocator (arenas h' ?a) = allocator (arenas ?h ?a)" "object_size (arenas h' ?a) = object_size (arenas ?h ?a)"
      "apmem h' = apmem ?h"
    by blast
  define st' where "st' = st\<lparr>bnodes := snd (detach_from_list (bnodes st) (blk_node b)), barena := h', cached_num := cached_num st - 1\<rparr>"
  have ex: "exile_cache cpu (remove_cache st b) b = Inr st'"
    by (simp add: exile_cache_def remove_cache_def h'(1) st'_def)
  have d: "distinct (xs @ b # ys)" by (rule bc_core_distinct [OF core])
  have cy': "cyc (bnodes st') (qhead st # map blk_node (xs @ ys))"
    using clist.remove_middle [OF cy] by (simp add: st'_def)
  have st: "set (xs @ ys) = aobjects h' ?a ps'" using core d h'(3) by (auto simp: bc_core_def)
  have core': "bc_core c st' (xs @ ys) ps'"
    using core h'(2,4,5,6) cy' st by (auto simp: bc_core_def st'_def head_outside_def)
  have nx: "lnext (bnodes st) (blk_node b) = hd (map blk_node ys @ [qhead st])"
    using cycD(1) [of "bnodes st" "blk_node b" "map blk_node ys @ qhead st # map blk_node xs"]
      cyc_rotate [of "bnodes st" "qhead st # map blk_node xs" "blk_node b # map blk_node ys"] cy
    by (cases ys) auto
  show ?thesis using ex core' nx by (intro exI [of _ st'] exI [of _ ps']) (simp add: st'_def)
qed

text \<open>The eviction pass over a queue of blocks: while more than the threshold are cached, the blocks that are
  neither acquired nor pinned go, in queue order. \<open>n\<close> is the number of cached blocks.\<close>

fun evict :: "(addr \<Rightarrow> bool) \<Rightarrow> nat \<Rightarrow> addr list \<Rightarrow> addr list" where
  "evict busy n [] = []"
| "evict busy n (b # bs) =
     (if n \<le> 20 then b # bs else if busy b then b # evict busy n bs else evict busy (n - 1) bs)"

definition busy :: "bcache \<Rightarrow> addr \<Rightarrow> bool" where
  "busy st b \<longleftrightarrow> acquired (blocks st b) \<or> pinned (blocks st b)"

lemma evict_keeps_busy: "filter P (evict P n bs) = filter P bs"
  by (induction P n bs rule: evict.induct) auto

lemma evict_subset: "set (evict P n bs) \<subseteq> set bs"
  by (induction P n bs rule: evict.induct) auto

lemma evict_small: "n \<le> 20 \<Longrightarrow> evict P n bs = bs"
  by (cases bs) auto

lemma evict_done:
  "length bs \<le> n \<Longrightarrow> n - length bs + length (evict P n bs) \<le> 20 \<or> (\<forall>b\<in>set (evict P n bs). P b)"
proof (induction P n bs rule: evict.induct)
  case (2 P n b bs)
  show ?case
  proof (cases "n \<le> 20")
    case False
    have "n - length (b # bs) + Suc k = n - length bs + k" for k using 2(3) by auto
    moreover have "n - length (b # bs) = n - 1 - length bs" "length bs \<le> n - 1" "length bs \<le> n" using 2(3) by auto
    ultimately show ?thesis using 2(1,2) False by (cases "P b") auto
  qed (use 2(3) in auto)
qed simp

lemma bc_core_small: "bc_core c st qs ps \<Longrightarrow> length qs < 2 ^ 64"
proof -
  assume core: "bc_core c st qs ps"
  have "NULL \<notin> set qs" using bc_core_nonnull(1) [OF core] by blast
  then have "set qs \<subset> (UNIV :: addr set)" by blast
  then have "card (set qs) < card (UNIV :: addr set)" by (rule psubset_card_mono [rotated]) simp
  then show ?thesis using distinct_card [OF bc_core_distinct [OF core]] by (simp add: card_word)
qed

lemma scavenger_loop_spec:
  "bc_core c st (xs @ ys) ps \<Longrightarrow>
   \<exists>st' ps'. scavenger_loop cpu (hd (map blk_node ys @ [qhead st])) st = Some (Inr st') \<and>
     bc_core c st' (xs @ evict (busy st) (length (xs @ ys)) ys) ps' \<and>
     st' = st\<lparr>bnodes := bnodes st', barena := barena st', cached_num := cached_num st'\<rparr>"
proof (induction ys arbitrary: st xs ps)
  case Nil
  then show ?case by (intro exI [of _ st] exI [of _ ps]) (simp add: scavenger_loop.simps)
next
  case (Cons b ys)
  have ne: "blk_node b \<noteq> qhead st" using bc_core_nonnull(3) [OF Cons.prems, of b] by simp
  have num: "EVICTION_THRESHOLD < cached_num st \<longleftrightarrow> 20 < length (xs @ b # ys)"
    using Cons.prems bc_core_small [OF Cons.prems]
    by (simp add: bc_core_def word_less_nat_alt unat_of_nat_u64 del: of_nat_Suc of_nat_add)
  have nx: "lnext (bnodes st) (blk_node b) = hd (map blk_node ys @ [qhead st])"
    using evict_block [OF Cons.prems] by blast
  show ?case
  proof (cases "20 < length (xs @ b # ys)")
    case False
    then have "scavenger_loop cpu (blk_node b) st = Some (Inr st)"
      using num by (simp add: scavenger_loop.simps get_num_cached_blocks_def)
    with False Cons.prems show ?thesis
      by (intro exI [of _ st] exI [of _ ps]) (simp add: evict_small)
  next
    case big: True
    show ?thesis
    proof (cases "busy st b")
      case True
      have st: "scavenger_loop cpu (blk_node b) st = scavenger_loop cpu (hd (map blk_node ys @ [qhead st])) st"
        using True ne num big nx
        by (subst scavenger_loop.simps) (auto simp: get_num_cached_blocks_def busy_def Let_def)
      have "bc_core c st ((xs @ [b]) @ ys) ps" using Cons.prems by simp
      from Cons.IH [OF this] True big st show ?thesis by simp
    next
      case False
      from evict_block [OF Cons.prems, of cpu] obtain st1 ps1 where
        e: "exile_cache cpu (remove_cache st b) b = Inr st1" "bc_core c st1 (xs @ ys) ps1"
          "st1 = st\<lparr>bnodes := bnodes st1, barena := barena st1, cached_num := cached_num st - 1\<rparr>" by blast
      have s1: "qhead st1 = qhead st" "blocks st1 = blocks st" by (subst e(3), simp)+
      have st: "scavenger_loop cpu (blk_node b) st = scavenger_loop cpu (hd (map blk_node ys @ [qhead st1])) st1"
        using False ne num big nx e(1) s1
        by (subst scavenger_loop.simps) (simp add: get_num_cached_blocks_def busy_def Let_def)
      have bz: "busy st1 = busy st" by (simp add: busy_def fun_eq_iff s1)
      from Cons.IH [OF e(2)] obtain st2 ps2 where
        r: "scavenger_loop cpu (hd (map blk_node ys @ [qhead st1])) st1 = Some (Inr st2)"
          "bc_core c st2 (xs @ evict (busy st) (length (xs @ ys)) ys) ps2"
          "st2 = st1\<lparr>bnodes := bnodes st2, barena := barena st2, cached_num := cached_num st2\<rparr>"
        unfolding bz by blast
      have "st2 = st\<lparr>bnodes := bnodes st2, barena := barena st2, cached_num := cached_num st2\<rparr>"
        by (subst r(3), subst e(3)) simp
      with r st False big show ?thesis by (intro exI [of _ st2] exI [of _ ps2]) auto
    qed
  qed
qed

lemma scavenger_spec:
  assumes "bc_core c st qs ps" "lock_free (qlock st)"
  shows "\<exists>st' ps'. scavenger cpu st = Some (Inr st') \<and> bc_core c st' (evict (busy st) (length qs) qs) ps' \<and>
    st' = st\<lparr>bnodes := bnodes st', barena := barena st', cached_num := cached_num st'\<rparr>"
proof -
  obtain l where l: "acquire_spinlock cpu (qlock st) = Inr l" "release_spinlock cpu l = Inr (qlock st)"
    using assms(2) by simp
  define st0 where "st0 = st\<lparr>qlock := l\<rparr>"
  have core: "bc_core c st0 ([] @ qs) ps" using assms(1) by (simp add: st0_def)
  have nx: "lnext (bnodes st) (qhead st) = hd (map blk_node qs @ [qhead st0])"
    using cycD(1) [of "bnodes st" "qhead st" "map blk_node qs"] assms(1) by (cases qs) (auto simp: bc_core_def st0_def)
  from scavenger_loop_spec [OF core, of cpu] obtain st1 ps1 where
    r: "scavenger_loop cpu (lnext (bnodes st) (qhead st)) st0 = Some (Inr st1)"
      "bc_core c st1 (evict (busy st0) (length qs) qs) ps1"
      "st1 = st0\<lparr>bnodes := bnodes st1, barena := barena st1, cached_num := cached_num st1\<rparr>"
    unfolding nx by auto
  have q: "qlock st1 = l" by (subst r(3)) (simp add: st0_def)
  have "busy st0 = busy st" by (simp add: busy_def fun_eq_iff st0_def)
  moreover have "st1\<lparr>qlock := qlock st\<rparr> = st\<lparr>bnodes := bnodes st1, barena := barena st1, cached_num := cached_num st1\<rparr>"
    by (subst r(3)) (simp add: st0_def)
  moreover have "bc_core c (st1\<lparr>qlock := qlock st\<rparr>) (evict (busy st0) (length qs) qs) ps1" using r(2) by simp
  ultimately show ?thesis
    using r(1,3) l q by (intro exI [of _ "st1\<lparr>qlock := qlock st\<rparr>"] exI [of _ ps1]) (simp add: scavenger_def st0_def)
qed

text \<open>Loading a block that is not cached: it becomes the first block of the queue.\<close>

lemma insert_cache_free:
  "lock_free (qlock st) \<Longrightarrow>
   insert_cache cpu st b = Inr (st\<lparr>bnodes := snd (merge_list (bnodes st) (qhead st) (blk_node b))\<rparr>)"
  by (simp add: insert_cache_def Let_def)

lemma load_block_spec:
  assumes core: "bc_core c st qs ps" and lf: "lock_free (qlock st)"
    and new: "\<forall>b\<in>set qs. block_no (blocks st b) \<noteq> no"
  shows "case load_block cpu st no of
      Inl e \<Rightarrow> kalloc c (apmem (barena st)) = Inl e
    | Inr (b, st') \<Rightarrow> b \<notin> set qs \<and> (\<exists>ps'. bc_core c st' (b # qs) ps') \<and> lock_free (qlock st') \<and>
        block_no (blocks st' b) = no \<and> data (blocks st' b) = device_read (dev st) no \<and> \<not> busy st' b \<and>
        (\<forall>x. x \<noteq> b \<longrightarrow> blocks st' x = blocks st x) \<and> clock st' = clock st \<and> dev st' = dev st \<and> header st' = header st"
proof -
  let ?h = "barena st" and ?a = "arena_addr st"
  have ok: "arena_ok pm_live pm_inv ?h ?a ps" and al: "allocator (arenas ?h ?a) = kernel_allocator c"
    and sq: "set qs = aobjects ?h ?a ps" and cy: "cyc (bnodes st) (qhead st # map blk_node qs)"
    and hd: "head_outside st"
    using core by (auto simp: bc_core_def)
  note alloc = kmem.arena_alloc [OF ok, of c cpu]
  show ?thesis
  proof (cases "alloc_object cpu ?h ?a")
    case (Inl e)
    then show ?thesis using alloc al by (simp add: load_block_def kernel_allocator_def)
  next
    case (Inr r)
    obtain b h' where r: "r = (b, h')" by force
    obtain ps' where h': "arena_ok pm_live pm_inv h' ?a ps'" "b \<notin> set qs" "aobjects h' ?a ps' = insert b (set qs)"
        "allocator (arenas h' ?a) = kernel_allocator c" "object_size (arenas h' ?a) = sizeof_Block"
        "pm_pages (apmem h') = pm_pages (apmem ?h)"
      using alloc al sq core Inr r by (auto simp: kernel_allocator_def bc_core_def)
    define st' where "st' = st\<lparr>barena := h', cached_num := cached_num st + 1,
       bnodes := snd (merge_list (init_list_node (bnodes st) (blk_node b)) (qhead st) (blk_node b)),
       blocks := (blocks st)(b := (blocks st b)\<lparr>block_no := no, acquired := False, pinned := False, valid := True,
              block_lock := init_sleeplock (block_lock (blocks st b)) ''block'', data := device_read (dev st) no\<rparr>)\<rparr>"
    have ld: "load_block cpu st no = Inr (b, st')"
      using Inr r lf
      by (simp add: load_block_def insert_cache_free init_block_def upd_block_def st'_def Let_def fun_eq_iff)
    obtain p where p: "p \<in> pm_pages (apmem h')" "unat p + 64 \<le> unat b" "unat b + 584 \<le> unat p + 4096"
      "unat p + 4096 \<le> 2 ^ 64" using object_in_pool [OF h'(1), of b] h'(3,5) by auto
    have n: "unat (blk_node b) = unat b + 8" using p by (simp add: blk_node_def unat_word_ariths)
    have "unat (qhead st) < unat p \<or> unat p + PAGE_SIZE \<le> unat (qhead st)"
      using hd p(1) h'(6) by (simp add: head_outside_def)
    then have bh: "blk_node b \<noteq> qhead st" using n p by auto
    have b0: "blk_node b \<noteq> NULL" "qhead st \<noteq> NULL" using n p hd by (auto simp: head_outside_def)
    have cy': "cyc (bnodes st') (qhead st # map blk_node (b # qs))"
      using clist.push_front [OF cy, of "blk_node b"] bh b0 h'(2) by (simp add: st'_def image_iff)
    have ho: "head_outside st'" using hd h'(6) by (simp add: head_outside_def st'_def)
    have bo: "block_ok (blocks st' b)" by (simp add: block_ok_def st'_def)
    have same: "blocks st' x = blocks st x" if "x \<in> set qs" for x using that h'(2) by (auto simp: st'_def)
    have "bc_core c st' (b # qs) ps'"
      unfolding bc_core_def
    proof (intro conjI)
      show "distinct (map (\<lambda>b. block_no (blocks st' b)) (b # qs))"
      proof -
        have m: "map (\<lambda>x. block_no (blocks st' x)) qs = map (\<lambda>x. block_no (blocks st x)) qs" by (simp add: same)
        have "block_no (blocks st' b) = no" by (simp add: st'_def)
        moreover have "no \<notin> (\<lambda>x. block_no (blocks st x)) ` set qs" using new by auto
        moreover have "distinct (map (\<lambda>x. block_no (blocks st x)) qs)" using core by (simp add: bc_core_def)
        ultimately show ?thesis unfolding list.map m by simp
      qed
      show "\<forall>x\<in>set (b # qs). block_ok (blocks st' x)" using core bo same by (auto simp: bc_core_def)
    qed (use h' cy' ho core in \<open>auto simp: st'_def bc_core_def\<close>)
    with h'(2) ld lf show ?thesis by (auto simp: st'_def busy_def)
  qed
qed

text \<open>Taking the sleep lock of a cached block and the eviction pass that follows.\<close>

definition take_block :: "nat \<Rightarrow> bcache \<Rightarrow> addr \<Rightarrow> bcache res option" where
  "take_block cpu st b =
     bind_run (Some (acquire_sleeplock cpu (block_lock (blocks st b)))) (\<lambda>sl.
     let st4 = upd_block st b (\<lambda>x. x\<lparr>block_lock := sl, acquired := True\<rparr>) in
     if EVICTION_THRESHOLD < get_num_cached_blocks st4 then scavenger cpu st4 else Some (Inr st4))"

lemma take_block_spec:
  assumes core: "bc_core c st qs ps" and lf: "lock_free (qlock st)" and b: "b \<in> set qs"
    and free: "\<not> acquired (blocks st b)"
  shows "\<exists>st' qs' ps'. take_block cpu st b = Some (Inr st') \<and> bc_core c st' qs' ps' \<and> lock_free (qlock st') \<and>
    b \<in> set qs' \<and> set qs' \<subseteq> set qs \<and> (\<forall>x\<in>set qs. busy st x \<longrightarrow> x \<in> set qs') \<and>
    (length qs' \<le> 20 \<or> (\<forall>x\<in>set qs'. busy st' x)) \<and>
    blocks st' = (blocks st)(b := (blocks st b)\<lparr>block_lock := (block_lock (blocks st b))\<lparr>slocked := True\<rparr>, acquired := True\<rparr>) \<and>
    clock st' = clock st \<and> dev st' = dev st \<and> header st' = header st"
proof -
  let ?sl = "(block_lock (blocks st b))\<lparr>slocked := True\<rparr>"
  have bo: "block_ok (blocks st b)" using core b by (auto simp: bc_core_def)
  define st4 where "st4 = upd_block st b (\<lambda>x. x\<lparr>block_lock := ?sl, acquired := True\<rparr>)"
  have s4: "qlock st4 = qlock st" "clock st4 = clock st" "dev st4 = dev st" "header st4 = header st"
    "blocks st4 = (blocks st)(b := (blocks st b)\<lparr>block_lock := ?sl, acquired := True\<rparr>)"
    by (simp_all add: st4_def upd_block_def)
  have sl: "acquire_sleeplock cpu (block_lock (blocks st b)) = Inr ?sl" using bo free by (simp add: block_ok_def)
  have no: "block_no (blocks st4 x) = block_no (blocks st x)" for x by (simp add: s4)
  have core4: "bc_core c st4 qs ps"
    using core bo unfolding bc_core_def no by (auto simp: st4_def upd_block_def head_outside_def block_ok_def)
  have busyb: "busy st4 b" "\<And>x. busy st x \<Longrightarrow> busy st4 x" by (auto simp: busy_def s4)
  have num: "EVICTION_THRESHOLD < cached_num st4 \<longleftrightarrow> 20 < length qs"
    using core4 bc_core_small [OF core4] by (simp add: bc_core_def word_less_nat_alt unat_of_nat_u64)
  show ?thesis
  proof (cases "20 < length qs")
    case False
    then have "take_block cpu st b = Some (Inr st4)"
      using num sl by (simp add: take_block_def st4_def [symmetric] get_num_cached_blocks_def)
    with False core4 b s4 lf show ?thesis by (intro exI [of _ st4] exI [of _ qs] exI [of _ ps]) auto
  next
    case True
    let ?qs = "evict (busy st4) (length qs) qs"
    from scavenger_spec [OF core4, of cpu] lf s4 obtain st' ps' where
      r: "scavenger cpu st4 = Some (Inr st')" "bc_core c st' ?qs ps'"
        "st' = st4\<lparr>bnodes := bnodes st', barena := barena st', cached_num := cached_num st'\<rparr>" by auto
    have s': "qlock st' = qlock st4" "clock st' = clock st4" "dev st' = dev st4" "header st' = header st4"
      "blocks st' = blocks st4" by (subst r(3), simp)+
    have keep: "x \<in> set ?qs" if "x \<in> set qs" "busy st4 x" for x
    proof -
      have "x \<in> set (filter (busy st4) ?qs)" unfolding evict_keeps_busy using that by simp
      then show ?thesis by simp
    qed
    have "length ?qs \<le> 20 \<or> (\<forall>x\<in>set ?qs. busy st4 x)" using evict_done [of qs "length qs" "busy st4"] by simp
    moreover have "busy st' = busy st4" by (simp add: busy_def fun_eq_iff s')
    moreover have "take_block cpu st b = Some (Inr st')"
      using num sl True r(1) by (simp add: take_block_def st4_def [symmetric] get_num_cached_blocks_def)
    ultimately show ?thesis
      using r(2) s' s4 lf keep busyb b evict_subset [of "busy st4" "length qs" qs]
      by (intro exI [of _ st'] exI [of _ ?qs] exI [of _ ps']) auto
  qed
qed

lemma find_None_set: "find P xs = None \<longleftrightarrow> (\<forall>x\<in>set xs. \<not> P x)"
  by (induction xs) auto

definition acquire_outcome :: "nat \<Rightarrow> bcache \<Rightarrow> addr list \<Rightarrow> usize \<Rightarrow> (addr \<times> bcache) res option \<Rightarrow> bool" where
  "acquire_outcome c st qs no r \<longleftrightarrow>
    (case r of
      None \<Rightarrow> False
    | Some (Inl e) \<Rightarrow>
        (\<exists>b\<in>set qs. block_no (blocks st b) = no \<and> acquired (blocks st b) \<and>
           e = Panic (''acquire: lock '' @ lname (slock (block_lock (blocks st b))) @ '' already held'')) \<or>
        cached_data st qs no = None \<and> kalloc c (apmem (barena st)) = Inl e
    | Some (Inr (b, st')) \<Rightarrow>
        (\<forall>x\<in>set qs. block_no (blocks st x) = no \<longrightarrow> x = b \<and> \<not> acquired (blocks st x)) \<and>
        block_no (blocks st' b) = no \<and> acquired (blocks st' b) \<and> valid (blocks st' b) \<and>
        data (blocks st' b) = (case cached_data st qs no of Some d \<Rightarrow> d | None \<Rightarrow> device_read (dev st) no) \<and>
        (b \<in> set qs \<longrightarrow> pinned (blocks st' b) = pinned (blocks st b) \<and> block_no (blocks st b) = no) \<and>
        (b \<notin> set qs \<longrightarrow> \<not> pinned (blocks st' b)) \<and>
        (\<forall>x\<in>set qs. x \<noteq> b \<longrightarrow> blocks st' x = blocks st x) \<and> dev st' = dev st \<and> header st' = header st \<and>
        (\<exists>qs' ps'. bc_ok c st' qs' ps' \<and> b \<in> set qs' \<and> set qs' \<subseteq> insert b (set qs) \<and>
           (\<forall>x\<in>set qs. busy st x \<longrightarrow> x \<in> set qs') \<and> (length qs' \<le> 20 \<or> (\<forall>x\<in>set qs'. busy st' x))))"

lemma acquire_successI:
  assumes "\<And>x. x \<in> set qs \<Longrightarrow> block_no (blocks st x) = no \<Longrightarrow> x = b \<and> \<not> acquired (blocks st x)"
    and "block_no (blocks st' b) = no" "acquired (blocks st' b)" "valid (blocks st' b)"
    and "data (blocks st' b) = (case cached_data st qs no of Some d \<Rightarrow> d | None \<Rightarrow> device_read (dev st) no)"
    and "b \<in> set qs \<Longrightarrow> pinned (blocks st' b) = pinned (blocks st b) \<and> block_no (blocks st b) = no"
    and "b \<notin> set qs \<Longrightarrow> \<not> pinned (blocks st' b)"
    and "\<And>x. x \<in> set qs \<Longrightarrow> x \<noteq> b \<Longrightarrow> blocks st' x = blocks st x" "dev st' = dev st" "header st' = header st"
    and "bc_ok c st' qs' ps'" "b \<in> set qs'" "set qs' \<subseteq> insert b (set qs)"
    and "\<And>x. x \<in> set qs \<Longrightarrow> busy st x \<Longrightarrow> x \<in> set qs'" "length qs' \<le> 20 \<or> (\<forall>x\<in>set qs'. busy st' x)"
  shows "acquire_outcome c st qs no (Some (Inr (b, st')))"
  unfolding acquire_outcome_def option.case sum.case prod.case
  by (intro conjI ballI impI exI [of _ qs'] exI [of _ ps']) (use assms in \<open>blast+\<close>)

lemma cache_acquire_steps:
  assumes "bc_ok c st qs ps"
  shows "\<exists>l. release_spinlock cpu l = Inr (clock st) \<and>
    cache_acquire cpu st no =
      bind_run (case find (\<lambda>b. block_no (blocks st b) = no) qs of
          None \<Rightarrow> Some (load_block cpu (st\<lparr>clock := l\<rparr>) no) | Some b \<Rightarrow> Some (Inr (b, st\<lparr>clock := l\<rparr>))) (\<lambda>(b, st3).
      bind_run (take_block cpu st3 b) (\<lambda>st5.
        Some (bind_res (release_spinlock cpu (clock st5)) (\<lambda>l'. Inr (b, st5\<lparr>clock := l'\<rparr>)))))"
proof -
  obtain l where l: "acquire_spinlock cpu (clock st) = Inr l" "release_spinlock cpu l = Inr (clock st)"
    using assms by (simp add: bc_ok_def)
  have core: "bc_core c (st\<lparr>clock := l\<rparr>) qs ps" "lock_free (qlock (st\<lparr>clock := l\<rparr>))" using assms by (simp_all add: bc_ok_def)
  have g: "get_cache cpu (st\<lparr>clock := l\<rparr>) no =
    Some (Inr (case find (\<lambda>b. block_no (blocks st b) = no) qs of None \<Rightarrow> NULL | Some b \<Rightarrow> b, st\<lparr>clock := l\<rparr>))"
    using get_cache_spec [OF bc_queue_ok [OF core], of cpu no] by simp
  have nn: "b \<noteq> NULL" if "find (\<lambda>b. block_no (blocks st b) = no) qs = Some b" for b
    using bc_core_nonnull(1) [OF core(1)] find_in_set [OF that] by blast
  have eq: "bind_run (Some (acquire_sleeplock cpu (block_lock (blocks s b)))) (\<lambda>sl.
      let s4 = upd_block s b (\<lambda>x. x\<lparr>block_lock := sl, acquired := True\<rparr>) in
      bind_run (if EVICTION_THRESHOLD < get_num_cached_blocks s4 then scavenger cpu s4 else Some (Inr s4)) k) =
      bind_run (take_block cpu s b) k" for s b and k :: "bcache \<Rightarrow> (addr \<times> bcache) res option"
    by (cases "acquire_sleeplock cpu (block_lock (blocks s b))") (simp_all add: take_block_def Let_def)
  show ?thesis
    using l nn
    by (intro exI [of _ l])
      (simp add: cache_acquire_def unsafe_cache_acquire_def lock_cache_def unlock_cache_def g eq bind_res_assoc
        split: option.split)
qed

lemma acquire_contended:
  assumes "block_ok (blocks st b)" "acquired (blocks st b)"
  shows "take_block cpu st b =
    Some (Inl (Panic (''acquire: lock '' @ lname (slock (block_lock (blocks st b))) @ '' already held'')))"
proof -
  have "lock_free (slock (block_lock (blocks st b)))" "slocked (block_lock (blocks st b))"
    using assms by (simp_all add: block_ok_def sleeplock_ok_def)
  then show ?thesis
    by (simp add: take_block_def acquire_sleeplock_def sleep_on_lock_def holding_spinlock_def
        acquire_spinlock_def [of cpu "(slock (block_lock (blocks st b)))\<lparr>locked := X, lcpu := Y\<rparr>" for X Y])
qed

lemma acquire_hit:
  assumes ok: "bc_ok c st qs ps" and f: "find (\<lambda>b. block_no (blocks st b) = no) qs = Some b"
  shows "acquire_outcome c st qs no (cache_acquire cpu st no)"
proof -
  let ?P = "\<lambda>b. block_no (blocks st b) = no"
  have core: "bc_core c st qs ps" and lq: "lock_free (qlock st)" and lc: "lock_free (clock st)" using ok by (auto simp: bc_ok_def)
  obtain l where l: "release_spinlock cpu l = Inr (clock st)" and
    steps: "cache_acquire cpu st no = bind_run (take_block cpu (st\<lparr>clock := l\<rparr>) b) (\<lambda>st5.
        Some (bind_res (release_spinlock cpu (clock st5)) (\<lambda>l'. Inr (b, st5\<lparr>clock := l'\<rparr>))))"
    using cache_acquire_steps [OF ok, of cpu no] unfolding f by auto
  let ?st = "st\<lparr>clock := l\<rparr>"
  have core1: "bc_core c ?st qs ps" "lock_free (qlock ?st)" using core lq by simp_all
  have b: "b \<in> set qs" "?P b" using find_in_set [OF f] by auto
  have uniq: "x = b" if "x \<in> set qs" "?P x" for x
    using core that b by (auto simp: bc_core_def distinct_map inj_on_def)
  have cd: "cached_data st qs no = Some (data (blocks st b))" by (simp add: cached_data_def f)
  have bo: "block_ok (blocks ?st b)" using core b by (auto simp: bc_core_def)
  show ?thesis
  proof (cases "acquired (blocks st b)")
    case True
    then have "acquired (blocks ?st b)" by simp
    from acquire_contended [OF bo this] True b show ?thesis by (auto simp: acquire_outcome_def steps)
  next
    case False
    from take_block_spec [OF core1 b(1), of cpu] False obtain st' qs' ps' where
      t: "take_block cpu ?st b = Some (Inr st')" "bc_core c st' qs' ps'" "lock_free (qlock st')" "b \<in> set qs'"
        "set qs' \<subseteq> set qs" "\<forall>x\<in>set qs. busy ?st x \<longrightarrow> x \<in> set qs'" "length qs' \<le> 20 \<or> (\<forall>x\<in>set qs'. busy st' x)"
        "blocks st' = (blocks st)(b := (blocks st b)\<lparr>block_lock := (block_lock (blocks st b))\<lparr>slocked := True\<rparr>, acquired := True\<rparr>)"
        "clock st' = l" "dev st' = dev st" "header st' = header st"
      by auto
    have r: "cache_acquire cpu st no = Some (Inr (b, st'\<lparr>clock := clock st\<rparr>))" using t(1,9) l by (simp add: steps)
    have bz: "busy ?st = busy st" "busy (st'\<lparr>clock := clock st\<rparr>) = busy st'" by (simp_all add: busy_def fun_eq_iff)
    have ok': "bc_ok c (st'\<lparr>clock := clock st\<rparr>) qs' ps'" using t(2,3) lc by (simp add: bc_ok_def)
    have bv: "valid (blocks st b)" using bo by (simp add: block_ok_def)
    show ?thesis
      unfolding r
    proof (rule acquire_successI [OF _ _ _ _ _ _ _ _ _ _ ok'])
      show "x = b \<and> \<not> acquired (blocks st x)" if "x \<in> set qs" "?P x" for x using uniq [OF that] False by simp
    qed (use t(4-8,10,11) b cd bz bv in \<open>auto\<close>)
  qed
qed

lemma acquire_miss:
  assumes ok: "bc_ok c st qs ps" and f: "find (\<lambda>b. block_no (blocks st b) = no) qs = None"
  shows "acquire_outcome c st qs no (cache_acquire cpu st no)"
proof -
  have core: "bc_core c st qs ps" and lq: "lock_free (qlock st)" and lc: "lock_free (clock st)" using ok by (auto simp: bc_ok_def)
  obtain l where l: "release_spinlock cpu l = Inr (clock st)" and
    steps: "cache_acquire cpu st no = bind_run (Some (load_block cpu (st\<lparr>clock := l\<rparr>) no)) (\<lambda>(b, st3).
      bind_run (take_block cpu st3 b) (\<lambda>st5.
        Some (bind_res (release_spinlock cpu (clock st5)) (\<lambda>l'. Inr (b, st5\<lparr>clock := l'\<rparr>)))))"
    using cache_acquire_steps [OF ok, of cpu no] unfolding f by auto
  let ?st = "st\<lparr>clock := l\<rparr>"
  have core1: "bc_core c ?st qs ps" "lock_free (qlock ?st)" using core lq by simp_all
  have new: "\<forall>b\<in>set qs. block_no (blocks st b) \<noteq> no" using f by (simp add: find_None_set)
  have cd: "cached_data st qs no = None" by (simp add: cached_data_def f)
  note ld = load_block_spec [OF core1, of no cpu]
  show ?thesis
  proof (cases "load_block cpu ?st no")
    case (Inl e)
    then show ?thesis using ld new cd by (simp add: acquire_outcome_def steps)
  next
    case (Inr p)
    obtain b st3 where p: "p = (b, st3)" by force
    from ld new Inr p obtain ps3 where
      s3: "b \<notin> set qs" "bc_core c st3 (b # qs) ps3" "lock_free (qlock st3)" "block_no (blocks st3 b) = no"
        "data (blocks st3 b) = device_read (dev st) no" "\<not> busy st3 b" "\<forall>x. x \<noteq> b \<longrightarrow> blocks st3 x = blocks st x"
        "clock st3 = l" "dev st3 = dev st" "header st3 = header st" by auto
    have b3: "b \<in> set (b # qs)" by simp
    have free: "\<not> acquired (blocks st3 b)" "\<not> pinned (blocks st3 b)" using s3(6) by (auto simp: busy_def)
    from take_block_spec [OF s3(2,3) b3 free(1), of cpu] obtain st' qs' ps' where
      t: "take_block cpu st3 b = Some (Inr st')" "bc_core c st' qs' ps'" "lock_free (qlock st')" "b \<in> set qs'"
        "set qs' \<subseteq> set (b # qs)" "\<forall>x\<in>set (b # qs). busy st3 x \<longrightarrow> x \<in> set qs'"
        "length qs' \<le> 20 \<or> (\<forall>x\<in>set qs'. busy st' x)"
        "blocks st' = (blocks st3)(b := (blocks st3 b)\<lparr>block_lock := (block_lock (blocks st3 b))\<lparr>slocked := True\<rparr>, acquired := True\<rparr>)"
        "clock st' = clock st3" "dev st' = dev st3" "header st' = header st3" by blast
    have r: "cache_acquire cpu st no = Some (Inr (b, st'\<lparr>clock := clock st\<rparr>))"
      using t(1,9) l s3(8) Inr p by (simp add: steps)
    have bz: "busy (st'\<lparr>clock := clock st\<rparr>) = busy st'" "\<And>x. x \<noteq> b \<Longrightarrow> busy st3 x = busy st x"
      using s3(7) by (simp_all add: busy_def fun_eq_iff)
    have ok': "bc_ok c (st'\<lparr>clock := clock st\<rparr>) qs' ps'" using t(2,3) lc by (simp add: bc_ok_def)
    have bv: "valid (blocks st3 b)" using s3(2) by (simp add: bc_core_def block_ok_def)
    have ne: "x \<noteq> b" if "x \<in> set qs" for x using that s3(1) by blast
    show ?thesis
      unfolding r
    proof (rule acquire_successI [OF _ _ _ _ _ _ _ _ _ _ ok'])
      show "x = b \<and> \<not> acquired (blocks st x)" if "x \<in> set qs" "block_no (blocks st x) = no" for x using new that by blast
      show "x \<in> set qs'" if "x \<in> set qs" "busy st x" for x using t(6) that bz(2) [OF ne [OF that(1)]] by auto
    qed (use t(4,5,7,8,10,11) s3(1-5,7-10) free cd bz(1) bv in auto)
  qed
qed

lemma cache_acquire_outcome:
  assumes ok: "bc_ok c st qs ps"
  shows "acquire_outcome c st qs no (cache_acquire cpu st no)"
  using acquire_hit [OF ok] acquire_miss [OF ok] by (cases "find (\<lambda>b. block_no (blocks st b) = no) qs") auto

text \<open>C4: from a well-formed cache, \<open>cache_acquire\<close> always returns. On success the block it gives is the only one
  with that number, locked, and holds the cached data if the block was cached and the content of the disk
  otherwise; no other cached block, the disk and the log header are untouched; the cache stays well formed,
  acquired and pinned blocks stay cached, and at most 20 blocks remain unless all that remain are in use. It
  fails only for a block somebody holds (a panic) or because no page is left.\<close>

theorem cache_acquire_correct:
  assumes "bc_ok c st qs ps"
  shows "acquire_outcome c st qs no (cache_acquire cpu st no)"
  by (rule cache_acquire_outcome [OF assms])

text \<open>An empty cache over the page pool of the arena example, as \<open>init_bcache\<close> leaves it.\<close>

definition empty_cache :: bcache where
  "empty_cache = cache_example\<lparr>header := \<lparr>hnum_blocks = 0, hblock_no = replicate 63 0\<rparr>, outstanding := 0, cached_num := 0,
     barena := arena_example\<lparr>arenas := (arenas arena_example)(256 := (arenas arena_example 256)
        \<lparr>object_size := 584, max_count := 6\<rparr>)\<rparr>,
     bnodes := \<lparr>lprev = (\<lambda>_. 1024), lnext = (\<lambda>_. 1024)\<rparr>\<rparr>"

lemma empty_cache_ok: "bc_ok 0 empty_cache [] []"
proof -
  have a: "arena_ok pm_live pm_inv (barena empty_cache) 256 []"
    "allocator (arenas (barena empty_cache) 256) = kernel_allocator 0"
    by (simp_all add: empty_cache_def arena_example_def arena_ok_def arena_wf_def init_arena_def init_spinlock_def
        lock_free_def pm_example_ok)
  have ps: "unat (pagestart pm_example) = 0xffff0000000A1000"
    by (simp add: pm_example_def init_memory_manager_def pool_init_def pmem_boot_def Let_def round_up_def round_down_def)
  have "1024 < unat p" if p: "p \<in> pm_pages pm_example" for p
    using p unat_page_at [OF pm_example_ok(1)] ps by (auto simp: pm_pages_def)
  then have "head_outside empty_cache"
    by (simp add: empty_cache_def head_outside_def cache_example_def arena_example_ok)
  with a show ?thesis
    by (simp add: bc_ok_def bc_core_def empty_cache_def cache_example_def cyc_single aobjects_def lock_free_def)
qed

theorem cache_acquire_correct_witness:
  "\<exists>b st'. cache_acquire 0 empty_cache 9 = Some (Inr (b, st')) \<and> data (blocks st' b) = replicate 512 0"
proof -
  have "apmem (barena empty_cache) = pm_example" by (simp add: empty_cache_def arena_example_ok)
  then have ne: "kalloc 0 (apmem (barena empty_cache)) \<noteq> Inl e" for e by (simp add: kalloc_example)
  have "device_read (dev empty_cache) 9 = replicate 512 0" by (simp add: empty_cache_def cache_example_def device_read_def)
  with cache_acquire_correct [OF empty_cache_ok, of 9 0] ne show ?thesis
    by (auto simp: acquire_outcome_def cached_data_def split: option.splits sum.splits)
qed

text \<open>C19: releasing an acquired block of a well-formed cache succeeds, wakes the waiters of its lock once, keeps
  the cache well formed with the same blocks and contents, and the block can be acquired again at once: the
  caller gets the same block with the same data, no disk read involved.\<close>

theorem cache_release_correct:
  assumes ok: "bc_ok c st qs ps" and b: "b \<in> set qs" "acquired (blocks st b)"
  shows "\<exists>st'. cache_release cpu st b = Inr st' \<and> bc_ok c st' qs ps \<and> woken st' = woken st @ [b + 32] \<and>
    dev st' = dev st \<and> (\<forall>x. data (blocks st' x) = data (blocks st x) \<and> pinned (blocks st' x) = pinned (blocks st x)) \<and>
    (\<exists>st''. cache_acquire cpu st' (block_no (blocks st b)) = Some (Inr (b, st'')) \<and>
       data (blocks st'' b) = data (blocks st b))"
proof -
  have bo: "block_ok (blocks st b)" using ok b by (auto simp: bc_ok_def bc_core_def)
  define st' where "st' = st\<lparr>blocks := (blocks st)(b := (blocks st b)\<lparr>acquired := False,
     block_lock := (block_lock (blocks st b))\<lparr>slocked := False\<rparr>\<rparr>), woken := woken st @ [b + 32]\<rparr>"
  have r: "cache_release cpu st b = Inr st'"
    using bo by (simp add: cache_release_def upd_block_def st'_def block_ok_def)
  have no: "block_no (blocks st' x) = block_no (blocks st x)" for x by (simp add: st'_def)
  have ok': "bc_ok c st' qs ps"
    using ok bo unfolding bc_ok_def bc_core_def no by (auto simp: st'_def block_ok_def head_outside_def)
  have uniq: "x = b" if "x \<in> set qs" "block_no (blocks st x) = block_no (blocks st b)" for x
    using ok that b by (auto simp: bc_ok_def bc_core_def distinct_map inj_on_def)
  have "find (\<lambda>x. block_no (blocks st x) = block_no (blocks st b)) qs \<noteq> None" using b by (auto simp: find_None_set)
  then obtain y where y: "find (\<lambda>x. block_no (blocks st x) = block_no (blocks st b)) qs = Some y" by blast
  with find_in_set [OF y] uniq have f: "find (\<lambda>x. block_no (blocks st x) = block_no (blocks st b)) qs = Some b" by simp
  have cd: "cached_data st' qs (block_no (blocks st b)) = Some (data (blocks st b))"
    by (simp add: cached_data_def no f) (simp add: st'_def)
  have nacq: "\<not> acquired (blocks st' b)" by (simp add: st'_def)
  from cache_acquire_outcome [OF ok'] have out: "acquire_outcome c st' qs (block_no (blocks st b)) (cache_acquire cpu st' (block_no (blocks st b)))" .
  have "\<exists>st''. cache_acquire cpu st' (block_no (blocks st b)) = Some (Inr (b, st'')) \<and> data (blocks st'' b) = data (blocks st b)"
  proof (cases "cache_acquire cpu st' (block_no (blocks st b))")
    case None
    then show ?thesis using out by (simp add: acquire_outcome_def)
  next
    case (Some q)
    show ?thesis
    proof (cases q)
      case (Inl e)
      then show ?thesis using out Some cd uniq nacq by (auto simp: acquire_outcome_def no)
    next
      case (Inr p)
      then obtain b' st'' where p: "q = Inr (b', st'')" by (cases p) auto
      have "b = b'" using out b(1) unfolding Some p acquire_outcome_def option.case sum.case prod.case no by blast
      moreover have "data (blocks st'' b') = data (blocks st b)"
        using out unfolding Some p acquire_outcome_def option.case sum.case prod.case cd by blast
      ultimately show ?thesis using Some p by simp
    qed
  qed
  with r ok' show ?thesis by (auto simp: st'_def)
qed

theorem cache_release_correct_witness:
  "\<exists>b st1 st'. cache_acquire 0 empty_cache 9 = Some (Inr (b, st1)) \<and> cache_release 0 st1 b = Inr st' \<and>
     data (blocks st' b) = data (blocks st1 b)"
proof -
  have "apmem (barena empty_cache) = pm_example" by (simp add: empty_cache_def arena_example_ok)
  then have ne: "kalloc 0 (apmem (barena empty_cache)) \<noteq> Inl e" for e by (simp add: kalloc_example)
  from cache_acquire_outcome [OF empty_cache_ok, of 9 0] ne obtain b st1 qs ps where
    r: "cache_acquire 0 empty_cache 9 = Some (Inr (b, st1))" "bc_ok 0 st1 qs ps" "b \<in> set qs" "acquired (blocks st1 b)"
    by (auto simp: acquire_outcome_def split: option.splits sum.splits)
  with cache_release_correct [OF r(2-4), of 0] show ?thesis by blast
qed

end
