(* ===== verification/KCacheIface.thy ===== *)
theory KCacheIface
  imports KCacheInv
begin

text \<open>
  The interface between the block cache and the inode layer: the table of functions \<open>BlockCache\<close> of
  \<open>src/fs/cache.h\<close>. The inode layer also reads and writes the memory of the \<open>Block\<close> structures it is handed,
  so the table here has byte access to a structure; its data starts at offset 65. The laws a client can rely
  on are the locale \<open>block_cache\<close>; the cache of \<open>cache.c\<close> is shown to obey them.\<close>

abbreviation data_offset :: nat where "data_offset \<equiv> 65"

record 's BlockCache =
  bc_get_num_cached_blocks :: "'s \<Rightarrow> usize"
  bc_acquire :: "'s \<Rightarrow> usize \<Rightarrow> (addr \<times> 's) res option"
  bc_release :: "'s \<Rightarrow> addr \<Rightarrow> 's res"
  bc_begin_op :: "'s \<Rightarrow> OpContext \<Rightarrow> (OpContext \<times> 's) res"
  bc_sync :: "'s \<Rightarrow> OpContext option \<Rightarrow> addr \<Rightarrow> (OpContext option \<times> 's) res"
  bc_end_op :: "'s \<Rightarrow> OpContext \<Rightarrow> addr \<Rightarrow> 's res option"
  bc_alloc :: "'s \<Rightarrow> OpContext option \<Rightarrow> (usize \<times> OpContext option \<times> 's) res option"
  bc_free :: "'s \<Rightarrow> OpContext option \<Rightarrow> usize \<Rightarrow> (OpContext option \<times> 's) res option"
  bc_load :: "'s \<Rightarrow> addr \<Rightarrow> nat \<Rightarrow> u8 res"
  bc_store :: "'s \<Rightarrow> addr \<Rightarrow> nat \<Rightarrow> u8 \<Rightarrow> 's res"
  bc_pool :: "'s \<Rightarrow> PMemory"
  bc_set_pool :: "'s \<Rightarrow> PMemory \<Rightarrow> 's"

text \<open>Reading and writing a run of bytes of a \<open>Block\<close> structure.\<close>

primrec load_bytes :: "'s BlockCache \<Rightarrow> 's \<Rightarrow> addr \<Rightarrow> nat \<Rightarrow> nat \<Rightarrow> u8 list res" where
  "load_bytes bc s b i 0 = Inr []"
| "load_bytes bc s b i (Suc n) =
     bind_res (bc_load bc s b i) (\<lambda>v. bind_res (load_bytes bc s b (Suc i) n) (\<lambda>vs. Inr (v # vs)))"

primrec store_bytes :: "'s BlockCache \<Rightarrow> 's \<Rightarrow> addr \<Rightarrow> nat \<Rightarrow> u8 list \<Rightarrow> 's res" where
  "store_bytes bc s b i [] = Inr s"
| "store_bytes bc s b i (v # vs) = bind_res (bc_store bc s b i v) (\<lambda>s'. store_bytes bc s' b (Suc i) vs)"

subsection \<open>The laws\<close>

text \<open>\<open>held s b\<close> is the number of the block a caller has acquired as \<open>b\<close>; \<open>view s no\<close> the current content of a
  block; \<open>clean s b\<close> says that the content of \<open>b\<close> is on disk or pinned for the log, so that it survives being
  dropped from the cache. A block must be clean when it is released for its content to be kept.\<close>

locale block_cache =
  fixes bc :: "'s BlockCache"
    and okay :: "'s \<Rightarrow> bool"
    and held :: "'s \<Rightarrow> addr \<Rightarrow> usize option"
    and clean :: "'s \<Rightarrow> addr \<Rightarrow> bool"
    and view :: "'s \<Rightarrow> usize \<Rightarrow> u8 list"
  assumes view_length: "okay s \<Longrightarrow> unat no < 2 ^ 32 \<Longrightarrow> length (view s no) = BLOCK_SIZE"
    and acquire_returns: "okay s \<Longrightarrow> bc_acquire bc s no \<noteq> None"
    and acquire_ok: "okay s \<Longrightarrow> unat no < 2 ^ 32 \<Longrightarrow> bc_acquire bc s no = Some (Inr (b, s')) \<Longrightarrow>
      okay s' \<and> no \<notin> ran (held s) \<and> held s b = None \<and> held s' = (held s)(b \<mapsto> no) \<and> clean s' b \<and> view s' = view s"
    and load_ok: "okay s \<Longrightarrow> held s b = Some no \<Longrightarrow> i < BLOCK_SIZE \<Longrightarrow> bc_load bc s b (data_offset + i) = Inr (view s no ! i)"
    and store_ok: "okay s \<Longrightarrow> held s b = Some no \<Longrightarrow> i < BLOCK_SIZE \<Longrightarrow>
      \<exists>s'. bc_store bc s b (data_offset + i) v = Inr s' \<and> okay s' \<and> held s' = held s \<and> view s' = (view s)(no := (view s no)[i := v])"
    and sync_ok: "okay s \<Longrightarrow> held s b = Some no \<Longrightarrow> bc_sync bc s ctx b = Inr (ctx', s') \<Longrightarrow>
      okay s' \<and> held s' = held s \<and> clean s' b \<and> view s' = view s"
    and sync_direct: "okay s \<Longrightarrow> held s b = Some no \<Longrightarrow> \<exists>s'. bc_sync bc s None b = Inr (None, s')"
    and release_ok: "okay s \<Longrightarrow> held s b = Some no \<Longrightarrow> clean s b \<Longrightarrow>
      \<exists>s'. bc_release bc s b = Inr s' \<and> okay s' \<and> held s' = (held s)(b := None) \<and> view s' = view s"
    and held_small: "okay s \<Longrightarrow> held s b = Some no \<Longrightarrow> unat no < 2 ^ 32"
begin

lemma load_bytes_ok:
  "okay s \<Longrightarrow> held s b = Some no \<Longrightarrow> i + n \<le> BLOCK_SIZE \<Longrightarrow>
   load_bytes bc s b (data_offset + i) n = Inr (take n (drop i (view s no)))"
proof (induction n arbitrary: i)
  case (Suc n)
  have len: "length (view s no) = BLOCK_SIZE" using Suc.prems(1,2) by (intro view_length held_small)
  have "load_bytes bc s b (data_offset + Suc i) n = Inr (take n (drop (Suc i) (view s no)))"
    by (rule Suc.IH) (use Suc.prems in auto)
  moreover have "take (Suc n) (drop i (view s no)) = view s no ! i # take n (drop (Suc i) (view s no))"
    using Suc.prems(3) len by (simp add: Cons_nth_drop_Suc [symmetric])
  ultimately show ?case using Suc.prems load_ok [of s b no i] by simp
qed simp

lemma store_bytes_ok:
  "okay s \<Longrightarrow> held s b = Some no \<Longrightarrow> i + length vs \<le> BLOCK_SIZE \<Longrightarrow>
   \<exists>s'. store_bytes bc s b (data_offset + i) vs = Inr s' \<and> okay s' \<and> held s' = held s \<and>
     view s' = (view s)(no := take i (view s no) @ vs @ drop (i + length vs) (view s no))"
proof (induction vs arbitrary: i s)
  case Nil
  then show ?case by simp
next
  case (Cons v vs)
  have len: "length (view s no) = BLOCK_SIZE" using Cons.prems(1,2) by (intro view_length held_small)
  from store_ok [OF Cons.prems(1,2), of i v] Cons.prems(3) obtain s1 where
    s1: "bc_store bc s b (data_offset + i) v = Inr s1" "okay s1" "held s1 = held s" "view s1 = (view s)(no := (view s no)[i := v])"
    by auto
  have "\<exists>s'. store_bytes bc s1 b (data_offset + Suc i) vs = Inr s' \<and> okay s' \<and> held s' = held s1 \<and>
     view s' = (view s1)(no := take (Suc i) (view s1 no) @ vs @ drop (Suc i + length vs) (view s1 no))"
    by (rule Cons.IH [OF s1(2)]) (use Cons.prems s1(3) in auto)
  moreover have "take (Suc i) ((view s no)[i := v]) @ vs @ drop (Suc i + length vs) ((view s no)[i := v]) =
      take i (view s no) @ (v # vs) @ drop (i + length (v # vs)) (view s no)"
    using Cons.prems(3) len by (simp add: take_Suc_conv_app_nth)
  ultimately show ?case using s1 by auto
qed

end

subsection \<open>The block cache as a provider\<close>

text \<open>The bytes of a \<open>Block\<close> structure: number at 0, list node at 8, flags at 24 and 25, sleep lock at 32, \<open>valid\<close>
  at 64, data at 65. The padding and the pointers inside the lock are not represented; accesses to them
  are reported as faults.\<close>

definition block_load :: "bcache \<Rightarrow> addr \<Rightarrow> nat \<Rightarrow> u8 res" where
  "block_load st b i =
     (let x = blocks st b in
      if i < 8 then Inr (le_bytes 8 (block_no x) ! i)
      else if i < 16 then Inr (le_bytes 8 (lprev (bnodes st) (blk_node b)) ! (i - 8))
      else if i < 24 then Inr (le_bytes 8 (lnext (bnodes st) (blk_node b)) ! (i - 16))
      else if i = 24 then Inr (if acquired x then 1 else 0)
      else if i = 25 then Inr (if pinned x then 1 else 0)
      else if i = 32 then Inr (if locked (slock (block_lock x)) then 1 else 0)
      else if i = 56 then Inr (if slocked (block_lock x) then 1 else 0)
      else if i = 64 then Inr (if valid x then 1 else 0)
      else if data_offset \<le> i \<and> i < data_offset + BLOCK_SIZE then Inr (data x ! (i - data_offset))
      else Inl (Fault ''block''))"

definition put_u64_byte :: "u64 \<Rightarrow> nat \<Rightarrow> u8 \<Rightarrow> u64" where
  "put_u64_byte w i v = le_word ((le_bytes 8 w)[i := v])"

definition block_store :: "bcache \<Rightarrow> addr \<Rightarrow> nat \<Rightarrow> u8 \<Rightarrow> bcache res" where
  "block_store st b i v =
     (if i < 8 then Inr (upd_block st b (\<lambda>x. x\<lparr>block_no := put_u64_byte (block_no x) i v\<rparr>))
      else if i < 16 then Inr (st\<lparr>bnodes := (bnodes st)\<lparr>lprev :=
             (lprev (bnodes st))(blk_node b := put_u64_byte (lprev (bnodes st) (blk_node b)) (i - 8) v)\<rparr>\<rparr>)
      else if i < 24 then Inr (st\<lparr>bnodes := (bnodes st)\<lparr>lnext :=
             (lnext (bnodes st))(blk_node b := put_u64_byte (lnext (bnodes st) (blk_node b)) (i - 16) v)\<rparr>\<rparr>)
      else if i = 24 then Inr (upd_block st b (\<lambda>x. x\<lparr>acquired := v \<noteq> 0\<rparr>))
      else if i = 25 then Inr (upd_block st b (\<lambda>x. x\<lparr>pinned := v \<noteq> 0\<rparr>))
      else if i = 32 then Inr (upd_block st b (\<lambda>x. x\<lparr>block_lock := (block_lock x)\<lparr>slock := (slock (block_lock x))\<lparr>locked := v \<noteq> 0\<rparr>\<rparr>\<rparr>))
      else if i = 56 then Inr (upd_block st b (\<lambda>x. x\<lparr>block_lock := (block_lock x)\<lparr>slocked := v \<noteq> 0\<rparr>\<rparr>))
      else if i = 64 then Inr (upd_block st b (\<lambda>x. x\<lparr>valid := v \<noteq> 0\<rparr>))
      else if data_offset \<le> i \<and> i < data_offset + BLOCK_SIZE
      then Inr (upd_block st b (\<lambda>x. x\<lparr>data := (data x)[i - data_offset := v]\<rparr>))
      else Inl (Fault ''block''))"

definition kernel_cache :: "nat \<Rightarrow> bcache BlockCache" where
  "kernel_cache cpu = \<lparr>bc_get_num_cached_blocks = get_num_cached_blocks,
     bc_acquire = cache_acquire cpu, bc_release = cache_release cpu,
     bc_begin_op = cache_begin_op cpu, bc_sync = cache_sync cpu, bc_end_op = cache_end_op cpu,
     bc_alloc = cache_alloc cpu, bc_free = cache_free cpu, bc_load = block_load, bc_store = block_store,
     bc_pool = (\<lambda>st. apmem (barena st)), bc_set_pool = (\<lambda>st pm. st\<lparr>barena := (barena st)\<lparr>apmem := pm\<rparr>\<rparr>)\<rparr>"

lemma kernel_cache_simps [simp]:
  "bc_acquire (kernel_cache cpu) = cache_acquire cpu" "bc_release (kernel_cache cpu) = cache_release cpu"
  "bc_sync (kernel_cache cpu) = cache_sync cpu" "bc_alloc (kernel_cache cpu) = cache_alloc cpu"
  "bc_free (kernel_cache cpu) = cache_free cpu" "bc_load (kernel_cache cpu) = block_load" "bc_store (kernel_cache cpu) = block_store"
  by (simp_all add: kernel_cache_def)

text \<open>The view of the cache. The bound on block numbers excludes two numbers that agree in their low 32 bits,
  which the disk cannot tell apart.\<close>

definition cv_clean :: "bcache \<Rightarrow> addr \<Rightarrow> bool" where
  "cv_clean st b \<longleftrightarrow> pinned (blocks st b) \<or> data (blocks st b) = device_read (dev st) (block_no (blocks st b))"

definition cv_ok_with :: "nat \<Rightarrow> bcache \<Rightarrow> addr list \<Rightarrow> addr list \<Rightarrow> bool" where
  "cv_ok_with c st qs ps \<longleftrightarrow> bc_ok c st qs ps \<and>
     (\<forall>b\<in>set qs. unat (block_no (blocks st b)) < 2 ^ 32 \<and> length (data (blocks st b)) = BLOCK_SIZE \<and>
        (acquired (blocks st b) \<or> cv_clean st b)) \<and>
     (\<forall>n. length (content (dev st) n) = BLOCK_SIZE)"

definition cv_ok :: "nat \<Rightarrow> bcache \<Rightarrow> bool" where
  "cv_ok c st \<longleftrightarrow> (\<exists>qs ps. cv_ok_with c st qs ps)"

definition cv_find :: "bcache \<Rightarrow> usize \<Rightarrow> addr" where
  "cv_find st no = (case get_cache 0 st no of Some (Inr (b, _)) \<Rightarrow> b | _ \<Rightarrow> NULL)"

definition cv_held :: "bcache \<Rightarrow> addr \<Rightarrow> usize option" where
  "cv_held st b = (if b \<noteq> NULL \<and> cv_find st (block_no (blocks st b)) = b \<and> acquired (blocks st b)
     then Some (block_no (blocks st b)) else None)"

definition cv_view :: "bcache \<Rightarrow> usize \<Rightarrow> u8 list" where
  "cv_view st no =
     (if \<not> unat no < 2 ^ 32 then []
      else if cv_find st no = NULL then device_read (dev st) no else data (blocks st (cv_find st no)))"

lemma cv_find_eq:
  assumes "bc_ok c st qs ps"
  shows "cv_find st no = (case find (\<lambda>b. block_no (blocks st b) = no) qs of None \<Rightarrow> NULL | Some b \<Rightarrow> b)"
  using get_cache_spec [OF bc_queue_ok, of c st qs ps 0 no] assms by (simp add: cv_find_def bc_ok_def)

lemma cv_find_iff:
  assumes ok: "bc_ok c st qs ps"
  shows "b \<noteq> NULL \<and> cv_find st no = b \<longleftrightarrow> b \<in> set qs \<and> block_no (blocks st b) = no"
    and "cv_find st no = NULL \<longleftrightarrow> (\<forall>b\<in>set qs. block_no (blocks st b) \<noteq> no)"
proof -
  let ?P = "\<lambda>b. block_no (blocks st b) = no"
  have nn: "x \<noteq> NULL" if "x \<in> set qs" for x using ok that bc_core_nonnull(1) [of c st qs ps x] by (simp add: bc_ok_def)
  have inj: "x = y" if "x \<in> set qs" "y \<in> set qs" "?P x" "?P y" for x y
    using ok that by (auto simp: bc_ok_def bc_core_def distinct_map inj_on_def)
  show "b \<noteq> NULL \<and> cv_find st no = b \<longleftrightarrow> b \<in> set qs \<and> block_no (blocks st b) = no"
  proof (cases "find ?P qs")
    case None
    then have "cv_find st no = NULL" by (simp add: cv_find_eq [OF ok])
    moreover have "\<forall>x\<in>set qs. \<not> ?P x" using None unfolding find_None_set .
    ultimately show ?thesis by auto
  next
    case (Some x)
    then show ?thesis using find_in_set [OF Some] inj nn by (auto simp: cv_find_eq [OF ok])
  qed
  show "cv_find st no = NULL \<longleftrightarrow> (\<forall>b\<in>set qs. block_no (blocks st b) \<noteq> no)"
  proof (cases "find ?P qs")
    case None
    then have "cv_find st no = NULL" by (simp add: cv_find_eq [OF ok])
    moreover have "\<forall>x\<in>set qs. \<not> ?P x" using None unfolding find_None_set .
    ultimately show ?thesis by auto
  next
    case (Some x)
    then show ?thesis using find_in_set [OF Some] nn by (auto simp: cv_find_eq [OF ok])
  qed
qed

lemma cv_held_eq:
  assumes "bc_ok c st qs ps"
  shows "cv_held st b = (if b \<in> set qs \<and> acquired (blocks st b) then Some (block_no (blocks st b)) else None)"
  using cv_find_iff(1) [OF assms, of b "block_no (blocks st b)"] by (auto simp: cv_held_def)

lemma cv_view_cached:
  assumes "bc_ok c st qs ps" "b \<in> set qs" "unat (block_no (blocks st b)) < 2 ^ 32"
  shows "cv_view st (block_no (blocks st b)) = data (blocks st b)"
  using cv_find_iff(1) [OF assms(1), of b "block_no (blocks st b)"] assms(2,3) by (auto simp: cv_view_def)

lemma cv_view_disk:
  assumes "bc_ok c st qs ps" "\<forall>b\<in>set qs. block_no (blocks st b) \<noteq> no" "unat no < 2 ^ 32"
  shows "cv_view st no = device_read (dev st) no"
  using cv_find_iff(2) [OF assms(1)] assms(2,3) by (simp add: cv_view_def)

text \<open>What a successful \<open>cache_acquire\<close> leaves, between the queue \<open>qs\<close> before and the queue \<open>qs'\<close> after it.\<close>

definition cv_got :: "nat \<Rightarrow> bcache \<Rightarrow> addr list \<Rightarrow> usize \<Rightarrow> addr \<Rightarrow> bcache \<Rightarrow> addr list \<Rightarrow> addr list \<Rightarrow> bool" where
  "cv_got c st qs no b st' qs' ps' \<longleftrightarrow> unat no < 2 ^ 32 \<and> (\<exists>ps. cv_ok_with c st qs ps) \<and> bc_ok c st' qs' ps' \<and>
     (\<forall>x\<in>set qs. block_no (blocks st x) = no \<longrightarrow> x = b \<and> \<not> acquired (blocks st x)) \<and>
     block_no (blocks st' b) = no \<and> acquired (blocks st' b) \<and>
     data (blocks st' b) = (case cached_data st qs no of Some d \<Rightarrow> d | None \<Rightarrow> device_read (dev st) no) \<and>
     (b \<in> set qs \<longrightarrow> pinned (blocks st' b) = pinned (blocks st b) \<and> block_no (blocks st b) = no) \<and>
     (b \<notin> set qs \<longrightarrow> \<not> pinned (blocks st' b)) \<and>
     (\<forall>x\<in>set qs. x \<noteq> b \<longrightarrow> blocks st' x = blocks st x) \<and> dev st' = dev st \<and>
     b \<in> set qs' \<and> set qs' \<subseteq> insert b (set qs) \<and> (\<forall>x\<in>set qs. busy st x \<longrightarrow> x \<in> set qs')"

lemma cv_gotD:
  assumes "cv_got c st qs no b st' qs' ps'"
  shows "unat no < 2 ^ 32" "\<exists>ps. bc_ok c st qs ps" "bc_ok c st' qs' ps'" "b \<in> set qs'" "dev st' = dev st"
    "block_no (blocks st' b) = no" "acquired (blocks st' b)"
    "x \<in> set qs \<Longrightarrow> block_no (blocks st x) = no \<Longrightarrow> x = b \<and> \<not> acquired (blocks st x)"
    "b \<in> set qs \<Longrightarrow> pinned (blocks st' b) = pinned (blocks st b) \<and> block_no (blocks st b) = no"
    "x \<in> set qs' \<Longrightarrow> x \<noteq> b \<Longrightarrow> x \<in> set qs \<and> blocks st' x = blocks st x"
    "x \<in> set qs \<Longrightarrow> x \<notin> set qs' \<Longrightarrow> \<not> busy st x"
    "x \<in> set qs \<Longrightarrow> unat (block_no (blocks st x)) < 2 ^ 32 \<and> length (data (blocks st x)) = BLOCK_SIZE \<and> (acquired (blocks st x) \<or> cv_clean st x)"
    "length (content (dev st) n) = BLOCK_SIZE"
    "b \<notin> set qs \<Longrightarrow> \<not> pinned (blocks st' b)"
  using assms unfolding cv_got_def cv_ok_with_def by blast+

lemma cv_got_data:
  assumes g: "cv_got c st qs no b st' qs' ps'"
  shows "data (blocks st' b) = cv_view st no" "length (data (blocks st' b)) = BLOCK_SIZE"
proof -
  obtain ps where bok: "bc_ok c st qs ps" using cv_gotD(2) [OF g] by blast
  note no = cv_gotD(1) [OF g]
  have bd: "data (blocks st' b) = (case cached_data st qs no of Some d \<Rightarrow> d | None \<Rightarrow> device_read (dev st) no)"
    using g by (simp add: cv_got_def)
  have "data (blocks st' b) = cv_view st no \<and> length (cv_view st no) = BLOCK_SIZE"
  proof (cases "find (\<lambda>b. block_no (blocks st b) = no) qs")
    case None
    then have "data (blocks st' b) = device_read (dev st) no" using bd by (simp add: cached_data_def)
    moreover have "\<forall>x\<in>set qs. block_no (blocks st x) \<noteq> no" using None unfolding find_None_set .
    ultimately show ?thesis using cv_view_disk [OF bok _ no] cv_gotD(13) [OF g] by (simp add: device_read_def)
  next
    case (Some x)
    then show ?thesis using bd find_in_set [OF Some] cv_view_cached [OF bok, of x] no cv_gotD(12) [OF g, of x]
      by (auto simp: cached_data_def)
  qed
  then show "data (blocks st' b) = cv_view st no" "length (data (blocks st' b)) = BLOCK_SIZE" by simp_all
qed

lemma cv_got_clean:
  assumes g: "cv_got c st qs no b st' qs' ps'"
  shows "cv_clean st' b"
proof -
  obtain ps where bok: "bc_ok c st qs ps" using cv_gotD(2) [OF g] by blast
  note no = cv_gotD(1) [OF g] and dv = cv_gotD(5) [OF g] and bn = cv_gotD(6) [OF g] and vb = cv_got_data(1) [OF g]
  show ?thesis
  proof (cases "b \<in> set qs")
    case True
    have n: "block_no (blocks st b) = no" and pin: "pinned (blocks st' b) = pinned (blocks st b)" using cv_gotD(9) [OF g True] by auto
    have "cv_clean st b" using cv_gotD(8) [OF g True n] cv_gotD(12) [OF g True] by blast
    moreover have "data (blocks st' b) = data (blocks st b)" using vb cv_view_cached [OF bok True] n no by simp
    ultimately show ?thesis unfolding cv_clean_def pin bn dv n by simp
  next
    case False
    then have "\<forall>x\<in>set qs. block_no (blocks st x) \<noteq> no" using cv_gotD(8) [OF g] by blast
    then show ?thesis using vb cv_view_disk [OF bok _ no] bn dv by (simp add: cv_clean_def)
  qed
qed

lemma cv_got_ok_with:
  assumes g: "cv_got c st qs no b st' qs' ps'"
  shows "cv_ok_with c st' qs' ps'"
proof -
  have "unat (block_no (blocks st' x)) < 2 ^ 32 \<and> length (data (blocks st' x)) = BLOCK_SIZE \<and> (acquired (blocks st' x) \<or> cv_clean st' x)"
    if x: "x \<in> set qs'" for x
  proof (cases "x = b")
    case True
    then show ?thesis using cv_gotD(1,6,7) [OF g] cv_got_data(2) [OF g] by simp
  next
    case False
    then show ?thesis using cv_gotD(10) [OF g x False] cv_gotD(12) [OF g, of x] cv_gotD(5) [OF g] by (auto simp: cv_clean_def)
  qed
  then show ?thesis using cv_gotD(3,5,13) [OF g] by (simp add: cv_ok_with_def)
qed

lemma cv_got_held:
  assumes g: "cv_got c st qs no b st' qs' ps'"
  shows "no \<notin> ran (cv_held st)" "cv_held st b = None" "cv_held st' = (cv_held st)(b \<mapsto> no)"
proof -
  obtain ps where bok: "bc_ok c st qs ps" using cv_gotD(2) [OF g] by blast
  note bok' = cv_gotD(3) [OF g]
  have "cv_held st x \<noteq> Some no" for x using cv_gotD(8) [OF g, of x] by (auto simp: cv_held_eq [OF bok])
  then show "no \<notin> ran (cv_held st)" by (simp add: ran_def)
  show "cv_held st b = None" using cv_gotD(8) [OF g, of b] cv_gotD(9) [OF g] by (auto simp: cv_held_eq [OF bok])
  have "cv_held st' x = ((cv_held st)(b \<mapsto> no)) x" for x
  proof (cases "x = b")
    case True
    then show ?thesis using cv_gotD(4,6,7) [OF g] by (simp add: cv_held_eq [OF bok'])
  next
    case False
    show ?thesis
    proof (cases "x \<in> set qs'")
      case True
      then show ?thesis using cv_gotD(10) [OF g True False] False by (simp add: cv_held_eq [OF bok] cv_held_eq [OF bok'])
    next
      case gone: False
      then have "\<not> (x \<in> set qs \<and> acquired (blocks st x))" using cv_gotD(11) [OF g, of x] by (auto simp: busy_def)
      with gone False show ?thesis by (auto simp: cv_held_eq [OF bok] cv_held_eq [OF bok'])
    qed
  qed
  then show "cv_held st' = (cv_held st)(b \<mapsto> no)" by blast
qed

lemma cv_got_view:
  assumes g: "cv_got c st qs no b st' qs' ps'"
  shows "cv_view st' = cv_view st"
proof -
  obtain ps where bok: "bc_ok c st qs ps" using cv_gotD(2) [OF g] by blast
  note bok' = cv_gotD(3) [OF g] and other = cv_gotD(10) [OF g] and bn = cv_gotD(6) [OF g] and dv = cv_gotD(5) [OF g]
  have "cv_view st' n = cv_view st n" if n: "unat n < 2 ^ 32" for n
  proof -
    consider (b) "n = no" | (kept) x where "x \<in> set qs'" "x \<noteq> b" "block_no (blocks st x) = n" "n \<noteq> no"
      | (gone) "n \<noteq> no" "\<forall>x\<in>set qs'. x \<noteq> b \<longrightarrow> block_no (blocks st x) \<noteq> n" by blast
    then show ?thesis
    proof cases
      case b
      then show ?thesis using cv_view_cached [OF bok' cv_gotD(4) [OF g]] bn cv_got_data(1) [OF g] cv_gotD(1) [OF g] by simp
    next
      case kept
      then show ?thesis using cv_view_cached [OF bok', of x] cv_view_cached [OF bok, of x] other n by auto
    next
      case gone
      have v': "cv_view st' n = device_read (dev st) n" using cv_view_disk [OF bok' _ n] gone other bn dv by metis
      show ?thesis
      proof (cases "\<exists>x\<in>set qs. block_no (blocks st x) = n")
        case True
        then obtain x where x: "x \<in> set qs" "block_no (blocks st x) = n" by blast
        have "x \<noteq> b" using x gone(1) cv_gotD(9) [OF g] by blast
        then have "x \<notin> set qs'" using x gone(2) by blast
        then have "\<not> busy st x" by (rule cv_gotD(11) [OF g x(1)])
        then have "data (blocks st x) = device_read (dev st) n" using cv_gotD(12) [OF g x(1)] x(2) by (auto simp: busy_def cv_clean_def)
        then show ?thesis using v' cv_view_cached [OF bok x(1)] x(2) n by simp
      qed (use v' cv_view_disk [OF bok _ n] in simp)
    qed
  qed
  then show ?thesis by (force simp: fun_eq_iff cv_view_def)
qed

lemma cv_acquire_got:
  assumes "cv_ok_with c st qs ps" "unat no < 2 ^ 32" "cache_acquire cpu st no = Some (Inr (b, st'))"
  obtains qs' ps' where "cv_got c st qs no b st' qs' ps'"
proof -
  have bok: "bc_ok c st qs ps" using assms(1) by (simp add: cv_ok_with_def)
  show thesis
    using cache_acquire_outcome [OF bok, of no cpu] assms(1,2) that
    unfolding assms(3) acquire_outcome_def cv_got_def option.case sum.case prod.case by blast
qed

lemma cv_acquire:
  assumes ok: "cv_ok c st" and no: "unat no < 2 ^ 32" and r: "cache_acquire cpu st no = Some (Inr (b, st'))"
  shows "cv_ok c st' \<and> no \<notin> ran (cv_held st) \<and> cv_held st b = None \<and> cv_held st' = (cv_held st)(b \<mapsto> no) \<and> cv_clean st' b \<and> cv_view st' = cv_view st"
proof -
  obtain qs ps where w: "cv_ok_with c st qs ps" using ok by (auto simp: cv_ok_def)
  obtain qs' ps' where g: "cv_got c st qs no b st' qs' ps'" using cv_acquire_got [OF w no r] .
  show ?thesis using cv_got_ok_with [OF g] cv_got_held [OF g] cv_got_clean [OF g] cv_got_view [OF g] by (auto simp: cv_ok_def)
qed

text \<open>Changing an acquired block, the log header or the disk block of an acquired block.\<close>

lemma bc_ok_upd:
  assumes "bc_ok c st qs ps" "block_no x = block_no (blocks st b)" "acquired x = acquired (blocks st b)"
    "block_lock x = block_lock (blocks st b)" "valid x = valid (blocks st b)"
  shows "bc_ok c (st\<lparr>blocks := (blocks st)(b := x), header := h, dev := d\<rparr>) qs ps"
proof -
  have f: "(\<lambda>y. block_no (((blocks st)(b := x)) y)) = (\<lambda>y. block_no (blocks st y))" using assms(2) by (simp add: fun_eq_iff)
  have g: "block_ok (((blocks st)(b := x)) y) = block_ok (blocks st y)" for y using assms by (simp add: block_ok_def)
  show ?thesis using assms(1) unfolding bc_ok_def bc_core_def head_outside_def by (simp add: f g del: fun_upd_apply)
qed

lemma ucast_u32_inj: "unat (a :: u64) < 2 ^ 32 \<Longrightarrow> unat (b :: u64) < 2 ^ 32 \<Longrightarrow> (ucast a :: u32) = ucast b \<longleftrightarrow> a = b"
  using unat_ucast_u32 [of a] unat_ucast_u32 [of b] by (metis word_unat_eq_iff)

lemma cv_ok_upd:
  assumes ok: "cv_ok_with c st qs ps" and b: "b \<in> set qs" "acquired (blocks st b)"
    and x: "block_no x = block_no (blocks st b)" "acquired x" "block_lock x = block_lock (blocks st b)"
      "valid x = valid (blocks st b)" "length (data x) = BLOCK_SIZE"
    and d: "\<And>n. n \<noteq> ucast (block_no (blocks st b)) \<Longrightarrow> content d n = content (dev st) n"
      "length (content d (ucast (block_no (blocks st b)))) = BLOCK_SIZE"
    and st'_def: "st' = st\<lparr>blocks := (blocks st)(b := x), header := h, dev := d\<rparr>"
  shows "cv_ok_with c st' qs ps \<and> cv_held st' = cv_held st \<and> cv_view st' = (cv_view st)(block_no (blocks st b) := data x)"
proof -
  let ?no = "block_no (blocks st b)"
  have bok: "bc_ok c st qs ps" using ok by (simp add: cv_ok_with_def)
  have bok': "bc_ok c st' qs ps" unfolding st'_def by (rule bc_ok_upd [OF bok]) (use x b in auto)
  have gw: "unat (block_no (blocks st y)) < 2 ^ 32" "length (data (blocks st y)) = BLOCK_SIZE" "acquired (blocks st y) \<or> cv_clean st y"
    if "y \<in> set qs" for y using ok that by (auto simp: cv_ok_with_def)
  have bl: "blocks st' y = (if y = b then x else blocks st y)" for y by (simp add: st'_def)
  have num: "block_no (blocks st' y) = block_no (blocks st y)" for y using x(1) by (simp add: bl)
  have inj: "y = b" if "y \<in> set qs" "block_no (blocks st y) = ?no" for y
    using bok that b by (auto simp: bc_ok_def bc_core_def distinct_map inj_on_def)
  have rd: "device_read d n = device_read (dev st) n" if "unat n < 2 ^ 32" "n \<noteq> ?no" for n
    using d(1) [of "ucast n"] ucast_u32_inj [OF that(1) gw(1) [OF b(1)]] that(2) by (simp add: device_read_def)
  have "cv_clean st' y" if "y \<in> set qs" "y \<noteq> b" "cv_clean st y" for y
  proof -
    have "block_no (blocks st y) \<noteq> ?no" using inj [OF that(1)] that(2) by blast
    then show ?thesis using rd [OF gw(1) [OF that(1)]] that(2,3) by (simp add: cv_clean_def bl) (simp add: st'_def)
  qed
  then have "acquired (blocks st' y) \<or> cv_clean st' y" if "y \<in> set qs" for y using gw(3) [OF that] x(2) that by (auto simp: bl)
  moreover have "length (content d n) = BLOCK_SIZE" for n
    using d ok by (cases "n = ucast ?no") (auto simp: cv_ok_with_def)
  ultimately have "cv_ok_with c st' qs ps"
    using bok' gw x(5) unfolding cv_ok_with_def num by (auto simp: bl) (simp add: st'_def)
  moreover have "cv_held st' = cv_held st"
    using x(1,2) b(2) by (auto simp: fun_eq_iff cv_held_eq [OF bok] cv_held_eq [OF bok'] bl)
  moreover have "cv_view st' n = ((cv_view st)(?no := data x)) n" if n: "unat n < 2 ^ 32" for n
  proof (cases "\<exists>y\<in>set qs. block_no (blocks st y) = n")
    case True
    then obtain y where y: "y \<in> set qs" "block_no (blocks st y) = n" by blast
    then show ?thesis
      using cv_view_cached [OF bok' y(1)] cv_view_cached [OF bok y(1)] inj [OF y(1)] num bl n by auto
  next
    case False
    then have "n \<noteq> ?no" using b(1) by blast
    moreover have "cv_view st' n = device_read d n" using cv_view_disk [OF bok' _ n] False num by (simp add: st'_def)
    moreover have "device_read d n = device_read (dev st) n" using rd [OF n] \<open>n \<noteq> ?no\<close> by simp
    ultimately show ?thesis using cv_view_disk [OF bok _ n] False by simp
  qed
  then have "cv_view st' = (cv_view st)(?no := data x)" using gw(1) [OF b(1)] by (force simp: fun_eq_iff cv_view_def)
  ultimately show ?thesis by simp
qed

lemma cv_heldD:
  assumes "cv_ok_with c st qs ps" "cv_held st b = Some no"
  shows "b \<in> set qs" "acquired (blocks st b)" "block_no (blocks st b) = no" "unat no < 2 ^ 32" "length (data (blocks st b)) = BLOCK_SIZE"
    "cv_view st no = data (blocks st b)"
proof -
  have bok: "bc_ok c st qs ps" using assms(1) by (simp add: cv_ok_with_def)
  show b: "b \<in> set qs" "acquired (blocks st b)" "block_no (blocks st b) = no"
    using assms(2) by (auto simp: cv_held_eq [OF bok] split: if_splits)
  show n: "unat no < 2 ^ 32" "length (data (blocks st b)) = BLOCK_SIZE" using assms(1) b by (auto simp: cv_ok_with_def)
  show "cv_view st no = data (blocks st b)" using cv_view_cached [OF bok b(1)] b(3) n(1) by simp
qed

lemma cv_store_with:
  fixes v :: u8
  assumes w: "cv_ok_with c st qs ps" and hd: "cv_held st b = Some no" and i: "i < BLOCK_SIZE"
  defines "st' \<equiv> upd_block st b (\<lambda>x. x\<lparr>data := (data x)[i := v]\<rparr>)"
  shows "block_store st b (data_offset + i) v = Inr st'" "cv_ok_with c st' qs ps" "cv_held st' = cv_held st"
    "cv_view st' = (cv_view st)(no := (cv_view st no)[i := v])"
proof -
  note h = cv_heldD [OF w hd]
  show "block_store st b (data_offset + i) v = Inr st'" using i by (simp add: block_store_def st'_def)
  have eq: "st' = st\<lparr>blocks := (blocks st)(b := (blocks st b)\<lparr>data := (data (blocks st b))[i := v]\<rparr>), header := header st, dev := dev st\<rparr>"
    by (simp add: st'_def upd_block_def)
  have dl: "length (content (dev st) n) = BLOCK_SIZE" for n using w by (simp add: cv_ok_with_def)
  have "cv_ok_with c st' qs ps \<and> cv_held st' = cv_held st \<and>
      cv_view st' = (cv_view st)(block_no (blocks st b) := data ((blocks st b)\<lparr>data := (data (blocks st b))[i := v]\<rparr>))"
    by (rule cv_ok_upd [OF w h(1,2) _ _ _ _ _ _ _ eq]) (use h dl in auto)
  then show "cv_ok_with c st' qs ps" "cv_held st' = cv_held st" "cv_view st' = (cv_view st)(no := (cv_view st no)[i := v])"
    using h(3,6) by auto
qed

lemma cv_store:
  assumes "cv_ok c st" "cv_held st b = Some no" "i < BLOCK_SIZE"
  shows "\<exists>st'. block_store st b (data_offset + i) v = Inr st' \<and> cv_ok c st' \<and> cv_held st' = cv_held st \<and>
    cv_view st' = (cv_view st)(no := (cv_view st no)[i := v])"
proof -
  obtain qs ps where w: "cv_ok_with c st qs ps" using assms(1) by (auto simp: cv_ok_def)
  show ?thesis using cv_store_with [OF w assms(2,3), of v] by (auto simp: cv_ok_def)
qed

lemma cv_release_with:
  assumes w: "cv_ok_with c st qs ps" and "cv_held st b = Some no" "cv_clean st b"
  shows "\<exists>st'. cache_release cpu st b = Inr st' \<and> cv_ok_with c st' qs ps \<and> cv_held st' = (cv_held st)(b := None) \<and> cv_view st' = cv_view st \<and>
    st' = st\<lparr>blocks := (blocks st)(b := (blocks st b)\<lparr>acquired := False, block_lock := (block_lock (blocks st b))\<lparr>slocked := False\<rparr>\<rparr>),
      woken := woken st @ [b + 32]\<rparr>"
proof -
  have bok: "bc_ok c st qs ps" using w by (simp add: cv_ok_with_def)
  note h = cv_heldD [OF w assms(2)]
  define x where "x = (blocks st b)\<lparr>acquired := False, block_lock := (block_lock (blocks st b))\<lparr>slocked := False\<rparr>\<rparr>"
  define st' where "st' = st\<lparr>blocks := (blocks st)(b := x), woken := woken st @ [b + 32]\<rparr>"
  have bo: "block_ok (blocks st b)" using bok h(1) by (auto simp: bc_ok_def bc_core_def)
  have run: "cache_release cpu st b = Inr st'"
    using bo by (simp add: cache_release_def upd_block_def st'_def x_def block_ok_def)
  have bl: "blocks st' y = (if y = b then x else blocks st y)" for y by (simp add: st'_def)
  have num: "block_no (blocks st' y) = block_no (blocks st y)" and dat: "data (blocks st' y) = data (blocks st y)"
    and pin: "pinned (blocks st' y) = pinned (blocks st y)" for y by (simp_all add: bl x_def)
  have "block_ok x" using bo by (simp add: block_ok_def x_def)
  then have bok': "bc_ok c st' qs ps"
    using bok unfolding bc_ok_def bc_core_def num by (auto simp: st'_def head_outside_def)
  have cl: "cv_clean st' y = cv_clean st y" for y unfolding cv_clean_def num dat pin by (simp add: st'_def)
  have "acquired (blocks st' y) \<or> cv_clean st' y" if "y \<in> set qs" for y
    using w that assms(3) by (cases "y = b") (auto simp: cv_ok_with_def cl bl)
  then have "cv_ok_with c st' qs ps" using w bok' unfolding cv_ok_with_def num dat by (auto simp: st'_def)
  moreover have "cv_held st' = (cv_held st)(b := None)"
    by (auto simp: fun_eq_iff cv_held_eq [OF bok] cv_held_eq [OF bok'] num) (auto simp: bl x_def split: if_splits)
  moreover have "cv_find st' n = cv_find st n" for n
    unfolding cv_find_eq [OF bok] cv_find_eq [OF bok'] num ..
  then have "cv_view st' = cv_view st" by (auto simp: fun_eq_iff cv_view_def dat) (simp_all add: st'_def)
  ultimately show ?thesis using run by (auto simp: st'_def x_def)
qed

lemma cv_release:
  assumes "cv_ok c st" "cv_held st b = Some no" "cv_clean st b"
  shows "\<exists>st'. cache_release cpu st b = Inr st' \<and> cv_ok c st' \<and> cv_held st' = (cv_held st)(b := None) \<and> cv_view st' = cv_view st"
proof -
  obtain qs ps where w: "cv_ok_with c st qs ps" using assms(1) by (auto simp: cv_ok_def)
  show ?thesis using cv_release_with [OF w assms(2,3)] by (auto simp: cv_ok_def)
qed

lemma cv_sync_with:
  assumes w: "cv_ok_with c st qs ps" and "cv_held st b = Some no" "cache_sync cpu st ctx b = Inr (ctx', st')"
  shows "cv_ok_with c st' qs ps \<and> cv_held st' = cv_held st \<and> cv_clean st' b \<and> cv_view st' = cv_view st \<and>
    (if ctx = None then st' = st\<lparr>dev := device_write (dev st) no (data (blocks st b))\<rparr>
     else st' = upd_block (st\<lparr>header := header st'\<rparr>) b (\<lambda>x. x\<lparr>pinned := True\<rparr>))"
proof -
  have bok: "bc_ok c st qs ps" using w by (simp add: cv_ok_with_def)
  note h = cv_heldD [OF w assms(2)]
  have dl: "length (content (dev st) n) = BLOCK_SIZE" for n using w by (simp add: cv_ok_with_def)
  have lf: "lock_free (clock st)" using bok by (simp add: bc_ok_def)
  show ?thesis
  proof (cases ctx)
    case None
    let ?d = "device_write (dev st) no (data (blocks st b))"
    have st': "st' = st\<lparr>blocks := (blocks st)(b := blocks st b), header := header st, dev := ?d\<rparr>"
      using assms(3) lf None h(3) by (simp add: cache_sync_def unsafe_cache_sync_def lock_cache_def unlock_cache_def)
    have d: "content ?d n = (if n = ucast no then data (blocks st b) else content (dev st) n)" for n
      using h(5) by (simp add: device_write_def)
    have "cv_ok_with c st' qs ps \<and> cv_held st' = cv_held st \<and> cv_view st' = (cv_view st)(block_no (blocks st b) := data (blocks st b))"
      by (rule cv_ok_upd [OF w h(1,2) _ _ _ _ _ _ _ st']) (use h d in auto)
    moreover have "cv_clean st' b" using h(3) d by (simp add: cv_clean_def st' device_read_def)
    ultimately show ?thesis using h(3,6) None by (auto simp: st')
  next
    case (Some cx)
    have st': "st' = st\<lparr>blocks := (blocks st)(b := (blocks st b)\<lparr>pinned := True\<rparr>), header := header st', dev := dev st\<rparr>"
      using assms(3) lf Some
      by (auto simp: cache_sync_def unsafe_cache_sync_def lock_cache_def unlock_cache_def upd_block_def Let_def split: if_splits)
    have "cv_ok_with c st' qs ps \<and> cv_held st' = cv_held st \<and>
        cv_view st' = (cv_view st)(block_no (blocks st b) := data ((blocks st b)\<lparr>pinned := True\<rparr>))"
      by (rule cv_ok_upd [OF w h(1,2) _ _ _ _ _ _ _ st']) (use h dl in auto)
    moreover have "cv_clean st' b" by (subst st') (simp add: cv_clean_def)
    moreover have "st' = upd_block (st\<lparr>header := header st'\<rparr>) b (\<lambda>x. x\<lparr>pinned := True\<rparr>)" by (subst st') (simp add: upd_block_def)
    ultimately show ?thesis using h(3,6) Some by auto
  qed
qed

lemma cv_sync:
  assumes "cv_ok c st" "cv_held st b = Some no" "cache_sync cpu st ctx b = Inr (ctx', st')"
  shows "cv_ok c st' \<and> cv_held st' = cv_held st \<and> cv_clean st' b \<and> cv_view st' = cv_view st"
proof -
  obtain qs ps where w: "cv_ok_with c st qs ps" using assms(1) by (auto simp: cv_ok_def)
  show ?thesis using cv_sync_with [OF w assms(2,3)] by (auto simp: cv_ok_def)
qed

lemma cv_sync_direct:
  assumes "cv_ok c st"
  shows "\<exists>st'. cache_sync cpu st None b = Inr (None, st')"
proof -
  obtain qs ps where "bc_ok c st qs ps" using assms by (auto simp: cv_ok_def cv_ok_with_def)
  then have "lock_free (clock st)" by (simp add: bc_ok_def)
  then show ?thesis by (simp add: cache_sync_def unsafe_cache_sync_def lock_cache_def unlock_cache_def)
qed

interpretation kcache: block_cache "kernel_cache cpu" "cv_ok c" cv_held cv_clean cv_view for cpu c
proof
  show "length (cv_view s no) = BLOCK_SIZE" if ok: "cv_ok c s" and no: "unat no < 2 ^ 32" for s no
  proof -
    obtain qs ps where w: "cv_ok_with c s qs ps" using ok by (auto simp: cv_ok_def)
    then have bok: "bc_ok c s qs ps" by (simp add: cv_ok_with_def)
    show ?thesis
    proof (cases "cv_find s no = NULL")
      case False
      then have "cv_find s no \<in> set qs" using cv_find_iff(1) [OF bok, of "cv_find s no" no] by simp
      then show ?thesis using False no w by (simp add: cv_view_def cv_ok_with_def)
    qed (use no w in \<open>simp add: cv_view_def device_read_def cv_ok_with_def\<close>)
  qed
  show "bc_acquire (kernel_cache cpu) s no \<noteq> None" if ok: "cv_ok c s" for s no
  proof -
    obtain qs ps where "bc_ok c s qs ps" using ok by (auto simp: cv_ok_def cv_ok_with_def)
    from cache_acquire_outcome [OF this, of no cpu] show ?thesis
      by (auto simp: kernel_cache_def acquire_outcome_def split: option.splits)
  qed
  show "bc_load (kernel_cache cpu) s b (data_offset + i) = Inr (cv_view s no ! i)"
    if ok: "cv_ok c s" and h: "cv_held s b = Some no" and i: "i < BLOCK_SIZE" for s b no i
  proof -
    obtain qs ps where "cv_ok_with c s qs ps" using ok by (auto simp: cv_ok_def)
    from cv_heldD(6) [OF this h] i show ?thesis by (simp add: kernel_cache_def block_load_def Let_def)
  qed
  show "\<exists>s'. bc_sync (kernel_cache cpu) s None b = Inr (None, s')" if "cv_ok c s" for s b
    using cv_sync_direct [OF that] by simp
  show "unat no < 2 ^ 32" if "cv_ok c s" "cv_held s b = Some no" for s b no
    using that cv_heldD(4) by (auto simp: cv_ok_def)
qed (unfold kernel_cache_simps, (rule cv_acquire cv_store cv_sync cv_release, assumption+)+)

end
