(* ===== verification/KLogSpec.thy ===== *)
theory KLogSpec
  imports KCacheIface
begin

text \<open>
  The block cache with its log refines a disk that changes atomically. The specification is a pair of disks: what
  survives a crash, and what the callers see. Every operation of \<open>src/fs/cache.c\<close> that follows the protocol of
  \<open>cache.h\<close> is a step of it, and a crash during an operation, followed by recovery, leaves the durable disk from before or
  after that step.\<close>

subsection \<open>The specification\<close>

record ldisk =
  durable :: "u32 \<Rightarrow> u8 list"
  current :: "u32 \<Rightarrow> u8 list"

datatype devent = Quiet | Store u32 nat u8 | Through u32 | Commit

inductive dstep :: "ldisk \<Rightarrow> devent \<Rightarrow> ldisk \<Rightarrow> bool" where
  quiet: "dstep d Quiet d"
| store: "dstep d (Store no i v) (d\<lparr>current := (current d)(no := (current d no)[i := v])\<rparr>)"
| through: "dstep d (Through no) (d\<lparr>durable := (durable d)(no := current d no)\<rparr>)"
| commit: "dstep d Commit (d\<lparr>durable := current d\<rparr>)"

text \<open>The blocks of the log area are not part of the disk the callers use.\<close>

definition disk_of :: "bcache \<Rightarrow> u32 \<Rightarrow> u8 list" where
  "disk_of st no = (if no \<in> log_area (sblock st) then [] else content (dev st) no)"

definition ldisk_of :: "bcache \<Rightarrow> ldisk" where
  "ldisk_of st = \<lparr>durable = disk_of st, current = (\<lambda>no. if no \<in> log_area (sblock st) then [] else cv_view st (ucast no))\<rparr>"

subsection \<open>The steps of the cache\<close>

text \<open>The protocol: only blocks outside the log are acquired, only held blocks are changed, a changed block is
  synchronised before it is released or the last operation ends. \<open>log_fits\<close> is what the admission test of
  \<open>cache_begin_op\<close> should guarantee.\<close>

inductive cache_step :: "nat \<Rightarrow> bcache \<Rightarrow> devent \<Rightarrow> bcache \<Rightarrow> bool" for cpu where
  begin_op: "cache_begin_op cpu st ctx = Inr (ctx', st') \<Longrightarrow> cache_step cpu st Quiet st'"
| acquire: "unat no < 2 ^ 32 \<Longrightarrow> ucast no \<notin> log_area (sblock st) \<Longrightarrow> cache_acquire cpu st no = Some (Inr (b, st')) \<Longrightarrow>
    cache_step cpu st Quiet st'"
| store: "cv_held st b = Some no \<Longrightarrow> i < BLOCK_SIZE \<Longrightarrow> block_store st b (data_offset + i) v = Inr st' \<Longrightarrow>
    cache_step cpu st (Store (ucast no) i v) st'"
| sync: "cv_held st b = Some no \<Longrightarrow> cache_sync cpu st (Some ctx) b = Inr (ctx', st') \<Longrightarrow> cache_step cpu st Quiet st'"
| through: "cv_held st b = Some no \<Longrightarrow> cache_sync cpu st None b = Inr (ctx', st') \<Longrightarrow> cache_step cpu st (Through (ucast no)) st'"
| release: "cv_held st b = Some no \<Longrightarrow> cv_clean st b \<Longrightarrow> cache_release cpu st b = Inr st' \<Longrightarrow> cache_step cpu st Quiet st'"
| end_op: "outstanding st \<noteq> 1 \<Longrightarrow> cache_end_op cpu st ctx a = Some (Inr st') \<Longrightarrow> cache_step cpu st Quiet st'"
| end_last: "outstanding st = 1 \<Longrightarrow> \<forall>b. cv_held st b \<noteq> None \<longrightarrow> cv_clean st b \<Longrightarrow>
    log_fits (sblock st) (unat (hnum_blocks (header st))) \<Longrightarrow> cache_end_op cpu st ctx a = Some (Inr st') \<Longrightarrow>
    cache_step cpu st Commit st'"

text \<open>The invariant of the log: the blocks named in the header in memory are exactly the pinned ones and they are cached;
  the header on disk is empty, so nothing would be replayed.\<close>

definition logged :: "bcache \<Rightarrow> usize list" where
  "logged st = take (unat (hnum_blocks (header st))) (hblock_no (header st))"

definition log_ok_with :: "nat \<Rightarrow> bcache \<Rightarrow> addr list \<Rightarrow> addr list \<Rightarrow> bool" where
  "log_ok_with c st qs ps \<longleftrightarrow> cv_ok_with c st qs ps \<and>
     unat (hnum_blocks (header st)) \<le> LOG_MAX_SIZE \<and> length (hblock_no (header st)) = LOG_MAX_SIZE \<and> distinct (logged st) \<and>
     (\<forall>b\<in>set qs. ucast (block_no (blocks st b)) \<notin> log_area (sblock st) \<and> (pinned (blocks st b) \<longleftrightarrow> block_no (blocks st b) \<in> set (logged st))) \<and>
     set (logged st) \<subseteq> (\<lambda>b. block_no (blocks st b)) ` set qs \<and>
     hnum_blocks (bytes_header (content (dev st) (log_start (sblock st)))) = 0 \<and> log_fits (sblock st) 0"

definition log_ok :: "nat \<Rightarrow> bcache \<Rightarrow> bool" where
  "log_ok c st \<longleftrightarrow> (\<exists>qs ps. log_ok_with c st qs ps)"

text \<open>What most operations leave alone.\<close>

definition same_log :: "bcache \<Rightarrow> bcache \<Rightarrow> bool" where
  "same_log st st' \<longleftrightarrow> sblock st' = sblock st \<and> header st' = header st \<and> dev st' = dev st"

definition same_op :: "bcache \<Rightarrow> bcache \<Rightarrow> bool" where
  "same_op st st' \<longleftrightarrow> same_log st st' \<and> outstanding st' = outstanding st"

lemma same_op_refl [simp]: "same_op st st" by (simp add: same_op_def same_log_def)

lemma same_op_trans [trans]: "same_op st st' \<Longrightarrow> same_op st' st'' \<Longrightarrow> same_op st st''"
  by (simp add: same_op_def same_log_def)

lemma scavenger_loop_same:
  assumes "scavenger_loop cpu node st = Some (Inr st')"
  shows "same_op st st'"
proof -
  have "\<forall>st'. r = Inr st' \<longrightarrow> same_op st st'" if "scavenger_loop cpu node st = Some r" for r
    using that
  proof (induction rule: scavenger_loop.raw_induct [rotated, consumes 1, case_names step])
    case (step f cpu node st r)
    have e: "same_op st s" if "exile_cache cpu (remove_cache st b) b = Inr s" for s b
      using that by (auto simp: exile_cache_def remove_cache_def same_op_def same_log_def bind_res_def split: sum.splits)
    show ?case using step(2) step(1) e same_op_trans by (auto simp: Let_def split: if_splits sum.splits) blast
  qed
  with assms show ?thesis by blast
qed

lemma acquire_same:
  assumes "cache_acquire cpu st no = Some (Inr (b, st'))"
  shows "same_op st st'"
proof -
  have lock: "same_op s s'" if "lock_cache cpu x s = Inr s'" for x s s'
    using that by (auto simp: lock_cache_def same_op_def same_log_def bind_res_def split: if_splits sum.splits)
  have unlock: "same_op s s'" if "unlock_cache cpu x s = Inr s'" for x s s'
    using that by (auto simp: unlock_cache_def same_op_def same_log_def bind_res_def split: if_splits sum.splits)
  have get: "same_op s s'" if "get_cache cpu s no = Some (Inr (r, s'))" for s s' r
    using that by (auto simp: get_cache_def same_op_def same_log_def bind_res_def bind_run_def split: sum.splits option.splits)
  have load: "same_op s s'" if "load_block cpu s no = Inr (r, s')" for s s' r
    using that by (auto simp: load_block_def insert_cache_def init_block_def upd_block_def same_op_def same_log_def bind_res_def Let_def split: sum.splits)
  have scav: "same_op s s'" if "scavenger cpu s = Some (Inr s')" for s s'
    using that by (auto simp: scavenger_def bind_run_def bind_res_def split: sum.splits option.splits dest!: scavenger_loop_same)
      (simp add: same_op_def same_log_def)
  show ?thesis
    using assms unfolding cache_acquire_def unsafe_cache_acquire_def bind_run_def Let_def
    by (auto simp: bind_res_def split: sum.splits option.splits if_splits
        dest!: lock unlock get load scav) (simp_all add: same_op_def same_log_def upd_block_def)
qed

lemma acquire_same_log: "cache_acquire cpu st no = Some (Inr (b, st')) \<Longrightarrow> same_log st st'"
  using acquire_same [of cpu st no b st'] by (simp add: same_op_def)

subsection \<open>The invariant is kept\<close>

lemma log_okD:
  assumes "log_ok_with c st qs ps"
  shows "cv_ok_with c st qs ps" "bc_ok c st qs ps" "x \<in> set qs \<Longrightarrow> ucast (block_no (blocks st x)) \<notin> log_area (sblock st)"
    "x \<in> set qs \<Longrightarrow> pinned (blocks st x) \<longleftrightarrow> block_no (blocks st x) \<in> set (logged st)"
    "no \<in> set (logged st) \<Longrightarrow> \<exists>x\<in>set qs. block_no (blocks st x) = no"
    "x \<in> set qs \<Longrightarrow> unat (block_no (blocks st x)) < 2 ^ 32 \<and> length (data (blocks st x)) = BLOCK_SIZE \<and> (acquired (blocks st x) \<or> cv_clean st x)"
    "log_fits (sblock st) 0" "hnum_blocks (bytes_header (content (dev st) (log_start (sblock st)))) = 0"
    "unat (hnum_blocks (header st)) \<le> LOG_MAX_SIZE" "length (hblock_no (header st)) = LOG_MAX_SIZE" "distinct (logged st)"
  using assms unfolding log_ok_with_def cv_ok_with_def by blast+

lemma log_ok_frame:
  assumes ok: "log_ok_with c st qs ps" and same: "same_log st st'" and cv: "cv_ok_with c st' qs' ps'"
    and blk: "\<And>x. x \<in> set qs' \<Longrightarrow> ucast (block_no (blocks st' x)) \<notin> log_area (sblock st) \<and>
      (pinned (blocks st' x) \<longleftrightarrow> block_no (blocks st' x) \<in> set (logged st))"
    and all: "\<And>no. no \<in> set (logged st) \<Longrightarrow> \<exists>x\<in>set qs'. block_no (blocks st' x) = no"
  shows "log_ok_with c st' qs' ps'"
proof -
  have "logged st' = logged st" using same by (simp add: logged_def same_log_def)
  with ok same cv blk all show ?thesis unfolding log_ok_with_def by (auto simp: same_log_def)
qed

lemma log_ok_acquire:
  assumes ok: "log_ok c st" and no: "unat no < 2 ^ 32" "ucast no \<notin> log_area (sblock st)"
    and r: "cache_acquire cpu st no = Some (Inr (b, st'))"
  shows "log_ok c st'"
proof -
  obtain qs ps where w: "log_ok_with c st qs ps" using ok by (auto simp: log_ok_def)
  obtain qs' ps' where g: "cv_got c st qs no b st' qs' ps'" using cv_acquire_got [OF log_okD(1) [OF w] no(1) r] .
  note b = cv_gotD(6,9,14) [OF g] and other = cv_gotD(10) [OF g]
  have "cv_ok_with c st' qs' ps'" by (rule cv_got_ok_with [OF g])
  moreover have "ucast (block_no (blocks st' x)) \<notin> log_area (sblock st) \<and> (pinned (blocks st' x) \<longleftrightarrow> block_no (blocks st' x) \<in> set (logged st))"
    if x: "x \<in> set qs'" for x
  proof (cases "x = b")
    case True
    have "no \<notin> set (logged st)" if "b \<notin> set qs" using log_okD(5) [OF w, of no] cv_gotD(8) [OF g] that by blast
    then show ?thesis using True no(2) b log_okD(4) [OF w, of b] by (cases "b \<in> set qs") auto
  next
    case False
    then show ?thesis using other [OF x False] log_okD(3,4) [OF w, of x] by simp
  qed
  moreover have "\<exists>x\<in>set qs'. block_no (blocks st' x) = n" if n: "n \<in> set (logged st)" for n
  proof -
    obtain x where x: "x \<in> set qs" "block_no (blocks st x) = n" using log_okD(5) [OF w n] by blast
    then have "busy st x" using log_okD(4) [OF w x(1)] n by (simp add: busy_def)
    then have q: "x \<in> set qs'" using cv_gotD(11) [OF g x(1)] by blast
    show ?thesis by (rule bexI [OF _ q]) (use x other [OF q] b(1) b(2) in \<open>cases "x = b"; auto\<close>)
  qed
  ultimately have "log_ok_with c st' qs' ps'" by (rule log_ok_frame [OF w acquire_same_log [OF r]])
  then show ?thesis by (auto simp: log_ok_def)
qed

text \<open>Operations that change the flags or the data of one block, or no block at all.\<close>

lemma log_ok_same_blocks:
  assumes ok: "log_ok_with c st qs ps" and same: "same_log st st'" and cv: "cv_ok_with c st' qs ps"
    and blk: "\<And>x. block_no (blocks st' x) = block_no (blocks st x)" "\<And>x. pinned (blocks st' x) = pinned (blocks st x)"
  shows "log_ok_with c st' qs ps"
  by (rule log_ok_frame [OF ok same cv]) (use log_okD(3-5) [OF ok] blk in auto)

lemma log_ok_store:
  assumes w: "log_ok_with c st qs ps" and h: "cv_held st b = Some no" and i: "i < BLOCK_SIZE"
    and r: "block_store st b (data_offset + i) v = Inr st'"
  shows "log_ok_with c st' qs ps" "same_log st st'" "cv_view st' = (cv_view st)(no := (cv_view st no)[i := v])"
proof -
  note s = cv_store_with [OF log_okD(1) [OF w] h i, of v]
  have st': "st' = upd_block st b (\<lambda>x. x\<lparr>data := (data x)[i := v]\<rparr>)" using r s(1) by simp
  show same: "same_log st st'" by (simp add: st' same_log_def upd_block_def)
  show "log_ok_with c st' qs ps" by (rule log_ok_same_blocks [OF w same]) (use s(2) in \<open>simp_all add: st' upd_block_def\<close>)
  show "cv_view st' = (cv_view st)(no := (cv_view st no)[i := v])" unfolding st' by (rule s(4))
qed

lemma log_ok_release:
  assumes w: "log_ok_with c st qs ps" and h: "cv_held st b = Some no" and cl: "cv_clean st b" and r: "cache_release cpu st b = Inr st'"
  shows "log_ok_with c st' qs ps" "same_log st st'" "cv_view st' = cv_view st"
proof -
  have s: "cv_ok_with c st' qs ps" "cv_view st' = cv_view st"
    "st' = st\<lparr>blocks := (blocks st)(b := (blocks st b)\<lparr>acquired := False, block_lock := (block_lock (blocks st b))\<lparr>slocked := False\<rparr>\<rparr>),
      woken := woken st @ [b + 32]\<rparr>"
    using cv_release_with [OF log_okD(1) [OF w] h cl, of cpu] r by auto
  show same: "same_log st st'" by (subst s(3)) (simp add: same_log_def)
  show "log_ok_with c st' qs ps" by (rule log_ok_same_blocks [OF w same s(1)]) (subst s(3), simp)+
  show "cv_view st' = cv_view st" by (rule s(2))
qed

text \<open>Counters, wake-ups and the lock of the cache do not matter.\<close>

lemma cv_with_counters:
  assumes "cv_ok_with c st qs ps" "st' = st\<lparr>outstanding := n, end_pending := m, woken := x\<rparr>"
  shows "cv_ok_with c st' qs ps" "cv_view st' = cv_view st"
proof -
  have bok: "bc_ok c st qs ps" using assms(1) by (simp add: cv_ok_with_def)
  then have bok': "bc_ok c st' qs ps" by (simp add: assms(2) bc_ok_def bc_core_def head_outside_def)
  show "cv_ok_with c st' qs ps" using assms(1) bok' by (simp add: cv_ok_with_def cv_clean_def assms(2))
  have bl: "blocks st' = blocks st" "dev st' = dev st" by (simp_all add: assms(2))
  have "cv_find st' = cv_find st" unfolding fun_eq_iff cv_find_eq [OF bok] cv_find_eq [OF bok'] bl by simp
  then show "cv_view st' = cv_view st" by (simp add: fun_eq_iff cv_view_def bl)
qed

lemma log_ok_counters:
  assumes w: "log_ok_with c st qs ps" and e: "st' = st\<lparr>outstanding := n, end_pending := m, woken := x\<rparr>"
  shows "log_ok_with c st' qs ps" "same_log st st'" "cv_view st' = cv_view st"
proof -
  show same: "same_log st st'" by (simp add: e same_log_def)
  note cv = cv_with_counters [OF log_okD(1) [OF w] e]
  show "log_ok_with c st' qs ps" by (rule log_ok_same_blocks [OF w same cv(1)]) (simp_all add: e)
  show "cv_view st' = cv_view st" by (rule cv(2))
qed

lemma begin_op_effect:
  assumes "lock_free (clock st)" "cache_begin_op cpu st ctx = Inr (ctx', st')"
  shows "st' = st\<lparr>outstanding := outstanding st + 1, end_pending := end_pending st, woken := woken st\<rparr>"
proof -
  obtain l where "acquire_spinlock cpu (clock st) = Inr l" "release_spinlock cpu l = Inr (clock st)" using assms(1) by simp
  then show ?thesis using assms(2)
    by (auto simp: cache_begin_op_def lock_cache_def unlock_cache_def sleep_on_lock_def bind_res_def Let_def split: if_splits sum.splits)
qed

lemma end_op_deferred:
  assumes "lock_free (clock st)" "outstanding st \<noteq> 1" "cache_end_op cpu st ctx a = Some (Inr st')"
  shows "st' = st\<lparr>outstanding := outstanding st - 1, end_pending := end_pending st + ops_cnt ctx, woken := woken st @ [a]\<rparr>"
proof -
  obtain l where "acquire_spinlock cpu (clock st) = Inr l" "release_spinlock cpu l = Inr (clock st)" using assms(1) by simp
  then show ?thesis using assms(2,3)
    by (auto simp: cache_end_op_def lock_cache_def unlock_cache_def bind_run_def bind_res_def)
qed

text \<open>Logging a block: its number is in the header afterwards, once.\<close>

lemma header_find_spec:
  "header_find bn no i r = Inr j \<Longrightarrow> i \<le> j \<and> j \<le> i + r \<and> (j < i + r \<longrightarrow> bn ! j = no) \<and> (\<forall>k. i \<le> k \<and> k < j \<longrightarrow> bn ! k \<noteq> no)"
proof (induction r arbitrary: i)
  case (Suc r)
  show ?case
  proof (cases "length bn \<le> i \<or> bn ! i = no")
    case False
    then have "header_find bn no (Suc i) r = Inr j" using Suc.prems by auto
    from Suc.IH [OF this] False show ?thesis by (metis Suc_le_eq add_Suc_right add_Suc_shift le_SucI le_antisym not_less_eq_eq)
  qed (use Suc.prems in \<open>auto split: if_splits\<close>)
qed auto

lemma sync_header:
  assumes lf: "lock_free (clock st)" and n: "unat (hnum_blocks (header st)) \<le> LOG_MAX_SIZE" "length (hblock_no (header st)) = LOG_MAX_SIZE"
    and r: "cache_sync cpu st (Some ctx) b = Inr (ctx', st')"
  defines "no \<equiv> block_no (blocks st b)"
  shows "unat (hnum_blocks (header st')) \<le> LOG_MAX_SIZE" "length (hblock_no (header st')) = LOG_MAX_SIZE"
    "logged st' = (if no \<in> set (logged st) then logged st else logged st @ [no])"
proof -
  let ?n = "unat (hnum_blocks (header st))" and ?bn = "hblock_no (header st)"
  obtain l where l: "acquire_spinlock cpu (clock st) = Inr l" "release_spinlock cpu l = Inr (clock st)" using lf by simp
  obtain i where i: "header_find ?bn no 0 ?n = Inr i"
    using r l by (auto simp: cache_sync_def unsafe_cache_sync_def lock_cache_def bind_res_def Let_def no_def split: sum.splits)
  note f = header_find_spec [OF i]
  have mem: "no \<in> set (logged st) \<longleftrightarrow> i < ?n"
  proof
    assume "no \<in> set (logged st)"
    then obtain k where "k < ?n" "?bn ! k = no" by (auto simp: logged_def in_set_conv_nth)
    then show "i < ?n" using f by (metis le0 le_neq_implies_less add_0)
  next
    assume "i < ?n"
    then show "no \<in> set (logged st)" using f n by (auto simp: logged_def in_set_conv_nth intro!: exI [of _ i])
  qed
  have hd: "header st' = (if i = ?n then \<lparr>hnum_blocks = hnum_blocks (header st) + 1, hblock_no = ?bn[i := no]\<rparr> else header st)"
    and full: "i = ?n \<longrightarrow> i < LOG_MAX_SIZE"
    using r l i n by (auto simp: cache_sync_def unsafe_cache_sync_def lock_cache_def unlock_cache_def bind_res_def Let_def no_def [symmetric]
        upd_block_def split: sum.splits if_splits)
  have up: "unat (hnum_blocks (header st) + 1) = ?n + 1" using n(1) by (simp add: unat_word_ariths)
  show "unat (hnum_blocks (header st')) \<le> LOG_MAX_SIZE" using hd full n(1) up by (auto split: if_splits)
  show "length (hblock_no (header st')) = LOG_MAX_SIZE" using hd n(2) by simp
  show "logged st' = (if no \<in> set (logged st) then logged st else logged st @ [no])"
    using mem f full n by (auto simp: logged_def hd up take_Suc_conv_app_nth)
qed

lemma log_ok_sync:
  assumes w: "log_ok_with c st qs ps" and h: "cv_held st b = Some no" and r: "cache_sync cpu st (Some ctx) b = Inr (ctx', st')"
  shows "log_ok_with c st' qs ps" "sblock st' = sblock st" "dev st' = dev st" "cv_view st' = cv_view st"
proof -
  note hb = cv_heldD [OF log_okD(1) [OF w] h]
  have lf: "lock_free (clock st)" using log_okD(2) [OF w] by (simp add: bc_ok_def)
  have s: "cv_ok_with c st' qs ps" "cv_view st' = cv_view st" "st' = upd_block (st\<lparr>header := header st'\<rparr>) b (\<lambda>x. x\<lparr>pinned := True\<rparr>)"
    using cv_sync_with [OF log_okD(1) [OF w] h r] by auto
  note hd = sync_header [OF lf log_okD(9,10) [OF w] r, unfolded hb(3)]
  show sb: "sblock st' = sblock st" and dv: "dev st' = dev st" by (subst s(3), simp add: upd_block_def)+
  have num: "block_no (blocks st' x) = block_no (blocks st x)" and pin: "pinned (blocks st' x) \<longleftrightarrow> x = b \<or> pinned (blocks st x)" for x
    by (subst s(3), simp add: upd_block_def)+
  have lg: "set (logged st') = insert no (set (logged st))" "distinct (logged st')" using hd(3) log_okD(11) [OF w] by auto
  have one: "x = b" if "x \<in> set qs" "block_no (blocks st x) = no" for x
    using log_okD(2) [OF w] that hb(1,3) by (auto simp: bc_ok_def bc_core_def distinct_map inj_on_def)
  show "log_ok_with c st' qs ps"
    unfolding log_ok_with_def sb dv
  proof (intro conjI ballI subsetI)
    fix x assume x: "x \<in> set qs"
    show "ucast (block_no (blocks st' x)) \<notin> log_area (sblock st)" unfolding num by (rule log_okD(3) [OF w x])
    show "pinned (blocks st' x) \<longleftrightarrow> block_no (blocks st' x) \<in> set (logged st')"
      unfolding num pin lg(1) using log_okD(4) [OF w x] one [OF x] hb(3) by auto
  next
    fix n assume "n \<in> set (logged st')"
    then obtain x where "x \<in> set qs" "block_no (blocks st x) = n" using lg(1) log_okD(5) [OF w, of n] hb(1,3) by (cases "n = no") auto
    then show "n \<in> (\<lambda>x. block_no (blocks st' x)) ` set qs" unfolding num by (intro image_eqI [of _ _ x]) simp_all
  qed (use s(1) hd(1,2) lg(2) log_okD(7,8) [OF w] in simp_all)
  show "cv_view st' = cv_view st" by (rule s(2))
qed

lemma log_ok_through:
  assumes w: "log_ok_with c st qs ps" and h: "cv_held st b = Some no" and r: "cache_sync cpu st None b = Inr (ctx', st')"
  shows "log_ok_with c st' qs ps" "st' = st\<lparr>dev := device_write (dev st) no (cv_view st no)\<rparr>" "cv_view st' = cv_view st"
    "ucast no \<notin> log_area (sblock st)" "length (cv_view st no) = BLOCK_SIZE"
proof -
  note hb = cv_heldD [OF log_okD(1) [OF w] h]
  have s: "cv_ok_with c st' qs ps" "cv_view st' = cv_view st" "st' = st\<lparr>dev := device_write (dev st) no (data (blocks st b))\<rparr>"
    using cv_sync_with [OF log_okD(1) [OF w] h r] by auto
  show st': "st' = st\<lparr>dev := device_write (dev st) no (cv_view st no)\<rparr>" using s(3) hb(6) by simp
  show out: "ucast no \<notin> log_area (sblock st)" using log_okD(3) [OF w hb(1)] hb(3) by simp
  show "length (cv_view st no) = BLOCK_SIZE" using hb(5,6) by simp
  have "ucast no \<noteq> log_start (sblock st)" using out log_start_area [OF log_okD(7) [OF w]] by auto
  then have "content (dev st') (log_start (sblock st)) = content (dev st) (log_start (sblock st))" by (simp add: st' device_write_def)
  moreover have "sblock st' = sblock st" "header st' = header st" "blocks st' = blocks st" "logged st' = logged st" by (simp_all add: st' logged_def)
  ultimately show "log_ok_with c st' qs ps" using w s(1) by (simp add: log_ok_with_def)
  show "cv_view st' = cv_view st" by (rule s(2))
qed

subsection \<open>Commit\<close>

lemma ucast_u32_u64 [simp]: "ucast (ucast (no :: u32) :: u64) = no"
  by (rule bit_word_eqI) (simp add: bit_simps)

lemma small_u64: "unat (n :: u64) < 2 ^ 32 \<Longrightarrow> ucast (ucast n :: u32) = n"
  by (simp add: word_unat_eq_iff unat_ucast_u64 unat_ucast_u32)

lemma log_commit_ready:
  assumes w: "log_ok_with c st qs ps" and fits: "log_fits (sblock st) (unat (hnum_blocks (header st)))"
  shows "commit_ready st qs"
proof -
  let ?n = "unat (hnum_blocks (header st))" and ?bn = "hblock_no (header st)"
  have lg: "logged st = map ((!) ?bn) [0..<?n]" using log_okD(9,10) [OF w] by (simp add: logged_def list_eq_iff_nth_eq)
  have q: "queue_ok st qs" using bc_queue_ok log_okD(2) [OF w] by (auto simp: bc_ok_def)
  have ent: "(\<exists>bs. cached_data st qs no = Some bs \<and> length bs = BLOCK_SIZE) \<and> ucast no \<notin> log_area (sblock st) \<and> unat no < 2 ^ 32"
    if no: "no \<in> set (logged st)" for no
  proof -
    obtain x where x: "x \<in> set qs" "block_no (blocks st x) = no" using log_okD(5) [OF w no] by blast
    then have "find (\<lambda>b. block_no (blocks st b) = no) qs \<noteq> None" unfolding find_None_set by blast
    then obtain y where y: "find (\<lambda>b. block_no (blocks st b) = no) qs = Some y" by blast
    note yq = find_in_set [OF y]
    show ?thesis using log_okD(3) [OF w, of y] log_okD(6) [OF w, of y] yq y by (simp add: cached_data_def)
  qed
  have "inj_on (\<lambda>n. ucast n :: u32) (set (logged st))"
    by (rule inj_onI) (use ent small_u64 in metis)
  then have "distinct (map (\<lambda>n. ucast n :: u32) (logged st))" using log_okD(11) [OF w] by (simp add: distinct_map)
  then have "distinct (map (\<lambda>i. ucast (?bn ! i) :: u32) [0..<?n])" unfolding lg by (simp add: comp_def)
  moreover have "?bn ! i \<in> set (logged st)" if "i < ?n" for i using that unfolding lg by simp
  ultimately show ?thesis unfolding commit_ready_def Let_def using q fits log_okD(8-10) [OF w] ent by simp
qed

lemma install_view:
  assumes w: "log_ok_with c st qs ps" and cl: "\<forall>b. cv_held st b \<noteq> None \<longrightarrow> cv_clean st b" and no: "no \<notin> log_area (sblock st)"
  shows "replay (install_list st qs) (content (dev st)) no = cv_view st (ucast no)"
proof -
  let ?no = "ucast no :: u64"
  have small: "unat ?no < 2 ^ 32" using unsigned_less [of no] by (simp add: unat_ucast_u64)
  note bok = log_okD(2) [OF w]
  have il: "install_list st qs = map (\<lambda>n. (ucast n, the (cached_data st qs n))) (logged st)" by (simp add: install_list_def logged_def)
  have num: "unat n < 2 ^ 32" if "n \<in> set (logged st)" for n using log_okD(5,6) [OF w] that by blast
  have inj: "inj_on (\<lambda>n. ucast n :: u32) (set (logged st))" by (rule inj_onI) (use num small_u64 in metis)
  show ?thesis
  proof (cases "?no \<in> set (logged st)")
    case True
    obtain x where x: "x \<in> set qs" "block_no (blocks st x) = ?no" using log_okD(5) [OF w True] by blast
    then have "find (\<lambda>b. block_no (blocks st b) = ?no) qs \<noteq> None" unfolding find_None_set by blast
    then obtain y where y: "find (\<lambda>b. block_no (blocks st b) = ?no) qs = Some y" by blast
    note yq = find_in_set [OF y]
    have "(no, the (cached_data st qs ?no)) \<in> set (install_list st qs)" unfolding il using True by (force intro!: image_eqI [of _ _ ?no])
    moreover have "distinct (map fst (install_list st qs))" using log_okD(11) [OF w] inj by (simp add: il distinct_map comp_def)
    ultimately have "replay (install_list st qs) (content (dev st)) no = the (cached_data st qs ?no)" by (rule replay_hit)
    then show ?thesis using y yq cv_view_cached [OF bok, of y] small by (simp add: cached_data_def)
  next
    case False
    then have "no \<notin> fst ` set (install_list st qs)" unfolding il using num small_u64 by force
    then have r: "replay (install_list st qs) (content (dev st)) no = content (dev st) no" by (rule replay_other)
    show ?thesis
    proof (cases "\<exists>x\<in>set qs. block_no (blocks st x) = ?no")
      case True
      then obtain x where x: "x \<in> set qs" "block_no (blocks st x) = ?no" by blast
      have "cv_clean st x" using log_okD(6) [OF w x(1)] cl by (auto simp: cv_held_eq [OF bok] x(1))
      then have "data (blocks st x) = content (dev st) no" using log_okD(4) [OF w x(1)] x(2) False by (simp add: cv_clean_def device_read_def)
      then show ?thesis using r cv_view_cached [OF bok x(1)] x(2) small by simp
    next
      case False
      then show ?thesis using r cv_view_disk [OF bok _ small] by (simp add: device_read_def)
    qed
  qed
qed

text \<open>The state after a commit: only the pins, the header and the disk have changed.\<close>

lemma replay_length:
  "(\<forall>w\<in>set ws. length (snd w) = n) \<Longrightarrow> (\<forall>no. length (c no) = n) \<Longrightarrow> length (replay ws c no) = n"
  by (induction ws arbitrary: c) auto

lemma commit_disk:
  assumes ready: "commit_ready st qs" and len: "\<forall>no. length (content (dev st) no) = BLOCK_SIZE" and r: "commit cpu st = Some (Inr st')"
  shows "\<forall>no. length (content (dev st') no) = BLOCK_SIZE"
    "hnum_blocks (bytes_header (content (dev st') (log_start (sblock st)))) = 0"
    "\<forall>no. no \<notin> log_area (sblock st) \<longrightarrow> content (dev st') no = replay (install_list st qs) (content (dev st)) no"
proof -
  let ?sb = "sblock st" and ?h = "header st" and ?n = "unat (hnum_blocks (header st))"
  let ?D = "\<lambda>i. the (cached_data st qs (hblock_no (header st) ! i))"
  let ?ws = "log_writes ?sb ?D ?n @ [(log_start ?sb, header_bytes ?h)] @ home_writes ?h ?D ?n @ [(log_start ?sb, header_bytes (?h\<lparr>hnum_blocks := 0\<rparr>))]"
  have fits: "log_fits ?sb ?n" and n: "?n \<le> LOG_MAX_SIZE" and hl: "length (hblock_no ?h) = LOG_MAX_SIZE" and D: "\<forall>k<?n. length (?D k) = BLOCK_SIZE"
    using ready unfolding commit_ready_def Let_def by force+
  have c: "content (dev st') = replay ?ws (content (dev st))" using commit_trace [OF ready, of cpu] r by auto
  have "\<forall>w\<in>set ?ws. length (snd w) = BLOCK_SIZE"
    using D length_header_bytes [OF hl] length_header_bytes [of "?h\<lparr>hnum_blocks := 0\<rparr>"] hl by auto
  then show "\<forall>no. length (content (dev st') no) = BLOCK_SIZE" unfolding c using replay_length len by blast
  have c': "content (dev st') = (replay (home_writes ?h ?D ?n) ((replay (log_writes ?sb ?D ?n) (content (dev st)))(log_start ?sb := header_bytes ?h)))
      (log_start ?sb := header_bytes (?h\<lparr>hnum_blocks := 0\<rparr>))" by (simp add: c replay_append)
  show "hnum_blocks (bytes_header (content (dev st') (log_start ?sb))) = 0"
    using bytes_header_bytes [of "?h\<lparr>hnum_blocks := 0\<rparr>"] hl by (simp add: c')
  have il: "install_list st qs = home_writes ?h ?D ?n" by (rule install_list_alt) (use n hl in auto)
  show "\<forall>no. no \<notin> log_area ?sb \<longrightarrow> content (dev st') no = replay (install_list st qs) (content (dev st)) no"
  proof (intro allI impI)
    fix no assume no: "no \<notin> log_area ?sb"
    then have "no \<noteq> log_start ?sb" using log_start_area [OF fits] by auto
    moreover have "replay (home_writes ?h ?D ?n) ((replay (log_writes ?sb ?D ?n) (content (dev st)))(log_start ?sb := header_bytes ?h)) no =
        replay (home_writes ?h ?D ?n) (content (dev st)) no"
      by (rule replay_cong_on [OF header_on_disk [OF fits] no])
    ultimately show "content (dev st') no = replay (install_list st qs) (content (dev st)) no" by (simp add: c' il)
  qed
qed

lemma log_ok_commit:
  assumes w: "log_ok_with c st qs ps" and cl: "\<forall>b. cv_held st b \<noteq> None \<longrightarrow> cv_clean st b"
    and fits: "log_fits (sblock st) (unat (hnum_blocks (header st)))" and r: "commit cpu st = Some (Inr st')"
  shows "log_ok_with c st' qs ps" "sblock st' = sblock st" "\<forall>no. no \<notin> log_area (sblock st) \<longrightarrow> content (dev st') no = cv_view st (ucast no)"
    "\<forall>no. no \<notin> log_area (sblock st) \<longrightarrow> cv_view st' (ucast no) = cv_view st (ucast no)"
    "clock st' = clock st" "outstanding st' = outstanding st" "woken st' = woken st"
proof -
  have ready: "commit_ready st qs" by (rule log_commit_ready [OF w fits])
  note bok = log_okD(2) [OF w]
  from commit_atomic [OF ready, of cpu] r have
    eq: "st' = st\<lparr>dev := dev st', blocks := blocks st', header := (header st)\<lparr>hnum_blocks := 0\<rparr>\<rparr>" and
    pin: "\<forall>b. \<exists>p. blocks st' b = (blocks st b)\<lparr>pinned := p\<rparr>" and
    unp: "\<forall>b. pinned (blocks st' b) \<longrightarrow> pinned (blocks st b) \<and>
      (\<forall>k<unat (hnum_blocks (header st)). find (\<lambda>b. block_no (blocks st b) = hblock_no (header st) ! k) qs \<noteq> Some b)"
    by (metis option.inject sum.inject(2))+
  have same: "block_no (blocks st' x) = block_no (blocks st x)" "data (blocks st' x) = data (blocks st x)" "acquired (blocks st' x) = acquired (blocks st x)"
    "block_ok (blocks st' x) = block_ok (blocks st x)" for x
    using pin [rule_format, of x] by (auto simp: block_ok_def)
  show sb: "sblock st' = sblock st" and "clock st' = clock st" "outstanding st' = outstanding st" "woken st' = woken st" by (subst eq, simp)+
  have len: "\<forall>no. length (content (dev st) no) = BLOCK_SIZE" using log_okD(1) [OF w] by (simp add: cv_ok_with_def)
  note disk = commit_disk [OF ready len r]
  show new: "\<forall>no. no \<notin> log_area (sblock st) \<longrightarrow> content (dev st') no = cv_view st (ucast no)"
    using disk(3) install_view [OF w cl] by simp
  have frame: "barena st' = barena st" "arena_addr st' = arena_addr st" "bnodes st' = bnodes st" "qhead st' = qhead st"
    "cached_num st' = cached_num st" "qlock st' = qlock st" "clock st' = clock st" "header st' = (header st)\<lparr>hnum_blocks := 0\<rparr>" by (subst eq, simp)+
  have bok': "bc_ok c st' qs ps" using bok unfolding bc_ok_def bc_core_def head_outside_def frame same .
  have nopin: "\<not> pinned (blocks st' x)" if x: "x \<in> set qs" for x
  proof
    assume p: "pinned (blocks st' x)"
    then have "block_no (blocks st x) \<in> set (logged st)" using unp log_okD(4) [OF w x] by blast
    then obtain k where k: "k < unat (hnum_blocks (header st))" "hblock_no (header st) ! k = block_no (blocks st x)"
      by (auto simp: logged_def in_set_conv_nth)
    have "find (\<lambda>b. block_no (blocks st b) = hblock_no (header st) ! k) qs = Some x"
    proof (cases "find (\<lambda>b. block_no (blocks st b) = hblock_no (header st) ! k) qs")
      case None
      then show ?thesis using x k(2) by (auto simp: find_None_set)
    next
      case (Some y)
      then have "y = x" using find_in_set [OF Some] bok x k(2) by (auto simp: bc_ok_def bc_core_def distinct_map inj_on_def)
      with Some show ?thesis by simp
    qed
    with unp p k(1) show False by blast
  qed
  have clean: "cv_clean st' x" if x: "x \<in> set qs" for x
  proof -
    have "content (dev st') (ucast (block_no (blocks st x))) = cv_view st (block_no (blocks st x))"
      using new log_okD(3) [OF w x] log_okD(6) [OF w x] small_u64 by metis
    then show ?thesis using cv_view_cached [OF bok x] log_okD(6) [OF w x] by (simp add: cv_clean_def same device_read_def)
  qed
  have cv: "cv_ok_with c st' qs ps" unfolding cv_ok_with_def same using bok' log_okD(6) [OF w] clean disk(1) by simp
  have "logged st' = []" by (simp add: logged_def frame)
  then show "log_ok_with c st' qs ps"
    unfolding log_ok_with_def same sb using cv disk(2) log_okD(3,7,10) [OF w] nopin by (simp add: frame)
  show "\<forall>no. no \<notin> log_area (sblock st) \<longrightarrow> cv_view st' (ucast no) = cv_view st (ucast no)"
  proof (intro allI impI)
    fix no assume no: "no \<notin> log_area (sblock st)"
    have fnd: "cv_find st' = cv_find st" unfolding fun_eq_iff cv_find_eq [OF bok] cv_find_eq [OF bok'] same by simp
    show "cv_view st' (ucast no) = cv_view st (ucast no)"
      using new no unsigned_less [of no, where ?'a = nat] by (simp add: cv_view_def fnd same device_read_def unat_ucast_u64)
  qed
qed

text \<open>\<open>commit\<close> runs under the lock of the cache and does not look at it.\<close>

lemma get_cache_clock: "get_cache cpu (st\<lparr>clock := l\<rparr>) no = map_option (map_sum id (map_prod id (\<lambda>s. s\<lparr>clock := l\<rparr>))) (get_cache cpu st no)"
  by (auto simp: get_cache_def bind_run_def bind_res_def split: option.split sum.split)

lemma commit_loop_clock:
  "commit_loop cpu a i r (st\<lparr>clock := l\<rparr>) = map_option (map_sum id (\<lambda>s. s\<lparr>clock := l\<rparr>)) (commit_loop cpu a i r st)"
proof (induction r arbitrary: i st)
  case (Suc r)
  show ?case
  proof (cases "get_cache cpu st (hblock_no (header st) ! i)")
    case (Some x)
    show ?thesis
    proof (cases x)
      case (Inr y)
      obtain b s where y: "y = (b, s)" by force
      let ?s = "upd_block (s\<lparr>dev := device_write (dev s) (a + 1 + of_nat i) (data (blocks s b))\<rparr>) b (\<lambda>b. b\<lparr>pinned := False\<rparr>)"
      have "upd_block (s\<lparr>clock := l, dev := device_write (dev s) (a + 1 + of_nat i) (data (blocks s b))\<rparr>) b (\<lambda>b. b\<lparr>pinned := False\<rparr>) = ?s\<lparr>clock := l\<rparr>"
        by (simp add: upd_block_def)
      then show ?thesis using Some Inr y Suc [of "Suc i" ?s] by (simp add: get_cache_clock Let_def)
    qed (simp add: Some get_cache_clock)
  qed (simp add: get_cache_clock)
qed simp

lemma commit_clock: "commit cpu (st\<lparr>clock := l\<rparr>) = map_option (map_sum id (\<lambda>s. s\<lparr>clock := l\<rparr>)) (commit cpu st)"
proof -
  have rec: "unsafe_crash_recover cpu (write_header (s\<lparr>clock := l\<rparr>)) False =
      map_sum id (\<lambda>s. s\<lparr>clock := l\<rparr>) (unsafe_crash_recover cpu (write_header s) False)" for s
    by (auto simp: unsafe_crash_recover_def lock_cache_def unlock_cache_def read_header_def write_header_def Let_def bind_res_def split: sum.split)
  show ?thesis
    by (auto simp: commit_def commit_loop_clock rec bind_run_def split: option.split sum.split)
qed

text \<open>The end of the last operation is a commit.\<close>

lemma end_op_last:
  assumes w: "log_ok_with c st qs ps" and o: "outstanding st = 1" and cl: "\<forall>b. cv_held st b \<noteq> None \<longrightarrow> cv_clean st b"
    and fits: "log_fits (sblock st) (unat (hnum_blocks (header st)))"
  shows "\<exists>st1. commit cpu st = Some (Inr st1) \<and>
    cache_end_op cpu st ctx a = Some (Inr (st1\<lparr>outstanding := 0, end_pending := 0, woken := woken st1 @ [a]\<rparr>))"
proof -
  obtain st1 where r: "commit cpu st = Some (Inr st1)" using commit_atomic [OF log_commit_ready [OF w fits], of cpu] by blast
  have lf: "lock_free (clock st)" using log_okD(2) [OF w] by (simp add: bc_ok_def)
  then obtain l where l: "acquire_spinlock cpu (clock st) = Inr l" "release_spinlock cpu l = Inr (clock st)" by simp
  have "st1\<lparr>clock := clock st, outstanding := 0\<rparr> = st1\<lparr>outstanding := 0\<rparr>" "outstanding st1 = 1"
    using log_ok_commit(5,6) [OF w cl fits r] o by (simp_all flip: log_ok_commit(5) [OF w cl fits r])
  then show ?thesis using l o r log_ok_commit(5) [OF w cl fits r, symmetric]
    by (simp add: cache_end_op_def lock_cache_def unlock_cache_def commit_clock)
qed

subsection \<open>The refinement\<close>

text \<open>The writes of a step from \<open>st\<close> to \<open>st'\<close>: a crash after any number of them, and recovery by any CPU on any memory, leave one of
  the two disks.\<close>

definition survives :: "nat \<Rightarrow> bcache \<Rightarrow> bcache \<Rightarrow> bool" where
  "survives cpu st st' \<longleftrightarrow>
    (\<exists>ws. history (dev st') = history (dev st) @ ws \<and> content (dev st') = replay ws (content (dev st)) \<and>
      (\<forall>k s. sblock s = sblock st \<and> lock_free (clock s) \<and> content (dev s) = replay (take k ws) (content (dev st)) \<longrightarrow>
        (\<exists>s'. unsafe_crash_recover cpu s True = Inr s' \<and> (disk_of s' = disk_of st \<or> disk_of s' = disk_of st'))))"

lemma recover_sblock: "unsafe_crash_recover cpu s x = Inr s' \<Longrightarrow> sblock s' = sblock s"
  by (auto simp: unsafe_crash_recover_def lock_cache_def unlock_cache_def read_header_def write_header_def Let_def bind_res_def
      split: sum.splits if_splits)

lemma recover_nothing:
  assumes w: "log_ok_with c st qs ps" and s: "sblock s = sblock st" "lock_free (clock s)" "content (dev s) = content (dev st)"
  shows "\<exists>s'. unsafe_crash_recover cpu s True = Inr s' \<and> disk_of s' = disk_of st"
proof -
  have "hnum_blocks (bytes_header (content (dev s) (log_start (sblock st)))) = 0" using log_okD(8) [OF w] s(3) by simp
  from recover_empty_header [OF log_okD(7) [OF w] s(1,2) this, of cpu] obtain s' where
    s': "unsafe_crash_recover cpu s True = Inr s'" "\<forall>no. no \<notin> log_area (sblock st) \<longrightarrow> content (dev s') no = content (dev s) no" by blast
  have "disk_of s' = disk_of st" using s' s recover_sblock [OF s'(1)] by (simp add: disk_of_def fun_eq_iff)
  with s' show ?thesis by blast
qed

lemma quiet_refines:
  assumes w: "log_ok_with c st qs ps" and ok: "log_ok_with c st' qs' ps'" and same: "sblock st' = sblock st" "dev st' = dev st" "cv_view st' = cv_view st"
  shows "log_ok c st' \<and> dstep (ldisk_of st) Quiet (ldisk_of st') \<and> survives cpu st st'"
proof -
  have "ldisk_of st' = ldisk_of st" using same by (simp add: ldisk_of_def disk_of_def fun_eq_iff)
  moreover have "survives cpu st st'"
    unfolding survives_def using same recover_nothing [OF w, of _ cpu] by (intro exI [of _ "[]"]) auto
  ultimately show ?thesis using ok dstep.quiet by (auto simp: log_ok_def)
qed

lemma store_refines:
  assumes w: "log_ok_with c st qs ps" and h: "cv_held st b = Some no" and i: "i < BLOCK_SIZE" and r: "block_store st b (data_offset + i) v = Inr st'"
  shows "log_ok c st' \<and> dstep (ldisk_of st) (Store (ucast no) i v) (ldisk_of st') \<and> survives cpu st st'"
proof -
  note s = log_ok_store [OF w h i r] and hb = cv_heldD [OF log_okD(1) [OF w] h]
  have out: "ucast no \<notin> log_area (sblock st)" using log_okD(3) [OF w hb(1)] hb(3) by simp
  have eq: "ucast n = no \<longleftrightarrow> n = ucast no" for n :: u32 using small_u64 [OF hb(4)] by auto
  have "ldisk_of st' = (ldisk_of st)\<lparr>current := (current (ldisk_of st))(ucast no := (current (ldisk_of st) (ucast no))[i := v])\<rparr>"
    using s(2,3) out eq small_u64 [OF hb(4), symmetric] by (auto simp: ldisk_of_def disk_of_def same_log_def fun_eq_iff)
  then have "dstep (ldisk_of st) (Store (ucast no) i v) (ldisk_of st')" using dstep.store by metis
  moreover have "survives cpu st st'"
    unfolding survives_def using s(2) recover_nothing [OF w, of _ cpu] by (intro exI [of _ "[]"]) (auto simp: same_log_def)
  ultimately show ?thesis using s(1) by (auto simp: log_ok_def)
qed

lemma through_refines:
  assumes w: "log_ok_with c st qs ps" and h: "cv_held st b = Some no" and r: "cache_sync cpu st None b = Inr (ctx', st')"
  shows "log_ok c st' \<and> dstep (ldisk_of st) (Through (ucast no)) (ldisk_of st') \<and> survives cpu' st st'"
proof -
  note s = log_ok_through [OF w h r] and hb = cv_heldD [OF log_okD(1) [OF w] h]
  let ?d = "cv_view st no"
  have dv: "content (dev st') = (content (dev st))(ucast no := ?d)" "history (dev st') = history (dev st) @ [(ucast no, ?d)]" "sblock st' = sblock st"
    using s(5) by (simp_all add: s(2) device_write_def)
  have "ldisk_of st' = (ldisk_of st)\<lparr>durable := (durable (ldisk_of st))(ucast no := current (ldisk_of st) (ucast no))\<rparr>"
    using s(3,4) small_u64 [OF hb(4)] by (auto simp: ldisk_of_def disk_of_def fun_eq_iff dv)
  then have "dstep (ldisk_of st) (Through (ucast no)) (ldisk_of st')" using dstep.through by metis
  moreover have "survives cpu' st st'"
    unfolding survives_def
  proof (intro exI [of _ "[(ucast no, ?d)]"] conjI allI impI)
    fix k and s :: bcache assume *: "sblock s = sblock st \<and> lock_free (clock s) \<and> content (dev s) = replay (take k [(ucast no, ?d)]) (content (dev st))"
    show "\<exists>s'. unsafe_crash_recover cpu' s True = Inr s' \<and> (disk_of s' = disk_of st \<or> disk_of s' = disk_of st')"
    proof (cases k)
      case 0
      then show ?thesis using recover_nothing [OF w, of s cpu'] * by auto
    next
      case (Suc j)
      then show ?thesis using recover_nothing [OF s(1), of s cpu'] * dv by auto
    qed
  qed (use dv in simp_all)
  ultimately show ?thesis using s(1) by (auto simp: log_ok_def)
qed

lemma commit_refines:
  assumes w: "log_ok_with c st qs ps" and o: "outstanding st = 1" and cl: "\<forall>b. cv_held st b \<noteq> None \<longrightarrow> cv_clean st b"
    and fits: "log_fits (sblock st) (unat (hnum_blocks (header st)))" and r: "cache_end_op cpu st ctx a = Some (Inr st')"
  shows "log_ok c st' \<and> dstep (ldisk_of st) Commit (ldisk_of st') \<and> survives cpu' st st'"
proof -
  obtain st1 where c1: "commit cpu st = Some (Inr st1)" "st' = st1\<lparr>outstanding := 0, end_pending := 0, woken := woken st1 @ [a]\<rparr>"
    using end_op_last [OF w o cl fits, of cpu ctx a] r by auto
  note cm = log_ok_commit [OF w cl fits c1(1)] and ct = log_ok_counters [OF log_ok_commit(1) [OF w cl fits c1(1)] c1(2)]
  have new: "disk_of st' = current (ldisk_of st)" using ct(2) cm(2,3) by (simp add: disk_of_def ldisk_of_def same_log_def fun_eq_iff)
  have "ldisk_of st' = (ldisk_of st)\<lparr>durable := current (ldisk_of st)\<rparr>"
    unfolding ldisk_of_def [of st'] new using ct(2,3) cm(2,4) by (simp add: ldisk_of_def same_log_def fun_eq_iff)
  then have "dstep (ldisk_of st) Commit (ldisk_of st')" using dstep.commit by metis
  moreover have "survives cpu' st st'"
  proof -
    obtain ws where ws: "history (dev st1) = history (dev st) @ ws" "content (dev st1) = replay ws (content (dev st))"
      and rec: "\<And>k s. sblock s = sblock st \<Longrightarrow> lock_free (clock s) \<Longrightarrow> content (dev s) = replay (take k ws) (content (dev st)) \<Longrightarrow>
       (\<exists>s'. unsafe_crash_recover cpu' s True = Inr s' \<and>
         (\<forall>no. no \<notin> log_area (sblock st) \<longrightarrow> content (dev s') no =
            (if k \<le> unat (hnum_blocks (header st)) then content (dev st) no
             else replay (install_list st qs) (content (dev st)) no)))"
      using commit_atomic [OF log_commit_ready [OF w fits], of cpu cpu'] c1(1) by auto
    have "\<exists>s'. unsafe_crash_recover cpu' s True = Inr s' \<and> (disk_of s' = disk_of st \<or> disk_of s' = disk_of st')"
      if s: "sblock s = sblock st" "lock_free (clock s)" "content (dev s) = replay (take k ws) (content (dev st))" for k s
    proof -
      obtain s' where s': "unsafe_crash_recover cpu' s True = Inr s'" "\<forall>no. no \<notin> log_area (sblock st) \<longrightarrow> content (dev s') no =
          (if k \<le> unat (hnum_blocks (header st)) then content (dev st) no else cv_view st (ucast no))"
        using rec [OF s] install_view [OF w cl] by auto
      have sb: "sblock s' = sblock st" using recover_sblock [OF s'(1)] s(1) by simp
      have "disk_of s' = disk_of st \<or> disk_of s' = current (ldisk_of st)"
        using s'(2) sb by (cases "k \<le> unat (hnum_blocks (header st))") (simp_all add: disk_of_def ldisk_of_def fun_eq_iff)
      with s'(1) new show ?thesis by auto
    qed
    with ws show ?thesis unfolding survives_def using ct(2) by (intro exI [of _ ws]) (simp add: same_log_def)
  qed
  ultimately show ?thesis using ct(1) by (auto simp: log_ok_def)
qed

text \<open>C1: every operation of the block cache that follows the protocol is a step of the disk pair: acquiring, releasing, logging
  a block and beginning an operation change neither disk, a store changes the current one, a direct synchronisation copies
  one block, and the end of the last operation makes the current disk the durable one. The invariant of cache and log is
  kept, and a crash after any of the writes of the operation followed by recovery yields the durable disk from before
  or from after it.\<close>

theorem log_refines:
  assumes "log_ok c st" and "cache_step cpu st e st'"
  shows "log_ok c st' \<and> dstep (ldisk_of st) e (ldisk_of st') \<and> survives cpu' st st'"
proof -
  obtain qs ps where w: "log_ok_with c st qs ps" using assms(1) by (auto simp: log_ok_def)
  have lf: "lock_free (clock st)" using log_okD(2) [OF w] by (simp add: bc_ok_def)
  have cv: "cv_ok c st" using log_okD(1) [OF w] by (auto simp: cv_ok_def)
  note quiet = quiet_refines [OF w, of st' _ _ cpu']
  from assms(2) show ?thesis
  proof cases
    case (begin_op ctx ctx')
    note s = log_ok_counters [OF w begin_op_effect [OF lf begin_op(2)]]
    then show ?thesis using quiet [OF s(1)] begin_op(1) by (simp add: same_log_def)
  next
    case (acquire no b)
    obtain qs' ps' where "log_ok_with c st' qs' ps'" using log_ok_acquire [OF assms(1) acquire(2-4)] by (auto simp: log_ok_def)
    then show ?thesis using quiet acquire_same_log [OF acquire(4)] cv_acquire [OF cv acquire(2,4)] acquire(1) by (simp add: same_log_def)
  next
    case (store b no i v)
    then show ?thesis using store_refines [OF w] by blast
  next
    case (sync b no ctx ctx')
    note s = log_ok_sync [OF w sync(2,3)]
    then show ?thesis using quiet [OF s(1)] sync(1) by simp
  next
    case (through b no ctx')
    then show ?thesis using through_refines [OF w] by blast
  next
    case (release b no)
    note s = log_ok_release [OF w release(2-4)]
    then show ?thesis using quiet [OF s(1)] release(1) by (simp add: same_log_def)
  next
    case (end_op ctx a)
    note s = log_ok_counters [OF w end_op_deferred [OF lf end_op(2,3)]]
    then show ?thesis using quiet [OF s(1)] end_op(1) by (simp add: same_log_def)
  next
    case (end_last ctx a)
    then show ?thesis using commit_refines [OF w] by blast
  qed
qed

text \<open>C13: when the last outstanding operation ends with all its blocks synchronised and the log has room for them,
  \<open>cache_end_op\<close> returns, the disk holds for every block outside the log what the callers saw before the call, and they see
  the same afterwards.\<close>

theorem end_op_durable:
  assumes "log_ok c st" and "outstanding st = 1" and "\<forall>b. cv_held st b \<noteq> None \<longrightarrow> cv_clean st b"
    and "log_fits (sblock st) (unat (hnum_blocks (header st)))"
  shows "\<exists>st'. cache_end_op cpu st ctx a = Some (Inr st') \<and> log_ok c st' \<and> outstanding st' = 0 \<and> hnum_blocks (header st') = 0 \<and>
    (\<forall>no. no \<notin> log_area (sblock st) \<longrightarrow> content (dev st') no = cv_view st (ucast no) \<and> cv_view st' (ucast no) = cv_view st (ucast no))"
proof -
  obtain qs ps where w: "log_ok_with c st qs ps" using assms(1) by (auto simp: log_ok_def)
  obtain st1 where r: "commit cpu st = Some (Inr st1)"
      "cache_end_op cpu st ctx a = Some (Inr (st1\<lparr>outstanding := 0, end_pending := 0, woken := woken st1 @ [a]\<rparr>))"
    using end_op_last [OF w assms(2-4), of cpu ctx a] by blast
  note cm = log_ok_commit [OF w assms(3,4) r(1)] and ct = log_ok_counters [OF log_ok_commit(1) [OF w assms(3,4) r(1)] refl]
  have "header st1 = (header st)\<lparr>hnum_blocks := 0\<rparr>"
    using commit_atomic [OF log_commit_ready [OF w assms(4)], of cpu cpu] r(1) by (metis option.inject sum.inject(2))
  then have "hnum_blocks (header st1) = 0" by simp
  moreover have "log_ok c (st1\<lparr>outstanding := 0, end_pending := 0, woken := woken st1 @ [a]\<rparr>)" unfolding log_ok_def using ct(1) by blast
  ultimately show ?thesis using r(2) cm(3,4) ct(3) by (intro exI [of _ "st1\<lparr>outstanding := 0, end_pending := 0, woken := woken st1 @ [a]\<rparr>"]) simp
qed


text \<open>A cache as the initialisation leaves it, with a log of twenty blocks and one operation begun. The operation changes the first byte of block 30.\<close>

definition log_example :: bcache where
  "log_example = empty_cache\<lparr>sblock := (sblock empty_cache)\<lparr>num_log_blocks := 20\<rparr>, outstanding := 1\<rparr>"

lemma log_example_core: "bc_ok 0 log_example [] []"
  using empty_cache_ok by (simp add: log_example_def bc_ok_def bc_core_def head_outside_def)

lemma log_example_ok: "log_ok 0 log_example"
proof -
  note log_example_core
  moreover have "hnum_blocks (bytes_header (replicate 512 0)) = 0"
    using cache_example_ready by (simp add: commit_ready_def Let_def cache_example_def)
  ultimately have "log_ok_with 0 log_example [] []"
    by (simp add: log_ok_with_def cv_ok_with_def logged_def log_fits_def)
      (simp add: log_example_def empty_cache_def cache_example_def)
  then show ?thesis by (auto simp: log_ok_def)
qed

lemma log_example_acquire: "\<exists>b st'. cache_acquire 0 log_example 30 = Some (Inr (b, st'))"
proof -
  have "apmem (barena log_example) = pm_example" by (simp add: log_example_def empty_cache_def arena_example_ok)
  then have "kalloc 0 (apmem (barena log_example)) \<noteq> Inl e" for e by (simp add: kalloc_example)
  then show ?thesis using cache_acquire_outcome [OF log_example_core, of 30 0]
    by (auto simp: acquire_outcome_def split: option.splits sum.splits)
qed

lemma log_example_outside: "ucast (30 :: u64) \<notin> log_area (sblock log_example)"
  by (simp add: log_example_def empty_cache_def cache_example_def log_area_def)

theorem log_refines_witness:
  "\<exists>b st'. cache_acquire 0 log_example 30 = Some (Inr (b, st')) \<and> log_ok 0 st' \<and> survives 1 log_example st'"
proof -
  obtain b st' where r: "cache_acquire 0 log_example 30 = Some (Inr (b, st'))" using log_example_acquire by blast
  have "cache_step 0 log_example Quiet st'" by (rule cache_step.acquire [OF _ log_example_outside r]) simp
  from log_refines [OF log_example_ok this, of 1] r show ?thesis by blast
qed

theorem end_op_durable_witness:
  "\<exists>b st1 st2 ctx st3 st4. cache_acquire 0 log_example 30 = Some (Inr (b, st1)) \<and> block_store st1 b data_offset 7 = Inr st2 \<and>
    cache_sync 0 st2 (Some \<lparr>ts = 0, ops_cnt = 0\<rparr>) b = Inr (ctx, st3) \<and> cache_end_op 0 st3 \<lparr>ts = 0, ops_cnt = 1\<rparr> 0 = Some (Inr st4) \<and>
    content (dev st4) 30 = (replicate 512 0)[0 := 7]"
proof -
  obtain b st1 where r1: "cache_acquire 0 log_example 30 = Some (Inr (b, st1))" using log_example_acquire by blast
  have cv: "cv_ok 0 log_example" using log_example_ok by (auto simp: log_ok_def log_ok_with_def cv_ok_def)
  have n30: "unat (30 :: u64) < 2 ^ 32" by simp
  note a = cv_acquire [OF cv n30 r1] and so = acquire_same [OF r1]
  have v0: "cv_view log_example 30 = replicate 512 0"
    using cv_view_disk [OF log_example_core _ n30] by (simp add: device_read_def log_example_def empty_cache_def cache_example_def)
  obtain qs ps where w1: "log_ok_with 0 st1 qs ps" using log_ok_acquire [OF log_example_ok n30 log_example_outside r1] by (auto simp: log_ok_def)
  have h1: "cv_held st1 b = Some 30" using a by simp
  obtain st2 where r2: "block_store st1 b data_offset 7 = Inr st2" using cv_store_with(1) [OF log_okD(1) [OF w1] h1, of 0 7] by auto
  have i: "0 < BLOCK_SIZE" "block_store st1 b (data_offset + 0) 7 = Inr st2" using r2 by simp_all
  note s2 = log_ok_store [OF w1 h1 i]
  have st2: "cv_held st2 = cv_held st1" "outstanding st2 = outstanding st1"
    using cv_store_with(1,3) [OF log_okD(1) [OF w1] h1 i(1), of 7] r2 by (auto simp: upd_block_def)
  have hd: "header st2 = \<lparr>hnum_blocks = 0, hblock_no = replicate 63 0\<rparr>" "sblock st2 = sblock log_example"
    using s2(2) so by (auto simp: same_op_def same_log_def log_example_def empty_cache_def cache_example_def)
  have lf: "lock_free (clock st2)" using log_okD(2) [OF s2(1)] by (simp add: bc_ok_def)
  obtain ctx st3 where r3: "cache_sync 0 st2 (Some \<lparr>ts = 0, ops_cnt = 0\<rparr>) b = Inr (ctx, st3)" "outstanding st3 = outstanding st2"
    using lf by (simp add: cache_sync_def unsafe_cache_sync_def lock_cache_def unlock_cache_def Let_def hd upd_block_def)
  have h2: "cv_held st2 b = Some 30" using st2 h1 by simp
  note s3 = log_ok_sync [OF s2(1) h2 r3(1)] and cs = cv_sync_with [OF log_okD(1) [OF s2(1)] h2 r3(1)]
  have ok3: "log_ok 0 st3" using s3(1) by (auto simp: log_ok_def)
  have o3: "outstanding st3 = 1" using r3(2) st2(2) so by (simp add: same_op_def log_example_def)
  have "cv_held log_example x = None" for x by (simp add: cv_held_eq [OF log_example_core])
  then have cl: "\<forall>x. cv_held st3 x \<noteq> None \<longrightarrow> cv_clean st3 x" using cs a st2 by (auto split: if_splits)
  have "length (logged st3) \<le> 1"
    using sync_header(3) [OF lf _ _ r3(1)] hd by (auto simp: logged_def split: if_splits)
  then have "unat (hnum_blocks (header st3)) \<le> 1" using log_okD(9,10) [OF s3(1)] by (simp add: logged_def)
  then have fits: "log_fits (sblock st3) (unat (hnum_blocks (header st3)))"
    using s3(2) hd(2) by (simp add: log_fits_def log_example_def empty_cache_def cache_example_def)
  obtain st4 where r4: "cache_end_op 0 st3 \<lparr>ts = 0, ops_cnt = 1\<rparr> 0 = Some (Inr st4)"
      "\<forall>no. no \<notin> log_area (sblock st3) \<longrightarrow> content (dev st4) no = cv_view st3 (ucast no)"
    using end_op_durable [OF ok3 o3 cl fits] by blast
  have "content (dev st4) 30 = cv_view st3 30" using r4(2) log_example_outside s3(2) hd(2) by force
  then have "content (dev st4) 30 = (replicate 512 0)[0 := 7]" using s3(4) s2(3) a v0 by simp
  with r1 r2 r3(1) r4(1) show ?thesis by blast
qed

end
