(* ===== verification/KLogFull.thy ===== *)
theory KLogFull
  imports KLogSpec
begin

text \<open>
  A full log. The admission test of \<open>cache_begin_op\<close> in \<open>src/fs/cache.c\<close> compares with the size of the log area, of which one block is
  the header. This theory follows one operation from its admission to its commit.\<close>

text \<open>The calls of \<open>cache_sync\<close> of one operation.\<close>

primrec sync_all :: "nat \<Rightarrow> OpContext option \<Rightarrow> addr list \<Rightarrow> bcache \<Rightarrow> (OpContext option \<times> bcache) res" where
  "sync_all cpu ctx [] st = Inr (ctx, st)"
| "sync_all cpu ctx (b # bs) st = bind_res (cache_sync cpu st ctx b) (\<lambda>(ctx', st'). sync_all cpu ctx' bs st')"

subsection \<open>Filling the header\<close>

lemma header_find_none:
  "i + r \<le> length bn \<Longrightarrow> \<forall>k. i \<le> k \<and> k < i + r \<longrightarrow> bn ! k \<noteq> no \<Longrightarrow> header_find bn no i r = Inr (i + r)"
  by (induction r arbitrary: i) auto

lemma sync_new:
  assumes lf: "lock_free (clock st)" and n: "unat (hnum_blocks (header st)) < LOG_MAX_SIZE" "length (hblock_no (header st)) = LOG_MAX_SIZE"
    and new: "block_no (blocks st b) \<notin> set (logged st)" and c: "unat (ops_cnt c) < 10"
  obtains st' where "cache_sync cpu st (Some c) b = Inr (Some (c\<lparr>ops_cnt := ops_cnt c + 1\<rparr>), st')" "st' = st\<lparr>header := header st', blocks := blocks st'\<rparr>"
    "logged st' = logged st @ [block_no (blocks st b)]" "unat (hnum_blocks (header st')) = unat (hnum_blocks (header st)) + 1"
    "length (hblock_no (header st')) = LOG_MAX_SIZE" "\<forall>x. \<exists>p. blocks st' x = (blocks st x)\<lparr>pinned := p\<rparr>"
proof -
  let ?n = "unat (hnum_blocks (header st))" and ?bn = "hblock_no (header st)" and ?no = "block_no (blocks st b)"
  let ?h = "\<lparr>hnum_blocks = hnum_blocks (header st) + 1, hblock_no = ?bn[?n := ?no]\<rparr>"
  let ?st = "upd_block (st\<lparr>header := ?h\<rparr>) b (\<lambda>x. x\<lparr>pinned := True\<rparr>)"
  obtain l where l: "acquire_spinlock cpu (clock st) = Inr l" "release_spinlock cpu l = Inr (clock st)" using lf by simp
  have "?bn ! k \<noteq> ?no" if "k < ?n" for k
    using new that n by (auto simp: logged_def in_set_conv_nth)
  then have f: "header_find ?bn ?no 0 ?n = Inr ?n" using header_find_none [of 0 ?n ?bn ?no] n by simp
  have up: "unat (hnum_blocks (header st) + 1) = ?n + 1" using n(1) by (simp add: unat_word_ariths)
  have cc: "\<not> 10 < ops_cnt c + 1" using c by (simp add: word_less_nat_alt unat_word_ariths)
  have "cache_sync cpu st (Some c) b = Inr (Some (c\<lparr>ops_cnt := ops_cnt c + 1\<rparr>), ?st)"
    using l f n cc by (simp add: cache_sync_def unsafe_cache_sync_def lock_cache_def unlock_cache_def Let_def upd_block_def)
  moreover have "logged ?st = logged st @ [?no]" using n up by (simp add: logged_def upd_block_def take_Suc_conv_app_nth)
  moreover have "\<exists>p. blocks ?st x = (blocks st x)\<lparr>pinned := p\<rparr>" for x
    by (cases "x = b") (auto simp: upd_block_def intro: exI [of _ "pinned (blocks st x)"])
  ultimately show thesis using that [of ?st] up n by (simp add: upd_block_def)
qed

lemma sync_all_new:
  assumes "lock_free (clock st)" "unat (hnum_blocks (header st)) + length bs \<le> LOG_MAX_SIZE" "length (hblock_no (header st)) = LOG_MAX_SIZE"
    and "distinct (logged st @ map (\<lambda>b. block_no (blocks st b)) bs)" "unat (ops_cnt c) + length bs \<le> 10"
  shows "\<exists>c' st'. sync_all cpu (Some c) bs st = Inr (Some c', st') \<and> st' = st\<lparr>header := header st', blocks := blocks st'\<rparr> \<and>
    logged st' = logged st @ map (\<lambda>b. block_no (blocks st b)) bs \<and> unat (hnum_blocks (header st')) = unat (hnum_blocks (header st)) + length bs \<and>
    length (hblock_no (header st')) = LOG_MAX_SIZE \<and> (\<forall>x. \<exists>p. blocks st' x = (blocks st x)\<lparr>pinned := p\<rparr>)"
  using assms
proof (induction bs arbitrary: st c)
  case Nil
  have "\<exists>p. blocks st x = (blocks st x)\<lparr>pinned := p\<rparr>" for x by (rule exI [of _ "pinned (blocks st x)"]) simp
  then show ?case using Nil by simp
next
  case (Cons b bs)
  obtain st1 where s1: "cache_sync cpu st (Some c) b = Inr (Some (c\<lparr>ops_cnt := ops_cnt c + 1\<rparr>), st1)" "st1 = st\<lparr>header := header st1, blocks := blocks st1\<rparr>"
    "logged st1 = logged st @ [block_no (blocks st b)]" "unat (hnum_blocks (header st1)) = unat (hnum_blocks (header st)) + 1"
    "length (hblock_no (header st1)) = LOG_MAX_SIZE" "\<forall>x. \<exists>p. blocks st1 x = (blocks st x)\<lparr>pinned := p\<rparr>"
    by (rule sync_new [of st b c cpu]) (use Cons.prems in auto)
  have no: "block_no (blocks st1 x) = block_no (blocks st x)" for x using s1(6) by (metis Block.simps(13) Block.select_convs(1) Block.surjective Block.update_convs(3))
  have cl: "clock st1 = clock st" by (subst s1(2)) simp
  have oc: "unat (ops_cnt (c\<lparr>ops_cnt := ops_cnt c + 1\<rparr>)) = unat (ops_cnt c) + 1" using Cons.prems(5) by (simp add: unat_word_ariths)
  have "\<exists>c' st'. sync_all cpu (Some (c\<lparr>ops_cnt := ops_cnt c + 1\<rparr>)) bs st1 = Inr (Some c', st') \<and> st' = st1\<lparr>header := header st', blocks := blocks st'\<rparr> \<and>
    logged st' = logged st1 @ map (\<lambda>b. block_no (blocks st1 b)) bs \<and> unat (hnum_blocks (header st')) = unat (hnum_blocks (header st1)) + length bs \<and>
    length (hblock_no (header st')) = LOG_MAX_SIZE \<and> (\<forall>x. \<exists>p. blocks st' x = (blocks st1 x)\<lparr>pinned := p\<rparr>)"
    by (rule Cons.IH) (use Cons.prems s1(3-5) no cl oc in auto)
  then obtain c' st' where r: "sync_all cpu (Some (c\<lparr>ops_cnt := ops_cnt c + 1\<rparr>)) bs st1 = Inr (Some c', st')" "st' = st1\<lparr>header := header st', blocks := blocks st'\<rparr>"
    "logged st' = logged st @ map (\<lambda>b. block_no (blocks st b)) (b # bs)" "unat (hnum_blocks (header st')) = unat (hnum_blocks (header st)) + length (b # bs)"
    "length (hblock_no (header st')) = LOG_MAX_SIZE" "\<forall>x. \<exists>p. blocks st' x = (blocks st1 x)\<lparr>pinned := p\<rparr>"
    using s1(3,4) no by auto
  have "\<exists>p. blocks st' x = (blocks st x)\<lparr>pinned := p\<rparr>" for x
  proof -
    obtain p q where "blocks st' x = (blocks st1 x)\<lparr>pinned := p\<rparr>" "blocks st1 x = (blocks st x)\<lparr>pinned := q\<rparr>" using r(6) s1(6) by blast
    then show ?thesis by (intro exI [of _ p]) simp
  qed
  moreover have "st' = st\<lparr>header := header st', blocks := blocks st'\<rparr>" by (subst r(2), subst s1(2)) simp
  ultimately show ?case using s1(1) r by (intro exI [of _ c'] exI [of _ st']) simp
qed

subsection \<open>A commit does not look at the size of the log\<close>

lemma get_cache_sblock: "get_cache cpu (st\<lparr>sblock := sb\<rparr>) no = map_option (map_sum id (map_prod id (\<lambda>s. s\<lparr>sblock := sb\<rparr>))) (get_cache cpu st no)"
  by (auto simp: get_cache_def bind_run_def bind_res_def split: option.split sum.split)

lemma commit_loop_sblock:
  "commit_loop cpu a i r (st\<lparr>sblock := sb\<rparr>) = map_option (map_sum id (\<lambda>s. s\<lparr>sblock := sb\<rparr>)) (commit_loop cpu a i r st)"
proof (induction r arbitrary: i st)
  case (Suc r)
  show ?case
  proof (cases "get_cache cpu st (hblock_no (header st) ! i)")
    case (Some x)
    show ?thesis
    proof (cases x)
      case (Inr y)
      obtain b s where y: "y = (b, s)" by force
      let ?s = "upd_block (s\<lparr>dev := device_write (dev s) (a + 1 + of_nat i) (data (blocks s b))\<rparr>) b (\<lambda>b. b\<lparr>pinned := False\<rparr>)"
      have "upd_block (s\<lparr>sblock := sb, dev := device_write (dev s) (a + 1 + of_nat i) (data (blocks s b))\<rparr>) b (\<lambda>b. b\<lparr>pinned := False\<rparr>) = ?s\<lparr>sblock := sb\<rparr>"
        by (simp add: upd_block_def)
      then show ?thesis using Some Inr y Suc [of "Suc i" ?s] by (simp add: get_cache_sblock Let_def)
    qed (simp add: Some get_cache_sblock)
  qed (simp add: get_cache_sblock)
qed simp

lemma commit_sblock:
  assumes ls: "log_start sb = log_start (sblock st)"
  shows "commit cpu (st\<lparr>sblock := sb\<rparr>) = map_option (map_sum id (\<lambda>s. s\<lparr>sblock := sb\<rparr>)) (commit cpu st)"
proof -
  have rec: "unsafe_crash_recover cpu (write_header (s\<lparr>sblock := sb\<rparr>)) False =
      map_sum id (\<lambda>s. s\<lparr>sblock := sb\<rparr>) (unsafe_crash_recover cpu (write_header s) False)" if "log_start (sblock s) = log_start sb" for s
    using that by (auto simp: unsafe_crash_recover_def lock_cache_def unlock_cache_def read_header_def write_header_def Let_def bind_res_def split: sum.split)
  show ?thesis
  proof (cases "commit_loop cpu (ucast (log_start sb)) 0 (unat (hnum_blocks (header st))) st")
    case (Some x)
    show ?thesis
    proof (cases x)
      case (Inr s)
      have "s = s\<lparr>sblock := sblock st\<rparr>" using commit_loop_sblock [of cpu "ucast (log_start sb)" 0 "unat (hnum_blocks (header st))" "sblock st" st] Some Inr by simp
      then have "log_start (sblock s) = log_start sb" using ls by (metis bcache.simps(20) bcache.select_convs(1) bcache.surjective bcache.update_convs(1))
      from rec [OF this] show ?thesis using Some Inr ls by (simp add: commit_def commit_loop_sblock)
    qed (use Some ls in \<open>simp add: commit_def commit_loop_sblock\<close>)
  qed (use ls in \<open>simp add: commit_def commit_loop_sblock\<close>)
qed

subsection \<open>One operation\<close>

lemma cached_data_inj:
  assumes "inj_on (\<lambda>b. block_no (blocks st b)) (set qs)" "b \<in> set qs"
  shows "cached_data st qs (block_no (blocks st b)) = Some (data (blocks st b))"
proof -
  have "find (\<lambda>x. block_no (blocks st x) = block_no (blocks st b)) qs \<noteq> None" using assms(2) by (auto simp: find_None_iff)
  then obtain x where x: "find (\<lambda>x. block_no (blocks st x) = block_no (blocks st b)) qs = Some x" by blast
  then have "x = b" using find_in_set [OF x] assms by (auto dest: inj_onD)
  with x show ?thesis by (simp add: cached_data_def)
qed

text \<open>A commit of ten blocks in a log area of ten blocks, which \<open>commit_trace\<close> describes for an area of eleven.\<close>

lemma full_commit:
  assumes q: "queue_ok st qs" and inj: "inj_on (\<lambda>b. block_no (blocks st b)) (set qs)"
    and sb: "num_log_blocks (sblock st) = 10" "unat (log_start (sblock st)) + 11 \<le> 2 ^ 32"
    and h: "length (hblock_no (header st)) = LOG_MAX_SIZE" "logged st = map (\<lambda>b. block_no (blocks st b)) bs" "unat (hnum_blocks (header st)) = 10"
    and bs: "length bs = 10" "set bs \<subseteq> set qs" "distinct (map (\<lambda>b. ucast (block_no (blocks st b)) :: u32) bs)"
      "\<forall>b\<in>set bs. length (data (blocks st b)) = BLOCK_SIZE \<and> ucast (block_no (blocks st b)) \<notin> insert (log_start (sblock st) + 10) (log_area (sblock st))"
    and disk: "hnum_blocks (bytes_header (content (dev st) (log_start (sblock st)))) = 0"
  shows "\<exists>st'. commit cpu st = Some (Inr st') \<and> clock st' = clock st \<and> outstanding st' = outstanding st \<and>
    content (dev st') (log_start (sblock st) + 10) = data (blocks st (last bs))"
proof -
  let ?sb = "(sblock st)\<lparr>num_log_blocks := 11\<rparr>"
  let ?w = "st\<lparr>sblock := ?sb\<rparr>"
  have no: "hblock_no (header st) ! i = block_no (blocks st (bs ! i))" if "i < 10" for i
  proof -
    have t: "take 10 (hblock_no (header st)) = map (\<lambda>b. block_no (blocks st b)) bs" using h(2,3) by (simp add: logged_def)
    have "hblock_no (header st) ! i = take 10 (hblock_no (header st)) ! i" using that by simp
    then show ?thesis unfolding t using that bs(1) by simp
  qed
  have mem: "bs ! i \<in> set bs" if "i < 10" for i using that bs(1) by simp
  have cd: "cached_data ?w qs (hblock_no (header st) ! i) = Some (data (blocks st (bs ! i)))" if "i < 10" for i
    using cached_data_inj [OF inj, of "bs ! i"] bs(2) mem [OF that] no [OF that] by (simp add: cached_data_def subset_iff)
  have ten: "unat (log_start (sblock st) + 10) = unat (log_start (sblock st)) + 10" using sb(2) by (simp add: unat_word_ariths)
  have area: "log_area ?sb = insert (log_start (sblock st) + 10) (log_area (sblock st))"
    using ten sb(1) by (auto simp: log_area_def word_unat_eq_iff)
  have fits: "log_fits ?sb 10" using sb(2) by (simp add: log_fits_def)
  have "commit_ready ?w qs" unfolding commit_ready_def Let_def
  proof (intro conjI)
    show "queue_ok ?w qs" using q by (simp add: queue_ok_def)
    show "log_fits (sblock ?w) (unat (hnum_blocks (header ?w)))" using fits h(3) by simp
    show "\<forall>i<unat (hnum_blocks (header ?w)). (\<exists>bs. cached_data ?w qs (hblock_no (header ?w) ! i) = Some bs \<and> length bs = BLOCK_SIZE) \<and>
        ucast (hblock_no (header ?w) ! i) \<notin> log_area (sblock ?w)"
      using cd bs(4) mem no area h(3) by simp
    have "map (\<lambda>i. ucast (hblock_no (header ?w) ! i) :: u32) [0..<10] = map (\<lambda>b. ucast (block_no (blocks st b))) bs"
      by (rule nth_equalityI) (use no bs(1) in simp_all)
    then show "distinct (map (\<lambda>i. ucast (hblock_no (header ?w) ! i) :: u32) [0..<unat (hnum_blocks (header ?w))])" using bs(3) h(3) by simp
  qed (use h disk in simp_all)
  from commit_trace [OF this, of cpu] obtain w where w: "commit cpu ?w = Some (Inr w)" "w = ?w\<lparr>dev := dev w, blocks := blocks w, header := header w\<rparr>"
    "content (dev w) = replay (log_writes ?sb (\<lambda>i. the (cached_data ?w qs (hblock_no (header st) ! i))) 10 @ [(log_start ?sb, header_bytes (header st))] @
       home_writes (header st) (\<lambda>i. the (cached_data ?w qs (hblock_no (header st) ! i))) 10 @
       [(log_start ?sb, header_bytes ((header st)\<lparr>hnum_blocks := 0\<rparr>))]) (content (dev st))" using h(3) by auto
  have slot: "log_slot ?sb 9 = log_start (sblock st) + 10" by (simp add: log_slot_def)
  have homes: "log_start (sblock st) + 10 \<noteq> ucast (hblock_no (header st) ! i)" if "i < 10" for i using bs(4) mem [OF that] no [OF that] by auto
  have ne: "log_start (sblock st) + 10 \<noteq> log_start (sblock st)" using ten by auto
  have "content (dev w) (log_start (sblock st) + 10) = the (cached_data ?w qs (hblock_no (header st) ! 9))"
    unfolding w(3) replay_append
    by (subst replay_other, use ne in simp, subst replay_other, use homes in force, subst replay_other, use ne in simp)
      (use log_written [OF fits, of 9] slot in simp)
  also have "\<dots> = data (blocks st (last bs))" using cd [of 9] bs(1) last_conv_nth [of bs] by (cases bs) auto
  finally have c: "content (dev w) (log_start (sblock st) + 10) = data (blocks st (last bs))" .
  have "commit cpu st = Some (Inr (w\<lparr>sblock := sblock st\<rparr>))" using commit_sblock [of "sblock st" ?w cpu] w(1) by simp
  moreover have "clock w = clock st" "outstanding w = outstanding st" by (subst w(2), simp)+
  ultimately show ?thesis using c by (intro exI [of _ "w\<lparr>sblock := sblock st\<rparr>"]) simp
qed

text \<open>C40: in an idle cache with a log area of ten blocks, the header included, an operation of ten blocks is admitted by \<open>cache_begin_op\<close>; its
  ten calls of \<open>cache_sync\<close> for different cached blocks succeed, and so does \<open>cache_end_op\<close>, which commits it. The block after
  the log area, which is none of the ten, then holds the contents of the last of them: the log has overwritten it.\<close>

theorem log_overflow:
  assumes q: "queue_ok st qs" and inj: "inj_on (\<lambda>b. block_no (blocks st b)) (set qs)" and lf: "lock_free (clock st)"
    and idle: "outstanding st = 0" "end_pending st = 0" "hnum_blocks (header st) = 0" "length (hblock_no (header st)) = LOG_MAX_SIZE"
    and sb: "num_log_blocks (sblock st) = 10" "unat (log_start (sblock st)) + 11 \<le> 2 ^ 32"
    and disk: "hnum_blocks (bytes_header (content (dev st) (log_start (sblock st)))) = 0"
    and bs: "length bs = 10" "set bs \<subseteq> set qs" "distinct (map (\<lambda>b. ucast (block_no (blocks st b)) :: u32) bs)"
      "\<forall>b\<in>set bs. length (data (blocks st b)) = BLOCK_SIZE \<and> ucast (block_no (blocks st b)) \<notin> insert (log_start (sblock st) + 10) (log_area (sblock st))"
  shows "(\<exists>ctx1 st1 ctx2 st2 st3. cache_begin_op cpu st ctx = Inr (ctx1, st1) \<and> sync_all cpu (Some ctx1) bs st1 = Inr (Some ctx2, st2) \<and>
      cache_end_op cpu st2 ctx2 a = Some (Inr st3) \<and> content (dev st3) (log_start (sblock st) + num_log_blocks (sblock st)) = data (blocks st (last bs))) \<and>
    log_start (sblock st) + num_log_blocks (sblock st) \<notin> log_area (sblock st)"
proof (rule conjI)
  show "log_start (sblock st) + num_log_blocks (sblock st) \<notin> log_area (sblock st)"
    using sb by (simp add: log_area_def unat_word_ariths)
  obtain l where l: "acquire_spinlock cpu (clock st) = Inr l" "release_spinlock cpu l = Inr (clock st)" using lf by simp
  let ?c = "ctx\<lparr>ops_cnt := 0\<rparr>" and ?st1 = "st\<lparr>outstanding := 1\<rparr>"
  have b: "cache_begin_op cpu st ctx = Inr (?c, ?st1)"
    using l idle sb by (simp add: cache_begin_op_def lock_cache_def unlock_cache_def Let_def)
  have "distinct (map (ucast :: u64 \<Rightarrow> u32) (map (\<lambda>b. block_no (blocks st b)) bs))" using bs(3) by (simp add: comp_def)
  then have dn: "distinct (map (\<lambda>b. block_no (blocks st b)) bs)" by (simp only: distinct_map)
  have l0: "logged ?st1 = []" using idle by (simp add: logged_def)
  have "\<exists>c' st'. sync_all cpu (Some ?c) bs ?st1 = Inr (Some c', st') \<and> st' = ?st1\<lparr>header := header st', blocks := blocks st'\<rparr> \<and>
    logged st' = logged ?st1 @ map (\<lambda>b. block_no (blocks ?st1 b)) bs \<and> unat (hnum_blocks (header st')) = unat (hnum_blocks (header ?st1)) + length bs \<and>
    length (hblock_no (header st')) = LOG_MAX_SIZE \<and> (\<forall>x. \<exists>p. blocks st' x = (blocks ?st1 x)\<lparr>pinned := p\<rparr>)"
    by (rule sync_all_new) (use lf idle bs(1) dn l0 in simp_all)
  then obtain c2 st2 where s: "sync_all cpu (Some ?c) bs ?st1 = Inr (Some c2, st2)" "st2 = ?st1\<lparr>header := header st2, blocks := blocks st2\<rparr>"
    "logged st2 = map (\<lambda>b. block_no (blocks st b)) bs" "unat (hnum_blocks (header st2)) = 10" "length (hblock_no (header st2)) = LOG_MAX_SIZE"
    "\<forall>x. \<exists>p. blocks st2 x = (blocks st x)\<lparr>pinned := p\<rparr>" using l0 idle bs(1) by auto
  have same: "block_no (blocks st2 x) = block_no (blocks st x)" "data (blocks st2 x) = data (blocks st x)" for x
    using s(6) [rule_format, of x] by auto
  have rest: "sblock st2 = sblock st" "dev st2 = dev st" "clock st2 = clock st" "outstanding st2 = 1" "qlock st2 = qlock st" "bnodes st2 = bnodes st"
    "qhead st2 = qhead st" by (subst s(2), simp)+
  have q2: "queue_ok st2 qs" using q by (simp add: queue_ok_def rest)
  have "\<exists>st'. commit cpu st2 = Some (Inr st') \<and> clock st' = clock st2 \<and> outstanding st' = outstanding st2 \<and>
    content (dev st') (log_start (sblock st2) + 10) = data (blocks st2 (last bs))"
    by (rule full_commit [OF q2]) (use inj sb s(3-5) bs disk in \<open>simp_all add: rest same\<close>)
  then obtain w where w: "commit cpu st2 = Some (Inr w)" "clock w = clock st" "outstanding w = 1"
      "content (dev w) (log_start (sblock st) + 10) = data (blocks st (last bs))" by (auto simp: rest same)
  let ?st3 = "w\<lparr>end_pending := 0, outstanding := 0, woken := woken w @ [a]\<rparr>"
  have "cache_end_op cpu st2 c2 a = Some (Inr ?st3)"
    using l w(1-3) rest(3,4) by (cases w) (simp add: cache_end_op_def lock_cache_def unlock_cache_def commit_clock)
  moreover have "content (dev ?st3) (log_start (sblock st) + num_log_blocks (sblock st)) = data (blocks st (last bs))" using w(4) sb by simp
  ultimately show "\<exists>ctx1 st1 ctx2 st2 st3. cache_begin_op cpu st ctx = Inr (ctx1, st1) \<and> sync_all cpu (Some ctx1) bs st1 = Inr (Some ctx2, st2) \<and>
      cache_end_op cpu st2 ctx2 a = Some (Inr st3) \<and> content (dev st3) (log_start (sblock st) + num_log_blocks (sblock st)) = data (blocks st (last bs))"
    using b s(1) by blast
qed

text \<open>Ten cached blocks, the numbers 100 to 109, in a ring; the log area is the blocks 2 to 11.\<close>

definition ten_blocks :: "addr list" where
  "ten_blocks = [0x2000, 0x2400, 0x2800, 0x2C00, 0x3000, 0x3400, 0x3800, 0x3C00, 0x4000, 0x4400]"

definition full_example :: bcache where
  "full_example = cache_example\<lparr>sblock := (sblock cache_example)\<lparr>num_log_blocks := 10\<rparr>, outstanding := 0,
     header := \<lparr>hnum_blocks = 0, hblock_no = replicate 63 0\<rparr>, qhead := 0x1C08,
     bnodes := \<lparr>lprev = (\<lambda>a. if a = 0x1C08 then 0x4408 else a - 0x400), lnext = (\<lambda>a. if a = 0x4408 then 0x1C08 else a + 0x400)\<rparr>,
     blocks := (\<lambda>b. \<lparr>block_no = 100 + (b - 0x2000) div 0x400, acquired = False, pinned = False,
       block_lock = \<lparr>slock = \<lparr>locked = False, lcpu = None, lname = ''block''\<rparr>, slocked = False\<rparr>,
       valid = True, data = replicate 512 (ucast (b div 0x400))\<rparr>)\<rparr>"

lemma full_example_ok:
  "queue_ok full_example ten_blocks" "distinct (map (\<lambda>b. ucast (block_no (blocks full_example b)) :: u32) ten_blocks)"
  "inj_on (\<lambda>b. block_no (blocks full_example b)) (set ten_blocks)"
proof -
  have "cyc (bnodes full_example) (qhead full_example # map blk_node ten_blocks)"
    by (simp add: full_example_def ten_blocks_def cyc_def linked_def blk_node_def)
  moreover have "lock_free (qlock full_example)" by (simp add: full_example_def cache_example_def lock_free_def)
  ultimately show "queue_ok full_example ten_blocks" unfolding queue_ok_def by (simp add: ten_blocks_def)
  have n: "map (\<lambda>b. block_no (blocks full_example b)) ten_blocks = [100, 101, 102, 103, 104, 105, 106, 107, 108, 109]"
    by (simp add: full_example_def ten_blocks_def)
  then have "distinct (map (\<lambda>b. block_no (blocks full_example b)) ten_blocks)" by simp
  then show "inj_on (\<lambda>b. block_no (blocks full_example b)) (set ten_blocks)" by (simp only: distinct_map)
  have "map (\<lambda>b. ucast (block_no (blocks full_example b)) :: u32) ten_blocks = map ucast (map (\<lambda>b. block_no (blocks full_example b)) ten_blocks)" by simp
  then show "distinct (map (\<lambda>b. ucast (block_no (blocks full_example b)) :: u32) ten_blocks)" unfolding n by simp
qed

theorem log_overflow_witness:
  "\<exists>ctx1 st1 ctx2 st2 st3. cache_begin_op 0 full_example \<lparr>ts = 0, ops_cnt = 0\<rparr> = Inr (ctx1, st1) \<and>
     sync_all 0 (Some ctx1) ten_blocks st1 = Inr (Some ctx2, st2) \<and> cache_end_op 0 st2 ctx2 64 = Some (Inr st3) \<and>
     content (dev st3) 12 = replicate 512 17 \<and> 12 \<notin> log_area (sblock full_example)"
proof -
  have a: "lock_free (clock full_example)" "outstanding full_example = 0" "end_pending full_example = 0" "hnum_blocks (header full_example) = 0"
    "length (hblock_no (header full_example)) = LOG_MAX_SIZE" "num_log_blocks (sblock full_example) = 10"
    "unat (log_start (sblock full_example)) + 11 \<le> 2 ^ 32" "length ten_blocks = 10" and ls: "log_start (sblock full_example) = 2"
    by (simp_all add: full_example_def cache_example_def lock_free_def ten_blocks_def)
  have d: "hnum_blocks (bytes_header (content (dev full_example) (log_start (sblock full_example)))) = 0"
    using cache_example_ready by (simp add: commit_ready_def Let_def full_example_def)
  have "log_area (sblock full_example) = {no. 2 \<le> unat no \<and> unat no < 12}" by (simp add: log_area_def a(6) ls)
  then have b: "\<forall>b\<in>set ten_blocks. length (data (blocks full_example b)) = BLOCK_SIZE \<and>
      ucast (block_no (blocks full_example b)) \<notin> insert (log_start (sblock full_example) + 10) (log_area (sblock full_example))"
    unfolding ls by (simp add: ten_blocks_def) (simp add: full_example_def)
  have v: "data (blocks full_example (last ten_blocks)) = replicate 512 17" "log_start (sblock full_example) + num_log_blocks (sblock full_example) = 12"
    by (simp_all add: full_example_def ten_blocks_def cache_example_def)
  note r = log_overflow [OF full_example_ok(1,3) a(1-7) d a(8) subset_refl full_example_ok(2) b, unfolded v]
  show ?thesis using r [of 0 "\<lparr>ts = 0, ops_cnt = 0\<rparr>" 64] by blast
qed

end
