(* ===== verification/KInode.thy ===== *)
theory KInode
  imports KCacheIface
begin

text \<open>
  The inode layer, \<open>src/fs/inode.c\<close> and \<open>inode.h\<close>. It reaches the block cache only through the table of
  functions \<open>cache\<close> it is given, so the operations take such a table over an arbitrary state \<open>'s\<close> (theory
  \<open>KCacheIface\<close>). The page pool is shared between the arenas of the two layers.\<close>

abbreviation INODE_NUM_DIRECT :: nat where "INODE_NUM_DIRECT \<equiv> 12"
abbreviation INODE_NUM_INDIRECT :: nat where "INODE_NUM_INDIRECT \<equiv> 128"
abbreviation INODE_PER_BLOCK :: nat where "INODE_PER_BLOCK \<equiv> 8"
abbreviation INODE_MAX_BYTES :: nat where "INODE_MAX_BYTES \<equiv> 71680"
abbreviation sizeof_InodeEntry :: nat where "sizeof_InodeEntry \<equiv> 64"
abbreviation sizeof_Inode :: usize where "sizeof_Inode \<equiv> 128"
abbreviation sizeof_DirEntry :: nat where "sizeof_DirEntry \<equiv> 16"
abbreviation FILE_NAME_MAX_LENGTH :: nat where "FILE_NAME_MAX_LENGTH \<equiv> 14"
abbreviation ROOT_INODE_NO :: usize where "ROOT_INODE_NO \<equiv> 1"
abbreviation INODE_INVALID :: u16 where "INODE_INVALID \<equiv> 0"
abbreviation INODE_DIRECTORY :: u16 where "INODE_DIRECTORY \<equiv> 1"

subsection \<open>Data\<close>

text \<open>An inode entry is 64 bytes; \<open>ipad\<close> are the two bytes of padding before the addresses.\<close>

record InodeEntry =
  itype :: u16
  imajor :: u16
  iminor :: u16
  num_links :: u16
  num_bytes :: u16
  ipad :: u16
  iaddrs :: "u32 list"
  indirect :: u32

definition entry_bytes :: "InodeEntry \<Rightarrow> u8 list" where
  "entry_bytes e = le_bytes 2 (itype e) @ le_bytes 2 (imajor e) @ le_bytes 2 (iminor e) @ le_bytes 2 (num_links e) @
     le_bytes 2 (num_bytes e) @ le_bytes 2 (ipad e) @ concat (map (le_bytes 4) (iaddrs e)) @ le_bytes 4 (indirect e)"

primrec u32s_of_bytes :: "nat \<Rightarrow> u8 list \<Rightarrow> u32 list" where
  "u32s_of_bytes 0 bs = []"
| "u32s_of_bytes (Suc n) bs = le_word (take 4 bs) # u32s_of_bytes n (drop 4 bs)"

definition bytes_entry :: "u8 list \<Rightarrow> InodeEntry" where
  "bytes_entry bs = \<lparr>itype = le_word (take 2 bs), imajor = le_word (take 2 (drop 2 bs)), iminor = le_word (take 2 (drop 4 bs)),
     num_links = le_word (take 2 (drop 6 bs)), num_bytes = le_word (take 2 (drop 8 bs)), ipad = le_word (take 2 (drop 10 bs)),
     iaddrs = u32s_of_bytes INODE_NUM_DIRECT (drop 12 bs), indirect = le_word (take 4 (drop 60 bs))\<rparr>"

definition zero_entry :: InodeEntry where
  "zero_entry = \<lparr>itype = 0, imajor = 0, iminor = 0, num_links = 0, num_bytes = 0, ipad = 0,
     iaddrs = replicate INODE_NUM_DIRECT 0, indirect = 0\<rparr>"

record Inode =
  inode_no :: usize
  irc :: RefCount
  ilock :: SpinLock
  ivalid :: bool
  ientry :: InodeEntry

record 's itree =
  cache_st :: 's
  isblock :: SuperBlock
  tree_lock :: SpinLock
  tree_head :: addr
  tree_links :: links
  inode_at :: "addr \<Rightarrow> Inode"
  iarena :: "PMemory aheap"
  iarena_addr :: addr
  iroot :: addr

definition upd_inode :: "'s itree \<Rightarrow> addr \<Rightarrow> (Inode \<Rightarrow> Inode) \<Rightarrow> 's itree" where
  "upd_inode st p f = st\<lparr>inode_at := (inode_at st)(p := f (inode_at st p))\<rparr>"

definition upd_entry :: "'s itree \<Rightarrow> addr \<Rightarrow> (InodeEntry \<Rightarrow> InodeEntry) \<Rightarrow> 's itree" where
  "upd_entry st p f = upd_inode st p (\<lambda>x. x\<lparr>ientry := f (ientry x)\<rparr>)"

definition lock_tree :: "nat \<Rightarrow> 's itree \<Rightarrow> 's itree res" where
  "lock_tree k st = bind_res (acquire_spinlock k (tree_lock st)) (\<lambda>l. Inr (st\<lparr>tree_lock := l\<rparr>))"

definition unlock_tree :: "nat \<Rightarrow> 's itree \<Rightarrow> 's itree res" where
  "unlock_tree k st = bind_res (release_spinlock k (tree_lock st)) (\<lambda>l. Inr (st\<lparr>tree_lock := l\<rparr>))"

definition lock_inode :: "nat \<Rightarrow> 's itree \<Rightarrow> addr \<Rightarrow> 's itree res" where
  "lock_inode k st p = bind_res (acquire_spinlock k (ilock (inode_at st p))) (\<lambda>l. Inr (upd_inode st p (\<lambda>x. x\<lparr>ilock := l\<rparr>)))"

definition unlock_inode :: "nat \<Rightarrow> 's itree \<Rightarrow> addr \<Rightarrow> 's itree res" where
  "unlock_inode k st p = bind_res (release_spinlock k (ilock (inode_at st p))) (\<lambda>l. Inr (upd_inode st p (\<lambda>x. x\<lparr>ilock := l\<rparr>)))"

subsection \<open>Inodes on disk\<close>

definition to_block_no :: "'s itree \<Rightarrow> usize \<Rightarrow> usize" where
  "to_block_no st no = ucast (inode_start (isblock st)) + no div of_nat INODE_PER_BLOCK"

definition get_entry :: "usize \<Rightarrow> nat" where
  "get_entry no = data_offset + sizeof_InodeEntry * (unat no mod INODE_PER_BLOCK)"

text \<open>The entries \<open>i + j\<close>, \<open>i + j + 1\<close>, \dots of the acquired block \<open>b\<close>, \<open>r\<close> of them: the first free one is taken.\<close>

primrec alloc_in_block ::
  "'s BlockCache \<Rightarrow> OpContext option \<Rightarrow> u16 \<Rightarrow> addr \<Rightarrow> nat \<Rightarrow> nat \<Rightarrow> nat \<Rightarrow> nat \<Rightarrow> 's \<Rightarrow> (nat \<times> OpContext option \<times> 's) res" where
  "alloc_in_block bc ctx ty b num i j 0 s = Inr (0, ctx, s)"
| "alloc_in_block bc ctx ty b num i j (Suc r) s =
     (let no = i + j in
      if 1 < no \<and> no < num then
        bind_res (load_bytes bc s b (get_entry (of_nat no)) 2) (\<lambda>t.
          if le_word t = INODE_INVALID then
            bind_res (store_bytes bc s b (get_entry (of_nat no)) (entry_bytes (zero_entry\<lparr>itype := ty\<rparr>))) (\<lambda>s1.
            bind_res (bc_sync bc s1 ctx b) (\<lambda>(ctx', s2). Inr (no, ctx', s2)))
          else alloc_in_block bc ctx ty b num i (Suc j) r s)
      else alloc_in_block bc ctx ty b num i (Suc j) r s)"

function alloc_scan ::
  "'s BlockCache \<Rightarrow> OpContext option \<Rightarrow> u16 \<Rightarrow> nat \<Rightarrow> 's itree \<Rightarrow> (usize \<times> OpContext option \<times> 's itree) res option" where
  "alloc_scan bc ctx ty i st =
     (if unat (num_inodes (isblock st)) \<le> i then Some (Inl (Panic ''failed to allocate inode on disk''))
      else
        bind_run (bc_acquire bc (cache_st st) (to_block_no st (of_nat i))) (\<lambda>(b, s1).
        bind_run (Some (alloc_in_block bc ctx ty b (unat (num_inodes (isblock st))) i 0 INODE_PER_BLOCK s1)) (\<lambda>(no, ctx', s2).
        bind_run (Some (bc_release bc s2 b)) (\<lambda>s3.
          if no \<noteq> 0 then Some (Inr (of_nat no, ctx', st\<lparr>cache_st := s3\<rparr>))
          else alloc_scan bc ctx' ty (i + INODE_PER_BLOCK) (st\<lparr>cache_st := s3\<rparr>)))))"
  by pat_completeness auto
termination
  by (relation "measure (\<lambda>(bc, ctx, ty, i, st). unat (num_inodes (isblock st)) - i)") auto

definition inode_alloc :: "'s BlockCache \<Rightarrow> OpContext option \<Rightarrow> u16 \<Rightarrow> 's itree \<Rightarrow> (usize \<times> OpContext option \<times> 's itree) res option" where
  "inode_alloc bc ctx ty st =
     (if ty = INODE_INVALID then Some (Inl (Panic ''type != INODE_INVALID'')) else alloc_scan bc ctx ty 0 st)"

definition inode_sync :: "'s BlockCache \<Rightarrow> OpContext option \<Rightarrow> addr \<Rightarrow> bool \<Rightarrow> 's itree \<Rightarrow> (OpContext option \<times> 's itree) res option" where
  "inode_sync bc ctx p do_write st =
     (let no = inode_no (inode_at st p); off = get_entry no in
      bind_run (bc_acquire bc (cache_st st) (to_block_no st no)) (\<lambda>(b, s1).
      bind_run
        (if no = 0 \<or> ucast (num_inodes (isblock st)) \<le> no
         then Some (Inl (Panic ''inode_sync : inode_number <= 0 or inode_number >= MAX_num_inodes.''))
         else
           Some (bind_res (load_bytes bc s1 b off 2) (\<lambda>t.
             if le_word t = INODE_INVALID then Inl (Panic ''inode_sync : trying to synchronize unvalid inode on disk.'')
             else if \<not> ivalid (inode_at st p) then
               bind_res (load_bytes bc s1 b off sizeof_InodeEntry) (\<lambda>bs.
                 Inr (ctx, upd_inode (st\<lparr>cache_st := s1\<rparr>) p (\<lambda>x. x\<lparr>ientry := bytes_entry bs, ivalid := True\<rparr>)))
             else if do_write then
               bind_res (store_bytes bc s1 b off (entry_bytes (ientry (inode_at st p)))) (\<lambda>s2.
               bind_res (bc_sync bc s2 ctx b) (\<lambda>(ctx', s3). Inr (ctx', st\<lparr>cache_st := s3\<rparr>)))
             else Inr (ctx, st\<lparr>cache_st := s1\<rparr>)))) (\<lambda>(ctx', st').
        Some (bind_res (bc_release bc (cache_st st') b) (\<lambda>s. Inr (ctx', st'\<lparr>cache_st := s\<rparr>))))))"

subsection \<open>Inodes in memory\<close>

partial_function (option) find_inode :: "links \<Rightarrow> (addr \<Rightarrow> Inode) \<Rightarrow> addr \<Rightarrow> usize \<Rightarrow> addr \<Rightarrow> addr option" where
  "find_inode ln h head no current =
     (if current \<noteq> head then
        (if inode_no (h current) = no then Some current else find_inode ln h head no (lnext ln current))
      else Some NULL)"

definition get_inode_inlist :: "'s itree \<Rightarrow> usize \<Rightarrow> addr option" where
  "get_inode_inlist st no = find_inode (tree_links st) (inode_at st) (tree_head st) no (lnext (tree_links st) (tree_head st))"

definition init_inode :: "'s itree \<Rightarrow> addr \<Rightarrow> 's itree" where
  "init_inode st p =
     upd_inode (st\<lparr>tree_links := init_list_node (tree_links st) p\<rparr>) p
       (\<lambda>x. x\<lparr>ilock := init_spinlock (ilock x) ''inode'', irc := init_rc (irc x), inode_no := 0, ivalid := False\<rparr>)"

definition inode_lock :: "nat \<Rightarrow> addr \<Rightarrow> 's itree \<Rightarrow> 's itree res" where
  "inode_lock k p st =
     (if \<not> 0 < sint (rc_count (irc (inode_at st p))) then Inl (Panic ''inode->rc.count > 0'') else lock_inode k st p)"

definition inode_unlock :: "nat \<Rightarrow> addr \<Rightarrow> 's itree \<Rightarrow> 's itree res" where
  "inode_unlock k p st =
     (if \<not> holding_spinlock k (ilock (inode_at st p)) then Inl (Panic ''holding_spinlock(&inode->lock)'')
      else if \<not> 0 < sint (rc_count (irc (inode_at st p))) then Inl (Panic ''inode->rc.count > 0'')
      else unlock_inode k st p)"

definition inode_get :: "'s BlockCache \<Rightarrow> nat \<Rightarrow> usize \<Rightarrow> 's itree \<Rightarrow> (addr \<times> 's itree) res option" where
  "inode_get bc k no st =
     (if \<not> 0 < no then Some (Inl (Panic ''inode_no > 0''))
      else if \<not> no < ucast (num_inodes (isblock st)) then Some (Inl (Panic ''inode_no < sblock->num_inodes''))
      else
        bind_run (Some (lock_tree k st)) (\<lambda>st1.
        case get_inode_inlist st1 no of
          None \<Rightarrow> None
        | Some found \<Rightarrow>
            bind_run (Some (unlock_tree k st1)) (\<lambda>st2.
            if found \<noteq> NULL then Some (Inr (found, upd_inode st2 found (\<lambda>x. x\<lparr>irc := increment_rc (irc x)\<rparr>)))
            else
              bind_run (Some (alloc_object k ((iarena st2)\<lparr>apmem := bc_pool bc (cache_st st2)\<rparr>) (iarena_addr st2))) (\<lambda>(p, ar).
              if p = NULL then Some (Inl (Panic ''inode_get : arena fails to allocate new inode.''))
              else
                let st3 = init_inode (st2\<lparr>iarena := ar, cache_st := bc_set_pool bc (cache_st st2) (apmem ar)\<rparr>) p in
                bind_run (Some (lock_inode k st3 p)) (\<lambda>st4.
                bind_run (inode_sync bc None p False (upd_inode st4 p (\<lambda>x. x\<lparr>inode_no := no\<rparr>))) (\<lambda>(_, st5).
                let st6 = (if no = 1 then upd_entry st5 p (\<lambda>e. e\<lparr>itype := INODE_DIRECTORY\<rparr>) else st5);
                    st7 = upd_inode st6 p (\<lambda>x. x\<lparr>irc := increment_rc (irc x)\<rparr>) in
                bind_run (Some (lock_tree k st7)) (\<lambda>st8.
                let st9 = st8\<lparr>tree_links := snd (merge_list (tree_links st8) (tree_head st8) p)\<rparr> in
                bind_run (Some (unlock_tree k st9)) (\<lambda>st10.
                bind_run (Some (unlock_inode k st10 p)) (\<lambda>st11. Some (Inr (p, st11)))))))))))"

definition init_inodes :: "'s BlockCache \<Rightarrow> nat \<Rightarrow> SuperBlock \<Rightarrow> 's itree \<Rightarrow> 's itree res option" where
  "init_inodes bc k sb st =
     bind_run (Some (init_arena (iarena st) (iarena_addr st) sizeof_Inode (kernel_allocator k))) (\<lambda>ar.
     let st1 = st\<lparr>tree_lock := init_spinlock (tree_lock st) ''inode tree'', tree_links := init_list_node (tree_links st) (tree_head st),
                  isblock := sb, iarena := ar\<rparr> in
     if ROOT_INODE_NO < ucast (num_inodes sb)
     then bind_run (inode_get bc k ROOT_INODE_NO st1) (\<lambda>(p, st2). Some (Inr (st2\<lparr>iroot := p\<rparr>)))
     else Some (Inr st1))"

definition inode_share :: "nat \<Rightarrow> addr \<Rightarrow> 's itree \<Rightarrow> (addr \<times> 's itree) res" where
  "inode_share k p st =
     bind_res (lock_tree k st) (\<lambda>st1.
     bind_res (unlock_tree k (upd_inode st1 p (\<lambda>x. x\<lparr>irc := increment_rc (irc x)\<rparr>))) (\<lambda>st2. Inr (p, st2)))"

text \<open>\<open>inode_clear\<close>: the direct addresses from \<open>i\<close> on, then the words of the indirect block, which the source
  reads from the start of the \<open>Block\<close> structure.\<close>

primrec clear_direct :: "'s BlockCache \<Rightarrow> OpContext option \<Rightarrow> addr \<Rightarrow> nat \<Rightarrow> nat \<Rightarrow> 's itree \<Rightarrow> (OpContext option \<times> 's itree) res option" where
  "clear_direct bc ctx p i 0 st = Some (Inr (ctx, st))"
| "clear_direct bc ctx p i (Suc r) st =
     (let a = iaddrs (ientry (inode_at st p)) ! i in
      if a \<noteq> 0 then
        bind_run (if ivalid (inode_at st p) then bc_free bc (cache_st st) ctx (ucast a) else Some (Inr (ctx, cache_st st))) (\<lambda>(ctx', s).
          clear_direct bc ctx' p (Suc i) r (upd_entry (st\<lparr>cache_st := s\<rparr>) p (\<lambda>e. e\<lparr>iaddrs := (iaddrs e)[i := 0]\<rparr>)))
      else clear_direct bc ctx p (Suc i) r st)"

primrec clear_indirect :: "'s BlockCache \<Rightarrow> OpContext option \<Rightarrow> addr \<Rightarrow> nat \<Rightarrow> nat \<Rightarrow> 's \<Rightarrow> (OpContext option \<times> 's) res option" where
  "clear_indirect bc ctx b i 0 s = Some (Inr (ctx, s))"
| "clear_indirect bc ctx b i (Suc r) s =
     bind_run (Some (load_bytes bc s b (4 * i) 4)) (\<lambda>w.
       if (le_word w :: u32) \<noteq> 0
       then bind_run (bc_free bc s ctx (ucast (le_word w :: u32))) (\<lambda>(ctx', s'). clear_indirect bc ctx' b (Suc i) r s')
       else clear_indirect bc ctx b (Suc i) r s)"

definition inode_clear :: "'s BlockCache \<Rightarrow> OpContext option \<Rightarrow> addr \<Rightarrow> 's itree \<Rightarrow> (OpContext option \<times> 's itree) res option" where
  "inode_clear bc ctx p st =
     bind_run (clear_direct bc ctx p 0 INODE_NUM_DIRECT st) (\<lambda>(ctx1, st1).
     bind_run
       (let ind = indirect (ientry (inode_at st1 p)) in
        if ind \<noteq> 0 \<and> ivalid (inode_at st1 p) then
          bind_run (bc_acquire bc (cache_st st1) (ucast ind)) (\<lambda>(b, s1).
          bind_run (clear_indirect bc ctx1 b 0 INODE_NUM_INDIRECT s1) (\<lambda>(ctx2, s2).
          bind_run (Some (bc_release bc s2 b)) (\<lambda>s3.
          bind_run (bc_free bc s3 ctx2 (ucast ind)) (\<lambda>(ctx3, s4). Some (Inr (ctx3, st1\<lparr>cache_st := s4\<rparr>))))))
        else Some (Inr (ctx1, st1))) (\<lambda>(ctx4, st2).
     inode_sync bc ctx4 p True (upd_entry st2 p (\<lambda>e. e\<lparr>indirect := 0, num_bytes := 0\<rparr>))))"

definition inode_put :: "'s BlockCache \<Rightarrow> nat \<Rightarrow> OpContext option \<Rightarrow> addr \<Rightarrow> 's itree \<Rightarrow> (OpContext option \<times> 's itree) res option" where
  "inode_put bc k ctx p st =
     bind_run (Some (lock_inode k st p)) (\<lambda>st1.
     let st2 = upd_inode st1 p (\<lambda>x. x\<lparr>irc := snd (decrement_rc (irc x))\<rparr>) in
     if rc_count (irc (inode_at st2 p)) \<noteq> 0 then bind_run (Some (unlock_inode k st2 p)) (\<lambda>st3. Some (Inr (ctx, st3)))
     else
       bind_run
         (if num_links (ientry (inode_at st2 p)) = 0 \<and> inode_no (inode_at st2 p) \<noteq> 1 then
            bind_run (inode_clear bc ctx p st2) (\<lambda>(ctx1, st3). inode_sync bc ctx1 p True (upd_entry st3 p (\<lambda>_. zero_entry)))
          else Some (Inr (ctx, st2))) (\<lambda>(ctx2, st4).
       bind_run (Some (lock_tree k st4)) (\<lambda>st5.
       bind_run (Some (unlock_tree k (st5\<lparr>tree_links := snd (detach_from_list (tree_links st5) p)\<rparr>))) (\<lambda>st6.
       bind_run (Some (unlock_inode k st6 p)) (\<lambda>st7.
       bind_run (Some (free_object k ((iarena st7)\<lparr>apmem := bc_pool bc (cache_st st7)\<rparr>) p)) (\<lambda>ar.
         Some (Inr (ctx2, st7\<lparr>iarena := ar, cache_st := bc_set_pool bc (cache_st st7) (apmem ar)\<rparr>))))))))"

subsection \<open>File contents\<close>

text \<open>\<open>inode_map\<close> returns the block number and whether the inode was modified. The entry of an indirect
  block is read and written in the structure of the block after it is released.\<close>

definition inode_map :: "'s BlockCache \<Rightarrow> OpContext option \<Rightarrow> addr \<Rightarrow> nat \<Rightarrow> bool \<Rightarrow> 's itree \<Rightarrow>
    (usize \<times> bool \<times> OpContext option \<times> 's itree) res option" where
  "inode_map bc ctx p offset modified st =
     (if \<not> offset < INODE_MAX_BYTES then Some (Inl (Panic ''offset < INODE_MAX_BYTES''))
      else
        let index = offset div BLOCK_SIZE in
        if index < INODE_NUM_DIRECT then
          (let a = iaddrs (ientry (inode_at st p)) ! index in
           if a \<noteq> 0 then Some (Inr (ucast a, modified, ctx, st))
           else
             bind_run (bc_alloc bc (cache_st st) ctx) (\<lambda>(no, ctx1, s).
               Some (Inr (ucast (ucast no :: u32), True, ctx1,
                 upd_entry (st\<lparr>cache_st := s\<rparr>) p (\<lambda>e. e\<lparr>iaddrs := (iaddrs e)[index := ucast no]\<rparr>)))))
        else
          bind_run
            (if indirect (ientry (inode_at st p)) = 0 then
               bind_run (bc_alloc bc (cache_st st) ctx) (\<lambda>(no, ctx1, s).
                 Some (Inr (True, ctx1, upd_entry (st\<lparr>cache_st := s\<rparr>) p (\<lambda>e. e\<lparr>indirect := ucast no\<rparr>))))
             else Some (Inr (modified, ctx, st))) (\<lambda>(modified1, ctx1, st1).
          bind_run (bc_acquire bc (cache_st st1) (ucast (indirect (ientry (inode_at st1 p))))) (\<lambda>(b, s2).
          bind_run (Some (bc_release bc s2 b)) (\<lambda>s3.
          bind_run (Some (load_bytes bc s3 b (4 * (index - INODE_NUM_DIRECT)) 4)) (\<lambda>w.
            if (le_word w :: u32) \<noteq> 0 then Some (Inr (ucast (le_word w :: u32), modified1, ctx1, st1\<lparr>cache_st := s3\<rparr>))
            else
              bind_run (bc_alloc bc s3 ctx1) (\<lambda>(no, ctx2, s4).
              bind_run (Some (store_bytes bc s4 b (4 * (index - INODE_NUM_DIRECT)) (le_bytes 4 (ucast no :: u32)))) (\<lambda>s5.
                Some (Inr (ucast (ucast no :: u32), True, ctx2, st1\<lparr>cache_st := s5\<rparr>)))))))))"

definition inode_map2 :: "'s BlockCache \<Rightarrow> addr \<Rightarrow> nat \<Rightarrow> 's itree \<Rightarrow> (usize \<times> 's itree) res option" where
  "inode_map2 bc p offset st =
     (if \<not> offset < INODE_MAX_BYTES then Some (Inl (Panic ''offset < INODE_MAX_BYTES''))
      else
        let index = offset div BLOCK_SIZE in
        if index < INODE_NUM_DIRECT then
          (let a = iaddrs (ientry (inode_at st p)) ! index in
           if a = 0 then Some (Inl (Panic ''entry->addrs[block_index]'')) else Some (Inr (ucast a, st)))
        else if indirect (ientry (inode_at st p)) = 0 then Some (Inl (Panic ''entry->indirect''))
        else
          bind_run (bc_acquire bc (cache_st st) (ucast (indirect (ientry (inode_at st p))))) (\<lambda>(b, s1).
          bind_run (Some (load_bytes bc s1 b (4 * (index - INODE_NUM_DIRECT)) 4)) (\<lambda>w.
          bind_run (Some (bc_release bc s1 b)) (\<lambda>s2.
            Some (Inr (ucast (le_word w :: u32), st\<lparr>cache_st := s2\<rparr>))))))"

text \<open>The loops of \<open>inode_read\<close> and \<open>inode_write\<close> at file position \<open>i\<close>; they access the \<open>Block\<close> structure from
  its first byte on.\<close>

function read_loop :: "'s BlockCache \<Rightarrow> addr \<Rightarrow> nat \<Rightarrow> nat \<Rightarrow> nat \<Rightarrow> u8 list \<Rightarrow> 's itree \<Rightarrow> (u8 list \<times> 's itree) res option" where
  "read_loop bc p offset stop i dest st =
     (if \<not> i < stop then Some (Inr (dest, st))
      else
        let start = max i offset - i; term = min (i + BLOCK_SIZE) stop - i in
        bind_run (inode_map2 bc p i st) (\<lambda>(no, st1).
        bind_run (bc_acquire bc (cache_st st1) no) (\<lambda>(b, s2).
        bind_run (Some (load_bytes bc s2 b start (term - start))) (\<lambda>bs.
        bind_run (Some (bc_release bc s2 b)) (\<lambda>s3.
          read_loop bc p offset stop (i + BLOCK_SIZE) (dest @ bs) (st1\<lparr>cache_st := s3\<rparr>))))))"
  by pat_completeness auto
termination by (relation "measure (\<lambda>(bc, p, offset, stop, i, dest, st). stop - i)") auto

definition inode_read :: "'s BlockCache \<Rightarrow> addr \<Rightarrow> usize \<Rightarrow> usize \<Rightarrow> 's itree \<Rightarrow> (u8 list \<times> 's itree) res option" where
  "inode_read bc p offset cnt st =
     (let stop = offset + cnt; nb = ucast (num_bytes (ientry (inode_at st p))) in
      if \<not> offset \<le> nb then Some (Inl (Panic ''offset <= entry->num_bytes''))
      else if \<not> stop \<le> nb then Some (Inl (Panic ''end <= entry->num_bytes''))
      else if \<not> offset \<le> stop then Some (Inl (Panic ''offset <= end''))
      else read_loop bc p (unat offset) (unat stop) (unat (round_down offset (of_nat BLOCK_SIZE))) [] st)"

function write_loop :: "'s BlockCache \<Rightarrow> addr \<Rightarrow> nat \<Rightarrow> nat \<Rightarrow> nat \<Rightarrow> u8 list \<Rightarrow> bool \<Rightarrow> OpContext option \<Rightarrow> 's itree \<Rightarrow>
    (bool \<times> OpContext option \<times> 's itree) res option" where
  "write_loop bc p offset stop i src modify ctx st =
     (if \<not> i \<le> stop then Some (Inr (modify, ctx, st))
      else
        let start = max i offset - i; term = min (i + BLOCK_SIZE) stop - i in
        bind_run (inode_map bc ctx p i modify st) (\<lambda>(no, modify1, ctx1, st1).
        bind_run (bc_acquire bc (cache_st st1) no) (\<lambda>(b, s2).
        bind_run (Some (store_bytes bc s2 b start (take (term - start) src))) (\<lambda>s3.
        bind_run (Some (bc_release bc s3 b)) (\<lambda>s4.
          write_loop bc p offset stop (i + BLOCK_SIZE) (drop (term - start) src) modify1 ctx1 (st1\<lparr>cache_st := s4\<rparr>))))))"
  by pat_completeness auto
termination by (relation "measure (\<lambda>(bc, p, offset, stop, i, src, modify, ctx, st). Suc stop - i)") auto

text \<open>\<open>src\<close> holds the \<open>count\<close> bytes to write; the new size is stored in 16 bits.\<close>

definition inode_write :: "'s BlockCache \<Rightarrow> OpContext option \<Rightarrow> addr \<Rightarrow> u8 list \<Rightarrow> usize \<Rightarrow> usize \<Rightarrow> 's itree \<Rightarrow>
    (OpContext option \<times> 's itree) res option" where
  "inode_write bc ctx p src offset cnt st =
     (let stop = offset + cnt; nb = ucast (num_bytes (ientry (inode_at st p))) in
      if \<not> offset \<le> nb then Some (Inl (Panic ''offset <= entry->num_bytes''))
      else if \<not> stop \<le> of_nat INODE_MAX_BYTES then Some (Inl (Panic ''end <= INODE_MAX_BYTES''))
      else if \<not> offset \<le> stop then Some (Inl (Panic ''offset <= end''))
      else
        bind_run (write_loop bc p (unat offset) (unat stop) (unat (round_down offset (of_nat BLOCK_SIZE))) src False ctx st)
          (\<lambda>(modify, ctx1, st1).
          let nb1 = ucast (num_bytes (ientry (inode_at st1 p))) in
          if modify \<or> nb1 < stop
          then inode_sync bc ctx1 p True (upd_entry st1 p (\<lambda>e. e\<lparr>num_bytes := ucast (max stop nb1)\<rparr>))
          else Some (Inr (ctx1, st1))))"

subsection \<open>Directories\<close>

text \<open>The directory entries in \<open>buf\<close> from \<open>in_block\<close> on, the block being at \<open>index\<close> of a directory of \<open>nb\<close> bytes:
  the inode number and the index of the first entry with the name.\<close>

function scan_entries :: "u8 list \<Rightarrow> u8 list \<Rightarrow> nat \<Rightarrow> nat \<Rightarrow> nat \<Rightarrow> nat \<Rightarrow> (u16 \<times> nat) option res" where
  "scan_entries name buf len nb index in_block =
     (if \<not> in_block < len then Inr None
      else if \<not> in_block + index < nb then Inl (Panic ''in_block+block_index < entry->num_bytes'')
      else if take (length name + 1) (drop (in_block + 2) buf) = name @ [0]
      then Inr (Some (le_word (take 2 (drop in_block buf)), index + in_block))
      else scan_entries name buf len nb index (in_block + sizeof_DirEntry))"
  by pat_completeness auto
termination by (relation "measure (\<lambda>(name, buf, len, nb, index, in_block). len - in_block)") auto

function lookup_loop :: "'s BlockCache \<Rightarrow> addr \<Rightarrow> u8 list \<Rightarrow> nat \<Rightarrow> nat \<Rightarrow> 's itree \<Rightarrow> ((u16 \<times> nat) option \<times> 's itree) res option" where
  "lookup_loop bc p name nb index st =
     (if \<not> index \<le> nb then Some (Inr (None, st))
      else
        let len = min (index + BLOCK_SIZE) nb - index in
        bind_run (inode_read bc p (of_nat index) (of_nat len) st) (\<lambda>(buf, st1).
        bind_run (Some (scan_entries name buf len nb index 0)) (\<lambda>r.
          case r of Some x \<Rightarrow> Some (Inr (Some x, st1)) | None \<Rightarrow> lookup_loop bc p name nb (index + BLOCK_SIZE) st1)))"
  by pat_completeness auto
termination by (relation "measure (\<lambda>(bc, p, name, nb, index, st). Suc nb - index)") auto

text \<open>The results of \<open>inode_lookup\<close>: the inode number, and the value stored at \<open>*index\<close> if any.\<close>

definition inode_lookup :: "'s BlockCache \<Rightarrow> addr \<Rightarrow> u8 list \<Rightarrow> 's itree \<Rightarrow> (usize \<times> usize option \<times> 's itree) res option" where
  "inode_lookup bc p name st =
     (let e = ientry (inode_at st p) in
      if itype e \<noteq> INODE_DIRECTORY then Some (Inl (Panic ''entry->type == INODE_DIRECTORY''))
      else if unat (num_bytes e) mod sizeof_DirEntry \<noteq> 0 then Some (Inl (Panic ''entry->num_bytes % sizeof(DirEntry) == 0''))
      else if \<not> length name < FILE_NAME_MAX_LENGTH then Some (Inl (Panic ''strlen(name) < FILE_NAME_MAX_LENGTH''))
      else
        bind_run (lookup_loop bc p name (unat (num_bytes e)) 0 st) (\<lambda>(r, st1).
          Some (Inr (case r of None \<Rightarrow> (0, None, st1) | Some (no, i) \<Rightarrow> (ucast no, Some (of_nat i), st1)))))"

definition dir_entry_bytes :: "usize \<Rightarrow> u8 list \<Rightarrow> u8 list" where
  "dir_entry_bytes no name =
     le_bytes 2 (ucast no :: u16) @ take FILE_NAME_MAX_LENGTH (name @ replicate FILE_NAME_MAX_LENGTH 0)"

definition inode_insert :: "'s BlockCache \<Rightarrow> OpContext option \<Rightarrow> addr \<Rightarrow> u8 list \<Rightarrow> usize \<Rightarrow> 's itree \<Rightarrow>
    (usize \<times> OpContext option \<times> 's itree) res option" where
  "inode_insert bc ctx p name no st =
     (let e = ientry (inode_at st p); nb = ucast (num_bytes e) :: usize in
      if itype e \<noteq> INODE_DIRECTORY then Some (Inl (Panic ''entry->type == INODE_DIRECTORY''))
      else if unat (num_bytes e) mod sizeof_DirEntry \<noteq> 0 then Some (Inl (Panic ''entry->num_bytes % sizeof(DirEntry) == 0''))
      else if \<not> unat (num_bytes e) < INODE_MAX_BYTES then Some (Inl (Panic ''entry->num_bytes < INODE_MAX_BYTES''))
      else
        bind_run (inode_write bc ctx p (dir_entry_bytes no name) nb (of_nat sizeof_DirEntry) st) (\<lambda>(ctx1, st1).
          Some (Inr (nb, ctx1, st1))))"

definition inode_remove :: "'s BlockCache \<Rightarrow> OpContext option \<Rightarrow> addr \<Rightarrow> usize \<Rightarrow> 's itree \<Rightarrow> (OpContext option \<times> 's itree) res option" where
  "inode_remove bc ctx p index st =
     (let e = ientry (inode_at st p) in
      if itype e \<noteq> INODE_DIRECTORY then Some (Inl (Panic ''entry->type == INODE_DIRECTORY''))
      else if \<not> unat index < INODE_MAX_BYTES then Some (Inl (Panic ''index < INODE_MAX_BYTES''))
      else if unat index mod sizeof_DirEntry \<noteq> 0 then Some (Inl (Panic ''index % sizeof(DirEntry) == 0''))
      else if ucast (num_bytes e) \<le> index then Some (Inr (ctx, st))
      else
        bind_run (inode_write bc ctx p (replicate sizeof_DirEntry 0) index (of_nat sizeof_DirEntry) st) (\<lambda>(ctx1, st1).
          Some (Inr (ctx1,
            if index + of_nat sizeof_DirEntry = ucast (num_bytes (ientry (inode_at st1 p)))
            then upd_entry st1 p (\<lambda>x. x\<lparr>num_bytes := ucast index\<rparr>) else st1))))"

subsection \<open>The table of functions\<close>

text \<open>\<open>InodeTree\<close> of \<open>inode.h\<close>, what the inode layer offers to the layers above, and the tree \<open>inodes\<close> over a block
  cache for CPU \<open>k\<close>. \<open>sync\<close>, \<open>clear\<close> and the data operations are for callers that hold the lock of the inode.\<close>

record 's InodeTree =
  it_root :: "'s itree \<Rightarrow> addr"
  it_alloc :: "OpContext option \<Rightarrow> u16 \<Rightarrow> 's itree \<Rightarrow> (usize \<times> OpContext option \<times> 's itree) res option"
  it_lock :: "addr \<Rightarrow> 's itree \<Rightarrow> 's itree res"
  it_unlock :: "addr \<Rightarrow> 's itree \<Rightarrow> 's itree res"
  it_sync :: "OpContext option \<Rightarrow> addr \<Rightarrow> bool \<Rightarrow> 's itree \<Rightarrow> (OpContext option \<times> 's itree) res option"
  it_get :: "usize \<Rightarrow> 's itree \<Rightarrow> (addr \<times> 's itree) res option"
  it_clear :: "OpContext option \<Rightarrow> addr \<Rightarrow> 's itree \<Rightarrow> (OpContext option \<times> 's itree) res option"
  it_share :: "addr \<Rightarrow> 's itree \<Rightarrow> (addr \<times> 's itree) res"
  it_put :: "OpContext option \<Rightarrow> addr \<Rightarrow> 's itree \<Rightarrow> (OpContext option \<times> 's itree) res option"
  it_read :: "addr \<Rightarrow> usize \<Rightarrow> usize \<Rightarrow> 's itree \<Rightarrow> (u8 list \<times> 's itree) res option"
  it_write :: "OpContext option \<Rightarrow> addr \<Rightarrow> u8 list \<Rightarrow> usize \<Rightarrow> usize \<Rightarrow> 's itree \<Rightarrow> (OpContext option \<times> 's itree) res option"
  it_lookup :: "addr \<Rightarrow> u8 list \<Rightarrow> 's itree \<Rightarrow> (usize \<times> usize option \<times> 's itree) res option"
  it_insert :: "OpContext option \<Rightarrow> addr \<Rightarrow> u8 list \<Rightarrow> usize \<Rightarrow> 's itree \<Rightarrow> (usize \<times> OpContext option \<times> 's itree) res option"
  it_remove :: "OpContext option \<Rightarrow> addr \<Rightarrow> usize \<Rightarrow> 's itree \<Rightarrow> (OpContext option \<times> 's itree) res option"

definition inodes :: "'s BlockCache \<Rightarrow> nat \<Rightarrow> 's InodeTree" where
  "inodes bc k = \<lparr>it_root = iroot, it_alloc = inode_alloc bc, it_lock = inode_lock k,
     it_unlock = inode_unlock k, it_sync = inode_sync bc, it_get = inode_get bc k,
     it_clear = inode_clear bc, it_share = inode_share k, it_put = inode_put bc k, it_read = inode_read bc,
     it_write = inode_write bc, it_lookup = inode_lookup bc, it_insert = inode_insert bc, it_remove = inode_remove bc\<rparr>"

end
