(* ===== verification/KInodeSpec.thy ===== *)
theory KInodeSpec
  imports KInode
begin

text \<open>
  What the inode layer guarantees over any block cache that obeys the laws of \<open>KCacheIface\<close>, and over the
  kernel's: the encoding of inode entries, synchronisation and allocation of inodes on disk, reference
  counting in memory. The last section shows what file reads and writes do to the cached block.\<close>

subsection \<open>The encoding of entries\<close>

lemma u32s_of_bytes_concat: "u32s_of_bytes (length ws) (concat (map (le_bytes 4) ws) @ r) = (ws :: u32 list)"
  by (induction ws) auto

lemma length_concat_le4: "length (concat (map (le_bytes 4) ws)) = 4 * length (ws :: u32 list)"
  by (induction ws) auto

lemma length_entry_bytes [simp]: "length (iaddrs e) = INODE_NUM_DIRECT \<Longrightarrow> length (entry_bytes e) = sizeof_InodeEntry"
  by (simp add: entry_bytes_def length_concat_le4)

lemma bytes_entry_bytes:
  assumes "length (iaddrs e) = INODE_NUM_DIRECT"
  shows "bytes_entry (entry_bytes e @ r) = e"
proof -
  define A where "A = concat (map (le_bytes 4) (iaddrs e))"
  have A: "length A = 48" using assms by (simp add: A_def length_concat_le4)
  have "u32s_of_bytes 12 (A @ z) = iaddrs e" for z using u32s_of_bytes_concat [of "iaddrs e"] assms by (simp add: A_def)
  then show ?thesis using A by (simp add: bytes_entry_def entry_bytes_def A_def [symmetric])
qed

lemma concat_u32s: "length bs = 4 * n \<Longrightarrow> concat (map (le_bytes 4) (u32s_of_bytes n bs)) = bs"
proof (induction n arbitrary: bs)
  case (Suc n)
  then have "le_bytes 4 (le_word (take 4 bs) :: u32) = take 4 bs" by (intro le_bytes_le_word) auto
  then show ?case using Suc by simp
qed simp

lemma length_u32s [simp]: "length (u32s_of_bytes n bs) = n"
  by (induction n arbitrary: bs) auto

lemma split_at: "m \<le> n \<Longrightarrow> take m (drop k bs) @ take (n - m) (drop (k + m) bs) = take n (drop k bs)"
  by (metis add.commute drop_drop le_add_diff_inverse take_add)

lemma le_bytes_take2: "k + 2 \<le> length bs \<Longrightarrow> le_bytes 2 (le_word (take 2 (drop k bs)) :: u16) = take 2 (drop k bs)"
  by (rule le_bytes_le_word) auto

lemma u32s_take: "4 * n \<le> length bs \<Longrightarrow> u32s_of_bytes n bs = u32s_of_bytes n (take (4 * n) bs)"
proof (induction n arbitrary: bs)
  case (Suc n)
  have "u32s_of_bytes n (drop 4 bs) = u32s_of_bytes n (take (4 * n) (drop 4 bs))" by (rule Suc.IH) (use Suc.prems in auto)
  then show ?case by (simp add: take_drop add.commute)
qed simp

lemma entry_bytes_entry:
  assumes "length bs = sizeof_InodeEntry"
  shows "entry_bytes (bytes_entry bs) = bs"
proof -
  have A: "concat (map (le_bytes 4) (u32s_of_bytes 12 (drop 12 bs))) = take 48 (drop 12 bs)"
    using u32s_take [of 12 "drop 12 bs"] concat_u32s [of "take 48 (drop 12 bs)" 12] assms by simp
  have I: "le_bytes 4 (le_word (take 4 (drop 60 bs)) :: u32) = take 4 (drop 60 bs)" by (rule le_bytes_le_word) (use assms in auto)
  have "entry_bytes (bytes_entry bs) = take 2 bs @ take 2 (drop 2 bs) @ take 2 (drop 4 bs) @ take 2 (drop 6 bs) @ take 2 (drop 8 bs) @
      take 2 (drop 10 bs) @ take 48 (drop 12 bs) @ take 4 (drop 60 bs)"
    using le_bytes_take2 [of 0 bs] assms by (simp add: entry_bytes_def bytes_entry_def le_bytes_take2 A I)
  also have "\<dots> = take 64 (drop 0 bs)"
    using split_at [of 48 52 12 bs] split_at [of 2 54 10 bs] split_at [of 2 56 8 bs] split_at [of 2 58 6 bs]
      split_at [of 2 60 4 bs] split_at [of 2 62 2 bs] take_add [of 2 62 bs] by simp
  finally show ?thesis using assms by simp
qed

subsection \<open>Inodes on disk\<close>

text \<open>The entry of inode \<open>no\<close> in a view \<open>v\<close> of the blocks, and the view after it is overwritten.\<close>

definition slot_bytes :: "'s itree \<Rightarrow> (usize \<Rightarrow> u8 list) \<Rightarrow> usize \<Rightarrow> u8 list" where
  "slot_bytes st v no = take sizeof_InodeEntry (drop (sizeof_InodeEntry * (unat no mod INODE_PER_BLOCK)) (v (to_block_no st no)))"

definition put_slot :: "'s itree \<Rightarrow> (usize \<Rightarrow> u8 list) \<Rightarrow> usize \<Rightarrow> u8 list \<Rightarrow> usize \<Rightarrow> u8 list" where
  "put_slot st v no bs = v(to_block_no st no :=
     take (sizeof_InodeEntry * (unat no mod INODE_PER_BLOCK)) (v (to_block_no st no)) @ bs @
     drop (sizeof_InodeEntry * (unat no mod INODE_PER_BLOCK) + length bs) (v (to_block_no st no)))"

definition entry_at :: "'s itree \<Rightarrow> (usize \<Rightarrow> u8 list) \<Rightarrow> usize \<Rightarrow> InodeEntry" where
  "entry_at st v no = bytes_entry (slot_bytes st v no)"

lemma slot_fits: "sizeof_InodeEntry * (n mod INODE_PER_BLOCK) + sizeof_InodeEntry \<le> BLOCK_SIZE"
  using mod_less_divisor [of INODE_PER_BLOCK n] by linarith

lemma le_word_type: "le_word (take 2 (drop (sizeof_InodeEntry * (unat no mod INODE_PER_BLOCK)) (v (to_block_no st no)))) = itype (entry_at st v no)"
  by (simp add: entry_at_def slot_bytes_def bytes_entry_def min_def)

lemma slot_put_same:
  "length (v (to_block_no st no)) = BLOCK_SIZE \<Longrightarrow> length bs = sizeof_InodeEntry \<Longrightarrow> slot_bytes st (put_slot st v no bs) no = bs"
  using slot_fits [of "unat no"] by (simp add: slot_bytes_def put_slot_def min_def)

lemma slot_put_other:
  assumes "length (v (to_block_no st no)) = BLOCK_SIZE" "length bs = sizeof_InodeEntry"
    and "to_block_no st n \<noteq> to_block_no st no \<or> unat n mod INODE_PER_BLOCK \<noteq> unat no mod INODE_PER_BLOCK"
  shows "slot_bytes st (put_slot st v no bs) n = slot_bytes st v n"
proof (cases "to_block_no st n = to_block_no st no")
  case True
  define a where "a = unat n mod INODE_PER_BLOCK"
  define b where "b = unat no mod INODE_PER_BLOCK"
  have ab: "a \<noteq> b" "b < INODE_PER_BLOCK" using assms(3) True by (auto simp: a_def b_def)
  let ?w = "v (to_block_no st no)"
  define w' where "w' = take (64 * b) ?w @ bs @ drop (64 * b + 64) ?w"
  have lw: "length w' = BLOCK_SIZE" using assms(1,2) ab(2) by (simp add: w'_def)
  have nth: "w' ! k = ?w ! k" if "k < BLOCK_SIZE" "k < 64 * b \<or> 64 * b + 64 \<le> k" for k
    using that assms(1,2) ab(2) by (auto simp: w'_def nth_append)
  have "take 64 (drop (64 * a) w') = take 64 (drop (64 * a) ?w)"
  proof (rule nth_equalityI)
    show "length (take 64 (drop (64 * a) w')) = length (take 64 (drop (64 * a) ?w))" using assms(1) lw by simp
  next
    fix i assume "i < length (take 64 (drop (64 * a) w'))"
    then have i: "i < 64" "64 * a + i < BLOCK_SIZE" using lw by auto
    have "64 * a + i < 64 * b \<or> 64 * b + 64 \<le> 64 * a + i" using i(1) ab(1) by presburger
    then show "take 64 (drop (64 * a) w') ! i = take 64 (drop (64 * a) ?w) ! i"
      using nth [OF i(2)] i lw assms(1) by simp
  qed
  then have "take 64 (drop (64 * a) (take (64 * b) ?w @ bs @ drop (64 * b + 64) ?w)) = take 64 (drop (64 * a) ?w)"
    by (simp only: w'_def)
  then show ?thesis using True assms(2) by (simp add: slot_bytes_def put_slot_def a_def b_def)
qed (simp add: slot_bytes_def put_slot_def)

definition used :: "'s itree \<Rightarrow> (usize \<Rightarrow> u8 list) \<Rightarrow> nat \<Rightarrow> bool" where
  "used st v n \<longleftrightarrow> itype (entry_at st v (of_nat n)) \<noteq> INODE_INVALID"

lemma used_cong:
  "to_block_no st' = to_block_no st \<Longrightarrow> used st' v n = used st v n"
  by (simp add: used_def entry_at_def slot_bytes_def)

context block_cache
begin

text \<open>Acquiring the block of an inode that exists.\<close>

lemma sync_reads:
  assumes ok: "okay s1" and h: "held s1 b = Some (to_block_no st no)"
  shows "load_bytes bc s1 b (get_entry no) 2 = Inr (take 2 (drop (sizeof_InodeEntry * (unat no mod INODE_PER_BLOCK)) (view s1 (to_block_no st no))))"
    and "load_bytes bc s1 b (get_entry no) sizeof_InodeEntry = Inr (slot_bytes st (view s1) no)"
  using load_bytes_ok [OF ok h] slot_fits [of "unat no"] by (simp_all add: get_entry_def slot_bytes_def)

lemma sync_stores:
  assumes ok: "okay s1" and h: "held s1 b = Some (to_block_no st no)" and l: "length bs = sizeof_InodeEntry"
  shows "\<exists>s2. store_bytes bc s1 b (get_entry no) bs = Inr s2 \<and> okay s2 \<and> held s2 = held s1 \<and> view s2 = put_slot st (view s1) no bs"
  using store_bytes_ok [OF ok h, of "sizeof_InodeEntry * (unat no mod INODE_PER_BLOCK)" bs] slot_fits [of "unat no"] l
  by (simp add: get_entry_def put_slot_def)

lemma inode_sync_post:
  fixes st :: "'s itree" and p
  defines "no \<equiv> inode_no (inode_at st p)"
  assumes ok: "okay (cache_st st)" and small: "unat (to_block_no st no) < 2 ^ 32"
    and la: "length (iaddrs (ientry (inode_at st p))) = INODE_NUM_DIRECT"
    and run: "inode_sync bc ctx p do_write st = Some (Inr (ctx', st'))"
  shows "okay (cache_st st') \<and> held (cache_st st') = held (cache_st st) \<and> itype (entry_at st (view (cache_st st)) no) \<noteq> INODE_INVALID \<and>
    0 < no \<and> no < ucast (num_inodes (isblock st)) \<and>
    (if \<not> ivalid (inode_at st p) then
       view (cache_st st') = view (cache_st st) \<and>
       st' = upd_inode st p (\<lambda>x. x\<lparr>ientry := entry_at st (view (cache_st st)) no, ivalid := True\<rparr>)\<lparr>cache_st := cache_st st'\<rparr>
     else st' = st\<lparr>cache_st := cache_st st'\<rparr> \<and>
       view (cache_st st') = (if do_write then put_slot st (view (cache_st st)) no (entry_bytes (ientry (inode_at st p))) else view (cache_st st)))"
proof -
  let ?s = "cache_st st" and ?i = "inode_at st p" and ?blk = "to_block_no st no" and ?off = "get_entry no"
  note run' = run [unfolded inode_sync_def Let_def, folded no_def]
  from run' obtain b s1 where acq: "bc_acquire bc ?s ?blk = Some (Inr (b, s1))" by auto
  have a: "okay s1" "held ?s b = None" "held s1 = (held ?s)(b \<mapsto> ?blk)" "clean s1 b" "view s1 = view ?s"
    using acquire_ok [OF ok small acq] by auto
  have h: "held s1 b = Some ?blk" using a(3) by simp
  have hb: "(held s1)(b := None) = held ?s" using a(2,3) by (auto simp: fun_eq_iff)
  note reads = sync_reads [OF a(1) h, unfolded a(5)]
  have ty: "le_word (take 2 (drop (sizeof_InodeEntry * (unat no mod INODE_PER_BLOCK)) (view ?s ?blk))) = itype (entry_at st (view ?s) no)"
    by (rule le_word_type)
  from run' have g: "\<not> (no = 0 \<or> ucast (num_inodes (isblock st)) \<le> no)" "itype (entry_at st (view ?s) no) \<noteq> INODE_INVALID"
    by (auto simp: acq reads ty split: if_splits)
  then have n: "0 < no" "no < ucast (num_inodes (isblock st))" by (auto simp: word_gt_0)
  consider (ld) "\<not> ivalid ?i" | (wr) "ivalid ?i" "do_write" | (nn) "ivalid ?i" "\<not> do_write" by blast
  then show ?thesis
  proof cases
    case ld
    obtain s' where s': "bc_release bc s1 b = Inr s'" "okay s'" "held s' = (held s1)(b := None)" "view s' = view s1"
      using release_ok [OF a(1) h a(4)] by blast
    from run' ld g s'(1) have "st' = upd_inode st p (\<lambda>x. x\<lparr>ientry := entry_at st (view ?s) no, ivalid := True\<rparr>)\<lparr>cache_st := s'\<rparr>"
      by (simp add: acq reads ty upd_inode_def entry_at_def)
    with ld g(2) n s' a(5) hb show ?thesis by simp
  next
    case wr
    obtain s2 where s2: "store_bytes bc s1 b ?off (entry_bytes (ientry ?i)) = Inr s2" "okay s2" "held s2 = held s1"
        "view s2 = put_slot st (view s1) no (entry_bytes (ientry ?i))"
      using sync_stores [OF a(1) h, of "entry_bytes (ientry ?i)"] la by auto
    from run' wr g s2(1) obtain s3 where sy: "bc_sync bc s2 ctx b = Inr (ctx', s3)" by (auto simp: acq reads ty)
    have s3: "okay s3" "held s3 = held s2" "clean s3 b" "view s3 = view s2" using sync_ok [OF s2(2) _ sy] h s2(3) by auto
    obtain s' where s': "bc_release bc s3 b = Inr s'" "okay s'" "held s' = (held s3)(b := None)" "view s' = view s3"
      using release_ok [OF s3(1) _ s3(3)] h s2(3) s3(2) by auto
    from run' wr g s2(1) sy s'(1) have "st' = st\<lparr>cache_st := s'\<rparr>" by (simp add: acq reads ty)
    with wr g(2) n s' s3 s2 a(5) hb show ?thesis by simp
  next
    case nn
    obtain s' where s': "bc_release bc s1 b = Inr s'" "okay s'" "held s' = (held s1)(b := None)" "view s' = view s1"
      using release_ok [OF a(1) h a(4)] by blast
    from run' nn g s'(1) have "st' = st\<lparr>cache_st := s'\<rparr>" by (simp add: acq reads ty)
    with nn g(2) n s' a(5) hb show ?thesis by simp
  qed
qed

lemma inode_sync_returns:
  fixes st :: "'s itree" and p
  defines "no \<equiv> inode_no (inode_at st p)"
  assumes ok: "okay (cache_st st)" and small: "unat (to_block_no st no) < 2 ^ 32"
    and no: "0 < no" "no < ucast (num_inodes (isblock st))" and la: "length (iaddrs (ientry (inode_at st p))) = INODE_NUM_DIRECT"
    and acq: "bc_acquire bc (cache_st st) (to_block_no st no) = Some (Inr (b, s1))"
    and ty: "itype (entry_at st (view (cache_st st)) no) \<noteq> INODE_INVALID"
  shows "\<exists>st'. inode_sync bc None p do_write st = Some (Inr (None, st'))"
proof -
  let ?i = "inode_at st p" and ?blk = "to_block_no st no" and ?off = "get_entry no"
  have a: "okay s1" "held s1 = (held (cache_st st))(b \<mapsto> ?blk)" "clean s1 b" "view s1 = view (cache_st st)"
    using acquire_ok [OF ok small acq] by auto
  have h: "held s1 b = Some ?blk" using a(2) by simp
  note reads = sync_reads [OF a(1) h, unfolded a(4)]
  have t: "le_word (take 2 (drop (sizeof_InodeEntry * (unat no mod INODE_PER_BLOCK)) (view (cache_st st) ?blk))) \<noteq> INODE_INVALID"
    using le_word_type [of no "view (cache_st st)" st] ty by simp
  obtain s2 where s2: "store_bytes bc s1 b ?off (entry_bytes (ientry ?i)) = Inr s2" "okay s2" "held s2 = held s1"
    using sync_stores [OF a(1) h, of "entry_bytes (ientry ?i)"] la by auto
  have h2: "held s2 b = Some ?blk" using s2(3) h by simp
  obtain s3 where sy: "bc_sync bc s2 None b = Inr (None, s3)" using sync_direct [OF s2(2) h2] by blast
  have s3: "okay s3" "held s3 b = Some ?blk" "clean s3 b" using sync_ok [OF s2(2) h2 sy] h2 by auto
  obtain s4 where r1: "bc_release bc s1 b = Inr s4" using release_ok [OF a(1) h a(3)] by blast
  obtain s5 where r3: "bc_release bc s3 b = Inr s5" using release_ok [OF s3] by blast
  have "\<not> (no = 0 \<or> ucast (num_inodes (isblock st)) \<le> no)" using no by (auto simp: word_gt_0)
  then show ?thesis using t r1 r3
    by (auto simp: inode_sync_def Let_def no_def [symmetric] acq reads s2(1) sy upd_inode_def)
qed

text \<open>Inode 2 is free, the table of inodes is longer and there is no transaction: the scan takes it.\<close>

lemma alloc_takes_first:
  assumes ok: "okay (cache_st st)" and num: "2 < unat (num_inodes (isblock st))" and small: "unat (to_block_no st 0) < 2 ^ 32"
    and acq: "bc_acquire bc (cache_st st) (to_block_no st 0) = Some (Inr (b, s1))" and free: "\<not> used st (view (cache_st st)) 2"
  shows "\<exists>st'. alloc_scan bc None ty 0 st = Some (Inr (2, None, st'))"
proof -
  have same: "to_block_no st 2 = to_block_no st 0" by (simp add: to_block_no_def word_arith_nat_div)
  have a: "okay s1" "held s1 b = Some (to_block_no st 2)" "view s1 = view (cache_st st)"
    using acquire_ok [OF ok small acq] by (auto simp: same)
  have t: "le_word (take 2 (drop (sizeof_InodeEntry * (unat (2 :: usize) mod INODE_PER_BLOCK)) (view s1 (to_block_no st 2)))) = INODE_INVALID"
    using le_word_type [of 2 "view s1" st] free a(3) by (simp add: used_def)
  have len: "length (entry_bytes (zero_entry\<lparr>itype := ty\<rparr>)) = sizeof_InodeEntry" by (simp add: zero_entry_def)
  obtain s2 where s2: "store_bytes bc s1 b (get_entry 2) (entry_bytes (zero_entry\<lparr>itype := ty\<rparr>)) = Inr s2" "okay s2" "held s2 = held s1"
    using sync_stores [OF a(1,2) len] by blast
  have h2: "held s2 b = Some (to_block_no st 2)" using s2(3) a(2) by simp
  obtain s3 where sy: "bc_sync bc s2 None b = Inr (None, s3)" using sync_direct [OF s2(2) h2] by blast
  have s3: "okay s3" "held s3 b = Some (to_block_no st 2)" "clean s3 b" using sync_ok [OF s2(2) h2 sy] h2 by auto
  obtain s4 where r: "bc_release bc s3 b = Inr s4" using release_ok [OF s3] by blast
  have "alloc_in_block bc None ty b (unat (num_inodes (isblock st))) 0 0 8 s1 = Inr (2, None, s3)"
  proof -
    let ?run = "alloc_in_block bc None ty b (unat (num_inodes (isblock st))) 0"
    have "?run 2 (Suc 5) s1 = Inr (2, None, s3)" using num t s2(1) sy sync_reads(1) [OF a(1,2)]
      by (subst alloc_in_block.simps(2)) (simp add: Let_def)
    moreover have "?run 0 (Suc (Suc (Suc 5))) s1 = ?run 2 (Suc 5) s1"
      by (simp only: alloc_in_block.simps(2) [of _ _ _ _ _ _ 0] alloc_in_block.simps(2) [of _ _ _ _ _ _ "Suc 0"] Let_def) (simp add: numeral_2_eq_2 del: alloc_in_block.simps)
    ultimately show ?thesis by (simp add: eval_nat_numeral del: alloc_in_block.simps)
  qed
  then show ?thesis using num acq r by (subst alloc_scan.simps) simp
qed

definition cache_error :: "OpContext option \<Rightarrow> kerr \<Rightarrow> bool" where
  "cache_error ctx e \<longleftrightarrow> (\<exists>s. okay s \<and> ((\<exists>n. bc_acquire bc s n = Some (Inl e)) \<or> (\<exists>b. held s b \<noteq> None \<and> bc_sync bc s ctx b = Inl e)))"

text \<open>The outcome of the scan of one block from its entry \<open>j\<close> on, and of the scan of the inode area from inode \<open>i\<close> on.\<close>

definition block_outcome :: "OpContext option \<Rightarrow> u16 \<Rightarrow> 's itree \<Rightarrow> 's \<Rightarrow> addr \<Rightarrow> nat \<Rightarrow> nat \<Rightarrow> nat \<Rightarrow> (nat \<times> OpContext option \<times> 's) res \<Rightarrow> bool" where
  "block_outcome ctx ty st s b num i j r \<longleftrightarrow>
    (case r of
      Inl e \<Rightarrow> cache_error ctx e
    | Inr (no, ctx', s') \<Rightarrow>
        (no = 0 \<and> s' = s \<and> ctx' = ctx \<and> (\<forall>m. i + j \<le> m \<longrightarrow> m < i + INODE_PER_BLOCK \<longrightarrow> 1 < m \<longrightarrow> m < num \<longrightarrow> used st (view s) m)) \<or>
        (i + j \<le> no \<and> no < i + INODE_PER_BLOCK \<and> 1 < no \<and> no < num \<and> \<not> used st (view s) no \<and>
         (\<forall>m. i + j \<le> m \<longrightarrow> m < no \<longrightarrow> 1 < m \<longrightarrow> used st (view s) m) \<and>
         okay s' \<and> held s' = held s \<and> clean s' b \<and>
         view s' = put_slot st (view s) (of_nat no) (entry_bytes (zero_entry\<lparr>itype := ty\<rparr>))))"

definition scan_outcome :: "OpContext option \<Rightarrow> u16 \<Rightarrow> nat \<Rightarrow> 's itree \<Rightarrow> (usize \<times> OpContext option \<times> 's itree) res option \<Rightarrow> bool" where
  "scan_outcome ctx ty i st r \<longleftrightarrow>
    (case r of
      None \<Rightarrow> False
    | Some (Inl e) \<Rightarrow> cache_error ctx e \<or> e = Panic ''failed to allocate inode on disk'' \<and>
        (\<forall>m. i \<le> m \<longrightarrow> 1 < m \<longrightarrow> m < unat (num_inodes (isblock st)) \<longrightarrow> used st (view (cache_st st)) m)
    | Some (Inr (no, ctx', st')) \<Rightarrow> \<exists>n. no = of_nat n \<and> i \<le> n \<and> 1 < n \<and> n < unat (num_inodes (isblock st)) \<and>
        \<not> used st (view (cache_st st)) n \<and> (\<forall>m. i \<le> m \<longrightarrow> m < n \<longrightarrow> 1 < m \<longrightarrow> used st (view (cache_st st)) m) \<and>
        st' = st\<lparr>cache_st := cache_st st'\<rparr> \<and> okay (cache_st st') \<and> held (cache_st st') = held (cache_st st) \<and>
        view (cache_st st') = put_slot st (view (cache_st st)) no (entry_bytes (zero_entry\<lparr>itype := ty\<rparr>)))"

lemma same_block:
  assumes "i mod INODE_PER_BLOCK = 0" "i < 2 ^ 32" "j < INODE_PER_BLOCK"
  shows "to_block_no st (of_nat (i + j)) = to_block_no st (of_nat i)"
proof -
  have "unat (of_nat (i + j) :: usize) = i + j" "unat (of_nat i :: usize) = i"
    using unat_of_nat_u64 [of "i + j"] unat_of_nat_u64 [of i] assms by (simp_all del: of_nat_add)
  moreover have "(i + j) div 8 = i div 8" using assms by (simp add: div_add1_eq)
  ultimately have "unat (of_nat (i + j) div 8 :: usize) = unat (of_nat i div 8 :: usize)" by (simp add: unat_div del: of_nat_add)
  then have "of_nat (i + j) div 8 = (of_nat i div 8 :: usize)" by (simp only: word_unat_eq_iff)
  then show ?thesis by (simp add: to_block_no_def)
qed

lemma alloc_entry_free:
  assumes ok: "okay s" and h: "held s b = Some (to_block_no st (of_nat (i + j)))" and j: "j < INODE_PER_BLOCK"
    and free: "1 < i + j" "i + j < num" "\<not> used st (view s) (i + j)"
  shows "block_outcome ctx ty st s b num i j (alloc_in_block bc ctx ty b num i j (Suc r) s)"
proof -
  let ?no = "i + j" and ?e = "entry_bytes (zero_entry\<lparr>itype := ty\<rparr>)"
  let ?w = "of_nat ?no :: usize"
  let ?t = "take 2 (drop (sizeof_InodeEntry * (unat ?w mod INODE_PER_BLOCK)) (view s (to_block_no st ?w)))"
  have t: "load_bytes bc s b (get_entry ?w) 2 = Inr ?t" by (rule sync_reads(1) [OF ok h])
  have z: "le_word ?t = INODE_INVALID" using free(3) le_word_type [of ?w "view s" st] by (simp add: used_def)
  obtain s1 where s1: "store_bytes bc s b (get_entry ?w) ?e = Inr s1" "okay s1" "held s1 = held s" "view s1 = put_slot st (view s) ?w ?e"
    using sync_stores [OF ok h, of ?e] by (auto simp: zero_entry_def)
  have step: "alloc_in_block bc ctx ty b num i j (Suc r) s = bind_res (bc_sync bc s1 ctx b) (\<lambda>(ctx', s2). Inr (?no, ctx', s2))"
    using free(1,2) t z s1(1) by (simp only: alloc_in_block.simps Let_def bind_res_simps if_True simp_thms)
  have h1: "held s1 b = Some (to_block_no st ?w)" using s1(3) h by simp
  show ?thesis
  proof (cases "bc_sync bc s1 ctx b")
    case (Inl e)
    then have "cache_error ctx e" using s1(2) h1 unfolding cache_error_def by (metis option.distinct(1))
    then show ?thesis using step Inl by (simp add: block_outcome_def)
  next
    case (Inr q)
    then obtain ctx' s2 where q: "bc_sync bc s1 ctx b = Inr (ctx', s2)" by (cases q) auto
    have s2: "okay s2 \<and> held s2 = held s1 \<and> clean s2 b \<and> view s2 = view s1" by (rule sync_ok [OF s1(2) h1 q])
    show ?thesis unfolding step q using s2 s1 free j by (simp add: block_outcome_def)
  qed
qed

lemma alloc_in_block_spec:
  assumes i: "i mod INODE_PER_BLOCK = 0" "i < 2 ^ 32"
    and ok: "okay s" and h: "held s b = Some (to_block_no st (of_nat i))"
  shows "j + r = INODE_PER_BLOCK \<Longrightarrow> block_outcome ctx ty st s b num i j (alloc_in_block bc ctx ty b num i j r s)"
proof (induction r arbitrary: j)
  case 0
  then show ?case by (simp add: block_outcome_def)
next
  case (Suc r)
  have j: "j < INODE_PER_BLOCK" using Suc.prems by simp
  have h': "held s b = Some (to_block_no st (of_nat (i + j)))" unfolding same_block [OF i j] by (rule h)
  show ?case
  proof (cases "1 < i + j \<and> i + j < num \<and> \<not> used st (view s) (i + j)")
    case False
    then have step: "alloc_in_block bc ctx ty b num i j (Suc r) s = alloc_in_block bc ctx ty b num i (Suc j) r s"
      using sync_reads(1) [OF ok h'] le_word_type [of "of_nat (i + j)" "view s" st] by (auto simp: used_def Let_def)
    have le: "i + j \<le> m \<longleftrightarrow> m = i + j \<or> i + Suc j \<le> m" for m by auto
    have "block_outcome ctx ty st s b num i (Suc j) (alloc_in_block bc ctx ty b num i (Suc j) r s)"
      by (rule Suc.IH) (use Suc.prems in simp)
    with False show ?thesis unfolding step block_outcome_def le by (auto split: sum.splits)
  next
    case True
    then show ?thesis using alloc_entry_free [OF ok h' j] by blast
  qed
qed

lemma alloc_scan_block:
  assumes i: "i mod INODE_PER_BLOCK = 0" "i < unat (num_inodes (isblock st))" and ok: "okay (cache_st st)"
    and small: "unat (to_block_no st (of_nat i)) < 2 ^ 32"
  shows "scan_outcome ctx ty i st (alloc_scan bc ctx ty i st) \<or>
    (\<exists>s. alloc_scan bc ctx ty i st = alloc_scan bc ctx ty (i + INODE_PER_BLOCK) (st\<lparr>cache_st := s\<rparr>) \<and>
      okay s \<and> held s = held (cache_st st) \<and> view s = view (cache_st st) \<and>
      (\<forall>m. i \<le> m \<longrightarrow> m < i + INODE_PER_BLOCK \<longrightarrow> 1 < m \<longrightarrow> m < unat (num_inodes (isblock st)) \<longrightarrow> used st (view (cache_st st)) m))"
proof -
  let ?num = "unat (num_inodes (isblock st))" and ?v = "view (cache_st st)" and ?blk = "to_block_no st (of_nat i)"
  have i32: "i < 2 ^ 32" using i(2) unsigned_less [of "num_inodes (isblock st)", where ?'a = nat] by simp
  obtain q where q: "bc_acquire bc (cache_st st) ?blk = Some q" using acquire_returns [OF ok] by blast
  show ?thesis
  proof (cases q)
    case (Inl e)
    then have "cache_error ctx e" using q ok by (auto simp: cache_error_def)
    then show ?thesis using q Inl i(2) by (subst (1) alloc_scan.simps) (simp add: scan_outcome_def)
  next
    case (Inr w)
    then obtain b s1 where acq: "bc_acquire bc (cache_st st) ?blk = Some (Inr (b, s1))" using q by (cases w) auto
    have a: "okay s1" "held (cache_st st) b = None" "held s1 = (held (cache_st st))(b \<mapsto> ?blk)" "clean s1 b" "view s1 = ?v"
      using acquire_ok [OF ok small acq] by auto
    have h: "held s1 b = Some ?blk" using a(3) by simp
    have ab: "block_outcome ctx ty st s1 b ?num i 0 (alloc_in_block bc ctx ty b ?num i 0 INODE_PER_BLOCK s1)"
      by (rule alloc_in_block_spec [OF i(1) i32 a(1) h]) simp
    show ?thesis
    proof (cases "alloc_in_block bc ctx ty b ?num i 0 INODE_PER_BLOCK s1")
      case (Inl e)
      then show ?thesis using ab acq i(2) by (subst (1) alloc_scan.simps) (simp add: scan_outcome_def block_outcome_def)
    next
      case (Inr t)
      obtain no ctx' s2 where t: "t = (no, ctx', s2)" by (cases t) auto
      note ab' = ab [unfolded Inr t block_outcome_def a(5), simplified]
      have s2: "okay s2" "held s2 = held s1" "clean s2 b" using ab' a by auto
      obtain s3 where s3: "bc_release bc s2 b = Inr s3" "okay s3" "held s3 = (held s2)(b := None)" "view s3 = view s2"
        using release_ok [OF s2(1) _ s2(3)] h s2(2) by auto
      have hs3: "held s3 = held (cache_st st)" using s3(3) s2(2) a(2,3) by (auto simp: fun_eq_iff)
      have run: "alloc_scan bc ctx ty i st = (if no \<noteq> 0 then Some (Inr (of_nat no, ctx', st\<lparr>cache_st := s3\<rparr>))
          else alloc_scan bc ctx' ty (i + INODE_PER_BLOCK) (st\<lparr>cache_st := s3\<rparr>))"
        using acq Inr t s3(1) i(2) by (subst (1) alloc_scan.simps) simp
      show ?thesis
      proof (cases "no = 0")
        case False
        then show ?thesis unfolding run using ab' s3(2,4) hs3 by (auto simp: scan_outcome_def)
      next
        case True
        then show ?thesis unfolding run using ab' s3(2,4) hs3 a(5) by auto
      qed
    qed
  qed
qed

lemma scan_outcome_extend:
  assumes o: "scan_outcome ctx ty (i + INODE_PER_BLOCK) (st\<lparr>cache_st := s\<rparr>) r"
    and s: "held s = held (cache_st st)" "view s = view (cache_st st)"
    and u: "\<forall>m. i \<le> m \<longrightarrow> m < i + INODE_PER_BLOCK \<longrightarrow> 1 < m \<longrightarrow> m < unat (num_inodes (isblock st)) \<longrightarrow> used st (view (cache_st st)) m"
  shows "scan_outcome ctx ty i st r"
proof -
  let ?num = "unat (num_inodes (isblock st))" and ?v = "view (cache_st st)" and ?st = "st\<lparr>cache_st := s\<rparr>"
  have tb: "to_block_no ?st = to_block_no st" by (simp add: to_block_no_def fun_eq_iff)
  have us: "used ?st v m = used st v m" for v m by (rule used_cong [OF tb])
  have ps: "put_slot ?st v n bs = put_slot st v n bs" for v n bs by (simp add: put_slot_def tb)
  have all: "used st ?v m" if "i \<le> m" "1 < m" "m < ?num" "i + INODE_PER_BLOCK \<le> m \<Longrightarrow> used st ?v m" for m
    using u that by (cases "m < i + INODE_PER_BLOCK") auto
  consider e where "r = Some (Inl e)" | n c' t' where "r = Some (Inr (n, c', t'))"
    using o by (cases r) (auto simp: scan_outcome_def split: sum.splits)
  then show ?thesis
  proof cases
    case (1 e)
    from o [unfolded 1 scan_outcome_def] have "cache_error ctx e \<or> e = Panic ''failed to allocate inode on disk'' \<and>
        (\<forall>m. i + INODE_PER_BLOCK \<le> m \<longrightarrow> 1 < m \<longrightarrow> m < ?num \<longrightarrow> used st ?v m)" by (simp add: us s)
    then show ?thesis unfolding 1 scan_outcome_def option.case sum.case using all by blast
  next
    case (2 n c' t')
    from o [unfolded 2 scan_outcome_def] obtain k where k: "n = of_nat k" "i + INODE_PER_BLOCK \<le> k" "1 < k" "k < ?num" "\<not> used st ?v k"
      "\<forall>m. i + INODE_PER_BLOCK \<le> m \<longrightarrow> m < k \<longrightarrow> 1 < m \<longrightarrow> used st ?v m" "t' = st\<lparr>cache_st := cache_st t'\<rparr>"
      "okay (cache_st t')" "held (cache_st t') = held s" "view (cache_st t') = put_slot st ?v n (entry_bytes (zero_entry\<lparr>itype := ty\<rparr>))"
      by (auto simp: us s(2) ps)
    have "\<forall>m. i \<le> m \<longrightarrow> m < k \<longrightarrow> 1 < m \<longrightarrow> used st ?v m" using all k(4,6) by (meson less_trans)
    moreover have "i \<le> k" using k(2) by simp
    ultimately show ?thesis unfolding 2 scan_outcome_def option.case sum.case prod.case using k s(1) by (intro exI [of _ k]) simp
  qed
qed

lemma alloc_scan_spec:
  assumes lay: "\<And>m. m < unat (num_inodes (isblock st)) \<Longrightarrow> unat (to_block_no st (of_nat m)) < 2 ^ 32"
  shows "i mod INODE_PER_BLOCK = 0 \<Longrightarrow> okay (cache_st st) \<Longrightarrow> scan_outcome ctx ty i st (alloc_scan bc ctx ty i st)"
  using lay
proof (induction "unat (num_inodes (isblock st)) - i" arbitrary: i st rule: less_induct)
  case less
  show ?case
  proof (cases "unat (num_inodes (isblock st)) \<le> i")
    case True
    then show ?thesis by (subst alloc_scan.simps) (auto simp: scan_outcome_def)
  next
    case False
    have small: "unat (to_block_no st (of_nat i)) < 2 ^ 32" by (rule less.prems(3)) (use False in simp)
    have i: "i < unat (num_inodes (isblock st))" using False by simp
    from alloc_scan_block [OF less.prems(1) i less.prems(2) small, of ctx ty] show ?thesis
    proof (elim disjE exE conjE)
      fix s assume s: "alloc_scan bc ctx ty i st = alloc_scan bc ctx ty (i + INODE_PER_BLOCK) (st\<lparr>cache_st := s\<rparr>)" "okay s"
        "held s = held (cache_st st)" "view s = view (cache_st st)"
        "\<forall>m. i \<le> m \<longrightarrow> m < i + INODE_PER_BLOCK \<longrightarrow> 1 < m \<longrightarrow> m < unat (num_inodes (isblock st)) \<longrightarrow> used st (view (cache_st st)) m"
      have tb: "to_block_no (st\<lparr>cache_st := s\<rparr>) = to_block_no st" by (simp add: to_block_no_def fun_eq_iff)
      have "scan_outcome ctx ty (i + INODE_PER_BLOCK) (st\<lparr>cache_st := s\<rparr>) (alloc_scan bc ctx ty (i + INODE_PER_BLOCK) (st\<lparr>cache_st := s\<rparr>))"
        by (rule less.hyps) (use False less.prems tb s(2) in \<open>auto simp: mod_add_self2\<close>)
      then show ?thesis unfolding s(1) by (rule scan_outcome_extend [OF _ s(3-5)])
    qed
  qed
qed

end

text \<open>Different inodes have different slots.\<close>

lemma slot_distinct:
  assumes "m < 2 ^ 64" "n < 2 ^ 64" "m \<noteq> n"
  shows "to_block_no st (of_nat m) \<noteq> to_block_no st (of_nat n) \<or>
    unat (of_nat m :: usize) mod INODE_PER_BLOCK \<noteq> unat (of_nat n :: usize) mod INODE_PER_BLOCK"
proof (rule ccontr)
  assume "\<not> ?thesis"
  then have d: "of_nat m div (8 :: usize) = of_nat n div 8" and r: "m mod 8 = n mod 8"
    using assms(1,2) by (simp_all add: to_block_no_def unat_of_nat_u64)
  from d have "unat (of_nat m div (8 :: usize)) = unat (of_nat n div (8 :: usize))" by simp
  then have "m div 8 = n div 8" using assms(1,2) by (simp add: unat_div unat_of_nat_u64)
  with r have "m = n" by (metis div_mult_mod_eq)
  with assms(3) show False by blast
qed

definition cache_fails :: "nat \<Rightarrow> nat \<Rightarrow> OpContext option \<Rightarrow> kerr \<Rightarrow> bool" where
  "cache_fails cpu c ctx e \<longleftrightarrow> (\<exists>s. cv_ok c s \<and>
     ((\<exists>n. cache_acquire cpu s n = Some (Inl e)) \<or> (\<exists>b. cv_held s b \<noteq> None \<and> cache_sync cpu s ctx b = Inl e)))"

lemma cache_fails_eq: "kcache.cache_error cpu c ctx e = cache_fails cpu c ctx e"
  by (simp add: kcache.cache_error_def cache_fails_def)

text \<open>C14: \<open>inode_alloc\<close> over the kernel's block cache always returns. On success it has taken the lowest free inode
  number above 1 and below the number of inodes: its entry is cleared but for the type, every other inode
  and every block outside the inode's own is as before, and no block stays locked. It panics for lack of
  inodes only if all are in use; the other failures are failures of the cache or the log.\<close>

theorem inode_alloc_first_free:
  assumes ok: "cv_ok c (cache_st st)" and ty: "ty \<noteq> INODE_INVALID"
    and lay: "\<forall>m < unat (num_inodes (isblock st)). unat (to_block_no st (of_nat m)) < 2 ^ 32"
  shows "case inode_alloc (kernel_cache cpu) ctx ty st of
      None \<Rightarrow> False
    | Some (Inl e) \<Rightarrow> cache_fails cpu c ctx e \<or> e = Panic ''failed to allocate inode on disk'' \<and>
        (\<forall>m. 1 < m \<longrightarrow> m < unat (num_inodes (isblock st)) \<longrightarrow> used st (cv_view (cache_st st)) m)
    | Some (Inr (no, ctx', st')) \<Rightarrow> \<exists>n. no = of_nat n \<and> 1 < n \<and> n < unat (num_inodes (isblock st)) \<and>
        \<not> used st (cv_view (cache_st st)) n \<and> (\<forall>m. 1 < m \<longrightarrow> m < n \<longrightarrow> used st (cv_view (cache_st st)) m) \<and>
        cv_ok c (cache_st st') \<and> cv_held (cache_st st') = cv_held (cache_st st) \<and>
        entry_at st (cv_view (cache_st st')) no = zero_entry\<lparr>itype := ty\<rparr> \<and>
        (\<forall>m < unat (num_inodes (isblock st)). m \<noteq> n \<longrightarrow>
           entry_at st (cv_view (cache_st st')) (of_nat m) = entry_at st (cv_view (cache_st st)) (of_nat m)) \<and>
        (\<forall>b. b \<noteq> to_block_no st no \<longrightarrow> cv_view (cache_st st') b = cv_view (cache_st st) b)"
proof -
  let ?num = "unat (num_inodes (isblock st))" and ?v = "cv_view (cache_st st)"
  have run: "inode_alloc (kernel_cache cpu) ctx ty st = alloc_scan (kernel_cache cpu) ctx ty 0 st" using ty by (simp add: inode_alloc_def)
  have lay': "\<And>m. m < ?num \<Longrightarrow> unat (to_block_no st (of_nat m)) < 2 ^ 32" using lay by blast
  note sp = kcache.alloc_scan_spec [where i = 0 and ctx = ctx and ty = ty and cpu = cpu and c = c, OF lay' _ ok, unfolded kcache.scan_outcome_def cache_fails_eq]
  have num: "m < 2 ^ 64" if "m < ?num" for m
  proof -
    have "?num < 2 ^ 32" using unsigned_less [of "num_inodes (isblock st)"] by simp
    with that show ?thesis by simp
  qed
  consider e where "alloc_scan (kernel_cache cpu) ctx ty 0 st = Some (Inl e)"
    | no ctx' st' where "alloc_scan (kernel_cache cpu) ctx ty 0 st = Some (Inr (no, ctx', st'))"
    using sp by (cases "alloc_scan (kernel_cache cpu) ctx ty 0 st") (auto split: sum.splits)
  then show ?thesis
  proof cases
    case (1 e)
    then show ?thesis using sp unfolding run 1 by simp
  next
    case (2 no ctx' st')
    from sp obtain n where n: "no = of_nat n" "1 < n" "n < ?num" "\<not> used st ?v n" "\<forall>m. m < n \<longrightarrow> 1 < m \<longrightarrow> used st ?v m"
      "cv_ok c (cache_st st')" "cv_held (cache_st st') = cv_held (cache_st st)"
      "cv_view (cache_st st') = put_slot st ?v no (entry_bytes (zero_entry\<lparr>itype := ty\<rparr>))" unfolding 2 by auto
    have len: "length (?v (to_block_no st no)) = BLOCK_SIZE" using kcache.view_length [OF ok] lay' n(1,3) by simp
    have el: "length (entry_bytes (zero_entry\<lparr>itype := ty\<rparr>)) = sizeof_InodeEntry" by (simp add: zero_entry_def)
    have "entry_at st (cv_view (cache_st st')) no = zero_entry\<lparr>itype := ty\<rparr>"
      using slot_put_same [where v = ?v and st = st and no = no, OF len el] bytes_entry_bytes [of "zero_entry\<lparr>itype := ty\<rparr>" "[]"] n(8)
      by (simp add: entry_at_def zero_entry_def)
    moreover have "entry_at st (cv_view (cache_st st')) (of_nat m) = entry_at st ?v (of_nat m)" if "m < ?num" "m \<noteq> n" for m
      using slot_put_other [where v = ?v and st = st and no = no, OF len el, of "of_nat m"] slot_distinct [of m n st] num that n(1,3,8) by (simp add: entry_at_def)
    moreover have "cv_view (cache_st st') b = ?v b" if "b \<noteq> to_block_no st no" for b using that n(8) by (simp add: put_slot_def)
    ultimately show ?thesis unfolding run 2 option.case sum.case prod.case using n(1-7) by (intro exI [of _ n]) simp
  qed
qed


text \<open>A tree over an empty cache whose disk is filled with byte \<open>v\<close>: eight inodes from block 6 on.\<close>

definition inode_example :: "u8 \<Rightarrow> bcache itree" where
  "inode_example v =
     \<lparr>cache_st = empty_cache\<lparr>dev := \<lparr>content = (\<lambda>_. replicate 512 v), history = []\<rparr>\<rparr>, isblock = sblock empty_cache,
      tree_lock = \<lparr>locked = False, lcpu = None, lname = []\<rparr>, tree_head = 64,
      tree_links = \<lparr>lprev = (\<lambda>_. 64), lnext = (\<lambda>_. 64)\<rparr>,
      inode_at = (\<lambda>p. \<lparr>inode_no = 3, irc = \<lparr>rc_count = 1\<rparr>, ilock = \<lparr>locked = False, lcpu = None, lname = []\<rparr>, ivalid = (p = 128),
        ientry = zero_entry\<lparr>itype := 2, num_bytes := 700\<rparr>\<rparr>),
      iarena = arena_example, iarena_addr = 256, iroot = 0\<rparr>"

lemma inode_example_ok: "cv_ok 0 (cache_st (inode_example v))"
proof -
  have "bc_ok 0 (empty_cache\<lparr>dev := d\<rparr>) [] []" for d
    using empty_cache_ok by (simp add: bc_ok_def bc_core_def head_outside_def)
  then show ?thesis unfolding cv_ok_def cv_ok_with_def
    by (intro exI [of _ "[]"]) (simp add: inode_example_def)
qed

lemma inode_example_sblock [simp]: "num_inodes (isblock (inode_example v)) = 8" "inode_start (isblock (inode_example v)) = 6"
  by (simp_all add: inode_example_def empty_cache_def cache_example_def)

lemma inode_example_blocks: "m < 8 \<Longrightarrow> to_block_no (inode_example v) (of_nat m) = 6"
  by (simp add: to_block_no_def word_arith_nat_div unat_of_nat_u64)

theorem inode_alloc_first_free_witness:
  "\<exists>st'. inode_alloc (kernel_cache 0) None 2 (inode_example 0) = Some (Inr (2, None, st')) \<and>
     entry_at (inode_example 0) (cv_view (cache_st st')) 2 = zero_entry\<lparr>itype := 2\<rparr> \<and>
     entry_at (inode_example 0) (cv_view (cache_st st')) 3 = entry_at (inode_example 0) (cv_view (cache_st (inode_example 0))) 3"
proof -
  let ?st = "inode_example 0"
  have core: "bc_ok 0 (cache_st ?st) [] []" using empty_cache_ok by (simp add: inode_example_def bc_ok_def bc_core_def head_outside_def)
  have "apmem (barena (cache_st ?st)) = pm_example" by (simp add: inode_example_def empty_cache_def arena_example_ok)
  then have "kalloc 0 (apmem (barena (cache_st ?st))) \<noteq> Inl e" for e by (simp add: kalloc_example)
  then obtain b s1 where acq: "cache_acquire 0 (cache_st ?st) 6 = Some (Inr (b, s1))" using cache_acquire_outcome [OF core, of 6 0]
    by (auto simp: acquire_outcome_def split: option.splits sum.splits)
  have at: "to_block_no ?st 0 = 6" "to_block_no ?st 2 = 6" using inode_example_blocks [of 0 0] inode_example_blocks [of 2 0] by simp_all
  have "cv_view (cache_st ?st) 6 = replicate 512 0"
    using cv_view_disk [OF core, of 6] by (simp add: device_read_def inode_example_def)
  then have free: "\<not> used ?st (cv_view (cache_st ?st)) 2"
    using le_word_type [of 2 "cv_view (cache_st ?st)" ?st] at(2) by (simp add: used_def numeral_2_eq_2)
  obtain st' where r: "inode_alloc (kernel_cache 0) None 2 ?st = Some (Inr (2, None, st'))"
    using kcache.alloc_takes_first [OF inode_example_ok [of 0], of 0 b s1 2] acq at free by (auto simp: inode_alloc_def kernel_cache_def)
  have lay: "\<forall>m < unat (num_inodes (isblock ?st)). unat (to_block_no ?st (of_nat m)) < 2 ^ 32" by (simp add: inode_example_blocks)
  note run = inode_alloc_first_free [OF inode_example_ok [of 0] _ lay, of 2 0 None, unfolded r]
  then obtain n where n: "(2 :: usize) = of_nat n" "1 < n" "n < 8" "entry_at ?st (cv_view (cache_st st')) 2 = zero_entry\<lparr>itype := 2\<rparr>"
      "\<forall>m<8. m \<noteq> n \<longrightarrow> entry_at ?st (cv_view (cache_st st')) (of_nat m) = entry_at ?st (cv_view (cache_st ?st)) (of_nat m)" by auto
  have "n = 2" using arg_cong [OF n(1), of unat] n(3) by (simp add: unat_of_nat_u64)
  then show ?thesis using r n(4) n(5) [rule_format, of 3] by simp
qed

text \<open>C30: writing back a valid inode without a transaction succeeds whenever its block can be acquired and the inode
  is in use. Its entry then is on disk or in the cache: an inode structure loaded afterwards for the same
  number, by any CPU, receives exactly that entry; all other inodes and all other blocks keep their
  content and no block stays locked.\<close>

theorem inode_sync_persists:
  fixes st :: "bcache itree" and p
  defines "no \<equiv> inode_no (inode_at st p)"
  assumes ok: "cv_ok c (cache_st st)" and valid: "ivalid (inode_at st p)" "length (iaddrs (ientry (inode_at st p))) = INODE_NUM_DIRECT"
    and range: "0 < no" "no < ucast (num_inodes (isblock st))" "unat (to_block_no st no) < 2 ^ 32"
    and acq: "cache_acquire cpu (cache_st st) (to_block_no st no) = Some (Inr (b, s1))"
    and live: "itype (entry_at st (cv_view (cache_st st)) no) \<noteq> INODE_INVALID"
  shows "\<exists>st'. inode_sync (kernel_cache cpu) None p True st = Some (Inr (None, st')) \<and>
    cv_ok c (cache_st st') \<and> cv_held (cache_st st') = cv_held (cache_st st) \<and> inode_at st' = inode_at st \<and>
    entry_at st (cv_view (cache_st st')) no = ientry (inode_at st p) \<and>
    (\<forall>n. n < ucast (num_inodes (isblock st)) \<and> n \<noteq> no \<longrightarrow>
       entry_at st (cv_view (cache_st st')) n = entry_at st (cv_view (cache_st st)) n) \<and>
    (\<forall>blk. blk \<noteq> to_block_no st no \<longrightarrow> cv_view (cache_st st') blk = cv_view (cache_st st) blk) \<and>
    (\<forall>cpu2 ctx q ctx' st''. inode_no (inode_at st q) = no \<and> \<not> ivalid (inode_at st q) \<and> length (iaddrs (ientry (inode_at st q))) = INODE_NUM_DIRECT \<and>
       inode_sync (kernel_cache cpu2) ctx q False st' = Some (Inr (ctx', st'')) \<longrightarrow> ientry (inode_at st'' q) = ientry (inode_at st p))"
proof -
  let ?e = "ientry (inode_at st p)" and ?v = "cv_view (cache_st st)"
  obtain st' where run: "inode_sync (kernel_cache cpu) None p True st = Some (Inr (None, st'))"
    using kcache.inode_sync_returns [of c st p cpu b s1 True] assms by auto
  note post = kcache.inode_sync_post [OF ok _ valid(2) run, folded no_def, OF range(3)]
  have st': "st' = st\<lparr>cache_st := cache_st st'\<rparr>" and view: "cv_view (cache_st st') = put_slot st ?v no (entry_bytes ?e)"
    and ok': "cv_ok c (cache_st st')" and held: "cv_held (cache_st st') = cv_held (cache_st st)"
    using post valid(1) by auto
  have geo: "to_block_no st' = to_block_no st" "entry_at st' = entry_at st" "inode_at st' = inode_at st"
    by (subst st', simp add: to_block_no_def entry_at_def slot_bytes_def fun_eq_iff)+
  have len: "length (?v (to_block_no st no)) = BLOCK_SIZE" using kcache.view_length [OF ok range(3)] .
  have el: "length (entry_bytes ?e) = sizeof_InodeEntry" "bytes_entry (entry_bytes ?e) = ?e"
    using bytes_entry_bytes [of ?e "[]"] valid(2) by simp_all
  have same: "entry_at st (cv_view (cache_st st')) no = ?e"
    using slot_put_same [where v = ?v and st = st and no = no, OF len el(1)] el(2) view by (simp add: entry_at_def)
  have other: "entry_at st (cv_view (cache_st st')) n = entry_at st ?v n" if "n < ucast (num_inodes (isblock st))" "n \<noteq> no" for n
  proof -
    have "unat n \<noteq> unat no" using that(2) by (auto dest: unsigned_word_eqI)
    then show ?thesis
      using slot_put_other [where v = ?v and st = st and no = no, OF len el(1), of n] slot_distinct [of "unat n" "unat no" st] view
      by (simp add: entry_at_def)
  qed
  have reload: "ientry (inode_at st'' q) = ?e" if q: "inode_no (inode_at st q) = no" "\<not> ivalid (inode_at st q)"
      "length (iaddrs (ientry (inode_at st q))) = INODE_NUM_DIRECT" and r: "inode_sync (kernel_cache cpu2) ctx q False st' = Some (Inr (ctx', st''))"
    for cpu2 ctx q ctx' st''
  proof -
    have "st'' = upd_inode st' q (\<lambda>x. x\<lparr>ientry := ?e, ivalid := True\<rparr>)\<lparr>cache_st := cache_st st''\<rparr>"
      using kcache.inode_sync_post [OF ok' _ _ r] q range(3) same geo by simp
    then have "inode_at st'' q = inode_at (upd_inode st' q (\<lambda>x. x\<lparr>ientry := ?e, ivalid := True\<rparr>)\<lparr>cache_st := cache_st st''\<rparr>) q" by simp
    then show ?thesis by (simp add: upd_inode_def)
  qed
  show ?thesis using run ok' held geo(3) same other reload view by (intro exI [of _ st']) (auto simp: put_slot_def)
qed

end
