(* ===== verification/KInodeData.thy ===== *)
theory KInodeData
  imports KInodeSpec
begin

text \<open>
  What \<open>inode_read\<close> and \<open>inode_write\<close> of \<open>src/fs/inode.c\<close> transfer. Both address the \<open>Block\<close> structure that
  the cache returns from its first byte on, and not its data area, so that the first bytes of a block
  of a file are those of the block's number.\<close>

lemma acquire_facts:
  assumes ok: "bc_ok c st qs ps" and r: "cache_acquire cpu st no = Some (Inr (b, s1))"
  shows "block_no (blocks s1 b) = no \<and> acquired (blocks s1 b) \<and> block_ok (blocks s1 b)"
proof -
  obtain qs' ps' where "bc_ok c s1 qs' ps'" "b \<in> set qs'" "block_no (blocks s1 b) = no" "acquired (blocks s1 b)"
    using cache_acquire_outcome [OF ok, of no cpu] unfolding r by (auto simp: acquire_outcome_def)
  then show ?thesis by (auto simp: bc_ok_def bc_core_def)
qed

definition released :: "bcache \<Rightarrow> addr \<Rightarrow> bcache" where
  "released s b = s\<lparr>blocks := (blocks s)(b := (blocks s b)\<lparr>acquired := False,
     block_lock := (block_lock (blocks s b))\<lparr>slocked := False\<rparr>\<rparr>), woken := woken s @ [b + 32]\<rparr>"

lemma release_eq: "block_ok (blocks s b) \<Longrightarrow> acquired (blocks s b) \<Longrightarrow> cache_release cpu s b = Inr (released s b)"
  by (simp add: cache_release_def upd_block_def released_def block_ok_def)

lemma load_number:
  "i + n \<le> 8 \<Longrightarrow> load_bytes (kernel_cache cpu) s b i n = Inr (take n (drop i (le_bytes 8 (block_no (blocks s b)))))"
proof (induction n arbitrary: i)
  case (Suc n)
  have "load_bytes (kernel_cache cpu) s b (Suc i) n = Inr (take n (drop (Suc i) (le_bytes 8 (block_no (blocks s b)))))"
    by (rule Suc.IH) (use Suc.prems in simp)
  then show ?case using Suc.prems by (simp add: block_load_def Cons_nth_drop_Suc [symmetric] del: le_bytes.simps)
qed simp

lemma unat_u16_u64: "unat (ucast (x :: u16) :: u64) = unat x"
proof -
  have "unat x < 2 ^ 16" using unsigned_less [of x] by simp
  then show ?thesis by (simp add: unsigned_ucast_eq take_bit_nat_eq_self)
qed

text \<open>C38: reading up to eight bytes at the start of a file of a valid inode succeeds when the first block can be
  acquired, and delivers the bytes of the number of that block, whatever the file contains. The
  content of the block is not delivered.\<close>

theorem inode_read_header:
  fixes st :: "bcache itree"
  assumes ok: "bc_ok c (cache_st st) qs ps" and e: "iaddrs (ientry (inode_at st p)) ! 0 = a" "a \<noteq> 0"
    and n: "0 < n" "n \<le> 8" "n \<le> unat (num_bytes (ientry (inode_at st p)))"
    and acq: "cache_acquire cpu (cache_st st) (ucast a) = Some (Inr (b, s1))"
  shows "inode_read (kernel_cache cpu) p 0 (of_nat n) st = Some (Inr (take n (le_bytes 8 (ucast a :: u64)), st\<lparr>cache_st := released s1 b\<rparr>))"
proof -
  note f = acquire_facts [OF ok acq]
  have un: "unat (of_nat n :: usize) = n" using n(2) by (simp add: unat_of_nat_u64)
  have le: "of_nat n \<le> (ucast (num_bytes (ientry (inode_at st p))) :: usize)"
    using n(3) un by (simp add: word_le_nat_alt unat_u16_u64)
  have rd: "unat (round_down 0 512) = 0" by (simp add: unat_round_down)
  have l: "load_bytes (kernel_cache cpu) s1 b 0 n = Inr (take n (le_bytes 8 (ucast a :: u64)))"
    using load_number [of 0 n cpu s1 b] n(2) f by simp
  have "inode_read (kernel_cache cpu) p 0 (of_nat n) st = read_loop (kernel_cache cpu) p 0 n 0 [] st"
    using le un rd by (simp add: inode_read_def Let_def del: read_loop.simps)
  also have "\<dots> = Some (Inr (take n (le_bytes 8 (ucast a :: u64)), st\<lparr>cache_st := released s1 b\<rparr>))"
    using n e acq l release_eq [of s1 b cpu] f by (simp add: inode_map2_def read_loop.simps Let_def min_def)
  finally show ?thesis .
qed


text \<open>Writing one byte at the start of a non-empty file succeeds when its first block can be acquired. It
  changes the low byte of the number of the cached block and leaves the data of the block as it is, so
  that the block is cached under another number.\<close>

theorem inode_write_header:
  fixes st :: "bcache itree"
  assumes ok: "bc_ok c (cache_st st) qs ps" and e: "iaddrs (ientry (inode_at st p)) ! 0 = a" "a \<noteq> 0"
    and n: "num_bytes (ientry (inode_at st p)) \<noteq> 0"
    and acq: "cache_acquire cpu (cache_st st) (ucast a) = Some (Inr (b, s1))"
  shows "\<exists>st'. inode_write (kernel_cache cpu) ctx p [v] 0 1 st = Some (Inr (ctx, st')) \<and>
    block_no (blocks (cache_st st') b) = put_u64_byte (ucast a) 0 v \<and> data (blocks (cache_st st') b) = data (blocks s1 b) \<and>
    dev (cache_st st') = dev s1 \<and> (\<forall>x. x \<noteq> b \<longrightarrow> blocks (cache_st st') x = blocks s1 x)"
proof -
  note f = acquire_facts [OF ok acq]
  define s2 where "s2 = upd_block s1 b (\<lambda>x. x\<lparr>block_no := put_u64_byte (block_no x) 0 v\<rparr>)"
  have s2: "store_bytes (kernel_cache cpu) s1 b 0 [v] = Inr s2" by (simp add: block_store_def s2_def)
  have rel: "cache_release cpu s2 b = Inr (released s2 b)" using f by (intro release_eq) (simp_all add: s2_def upd_block_def block_ok_def)
  have rd: "unat (round_down 0 512) = 0" by (simp add: unat_round_down)
  have w: "write_loop (kernel_cache cpu) p 0 1 0 [v] False ctx st = Some (Inr (False, ctx, st\<lparr>cache_st := released s2 b\<rparr>))"
    using e acq rel s2 by (subst write_loop.simps) (simp add: inode_map_def Let_def min_def del: write_loop.simps store_bytes.simps, simp)
  have "\<not> (ucast (num_bytes (ientry (inode_at st p))) :: usize) < 1" using n unat_u16_u64 [of "num_bytes (ientry (inode_at st p))"]
    by (simp add: word_less_nat_alt unat_gt_0)
  then have "inode_write (kernel_cache cpu) ctx p [v] 0 1 st = Some (Inr (ctx, st\<lparr>cache_st := released s2 b\<rparr>))"
    using w rd by (simp add: inode_write_def Let_def word_le_nat_alt del: write_loop.simps)
  then show ?thesis using f by (simp add: released_def s2_def upd_block_def)
qed

text \<open>A tree whose inode at 128 has its first block at 9; the disk is filled with byte 7.\<close>

definition file_example :: "bcache itree" where
  "file_example = upd_entry (inode_example 7) 128 (\<lambda>e. e\<lparr>iaddrs := 9 # replicate 11 0\<rparr>)"

lemma file_example_simps [simp]:
  "cache_st file_example = cache_st (inode_example 7)" "num_bytes (ientry (inode_at file_example 128)) = 700"
  "iaddrs (ientry (inode_at file_example 128)) = 9 # replicate 11 0"
  by (simp_all add: file_example_def upd_entry_def upd_inode_def inode_example_def)

lemma inode_example_bc: "bc_ok 0 (cache_st (inode_example v)) [] []"
  using empty_cache_ok by (simp add: bc_ok_def bc_core_def head_outside_def inode_example_def)

lemma inode_example_acquire: "\<exists>b s1. cache_acquire 0 (cache_st (inode_example v)) no = Some (Inr (b, s1))"
proof -
  have "apmem (barena (cache_st (inode_example v))) = pm_example" by (simp add: inode_example_def empty_cache_def arena_example_ok)
  then have ne: "kalloc 0 (apmem (barena (cache_st (inode_example v)))) \<noteq> Inl e" for e by (simp add: kalloc_example)
  then show ?thesis using cache_acquire_outcome [OF inode_example_bc, of v no 0]
    by (auto simp: acquire_outcome_def split: option.splits sum.splits)
qed

theorem inode_read_header_witness:
  "\<exists>st'. inode_read (kernel_cache 0) 128 0 (of_nat 2) file_example = Some (Inr ([9, 0], st'))"
proof -
  obtain b s1 where a: "cache_acquire 0 (cache_st file_example) (ucast (9 :: u32)) = Some (Inr (b, s1))"
    using inode_example_acquire by fastforce
  have "take 2 (le_bytes 8 (9 :: u64)) = [9, 0]" by code_simp
  then show ?thesis
    using inode_read_header [OF _ _ _ _ _ _ a, of 0 "[]" "[]" 128 2] inode_example_bc [of 7] by simp
qed

theorem inode_write_header_witness:
  "\<exists>b st'. inode_write (kernel_cache 0) None 128 [255] 0 1 file_example = Some (Inr (None, st')) \<and>
    block_no (blocks (cache_st st') b) = 255"
proof -
  obtain b s1 where a: "cache_acquire 0 (cache_st file_example) (ucast (9 :: u32)) = Some (Inr (b, s1))"
    using inode_example_acquire by fastforce
  have "put_u64_byte 9 0 255 = 255" by code_simp
  then show ?thesis
    using inode_write_header [OF _ _ _ _ a, of 0 "[]" "[]" 128 None 255] inode_example_bc [of 7] by auto
qed

theorem inode_sync_persists_witness:
  "\<exists>st'. inode_sync (kernel_cache 0) None 128 True (inode_example 1) = Some (Inr (None, st')) \<and>
    num_bytes (entry_at (inode_example 1) (cv_view (cache_st st')) 3) = 700"
proof -
  let ?st = "inode_example 1"
  have blk: "to_block_no ?st 3 = 6" using inode_example_blocks [of 3 1] by simp
  have p: "inode_no (inode_at ?st 128) = 3" "ivalid (inode_at ?st 128)" "num_bytes (ientry (inode_at ?st 128)) = 700"
    "length (iaddrs (ientry (inode_at ?st 128))) = INODE_NUM_DIRECT" by (simp_all add: inode_example_def zero_entry_def)
  obtain b s1 where a: "cache_acquire 0 (cache_st ?st) 6 = Some (Inr (b, s1))" using inode_example_acquire by blast
  have v: "cv_view (cache_st ?st) 6 = replicate 512 1"
    using cv_view_disk [OF inode_example_bc [of 1], of 6] by (simp add: inode_example_def device_read_def)
  have "replicate 2 (1 :: u8) = [1, 1]" by (simp add: numeral_2_eq_2)
  then have t: "itype (entry_at ?st (cv_view (cache_st ?st)) 3) \<noteq> INODE_INVALID"
    by (simp add: entry_at_def slot_bytes_def blk bytes_entry_def v)
  from inode_sync_persists [OF inode_example_ok [of 1] p(2,4), unfolded p(1) blk, OF _ _ _ a t]
  show ?thesis using p(3) by auto
qed

end
