(* ===== verification/KProc.thy ===== *)
theory KProc
  imports KArena KVirtMem
begin

text \<open>
  Processes and containers: \<open>src/core/proc.c\<close>, \<open>proc.h\<close>, \<open>container.c\<close>, \<open>container.h\<close> and the part of \<open>sched.h\<close>
  and \<open>sched.c\<close> that manages the process tables. A scheduler is a member of its container, so a pointer to
  a scheduler is the address of its container; a pointer to a process is its container and its slot in
  the table of that container. Kernel stacks, trap frames and contexts are words of the same memory as
  the page tables. Console output is left out.\<close>

abbreviation NPROC :: nat where "NPROC \<equiv> 16"
abbreviation NPID :: nat where "NPID \<equiv> 64"
abbreviation NCPU :: nat where "NCPU \<equiv> 4"
abbreviation KSTACKSIZE :: u64 where "KSTACKSIZE \<equiv> 4096"
abbreviation sizeof_Trapframe :: u64 where "sizeof_Trapframe \<equiv> 272"
abbreviation sizeof_context :: u64 where "sizeof_context \<equiv> 128"

datatype procstate = UNUSED | EMBRYO | SLEEPING | RUNNABLE | RUNNING | ZOMBIE

type_synonym procref = "addr \<times> nat"

record proc =
  sz :: u64
  pgdir :: addr
  kstack :: addr
  pstate :: procstate
  pid :: u32
  pparent :: "procref option"
  tf :: addr
  pcontext :: addr
  chan :: addr
  killed :: u32
  pname :: string
  cont :: addr
  is_scheduler :: bool
  plock :: SpinLock
  bounding :: u64

record pid_mapping =
  mvalid :: bool
  pid_local :: u32
  mproc :: "procref option"

record scheduler =
  contexts :: "addr list"
  ptable :: "proc list"
  ptable_lock :: SpinLock
  nextpid :: u32
  sparent :: addr
  scont :: addr

record container =
  cp :: "procref option"
  scheduler :: scheduler
  colock :: SpinLock
  parent :: addr
  pmap :: "pid_mapping list"

record cpu =
  cscheduler :: addr
  cproc :: "procref option"

record ksys =
  conts :: "addr \<Rightarrow> container"
  root_container :: addr
  cpus :: "nat \<Rightarrow> cpu"
  cont_arena :: "PMemory aheap"
  cont_arena_addr :: addr
  kvm :: vmstate
  to_forkret :: u64
  to_initret :: u64
  container_entry :: u64

definition proc_at :: "(addr \<Rightarrow> container) \<Rightarrow> procref \<Rightarrow> proc" where
  "proc_at cs p = ptable (scheduler (cs (fst p))) ! snd p"

definition upd_sched :: "(addr \<Rightarrow> container) \<Rightarrow> addr \<Rightarrow> (scheduler \<Rightarrow> scheduler) \<Rightarrow> addr \<Rightarrow> container" where
  "upd_sched cs c f = cs(c := (cs c)\<lparr>scheduler := f (scheduler (cs c))\<rparr>)"

definition upd_proc :: "(addr \<Rightarrow> container) \<Rightarrow> procref \<Rightarrow> (proc \<Rightarrow> proc) \<Rightarrow> addr \<Rightarrow> container" where
  "upd_proc cs p f =
     upd_sched cs (fst p) (\<lambda>s. s\<lparr>ptable := (ptable s)[snd p := f (ptable s ! snd p)]\<rparr>)"

definition set_proc :: "ksys \<Rightarrow> procref \<Rightarrow> (proc \<Rightarrow> proc) \<Rightarrow> ksys" where
  "set_proc st p f = st\<lparr>conts := upd_proc (conts st) p f\<rparr>"

definition set_cpu :: "ksys \<Rightarrow> nat \<Rightarrow> (cpu \<Rightarrow> cpu) \<Rightarrow> ksys" where
  "set_cpu st k f = st\<lparr>cpus := (cpus st)(k := f (cpus st k))\<rparr>"

definition lock_proc :: "nat \<Rightarrow> ksys \<Rightarrow> procref \<Rightarrow> ksys res" where
  "lock_proc k st p =
     bind_res (acquire_spinlock k (plock (proc_at (conts st) p))) (\<lambda>l. Inr (set_proc st p (\<lambda>x. x\<lparr>plock := l\<rparr>)))"

definition unlock_proc :: "nat \<Rightarrow> ksys \<Rightarrow> procref \<Rightarrow> ksys res" where
  "unlock_proc k st p =
     bind_res (release_spinlock k (plock (proc_at (conts st) p))) (\<lambda>l. Inr (set_proc st p (\<lambda>x. x\<lparr>plock := l\<rparr>)))"

definition null_lock :: SpinLock where
  "null_lock = \<lparr>locked = False, lcpu = None, lname = []\<rparr>"

definition zero_proc :: proc where
  "zero_proc = \<lparr>sz = 0, pgdir = 0, kstack = 0, pstate = UNUSED, pid = 0, pparent = None, tf = 0, pcontext = 0, chan = 0,
     killed = 0, pname = [], cont = 0, is_scheduler = False, plock = null_lock, bounding = 0\<rparr>"

subsection \<open>Process identifiers\<close>

text \<open>The first free mapping, from index \<open>i\<close> on.\<close>

primrec find_mapping :: "pid_mapping list \<Rightarrow> nat \<Rightarrow> nat \<Rightarrow> nat option" where
  "find_mapping m i 0 = None"
| "find_mapping m i (Suc r) = (if \<not> mvalid (m ! i) then Some i else find_mapping m (Suc i) r)"

text \<open>The case \<open>resource = PID\<close>, the only one the source implements; the result is the value the
  returned pointer points to, \<open>None\<close> for \<open>NULL\<close>. A cycle of parents would recurse for ever.\<close>

partial_function (option) alloc_resource ::
  "nat \<Rightarrow> addr \<Rightarrow> procref \<Rightarrow> (addr \<Rightarrow> container) \<Rightarrow> (u32 option \<times> (addr \<Rightarrow> container)) res option" where
  "alloc_resource k this p cs =
     (if this = NULL then Some (Inr (None, cs))
      else
        case acquire_spinlock k (colock (cs this)) of
          Inl e \<Rightarrow> Some (Inl e)
        | Inr l \<Rightarrow>
            (case find_mapping (pmap (cs this)) 0 NPID of
               None \<Rightarrow> Some (Inl (Panic ''alloc_resource : could not allocate new pid.''))
             | Some i \<Rightarrow>
                 (let found = nextpid (scheduler (cs this)) in
                  if sint found < 0 then Some (Inl (Panic ''alloc_resource : could not allocate new pid.''))
                  else
                    case release_spinlock k l of
                      Inl e \<Rightarrow> Some (Inl e)
                    | Inr l' \<Rightarrow>
                        Option.bind (alloc_resource k (parent (cs this)) p
                          (cs(this := (cs this)\<lparr>scheduler := (scheduler (cs this))\<lparr>nextpid := found + 1\<rparr>,
                             colock := l', pmap := (pmap (cs this))[i := \<lparr>mvalid = True, pid_local = found, mproc = Some p\<rparr>]\<rparr>)))
                          (\<lambda>r. Some (bind_res r (\<lambda>(_, cs'). Inr (Some found, cs')))))))"

subsection \<open>Process slots\<close>

text \<open>\<open>alloc_pcb_simple\<close> from slot \<open>i\<close> on, \<open>r\<close> slots left. The slot is cleared with the lock it holds.\<close>

primrec alloc_pcb_scan :: "nat \<Rightarrow> addr \<Rightarrow> nat \<Rightarrow> nat \<Rightarrow> ksys \<Rightarrow> (procref option \<times> ksys) res option" where
  "alloc_pcb_scan k this i 0 st = Some (Inr (None, st))"
| "alloc_pcb_scan k this i (Suc r) st =
     (case try_acquire_spinlock k (plock (proc_at (conts st) (this, i))) of
        (False, _) \<Rightarrow> alloc_pcb_scan k this (Suc i) r st
      | (True, l) \<Rightarrow>
          if pstate (proc_at (conts st) (this, i)) = UNUSED then
            (let st1 = set_proc st (this, i) (\<lambda>_. zero_proc\<lparr>pstate := EMBRYO\<rparr>) in
             bind_run (alloc_resource k (scont (scheduler (conts st1 this))) (this, i) (conts st1)) (\<lambda>(res, cs).
               case res of
                 None \<Rightarrow> Some (Inl (Fault ''*(int *)alloc_resource''))
               | Some n \<Rightarrow> Some (Inr (Some (this, i), set_proc (st1\<lparr>conts := cs\<rparr>) (this, i) (\<lambda>x. x\<lparr>pid := n\<rparr>)))))
          else
            bind_run (Some (release_spinlock k l)) (\<lambda>l'.
              alloc_pcb_scan k this (Suc i) r (set_proc st (this, i) (\<lambda>x. x\<lparr>plock := l'\<rparr>))))"

definition alloc_pcb_simple :: "nat \<Rightarrow> addr \<Rightarrow> ksys \<Rightarrow> (procref option \<times> ksys) res option" where
  "alloc_pcb_simple k this st = alloc_pcb_scan k this 0 NPROC st"

definition alloc_pcb :: "nat \<Rightarrow> ksys \<Rightarrow> (procref option \<times> ksys) res option" where
  "alloc_pcb k st =
     (if cscheduler (cpus st k) = NULL then Some (Inl (Panic ''thiscpu()->scheduler != NULL''))
      else alloc_pcb_simple k (cscheduler (cpus st k)) st)"

text \<open>Memory as 64-bit words: clearing a region whose size is a multiple of eight, writing a word, and
  copying bytes (little-endian).\<close>

definition zero_words :: "addr \<Rightarrow> u64 \<Rightarrow> ksys \<Rightarrow> ksys" where
  "zero_words a n st = st\<lparr>kvm := (kvm st)\<lparr>ptmem := (\<lambda>x. if x - a < n then 0 else ptmem (kvm st) x)\<rparr>\<rparr>"

definition put_word :: "addr \<Rightarrow> u64 \<Rightarrow> ksys \<Rightarrow> ksys" where
  "put_word a w st = st\<lparr>kvm := (kvm st)\<lparr>ptmem := (ptmem (kvm st))(a := w)\<rparr>\<rparr>"

definition put_byte :: "addr \<Rightarrow> u8 \<Rightarrow> (addr \<Rightarrow> u64) \<Rightarrow> addr \<Rightarrow> u64" where
  "put_byte a b m =
     (let w = a AND NOT 7; sh = 8 * unat (a AND 7)
      in m(w := (m w AND NOT (push_bit sh 0xff)) OR push_bit sh (ucast b)))"

primrec put_bytes :: "addr \<Rightarrow> u8 list \<Rightarrow> (addr \<Rightarrow> u64) \<Rightarrow> addr \<Rightarrow> u64" where
  "put_bytes a [] m = m"
| "put_bytes a (b # bs) m = put_bytes (a + 1) bs (put_byte a b m)"

definition kalloc_page :: "nat \<Rightarrow> ksys \<Rightarrow> (addr \<times> ksys) res" where
  "kalloc_page k st =
     bind_res (kalloc k (pmem (kvm st))) (\<lambda>(p, pm). Inr (p, st\<lparr>kvm := (kvm st)\<lparr>pmem := pm\<rparr>\<rparr>))"

definition alloc_proc :: "nat \<Rightarrow> ksys \<Rightarrow> (procref \<times> ksys) res option" where
  "alloc_proc k st =
     bind_run (alloc_pcb k st) (\<lambda>(r, st1).
     bind_run (Some (kalloc_page k st1)) (\<lambda>(stack, st2).
       case r of
         None \<Rightarrow> Some (Inl (Fault ''p->lock''))
       | Some p \<Rightarrow>
           Some (bind_res (lock_proc k st2 p) (\<lambda>st3.
             let tfp = stack + KSTACKSIZE - sizeof_Trapframe;
                 ctx = tfp - sizeof_context;
                 st4 = zero_words ctx sizeof_context (zero_words tfp sizeof_Trapframe st3);
                 st5 = set_proc st4 p (\<lambda>x. x\<lparr>kstack := stack, tf := tfp, pcontext := ctx\<rparr>)
             in bind_res (unlock_proc k st5 p) (\<lambda>st6. Inr (p, st6))))))"

subsection \<open>User programs\<close>

text \<open>Copying a program of the kernel image to fresh pages, one page at a time, mapped from address
  \<open>vplace\<close> on. The result of \<open>uvm_map\<close> is ignored.\<close>

function load_image :: "nat \<Rightarrow> addr \<Rightarrow> u64 \<Rightarrow> u8 list \<Rightarrow> ksys \<Rightarrow> ksys res option" where
  "load_image k pgd vplace code st =
     (if code = [] then Some (Inr st)
      else
        bind_run (Some (kalloc_page k st)) (\<lambda>(page, st1).
        bind_run (my_uvm_map k (kvm st1) pgd vplace (of_nat (length (take PAGE_SIZE code))) (K2P page)) (\<lambda>(_, vm).
          load_image k pgd (vplace + 4096) (drop PAGE_SIZE code)
            (st1\<lparr>kvm := vm\<lparr>ptmem := put_bytes page (take PAGE_SIZE code) (ptmem vm)\<rparr>\<rparr>))))"
  by pat_completeness auto
termination by (relation "measure (\<lambda>(k, pgd, v, code, st). length code)") auto

definition bound_processor :: "ksys \<Rightarrow> procref \<Rightarrow> u64 \<Rightarrow> ksys res" where
  "bound_processor st p c =
     (if \<not> c < of_nat NCPU then Inl (Panic ''bounding a processor exceeding limit'')
      else Inr (set_proc st p (\<lambda>x. x\<lparr>bounding := push_bit (unat c) 1\<rparr>)))"

primrec bound_scan :: "nat \<Rightarrow> addr \<Rightarrow> u64 \<Rightarrow> u64 \<Rightarrow> nat \<Rightarrow> nat \<Rightarrow> ksys \<Rightarrow> ksys res" where
  "bound_scan k this n c i 0 st = Inr st"
| "bound_scan k this n c i (Suc r) st =
     bind_res
       (if \<not> holding_spinlock k (plock (proc_at (conts st) (this, i))) then
          bind_res (lock_proc k st (this, i)) (\<lambda>st1.
          bind_res (if scast (pid (proc_at (conts st1) (this, i))) = n then bound_processor st1 (this, i) c else Inr st1)
            (\<lambda>st2. unlock_proc k st2 (this, i)))
        else if scast (pid (proc_at (conts st) (this, i))) = n then bound_processor st (this, i) c
        else Inr st)
       (\<lambda>st'. bound_scan k this n c (Suc i) r st')"

definition bound_processor_pid :: "nat \<Rightarrow> ksys \<Rightarrow> u64 \<Rightarrow> u64 \<Rightarrow> ksys res" where
  "bound_processor_pid k st n c = bound_scan k (cscheduler (cpus st k)) n c 0 NPROC st"

text \<open>The common body of the functions that start a user program: \<open>ret\<close> is the address the first switch
  to the process returns to, \<open>bind_cpu\<close> the call of \<open>bound_processor_pid\<close> in \<open>sd_init_idle\<close>.\<close>

definition spawn_program :: "nat \<Rightarrow> u8 list \<Rightarrow> u64 \<Rightarrow> bool \<Rightarrow> ksys \<Rightarrow> ksys res option" where
  "spawn_program k code ret bind_cpu st =
     bind_run (alloc_proc k st) (\<lambda>(p, st1).
     bind_run (Some (lock_proc k st1 p)) (\<lambda>st2.
     bind_run (Some (my_pgdir_init k (kvm st2))) (\<lambda>(pgd, vm).
     let st3 = set_proc (st2\<lparr>kvm := vm\<rparr>) p (\<lambda>x. x\<lparr>pgdir := pgd\<rparr>) in
     if pgd = NULL then Some (Inl (Panic ''Could not initialize root pagetable''))
     else
       bind_run (load_image k pgd 0 code st3) (\<lambda>st4.
       let st5 = put_word (pcontext (proc_at (conts st4) p) + 120) ret
                   (set_proc st4 p (\<lambda>x. x\<lparr>pstate := RUNNABLE, sz := 4096\<rparr>)) in
       bind_run (Some (if bind_cpu then bound_processor_pid k st5 (scast (pid (proc_at (conts st5) p))) 0 else Inr st5)) (\<lambda>st6.
         Some (unlock_proc k st6 p))))))"

definition spawn_init_process :: "nat \<Rightarrow> u8 list \<Rightarrow> ksys \<Rightarrow> ksys res option" where
  "spawn_init_process k icode st = spawn_program k icode (to_initret st) False st"

primrec add_loop_test :: "nat \<Rightarrow> u8 list \<Rightarrow> nat \<Rightarrow> ksys \<Rightarrow> ksys res option" where
  "add_loop_test k loop 0 st = Some (Inr st)"
| "add_loop_test k loop (Suc n) st =
     bind_run (spawn_program k loop (to_forkret st) False st) (\<lambda>st'. add_loop_test k loop n st')"

definition add_sd_test :: "nat \<Rightarrow> u8 list \<Rightarrow> ksys \<Rightarrow> ksys res option" where
  "add_sd_test k sdtest st = spawn_program k sdtest (to_initret st) False st"

definition sd_init_idle :: "nat \<Rightarrow> u8 list \<Rightarrow> ksys \<Rightarrow> ksys res option" where
  "sd_init_idle k sdloop st = spawn_program k sdloop (to_forkret st) True st"

subsection \<open>Containers\<close>

definition zero_container :: container where
  "zero_container = \<lparr>cp = None,
     scheduler = \<lparr>contexts = replicate NCPU 0, ptable = replicate NPROC zero_proc, ptable_lock = null_lock,
        nextpid = 0, sparent = 0, scont = 0\<rparr>,
     colock = null_lock, parent = 0, pmap = replicate NPID \<lparr>mvalid = False, pid_local = 0, mproc = None\<rparr>\<rparr>"

definition fresh_container :: "addr \<Rightarrow> container" where
  "fresh_container c = zero_container\<lparr>
     scheduler := (scheduler zero_container)\<lparr>scont := c, nextpid := 1, ptable_lock := init_spinlock null_lock ''ptable'',
        ptable := map (\<lambda>x. x\<lparr>plock := init_spinlock (plock x) ''process''\<rparr>) (ptable (scheduler zero_container))\<rparr>,
     colock := init_spinlock null_lock ''container''\<rparr>"

definition container_stacks :: "addr \<Rightarrow> addr \<Rightarrow> nat \<Rightarrow> ksys \<Rightarrow> ksys" where
  "container_stacks c stack i st =
     put_word (stack + 4096 * of_nat (Suc i) - sizeof_context + 120) (container_entry st)
       (st\<lparr>conts := upd_sched (conts st) c (\<lambda>s. s\<lparr>contexts := (contexts s)[i := stack + 4096 * of_nat (Suc i) - sizeof_context]\<rparr>)\<rparr>)"

definition alloc_container :: "nat \<Rightarrow> bool \<Rightarrow> ksys \<Rightarrow> (addr \<times> ksys) res option" where
  "alloc_container k root st =
     bind_run (Some (alloc_object k ((cont_arena st)\<lparr>apmem := pmem (kvm st)\<rparr>) (cont_arena_addr st))) (\<lambda>(c, ar).
     let st1 = st\<lparr>cont_arena := ar, kvm := (kvm st)\<lparr>pmem := apmem ar\<rparr>, conts := (conts st)(c := fresh_container c)\<rparr> in
     if root then Some (Inr (c, st1))
     else
       bind_run (alloc_pcb k st1) (\<lambda>(r, st2).
         case r of
           None \<Rightarrow> Some (Inl (Fault ''cont->p->is_scheduler''))
         | Some p \<Rightarrow>
             let st3 = set_proc (st2\<lparr>conts := (conts st2)(c := (conts st2 c)\<lparr>cp := Some p\<rparr>)\<rparr>) p
                         (\<lambda>x. x\<lparr>is_scheduler := True, cont := c\<rparr>) in
             bind_run (Some (nkalloc k (pmem (kvm st3)) 4)) (\<lambda>(stack, pm).
               Some (Inr (c, fold (container_stacks c stack) [0..<NCPU]
                 (set_proc (st3\<lparr>kvm := (kvm st3)\<lparr>pmem := pm\<rparr>\<rparr>) p (\<lambda>x. x\<lparr>kstack := stack\<rparr>)))))))"

definition sizeof_container :: usize where
  "sizeof_container = 3328"

text \<open>The two steps of \<open>init_container\<close>; it prints a message between them.\<close>

definition init_container_arena :: "nat \<Rightarrow> ksys \<Rightarrow> (unit \<times> ksys) res option" where
  "init_container_arena k st =
     bind_run (Some (init_arena (cont_arena st) (cont_arena_addr st) sizeof_container (kernel_allocator k))) (\<lambda>ar.
       Some (Inr ((), st\<lparr>cont_arena := ar\<rparr>)))"

definition alloc_root_container :: "nat \<Rightarrow> ksys \<Rightarrow> (unit \<times> ksys) res option" where
  "alloc_root_container k st =
     bind_run (alloc_container k True st) (\<lambda>(c, st1). Some (Inr ((), st1\<lparr>root_container := c\<rparr>)))"

definition spawn_container :: "nat \<Rightarrow> addr \<Rightarrow> ksys \<Rightarrow> (addr \<times> ksys) res option" where
  "spawn_container k this st =
     bind_run (alloc_container k False st) (\<lambda>(c, st1).
       case cp (conts st1 c) of
         None \<Rightarrow> Some (Inl (Fault ''cont->p->lock''))
       | Some p \<Rightarrow>
           bind_run (Some (lock_proc k st1 p)) (\<lambda>st2.
           let st3 = set_proc st2 p (\<lambda>x. x\<lparr>pstate := RUNNABLE, sz := 4096 * of_nat NCPU\<rparr>);
               st4 = st3\<lparr>conts := (conts st3)(c := (conts st3 c)\<lparr>parent := this,
                       scheduler := (scheduler (conts st3 c))\<lparr>sparent := this\<rparr>\<rparr>)\<rparr>
           in Some (bind_res (unlock_proc k st4 p) (\<lambda>st5. Inr (c, st5)))))"

definition container_test_init :: "nat \<Rightarrow> ksys \<Rightarrow> ksys res option" where
  "container_test_init k st =
     bind_run (spawn_container k (root_container st) st) (\<lambda>(_, st1).
     bind_run (spawn_container k (root_container st1) st1) (\<lambda>(_, st2). Some (Inr st2)))"

text \<open>What a fresh scheduler thread does before it enters its scheduling loop.\<close>

definition container_entry_body :: "nat \<Rightarrow> u8 list \<Rightarrow> ksys \<Rightarrow> ksys res option" where
  "container_entry_body k loop st = add_loop_test k loop 3 st"

subsection \<open>The locks of the tables and the CPUs\<close>

definition init_sched_simple :: "addr \<Rightarrow> ksys \<Rightarrow> ksys" where
  "init_sched_simple this st =
     st\<lparr>conts := upd_sched (conts st) this (\<lambda>s. s\<lparr>ptable_lock := init_spinlock (ptable_lock s) ''ptable''\<rparr>)\<rparr>"

definition acquire_ptable_lock :: "nat \<Rightarrow> addr \<Rightarrow> ksys \<Rightarrow> ksys res" where
  "acquire_ptable_lock k this st =
     bind_res (acquire_spinlock k (ptable_lock (scheduler (conts st this)))) (\<lambda>l.
       Inr (st\<lparr>conts := upd_sched (conts st) this (\<lambda>s. s\<lparr>ptable_lock := l\<rparr>)\<rparr>))"

definition release_ptable_lock :: "nat \<Rightarrow> addr \<Rightarrow> ksys \<Rightarrow> ksys res" where
  "release_ptable_lock k this st =
     bind_res (release_spinlock k (ptable_lock (scheduler (conts st this)))) (\<lambda>l.
       Inr (st\<lparr>conts := upd_sched (conts st) this (\<lambda>s. s\<lparr>ptable_lock := l\<rparr>)\<rparr>))"

definition acquire_sched_lock :: "nat \<Rightarrow> ksys \<Rightarrow> ksys res" where
  "acquire_sched_lock k st = acquire_ptable_lock k (cscheduler (cpus st k)) st"

definition release_sched_lock :: "nat \<Rightarrow> ksys \<Rightarrow> ksys res" where
  "release_sched_lock k st = release_ptable_lock k (cscheduler (cpus st k)) st"

definition init_cpu :: "nat \<Rightarrow> addr \<Rightarrow> ksys \<Rightarrow> ksys" where
  "init_cpu k this st = set_cpu st k (\<lambda>c. c\<lparr>cscheduler := this\<rparr>)"

subsection \<open>Process identifiers are unique in every ancestor\<close>

text \<open>\<open>ancestors cs c ds\<close>: \<open>ds\<close> is the chain of containers from \<open>c\<close> to the root. \<open>pids_ok ct n\<close>: the container
  has handed out the identifiers 1 to \<open>n\<close>, in the order of its table.\<close>

fun ancestors :: "(addr \<Rightarrow> container) \<Rightarrow> addr \<Rightarrow> addr list \<Rightarrow> bool" where
  "ancestors cs c [] \<longleftrightarrow> c = NULL"
| "ancestors cs c (d # ds) \<longleftrightarrow> c = d \<and> d \<noteq> NULL \<and> ancestors cs (parent (cs d)) ds"

definition pids_ok :: "container \<Rightarrow> nat \<Rightarrow> bool" where
  "pids_ok ct n \<longleftrightarrow> lock_free (colock ct) \<and> length (pmap ct) = NPID \<and> n \<le> NPID \<and>
     nextpid (scheduler ct) = of_nat (Suc n) \<and>
     (\<forall>i<NPID. mvalid (pmap ct ! i) = (i < n) \<and> (i < n \<longrightarrow> pid_local (pmap ct ! i) = of_nat (Suc i)))"

definition record_pid :: "container \<Rightarrow> nat \<Rightarrow> procref \<Rightarrow> container" where
  "record_pid ct n p = ct\<lparr>scheduler := (scheduler ct)\<lparr>nextpid := of_nat (Suc n) + 1\<rparr>,
     pmap := (pmap ct)[n := \<lparr>mvalid = True, pid_local = of_nat (Suc n), mproc = Some p\<rparr>]\<rparr>"

lemma pids_ok_record: "pids_ok ct n \<Longrightarrow> n < NPID \<Longrightarrow> pids_ok (record_pid ct n p) (Suc n)"
  by (auto simp: pids_ok_def record_pid_def nth_list_update less_Suc_eq add.commute)

lemma find_mapping_prefix:
  "i \<le> n \<Longrightarrow> n \<le> i + r \<Longrightarrow> (\<And>j. j < i + r \<Longrightarrow> mvalid (m ! j) = (j < n)) \<Longrightarrow>
   find_mapping m i r = (if n < i + r then Some n else None)"
proof (induction r arbitrary: i)
  case (Suc r)
  show ?case
  proof (cases "i = n")
    case True
    then show ?thesis using Suc.prems(3) [of i] by simp
  next
    case False
    then have "mvalid (m ! i)" using Suc.prems by simp
    then show ?thesis using Suc.IH [of "Suc i"] Suc.prems False by simp
  qed
qed auto

lemma find_mapping_ok: "pids_ok ct n \<Longrightarrow> find_mapping (pmap ct) 0 NPID = (if n < NPID then Some n else None)"
  using find_mapping_prefix [of 0 n NPID "pmap ct"] by (simp add: pids_ok_def)

lemma sint_small_pid: "n \<le> NPID \<Longrightarrow> \<not> sint (of_nat (Suc n) :: u32) < 0"
  by (simp add: signed_of_nat signed_take_bit_int_eq_self del: of_nat_Suc)

lemma ancestors_cong: "(\<And>d. d \<in> set ds \<Longrightarrow> parent (cs' d) = parent (cs d)) \<Longrightarrow> ancestors cs' c ds = ancestors cs c ds"
  by (induction ds arbitrary: c) auto

lemma alloc_resource_spec:
  "ancestors cs c ds \<Longrightarrow> distinct ds \<Longrightarrow> (\<And>d. d \<in> set ds \<Longrightarrow> pids_ok (cs d) (n d)) \<Longrightarrow>
   alloc_resource k c p cs =
     Some (if \<exists>d\<in>set ds. n d = NPID then Inl (Panic ''alloc_resource : could not allocate new pid.'')
           else Inr (if c = NULL then None else Some (of_nat (Suc (n c))),
                     \<lambda>d. if d \<in> set ds then record_pid (cs d) (n d) p else cs d))"
proof (induction ds arbitrary: c cs)
  case Nil
  then show ?case by (simp add: alloc_resource.simps)
next
  case (Cons d ds)
  have c: "c = d" "d \<noteq> NULL" "ancestors cs (parent (cs d)) ds" using Cons.prems(1) by auto
  have ok: "pids_ok (cs d) (n d)" using Cons.prems(3) by simp
  then obtain l where l: "acquire_spinlock k (colock (cs d)) = Inr l" "release_spinlock k l = Inr (colock (cs d))"
    by (simp add: pids_ok_def)
  have nd: "n d \<le> NPID" using ok by (simp add: pids_ok_def)
  have np: "nextpid (scheduler (cs d)) = of_nat (Suc (n d))" using ok by (simp add: pids_ok_def)
  note fm = find_mapping_ok [OF ok]
  show ?case
  proof (cases "n d < NPID")
    case False
    then have "n d = NPID" using nd by simp
    with c l fm show ?thesis by (subst alloc_resource.simps) simp
  next
    case True
    let ?cs = "cs(d := record_pid (cs d) (n d) p)"
    have eq: "(cs d)\<lparr>scheduler := (scheduler (cs d))\<lparr>nextpid := of_nat (Suc (n d)) + 1\<rparr>, colock := colock (cs d),
        pmap := (pmap (cs d))[n d := \<lparr>mvalid = True, pid_local = of_nat (Suc (n d)), mproc = Some p\<rparr>]\<rparr> = record_pid (cs d) (n d) p"
      by (simp add: record_pid_def)
    have step: "alloc_resource k c p cs =
        Option.bind (alloc_resource k (parent (cs d)) p ?cs) (\<lambda>r. Some (bind_res r (\<lambda>(_, cs'). Inr (Some (of_nat (Suc (n d))), cs'))))"
      using c l fm True sint_small_pid [OF nd] np eq by (subst alloc_resource.simps) (simp add: Let_def)
    have a1: "ancestors ?cs (parent (cs d)) ds"
      using ancestors_cong [of ds ?cs cs "parent (cs d)"] c(3) Cons.prems(2) by (simp add: record_pid_def)
    have a2: "\<And>e. e \<in> set ds \<Longrightarrow> pids_ok (?cs e) (n e)" using Cons.prems(2,3) by auto
    have a3: "distinct ds" using Cons.prems(2) by simp
    have ih: "alloc_resource k (parent (cs d)) p ?cs =
       Some (if \<exists>d\<in>set ds. n d = NPID then Inl (Panic ''alloc_resource : could not allocate new pid.'')
           else Inr (if parent (cs d) = NULL then None else Some (of_nat (Suc (n (parent (cs d))))),
                     \<lambda>e. if e \<in> set ds then record_pid (?cs e) (n e) p else ?cs e))"
      by (rule Cons.IH [OF a1 a3]) (rule a2)
    have upd: "(\<lambda>e. if e \<in> set ds then record_pid (?cs e) (n e) p else ?cs e) =
        (\<lambda>e. if e \<in> set (d # ds) then record_pid (cs e) (n e) p else cs e)"
      using Cons.prems(2) by (auto simp: fun_eq_iff)
    show ?thesis unfolding step ih upd using True c(1,2) by (simp del: of_nat_Suc)
  qed
qed

text \<open>C25: allocating a process identifier in a container records the process in that container and in each of its
  ancestors, under the next identifier of each; identifiers stay distinct and in order everywhere; no
  other container changes. The call panics exactly when one of these containers has handed out all of its
  64 entries, since no entry is ever given back.\<close>

theorem alloc_resource_pids:
  assumes "ancestors cs c ds" and "distinct ds" and "c \<noteq> NULL" and "\<forall>d\<in>set ds. pids_ok (cs d) (n d)"
  shows "if \<exists>d\<in>set ds. n d = NPID
    then alloc_resource k c p cs = Some (Inl (Panic ''alloc_resource : could not allocate new pid.''))
    else \<exists>cs'. alloc_resource k c p cs = Some (Inr (Some (of_nat (Suc (n c))), cs')) \<and>
      (\<forall>d\<in>set ds. pids_ok (cs' d) (Suc (n d)) \<and>
         pmap (cs' d) = (pmap (cs d))[n d := \<lparr>mvalid = True, pid_local = of_nat (Suc (n d)), mproc = Some p\<rparr>]) \<and>
      (\<forall>d. d \<notin> set ds \<longrightarrow> cs' d = cs d)"
proof -
  have s: "alloc_resource k c p cs =
     Some (if \<exists>d\<in>set ds. n d = NPID then Inl (Panic ''alloc_resource : could not allocate new pid.'')
           else Inr (Some (of_nat (Suc (n c))), \<lambda>d. if d \<in> set ds then record_pid (cs d) (n d) p else cs d))"
    using alloc_resource_spec [OF assms(1,2), of n k p] assms(3,4) by simp
  have "pids_ok (record_pid (cs d) (n d) p) (Suc (n d))" if "d \<in> set ds" "\<not> (\<exists>d\<in>set ds. n d = NPID)" for d
  proof (rule pids_ok_record)
    show "pids_ok (cs d) (n d)" using assms(4) that by blast
    then have "n d \<le> NPID" by (simp add: pids_ok_def)
    then show "n d < NPID" using that by (auto simp: le_less)
  qed
  then show ?thesis using s by (auto simp: record_pid_def)
qed

lemma pids_ok_fresh: "pids_ok (fresh_container c) 0"
  by (simp add: pids_ok_def fresh_container_def zero_container_def lock_free_def init_spinlock_def)

theorem alloc_resource_pids_witness:
  "\<exists>cs'. alloc_resource 0 4096 (4096, 3) (\<lambda>_. fresh_container 4096) = Some (Inr (Some 1, cs')) \<and> pids_ok (cs' 4096) 1"
proof -
  have "ancestors (\<lambda>_. fresh_container 4096) 4096 [4096]" by (simp add: fresh_container_def zero_container_def)
  from alloc_resource_pids [OF this, of "\<lambda>_. 0" 0 "(4096, 3)"] show ?thesis by (auto simp: pids_ok_fresh)
qed

subsection \<open>Process slots\<close>

definition slots_ok :: "(addr \<Rightarrow> container) \<Rightarrow> addr \<Rightarrow> bool" where
  "slots_ok cs c \<longleftrightarrow> length (ptable (scheduler (cs c))) = NPROC \<and>
     (\<forall>i<NPROC. locked (plock (proc_at cs (c, i))) \<or> lock_free (plock (proc_at cs (c, i))))"

definition free_slot :: "(addr \<Rightarrow> container) \<Rightarrow> addr \<Rightarrow> nat \<Rightarrow> bool" where
  "free_slot cs c i \<longleftrightarrow> \<not> locked (plock (proc_at cs (c, i))) \<and> pstate (proc_at cs (c, i)) = UNUSED"

lemma upd_proc_self [simp]: "upd_proc cs p (\<lambda>_. proc_at cs p) = cs"
  by (simp add: upd_proc_def upd_sched_def proc_at_def)

lemma upd_proc_cong: "f (proc_at cs p) = g (proc_at cs p) \<Longrightarrow> upd_proc cs p f = upd_proc cs p g"
  by (simp add: upd_proc_def upd_sched_def proc_at_def)

lemma proc_at_upd_proc:
  "snd p < length (ptable (scheduler (cs (fst p)))) \<Longrightarrow>
   proc_at (upd_proc cs p f) q = (if q = p then f (proc_at cs p) else proc_at cs q)"
  by (cases p; cases q) (auto simp: proc_at_def upd_proc_def upd_sched_def nth_list_update)

lemma upd_proc_other [simp]: "c \<noteq> fst p \<Longrightarrow> upd_proc cs p f c = cs c"
  by (simp add: upd_proc_def upd_sched_def)

lemma upd_proc_fields [simp]:
  "parent (upd_proc cs p f c) = parent (cs c)" "pmap (upd_proc cs p f c) = pmap (cs c)" "colock (upd_proc cs p f c) = colock (cs c)"
  "cp (upd_proc cs p f c) = cp (cs c)"
  "nextpid (scheduler (upd_proc cs p f c)) = nextpid (scheduler (cs c))"
  "sparent (scheduler (upd_proc cs p f c)) = sparent (scheduler (cs c))"
  "scont (scheduler (upd_proc cs p f c)) = scont (scheduler (cs c))"
  "contexts (scheduler (upd_proc cs p f c)) = contexts (scheduler (cs c))"
  "length (ptable (scheduler (upd_proc cs p f c))) = length (ptable (scheduler (cs c)))"
  by (simp_all add: upd_proc_def upd_sched_def)

lemma pids_ok_upd_proc [simp]: "pids_ok (upd_proc cs p f c) n = pids_ok (cs c) n"
  by (simp add: pids_ok_def)

lemma ancestors_upd_proc [simp]: "ancestors (upd_proc cs p f) c ds = ancestors cs c ds"
  by (rule ancestors_cong) simp

lemma set_proc_fields [simp]:
  "conts (set_proc st p f) = upd_proc (conts st) p f" "cpus (set_proc st p f) = cpus st" "kvm (set_proc st p f) = kvm st"
  "root_container (set_proc st p f) = root_container st"
  by (simp_all add: set_proc_def)

lemma set_proc_self: "f (proc_at (conts st) p) = proc_at (conts st) p \<Longrightarrow> set_proc st p f = st"
  using upd_proc_cong [of f "conts st" p "\<lambda>_. proc_at (conts st) p"] by (simp add: set_proc_def)

lemma proc_lock_self [simp]: "(proc_at cs p)\<lparr>plock := plock (proc_at cs p)\<rparr> = proc_at cs p"
  by simp

lemma alloc_pcb_scan_step:
  assumes "slots_ok (conts st) c" "i < NPROC" "\<not> free_slot (conts st) c i"
  shows "alloc_pcb_scan k c i (Suc r) st = alloc_pcb_scan k c (Suc i) r st"
proof (cases "locked (plock (proc_at (conts st) (c, i)))")
  case False
  then have "lock_free (plock (proc_at (conts st) (c, i)))" "pstate (proc_at (conts st) (c, i)) \<noteq> UNUSED"
    using assms by (auto simp: slots_ok_def free_slot_def)
  then show ?thesis using False
    by (simp add: try_acquire_spinlock_def set_proc_self)
qed (simp add: try_acquire_spinlock_def)

lemma alloc_pcb_scan_none:
  "slots_ok (conts st) c \<Longrightarrow> i + r \<le> NPROC \<Longrightarrow> (\<And>j. i \<le> j \<Longrightarrow> j < i + r \<Longrightarrow> \<not> free_slot (conts st) c j) \<Longrightarrow>
   alloc_pcb_scan k c i r st = Some (Inr (None, st))"
  by (induction r arbitrary: i) (simp_all add: alloc_pcb_scan_step del: alloc_pcb_scan.simps(2))

lemma alloc_pcb_scan_first:
  "slots_ok (conts st) c \<Longrightarrow> i + r \<le> NPROC \<Longrightarrow> i \<le> j \<Longrightarrow> j < i + r \<Longrightarrow>
   (\<And>m. i \<le> m \<Longrightarrow> m < j \<Longrightarrow> \<not> free_slot (conts st) c m) \<Longrightarrow>
   alloc_pcb_scan k c i r st = alloc_pcb_scan k c j (i + r - j) st"
proof (induction r arbitrary: i)
  case (Suc r)
  show ?case
  proof (cases "i = j")
    case False
    then have "alloc_pcb_scan k c i (Suc r) st = alloc_pcb_scan k c (Suc i) r st"
      using Suc.prems by (intro alloc_pcb_scan_step) auto
    also have "\<dots> = alloc_pcb_scan k c j (Suc i + r - j) st"
      by (rule Suc.IH) (use Suc.prems False in auto)
    finally show ?thesis by simp
  qed simp
qed simp

lemma alloc_pcb_spec:
  assumes ok: "slots_ok (conts st) c" and i: "i < NPROC" "free_slot (conts st) c i" "\<forall>j<i. \<not> free_slot (conts st) c j"
    and self: "scont (scheduler (conts st c)) = c" "c \<noteq> NULL"
    and anc: "ancestors (conts st) c ds" "distinct ds" "\<forall>d\<in>set ds. pids_ok (conts st d) (n d) \<and> n d < NPID"
  shows "\<exists>cs. alloc_pcb_simple k c st = Some (Inr (Some (c, i), st\<lparr>conts := cs\<rparr>)) \<and>
    proc_at cs (c, i) = zero_proc\<lparr>pstate := EMBRYO, pid := of_nat (Suc (n c))\<rparr> \<and>
    (\<forall>q. q \<noteq> (c, i) \<longrightarrow> proc_at cs q = proc_at (conts st) q) \<and>
    (\<forall>d. parent (cs d) = parent (conts st d) \<and> cp (cs d) = cp (conts st d) \<and>
         length (ptable (scheduler (cs d))) = length (ptable (scheduler (conts st d))) \<and>
         (if d \<in> set ds then pids_ok (cs d) (Suc (n d)) else pmap (cs d) = pmap (conts st d)))"
proof -
  let ?f = "\<lambda>_. zero_proc\<lparr>pstate := EMBRYO\<rparr>"
  define st1 where "st1 = set_proc st (c, i) ?f"
  define cs1 where "cs1 = (\<lambda>d. if d \<in> set ds then record_pid (conts st1 d) (n d) (c, i) else conts st1 d)"
  have c: "c \<in> set ds" using anc(1) self(2) by (cases ds) auto
  have len: "length (ptable (scheduler (conts st c))) = NPROC" using ok by (simp add: slots_ok_def)
  have nl: "\<not> locked (plock (proc_at (conts st) (c, i)))" "pstate (proc_at (conts st) (c, i)) = UNUSED"
    using i(2) by (simp_all add: free_slot_def)
  have ar: "alloc_resource k c (c, i) (conts st1) = Some (Inr (Some (of_nat (Suc (n c))), cs1))"
    using alloc_resource_spec [of "conts st1" c ds n k "(c, i)"] anc self(2) c
    by (auto simp: st1_def cs1_def set_proc_def cong: if_cong)
  have pr: "proc_at cs1 q = proc_at (conts st1) q" for q by (simp add: proc_at_def cs1_def record_pid_def)
  define cs where "cs = upd_proc cs1 (c, i) (\<lambda>x. x\<lparr>pid := of_nat (Suc (n c))\<rparr>)"
  have r: "alloc_pcb_simple k c st = alloc_pcb_scan k c i (Suc (NPROC - Suc i)) st"
  proof -
    have "NPROC - i = Suc (NPROC - Suc i)" using i(1) by arith
    then show ?thesis using alloc_pcb_scan_first [OF ok, of 0 NPROC i k] i
      by (simp add: alloc_pcb_simple_def del: alloc_pcb_scan.simps)
  qed
  have sc: "scont (scheduler (conts st1 c)) = c" by (simp add: st1_def self)
  have "alloc_pcb_simple k c st = Some (Inr (Some (c, i), st\<lparr>conts := cs\<rparr>))"
    unfolding r using nl ar sc
    by (simp add: try_acquire_spinlock_def Let_def st1_def [symmetric] cs_def) (simp add: st1_def set_proc_def)
  moreover have "length (ptable (scheduler (cs1 c))) = NPROC" "length (ptable (scheduler (conts st1 c))) = NPROC"
    using len by (simp_all add: cs1_def record_pid_def st1_def)
  then have "proc_at cs q = (if q = (c, i) then zero_proc\<lparr>pstate := EMBRYO, pid := of_nat (Suc (n c))\<rparr> else proc_at (conts st) q)" for q
    using i(1) len by (simp add: cs_def proc_at_upd_proc pr st1_def)
  moreover have "if d \<in> set ds then pids_ok (cs d) (Suc (n d)) else pmap (cs d) = pmap (conts st d)" for d
    using anc(3) by (auto simp: cs_def cs1_def st1_def intro!: pids_ok_record)
  moreover have "parent (cs d) = parent (conts st d) \<and> cp (cs d) = cp (conts st d) \<and>
         length (ptable (scheduler (cs d))) = length (ptable (scheduler (conts st d)))" for d
    by (simp add: cs_def cs1_def st1_def record_pid_def)
  ultimately show ?thesis by (intro exI [of _ cs]) (simp del: of_nat_Suc)
qed

text \<open>C23: when the current container has an unlocked unused slot and identifiers are left in all its ancestors,
  \<open>alloc_proc\<close> takes the first such slot and fails only for lack of a page. The process it returns is an
  unlocked \<open>EMBRYO\<close> with the next identifier, a kernel stack on a page nobody owned, and a cleared trap
  frame and context at its top; no other process, page or word of memory changes.\<close>

theorem alloc_proc_fresh:
  assumes ok: "slots_ok (conts st) c" and c: "cscheduler (cpus st k) = c" "c \<noteq> NULL" "scont (scheduler (conts st c)) = c"
    and i: "i < NPROC" "free_slot (conts st) c i" "\<forall>j<i. \<not> free_slot (conts st) c j"
    and anc: "ancestors (conts st) c ds" "distinct ds" "\<forall>d\<in>set ds. pids_ok (conts st d) (n d) \<and> n d < NPID"
    and inv: "pm_inv (pmem (kvm st))"
  shows "case alloc_proc k st of
      None \<Rightarrow> False
    | Some (Inl e) \<Rightarrow> kalloc k (pmem (kvm st)) = Inl e
    | Some (Inr (p, st')) \<Rightarrow> p = (c, i) \<and>
        (\<exists>stack. stack \<notin> pm_live (pmem (kvm st)) \<and> pm_live (pmem (kvm st')) = insert stack (pm_live (pmem (kvm st))) \<and>
           pm_inv (pmem (kvm st')) \<and>
           proc_at (conts st') p = zero_proc\<lparr>pstate := EMBRYO, pid := of_nat (Suc (n c)), kstack := stack,
              tf := stack + 3824, pcontext := stack + 3696\<rparr> \<and>
           (\<forall>x. ptmem (kvm st') x = (if x - (stack + 3696) < 400 then 0 else ptmem (kvm st) x))) \<and>
        (\<forall>q. q \<noteq> p \<longrightarrow> proc_at (conts st') q = proc_at (conts st) q) \<and>
        (\<forall>d\<in>set ds. pids_ok (conts st' d) (Suc (n d)))"
proof -
  obtain cs where a: "alloc_pcb_simple k c st = Some (Inr (Some (c, i), st\<lparr>conts := cs\<rparr>))"
    and pr: "proc_at cs (c, i) = zero_proc\<lparr>pstate := EMBRYO, pid := of_nat (Suc (n c))\<rparr>"
      "\<forall>q. q \<noteq> (c, i) \<longrightarrow> proc_at cs q = proc_at (conts st) q"
    and len: "\<forall>d. length (ptable (scheduler (cs d))) = length (ptable (scheduler (conts st d)))"
    and pids: "\<forall>d\<in>set ds. pids_ok (cs d) (Suc (n d))"
    using alloc_pcb_spec [OF ok i c(3,2) anc, of k] by (metis (no_types, lifting))
  have pcb: "alloc_pcb k st = Some (Inr (Some (c, i), st\<lparr>conts := cs\<rparr>))" using a c by (simp add: alloc_pcb_def)
  show ?thesis
  proof (cases "kalloc k (pmem (kvm st))")
    case (Inl e)
    then show ?thesis by (simp add: alloc_proc_def pcb kalloc_page_def)
  next
    case (Inr r)
    obtain stack pm where r: "r = (stack, pm)" by force
    from kmem.allocate_ok [OF inv] Inr r have
      pm: "stack \<notin> pm_live (pmem (kvm st))" "pm_live pm = insert stack (pm_live (pmem (kvm st)))" "pm_inv pm" by auto
    have i': "i < length (ptable (scheduler (cs c)))" using len ok i(1) by (simp add: slots_ok_def)
    have lf: "lock_free (plock zero_proc)" by (simp add: zero_proc_def null_lock_def lock_free_def)
    define st2 where "st2 = st\<lparr>conts := cs, kvm := (kvm st)\<lparr>pmem := pm\<rparr>\<rparr>"
    define st3 where "st3 = set_proc st2 (c, i) (\<lambda>x. x\<lparr>plock := (plock zero_proc)\<lparr>locked := True, lcpu := Some k\<rparr>\<rparr>)"
    define st5 where "st5 = set_proc (zero_words (stack + 3696) sizeof_context (zero_words (stack + 3824) sizeof_Trapframe st3)) (c, i)
      (\<lambda>x. x\<lparr>kstack := stack, tf := stack + 3824, pcontext := stack + 3696\<rparr>)"
    define st6 where "st6 = set_proc st5 (c, i) (\<lambda>x. x\<lparr>plock := plock zero_proc\<rparr>)"
    have l3: "lock_proc k st2 (c, i) = Inr st3" using lf pr(1) by (simp add: lock_proc_def st2_def st3_def)
    have p5: "proc_at (conts st5) q = (if q = (c, i) then zero_proc\<lparr>pstate := EMBRYO, pid := of_nat (Suc (n c)), kstack := stack,
        tf := stack + 3824, pcontext := stack + 3696, plock := (plock zero_proc)\<lparr>locked := True, lcpu := Some k\<rparr>\<rparr> else proc_at (conts st) q)" for q
      using i' pr(1) pr(2) [rule_format, of q] by (simp add: st5_def st3_def st2_def zero_words_def proc_at_upd_proc)
    have l6: "unlock_proc k st5 (c, i) = Inr st6" using lf by (simp add: unlock_proc_def p5 st6_def)
    have run: "alloc_proc k st = Some (Inr ((c, i), st6))"
      using Inr r l3 l6
      by (simp add: alloc_proc_def pcb kalloc_page_def st2_def [symmetric] st5_def Let_def add.commute)
    have i5: "i < length (ptable (scheduler (conts st5 c)))" using i' by (simp add: st5_def st3_def st2_def zero_words_def)
    have p6: "proc_at (conts st6) q = (if q = (c, i) then zero_proc\<lparr>pstate := EMBRYO, pid := of_nat (Suc (n c)), kstack := stack,
        tf := stack + 3824, pcontext := stack + 3696\<rparr> else proc_at (conts st) q)" for q
      using i5 p5 by (simp add: st6_def proc_at_upd_proc)
    have vm: "pmem (kvm st6) = pm" by (simp add: st6_def st5_def st3_def st2_def zero_words_def)
    have mem: "ptmem (kvm st6) x = (if x - (stack + 3696) < 400 then 0 else ptmem (kvm st) x)" for x
    proof -
      define y where "y = x - (stack + 3696)"
      have "x - (stack + 3824) = y - 128" by (simp add: y_def)
      moreover have "y < 128 \<or> y - 128 < 272 \<longleftrightarrow> y < 400"
        using unat_u64_less [of y] by (auto simp: word_less_nat_alt unat_sub_if' split: if_splits)
      ultimately have "y < 128 \<or> x - (stack + 3824) < 272 \<longleftrightarrow> y < 400" by (simp only:)
      then have "x - (stack + 3696) < 128 \<or> x - (stack + 3824) < 272 \<longleftrightarrow> x - (stack + 3696) < 400"
        unfolding y_def .
      then show ?thesis by (auto simp: st6_def st5_def st3_def st2_def zero_words_def)
    qed
    have pk: "pids_ok (conts st6 d) (Suc (n d))" if "d \<in> set ds" for d
      using pids that by (simp add: st6_def st5_def st3_def st2_def zero_words_def)
    show ?thesis unfolding run using pm vm mem p6 pk by auto
  qed
qed

text \<open>A machine with one fresh root container, scheduled by CPU 0.\<close>

definition sys_example :: ksys where
  "sys_example = \<lparr>conts = (\<lambda>c. fresh_container c), root_container = 4096,
     cpus = (\<lambda>_. \<lparr>cscheduler = 4096, cproc = None\<rparr>), cont_arena = arena_example, cont_arena_addr = 256,
     kvm = vm_example, to_forkret = 0x1000, to_initret = 0x1010, container_entry = 0x1020\<rparr>"

lemma proc_at_fresh: "i < NPROC \<Longrightarrow> proc_at fresh_container (c, i) = zero_proc\<lparr>plock := init_spinlock null_lock ''process''\<rparr>"
  by (simp add: proc_at_def fresh_container_def zero_container_def zero_proc_def)

lemma slots_ok_fresh: "slots_ok fresh_container c"
  by (simp add: slots_ok_def proc_at_fresh) (simp add: fresh_container_def zero_container_def init_spinlock_def lock_free_def)

theorem alloc_proc_fresh_witness:
  "\<exists>st'. alloc_proc 0 sys_example = Some (Inr ((4096, 0), st')) \<and> pid (proc_at (conts st') (4096, 0)) = 1"
proof -
  have h: "slots_ok (conts sys_example) 4096" "cscheduler (cpus sys_example 0) = 4096" "(4096 :: addr) \<noteq> NULL"
    "scont (scheduler (conts sys_example 4096)) = 4096" "0 < NPROC" "free_slot (conts sys_example) 4096 0"
    "\<forall>j<(0::nat). \<not> free_slot (conts sys_example) 4096 j" "ancestors (conts sys_example) 4096 [4096]" "distinct [4096 :: addr]"
    "\<forall>d\<in>set [4096]. pids_ok (conts sys_example d) 0 \<and> 0 < NPID" "pm_inv (pmem (kvm sys_example))"
    by (simp_all add: sys_example_def slots_ok_fresh free_slot_def proc_at_fresh pids_ok_fresh pm_example_ok(1) vm_example_def)
      (simp_all add: fresh_container_def zero_container_def zero_proc_def init_spinlock_def)
  have "0 < free_count (pmem (kvm sys_example))" using free_count_example [of 1] by (simp add: sys_example_def vm_example_def)
  then obtain p pm where "kalloc 0 (pmem (kvm sys_example)) = Inr (p, pm)" using kalloc_free_count [OF h(11)] by blast
  then show ?thesis using alloc_proc_fresh [where n = "\<lambda>_. 0", OF h]
    by (auto split: option.splits sum.splits)
qed

end
