(* ===== verification/KSched.thy ===== *)
theory KSched
  imports KProc
begin

text \<open>
  Scheduling: \<open>src/core/sched.c\<close> and the blocking operations of \<open>proc.c\<close>, without their messages. The
  assembly routine \<open>swtch\<close> is where control leaves a C function: a function that
  reaches it returns the state together with the two arguments, the place the old context is saved to
  and the context that continues. The endless loop of \<open>scheduler_simple\<close> is split there: \<open>scheduler_slot\<close>
  is one iteration up to the switch, \<open>scheduler_resume\<close> the rest of the iteration.\<close>

datatype context_slot = SchedContext addr nat | ProcContext procref

record switch =
  sw_save :: context_slot
  sw_to :: addr

definition sched_simple :: "nat \<Rightarrow> addr \<Rightarrow> ksys \<Rightarrow> (ksys \<times> switch) res" where
  "sched_simple k this st =
     (case cproc (cpus st k) of
        None \<Rightarrow> Inl (Fault ''p->is_scheduler'')
      | Some p \<Rightarrow>
          let st1 = set_cpu st k (\<lambda>c. c\<lparr>cproc := cp (conts st (scont (scheduler (conts st this))))\<rparr>);
              to = contexts (scheduler (conts st1 (cscheduler (cpus st1 k)))) ! k
          in Inr (st1, \<lparr>sw_save = (if is_scheduler (proc_at (conts st1) p) then SchedContext (cont (proc_at (conts st1) p)) k
                                    else ProcContext p), sw_to = to\<rparr>))"

definition sched :: "nat \<Rightarrow> ksys \<Rightarrow> (ksys \<times> switch) res" where
  "sched k st = sched_simple k (cscheduler (cpus st k)) st"

definition yield :: "nat \<Rightarrow> ksys \<Rightarrow> (ksys \<times> switch) res" where
  "yield k st =
     (case cproc (cpus st k) of
        None \<Rightarrow> Inl (Fault ''p->state'')
      | Some p \<Rightarrow> sched k (set_proc st p (\<lambda>x. x\<lparr>pstate := RUNNABLE\<rparr>)))"

definition exit :: "nat \<Rightarrow> ksys \<Rightarrow> (ksys \<times> switch) res" where
  "exit k st =
     (case cproc (cpus st k) of
        None \<Rightarrow> Inl (Fault ''p->state'')
      | Some p \<Rightarrow> sched k (set_proc st p (\<lambda>x. x\<lparr>pstate := ZOMBIE\<rparr>)))"

definition sleep :: "nat \<Rightarrow> ksys \<Rightarrow> addr \<Rightarrow> SpinLock option \<Rightarrow> (ksys \<times> SpinLock option \<times> switch) res" where
  "sleep k st ch lo =
     (case cproc (cpus st k) of
        None \<Rightarrow> Inl (Fault ''p->state'')
      | Some p \<Rightarrow>
          let st1 = set_proc st p (\<lambda>x. x\<lparr>pstate := SLEEPING, chan := ch\<rparr>) in
          bind_res (case lo of None \<Rightarrow> Inr None | Some l \<Rightarrow> bind_res (acquire_spinlock k l) (\<lambda>l'. Inr (Some l'))) (\<lambda>lo'.
          bind_res (sched k st1) (\<lambda>(st2, sw). Inr (st2, lo', sw))))"

text \<open>\<open>rec_wakeup\<close> from slot \<open>i\<close> of container \<open>c\<close> on. A cycle of containers would recurse for ever.\<close>

partial_function (option) rec_wakeup :: "addr \<Rightarrow> addr \<Rightarrow> nat \<Rightarrow> (addr \<Rightarrow> container) \<Rightarrow> (addr \<Rightarrow> container) option" where
  "rec_wakeup ch c i cs =
     (if NPROC \<le> i then Some cs
      else
        let p = proc_at cs (c, i);
            cs1 = (if pstate p = SLEEPING \<and> chan p = ch then upd_proc cs (c, i) (\<lambda>x. x\<lparr>pstate := RUNNABLE\<rparr>) else cs)
        in if is_scheduler p
           then Option.bind (rec_wakeup ch (cont p) 0 cs1) (\<lambda>cs2. rec_wakeup ch c (Suc i) cs2)
           else rec_wakeup ch c (Suc i) cs1)"

definition wakeup :: "ksys \<Rightarrow> addr \<Rightarrow> ksys option" where
  "wakeup st ch = Option.bind (rec_wakeup ch (root_container st) 0 (conts st)) (\<lambda>cs. Some (st\<lparr>conts := cs\<rparr>))"

subsection \<open>The scheduler\<close>

definition yield_scheduler :: "nat \<Rightarrow> addr \<Rightarrow> ksys \<Rightarrow> (ksys \<times> switch option) res" where
  "yield_scheduler k this st =
     (if sparent (scheduler (conts st this)) \<noteq> NULL then
        bind_res (yield k (set_cpu st k (\<lambda>c. c\<lparr>cscheduler := sparent (scheduler (conts st this))\<rparr>))) (\<lambda>(st1, sw).
          Inr (st1, Some sw))
      else Inr (st, None))"

definition scheduler_slot :: "nat \<Rightarrow> addr \<Rightarrow> nat \<Rightarrow> ksys \<Rightarrow> (ksys \<times> switch option) res" where
  "scheduler_slot k this i st =
     (let p = (this, i) in
      case try_acquire_spinlock k (plock (proc_at (conts st) p)) of
        (False, _) \<Rightarrow> Inr (st, None)
      | (True, l) \<Rightarrow>
          let st1 = set_proc st p (\<lambda>x. x\<lparr>plock := l\<rparr>); x = proc_at (conts st1) p in
          if bounding x \<noteq> 0 \<and> bounding x AND push_bit k 1 = 0 then bind_res (unlock_proc k st1 p) (\<lambda>st2. Inr (st2, None))
          else if pstate x = RUNNABLE then
            (let st2 = (if is_scheduler x then st1 else set_proc st1 p (\<lambda>y. y\<lparr>pstate := RUNNING\<rparr>));
                 st3 = set_cpu st2 k (\<lambda>c. c\<lparr>cproc := Some p\<rparr>) in
             if is_scheduler x then
               let st4 = set_cpu st3 k (\<lambda>c. c\<lparr>cscheduler := cont x\<rparr>)
               in Inr (st4, Some \<lparr>sw_save = SchedContext this k, sw_to = contexts (scheduler (conts st4 (cont x))) ! k\<rparr>)
             else
               let st4 = st3\<lparr>kvm := uvm_switch (kvm st3) (pgdir x)\<rparr>
               in Inr (st4, Some \<lparr>sw_save = SchedContext this k, sw_to = pcontext x\<rparr>))
          else bind_res (unlock_proc k st1 p) (\<lambda>st2. Inr (st2, None)))"

text \<open>The loops of \<open>scheduler_simple\<close> from slot \<open>i\<close> on until the first switch, for at most \<open>n\<close> iterations.\<close>

primrec scheduler_scan :: "nat \<Rightarrow> addr \<Rightarrow> nat \<Rightarrow> nat \<Rightarrow> ksys \<Rightarrow> (ksys \<times> (nat \<times> switch) option) res" where
  "scheduler_scan k this i 0 st = Inr (st, None)"
| "scheduler_scan k this i (Suc n) st =
     bind_res (scheduler_slot k this i st) (\<lambda>(s, r).
       case r of Some sw \<Rightarrow> Inr (s, Some (i, sw)) | None \<Rightarrow> scheduler_scan k this (Suc i mod NPROC) n s)"

definition scheduler_resume :: "nat \<Rightarrow> addr \<Rightarrow> nat \<Rightarrow> ksys \<Rightarrow> (ksys \<times> switch option) res" where
  "scheduler_resume k this i st = bind_res (unlock_proc k st (this, i)) (yield_scheduler k this)"

subsection \<open>Waking up\<close>

text \<open>\<open>wakes ch M cs\<close> makes the processes that sleep on \<open>ch\<close> in the slots \<open>M c\<close> of each container \<open>c\<close> runnable.\<close>

definition wake_proc :: "addr \<Rightarrow> proc \<Rightarrow> proc" where
  "wake_proc ch x = (if pstate x = SLEEPING \<and> chan x = ch then x\<lparr>pstate := RUNNABLE\<rparr> else x)"

definition wake_slots :: "addr \<Rightarrow> nat set \<Rightarrow> proc list \<Rightarrow> proc list" where
  "wake_slots ch A ps = map (\<lambda>i. if i \<in> A then wake_proc ch (ps ! i) else ps ! i) [0..<length ps]"

definition wakes :: "addr \<Rightarrow> (addr \<Rightarrow> nat set) \<Rightarrow> (addr \<Rightarrow> container) \<Rightarrow> addr \<Rightarrow> container" where
  "wakes ch M cs = (\<lambda>c. (cs c)\<lparr>scheduler := (scheduler (cs c))\<lparr>ptable := wake_slots ch (M c) (ptable (scheduler (cs c)))\<rparr>\<rparr>)"

lemma wake_proc_idem [simp]: "wake_proc ch (wake_proc ch x) = wake_proc ch x"
  by (simp add: wake_proc_def)

lemma wake_proc_fields [simp]:
  "is_scheduler (wake_proc ch x) = is_scheduler x" "cont (wake_proc ch x) = cont x" "plock (wake_proc ch x) = plock x"
  by (simp_all add: wake_proc_def)

lemma length_wake_slots [simp]: "length (wake_slots ch A ps) = length ps"
  by (simp add: wake_slots_def)

lemma nth_wake_slots: "i < length ps \<Longrightarrow> wake_slots ch A ps ! i = (if i \<in> A then wake_proc ch (ps ! i) else ps ! i)"
  by (simp add: wake_slots_def)

lemma wakes_empty: "(\<And>c. M c = {}) \<Longrightarrow> wakes ch M cs = cs"
  by (simp add: wakes_def wake_slots_def map_nth)

lemma wakes_wakes: "wakes ch M (wakes ch N cs) = wakes ch (\<lambda>c. M c \<union> N c) cs"
proof -
  have "wake_slots ch A (wake_slots ch B ps) = wake_slots ch (A \<union> B) ps" for A B ps
    by (rule nth_equalityI) (auto simp: nth_wake_slots)
  then show ?thesis by (simp add: wakes_def)
qed

lemma proc_at_wakes:
  "i < length (ptable (scheduler (cs c))) \<Longrightarrow>
   proc_at (wakes ch M cs) (c, i) = (if i \<in> M c then wake_proc ch (proc_at cs (c, i)) else proc_at cs (c, i))"
  by (simp add: proc_at_def wakes_def nth_wake_slots)

lemma wakes_single:
  assumes "i < length (ptable (scheduler (cs c)))"
  shows "wakes ch (\<lambda>d. if d = c then {i} else {}) cs =
    (if pstate (proc_at cs (c, i)) = SLEEPING \<and> chan (proc_at cs (c, i)) = ch
     then upd_proc cs (c, i) (\<lambda>x. x\<lparr>pstate := RUNNABLE\<rparr>) else cs)"
proof -
  let ?ps = "ptable (scheduler (cs c))"
  have 1: "wake_slots ch {i} ?ps = ?ps[i := wake_proc ch (?ps ! i)]"
    using assms by (intro nth_equalityI) (auto simp: nth_wake_slots nth_list_update)
  have 2: "wake_slots ch {} ps = ps" for ps by (simp add: wake_slots_def map_nth)
  have "wakes ch (\<lambda>d. if d = c then {i} else {}) cs = upd_proc cs (c, i) (wake_proc ch)"
    using 1 2 by (auto simp: wakes_def upd_proc_def upd_sched_def fun_eq_iff)
  also have "\<dots> = (if pstate (proc_at cs (c, i)) = SLEEPING \<and> chan (proc_at cs (c, i)) = ch
     then upd_proc cs (c, i) (\<lambda>x. x\<lparr>pstate := RUNNABLE\<rparr>) else cs)"
    using upd_proc_cong [of "wake_proc ch" cs "(c, i)" "\<lambda>_. proc_at cs (c, i)"]
      upd_proc_cong [of "wake_proc ch" cs "(c, i)" "\<lambda>x. x\<lparr>pstate := RUNNABLE\<rparr>"]
    by (auto simp: wake_proc_def)
  finally show ?thesis .
qed

text \<open>The containers below a container, and trees of containers: every child has a smaller rank.\<close>

inductive_set subtree :: "(addr \<Rightarrow> container) \<Rightarrow> addr \<Rightarrow> addr set" for cs c where
  self: "c \<in> subtree cs c"
| child: "d \<in> subtree cs c \<Longrightarrow> i < NPROC \<Longrightarrow> is_scheduler (proc_at cs (d, i)) \<Longrightarrow> cont (proc_at cs (d, i)) \<in> subtree cs c"

definition cont_tree :: "(addr \<Rightarrow> container) \<Rightarrow> addr set \<Rightarrow> (addr \<Rightarrow> nat) \<Rightarrow> bool" where
  "cont_tree cs C rank \<longleftrightarrow>
     (\<forall>c\<in>C. length (ptable (scheduler (cs c))) = NPROC \<and>
        (\<forall>i<NPROC. is_scheduler (proc_at cs (c, i)) \<longrightarrow>
           cont (proc_at cs (c, i)) \<in> C \<and> rank (cont (proc_at cs (c, i))) < rank c))"

definition marks :: "(addr \<Rightarrow> container) \<Rightarrow> addr \<Rightarrow> nat \<Rightarrow> addr \<Rightarrow> nat set" where
  "marks cs c i d = (if d = c then {i..<NPROC} else {}) \<union>
     (if \<exists>j. i \<le> j \<and> j < NPROC \<and> is_scheduler (proc_at cs (c, j)) \<and> d \<in> subtree cs (cont (proc_at cs (c, j))) then {..<NPROC} else {})"

lemma subtree_trans: "e \<in> subtree cs d \<Longrightarrow> d \<in> subtree cs c \<Longrightarrow> e \<in> subtree cs c"
  by (induction rule: subtree.induct) (auto intro: subtree.intros)

lemma subtree_unfold:
  "d \<in> subtree cs c \<longleftrightarrow> d = c \<or>
     (\<exists>j<NPROC. is_scheduler (proc_at cs (c, j)) \<and> d \<in> subtree cs (cont (proc_at cs (c, j))))"
proof
  show "d \<in> subtree cs c \<Longrightarrow> d = c \<or> (\<exists>j<NPROC. is_scheduler (proc_at cs (c, j)) \<and> d \<in> subtree cs (cont (proc_at cs (c, j))))"
    by (induction rule: subtree.induct) (auto intro: subtree.intros)
qed (auto intro: subtree.intros subtree_trans)

lemma marks_0: "marks cs c 0 d = (if d \<in> subtree cs c then {..<NPROC} else {})"
  unfolding marks_def subtree_unfold [of d cs c] by auto

lemma marks_Suc:
  assumes "i < NPROC"
  shows "marks cs c i d = (if d = c then {i} else {}) \<union> marks cs c (Suc i) d \<union>
    (if is_scheduler (proc_at cs (c, i)) then marks cs (cont (proc_at cs (c, i))) 0 d else {})"
proof -
  have ex: "(\<exists>j. i \<le> j \<and> j < NPROC \<and> Q j) \<longleftrightarrow> Q i \<or> (\<exists>j. Suc i \<le> j \<and> j < NPROC \<and> Q j)" for Q
  proof -
    have le: "i \<le> j \<longleftrightarrow> j = i \<or> Suc i \<le> j" for j by auto
    show ?thesis unfolding le using assms by blast
  qed
  have iv: "{i..<NPROC} = insert i {Suc i..<NPROC}" using assms by auto
  show ?thesis unfolding marks_0 unfolding marks_def ex iv by auto
qed

lemma wakes_tree_fields:
  assumes "cont_tree cs C rank" "c \<in> C" "i < NPROC"
  shows "is_scheduler (proc_at (wakes ch M cs) (c, i)) = is_scheduler (proc_at cs (c, i))"
    "cont (proc_at (wakes ch M cs) (c, i)) = cont (proc_at cs (c, i))"
  using assms by (simp_all add: cont_tree_def proc_at_wakes)

lemma cont_tree_wakes: "cont_tree cs C rank \<Longrightarrow> cont_tree (wakes ch M cs) C rank"
  unfolding cont_tree_def by (auto simp: proc_at_wakes) (auto simp: wakes_def)

lemma subtree_in: "d \<in> subtree cs c \<Longrightarrow> cont_tree cs C rank \<Longrightarrow> c \<in> C \<Longrightarrow> d \<in> C"
  by (induction rule: subtree.induct) (auto simp: cont_tree_def)

lemma subtree_mono:
  assumes "cont_tree cs C rank" "c \<in> C"
    and "\<And>d i. d \<in> C \<Longrightarrow> i < NPROC \<Longrightarrow> is_scheduler (proc_at cs' (d, i)) = is_scheduler (proc_at cs (d, i)) \<and>
      cont (proc_at cs' (d, i)) = cont (proc_at cs (d, i))"
  shows "subtree cs c \<subseteq> subtree cs' c"
proof
  fix d assume "d \<in> subtree cs c"
  then show "d \<in> subtree cs' c"
  proof (induction rule: subtree.induct)
    case (child d i)
    have "d \<in> C" using child(1) assms(1,2) by (rule subtree_in)
    with child assms(3) [of d i] subtree.child [of d cs' c i] show ?case by simp
  qed (rule subtree.self)
qed

lemma subtree_wakes:
  assumes t: "cont_tree cs C rank" and c: "c \<in> C"
  shows "subtree (wakes ch M cs) c = subtree cs c"
proof (rule equalityI)
  show "subtree (wakes ch M cs) c \<subseteq> subtree cs c"
    by (rule subtree_mono [OF cont_tree_wakes [OF t] c]) (simp add: wakes_tree_fields [OF t])
  show "subtree cs c \<subseteq> subtree (wakes ch M cs) c"
    by (rule subtree_mono [OF t c]) (simp add: wakes_tree_fields [OF t])
qed

lemma marks_wakes:
  assumes t: "cont_tree cs C rank" and c: "c \<in> C"
  shows "marks (wakes ch M cs) c i = marks cs c i"
proof
  fix d
  have "(is_scheduler (proc_at (wakes ch M cs) (c, j)) \<and> d \<in> subtree (wakes ch M cs) (cont (proc_at (wakes ch M cs) (c, j)))) =
      (is_scheduler (proc_at cs (c, j)) \<and> d \<in> subtree cs (cont (proc_at cs (c, j))))" if "j < NPROC" for j
    using t c that by (auto simp: wakes_tree_fields [OF t] cont_tree_def subtree_wakes [OF t])
  then show "marks (wakes ch M cs) c i d = marks cs c i d" unfolding marks_def by (metis (no_types, lifting))
qed

lemma rec_wakeup_spec:
  "cont_tree cs C rank \<Longrightarrow> c \<in> C \<Longrightarrow> i \<le> NPROC \<Longrightarrow> rec_wakeup ch c i cs = Some (wakes ch (marks cs c i) cs)"
proof (induction "rank c" arbitrary: c i cs rule: less_induct)
  case less
  from less.prems show ?case
  proof (induction "NPROC - i" arbitrary: i cs)
    case 0
    then have i: "i = NPROC" by simp
    have "marks cs c i d = {}" for d by (auto simp: marks_def i)
    then show ?case by (simp add: rec_wakeup.simps i wakes_empty)
  next
    case (Suc n)
    have i: "i < NPROC" using Suc.hyps(2) by simp
    let ?p = "proc_at cs (c, i)"
    let ?cs1 = "wakes ch (\<lambda>d. if d = c then {i} else {}) cs"
    have len: "length (ptable (scheduler (cs c))) = NPROC" using Suc.prems by (simp add: cont_tree_def)
    note t = Suc.prems(1)
    have step: "rec_wakeup ch c i cs =
       (if is_scheduler ?p then Option.bind (rec_wakeup ch (cont ?p) 0 ?cs1) (\<lambda>cs2. rec_wakeup ch c (Suc i) cs2)
        else rec_wakeup ch c (Suc i) ?cs1)"
      using i len by (subst rec_wakeup.simps) (simp add: wakes_single Let_def)
    have inner: "rec_wakeup ch c (Suc i) (wakes ch M cs) = Some (wakes ch (\<lambda>d. marks cs c (Suc i) d \<union> M d) cs)" for M
    proof -
      have "rec_wakeup ch c (Suc i) (wakes ch M cs) = Some (wakes ch (marks (wakes ch M cs) c (Suc i)) (wakes ch M cs))"
        by (rule Suc.hyps(1)) (use Suc.hyps(2) i Suc.prems cont_tree_wakes [OF t] in auto)
      then show ?thesis using marks_wakes [OF t Suc.prems(2)] by (simp add: wakes_wakes)
    qed
    show ?case
    proof (cases "is_scheduler ?p")
      case False
      have "(\<lambda>d. marks cs c (Suc i) d \<union> (if d = c then {i} else {})) = marks cs c i"
        using marks_Suc [OF i] False by (auto simp: fun_eq_iff)
      then show ?thesis using step inner [of "\<lambda>d. if d = c then {i} else {}"] False by simp
    next
      case True
      let ?e = "cont ?p"
      have e: "?e \<in> C" "rank ?e < rank c" using Suc.prems i True by (auto simp: cont_tree_def)
      have "rec_wakeup ch ?e 0 ?cs1 = Some (wakes ch (marks ?cs1 ?e 0) ?cs1)"
        by (rule less.hyps [OF e(2) cont_tree_wakes [OF t] e(1)]) simp
      then have r: "rec_wakeup ch ?e 0 ?cs1 = Some (wakes ch (\<lambda>d. marks cs ?e 0 d \<union> (if d = c then {i} else {})) cs)"
        using marks_wakes [OF t e(1)] by (simp add: wakes_wakes)
      have "(\<lambda>d. marks cs c (Suc i) d \<union> (marks cs ?e 0 d \<union> (if d = c then {i} else {}))) = marks cs c i"
        using marks_Suc [OF i] True by (auto simp: fun_eq_iff)
      then show ?thesis using step True r inner [of "\<lambda>d. marks cs ?e 0 d \<union> (if d = c then {i} else {})"] by simp
    qed
  qed
qed

lemma wakeup_wakes:
  assumes "cont_tree (conts st) C rank" "root_container st \<in> C"
  shows "wakeup st ch = Some (st\<lparr>conts := wakes ch (marks (conts st) (root_container st) 0) (conts st)\<rparr>)"
  using rec_wakeup_spec [OF assms, of 0 ch] by (simp add: wakeup_def)

text \<open>C21: if containers form a tree, \<open>wakeup\<close> terminates and makes runnable exactly the processes that sleep on the
  channel in the root container or in a container below it; nothing else changes.\<close>

theorem wakeup_exact:
  assumes "cont_tree (conts st) C rank" and "root_container st \<in> C"
  shows "\<exists>cs. wakeup st ch = Some (st\<lparr>conts := cs\<rparr>) \<and>
    (\<forall>c\<in>C. \<forall>i<NPROC. proc_at cs (c, i) =
       (if c \<in> subtree (conts st) (root_container st) \<and> pstate (proc_at (conts st) (c, i)) = SLEEPING \<and>
           chan (proc_at (conts st) (c, i)) = ch
        then (proc_at (conts st) (c, i))\<lparr>pstate := RUNNABLE\<rparr> else proc_at (conts st) (c, i))) \<and>
    (\<forall>c. (cs c)\<lparr>scheduler := scheduler (conts st c)\<rparr> = conts st c)"
proof -
  let ?cs = "wakes ch (marks (conts st) (root_container st) 0) (conts st)"
  have "wakeup st ch = Some (st\<lparr>conts := ?cs\<rparr>)" by (rule wakeup_wakes [OF assms])
  moreover have "proc_at ?cs (c, i) =
       (if c \<in> subtree (conts st) (root_container st) \<and> pstate (proc_at (conts st) (c, i)) = SLEEPING \<and>
           chan (proc_at (conts st) (c, i)) = ch
        then (proc_at (conts st) (c, i))\<lparr>pstate := RUNNABLE\<rparr> else proc_at (conts st) (c, i))"
    if "c \<in> C" "i < NPROC" for c i
    using assms(1) that by (simp add: proc_at_wakes cont_tree_def marks_0 wake_proc_def)
  moreover have "(?cs c)\<lparr>scheduler := scheduler (conts st c)\<rparr> = conts st c" for c by (simp add: wakes_def)
  ultimately show ?thesis by (intro exI [of _ ?cs]) blast
qed

definition sleeper_example :: ksys where
  "sleeper_example = set_proc sys_example (4096, 3) (\<lambda>x. x\<lparr>pstate := SLEEPING, chan := 0x77\<rparr>)"

lemma sleeper_at:
  "i < NPROC \<Longrightarrow> proc_at (conts sleeper_example) (4096, i) =
     (if i = 3 then zero_proc\<lparr>plock := init_spinlock null_lock ''process'', pstate := SLEEPING, chan := 0x77\<rparr>
      else zero_proc\<lparr>plock := init_spinlock null_lock ''process''\<rparr>)"
  using slots_ok_fresh [of 4096]
  by (simp add: sleeper_example_def sys_example_def proc_at_upd_proc slots_ok_def proc_at_fresh)

lemma sleeper_tree: "cont_tree (conts sleeper_example) {4096} (\<lambda>_. 0)" "root_container sleeper_example = 4096"
proof -
  show "cont_tree (conts sleeper_example) {4096} (\<lambda>_. 0)"
    by (simp add: cont_tree_def sleeper_at)
      (simp add: zero_proc_def sleeper_example_def sys_example_def fresh_container_def zero_container_def)
  show "root_container sleeper_example = 4096" by (simp add: sleeper_example_def sys_example_def)
qed

theorem wakeup_exact_witness:
  "\<exists>cs. wakeup sleeper_example 0x77 = Some (sleeper_example\<lparr>conts := cs\<rparr>) \<and> pstate (proc_at cs (4096, 3)) = RUNNABLE"
proof -
  from wakeup_exact [OF sleeper_tree(1), of "0x77"] sleeper_tree(2) obtain cs where
    cs: "wakeup sleeper_example 0x77 = Some (sleeper_example\<lparr>conts := cs\<rparr>)"
      "\<forall>i<NPROC. proc_at cs (4096, i) =
       (if 4096 \<in> subtree (conts sleeper_example) 4096 \<and> pstate (proc_at (conts sleeper_example) (4096, i)) = SLEEPING \<and>
           chan (proc_at (conts sleeper_example) (4096, i)) = 0x77
        then (proc_at (conts sleeper_example) (4096, i))\<lparr>pstate := RUNNABLE\<rparr> else proc_at (conts sleeper_example) (4096, i))"
    by auto
  have "pstate (proc_at cs (4096, 3)) = RUNNABLE"
    using cs(2) [rule_format, of 3] by (simp add: subtree.self sleeper_at)
  with cs(1) show ?thesis by blast
qed

subsection \<open>Dispatching\<close>

definition may_run :: "nat \<Rightarrow> proc \<Rightarrow> bool" where
  "may_run k x \<longleftrightarrow> \<not> locked (plock x) \<and> (bounding x = 0 \<or> bit (bounding x) k) \<and> pstate x = RUNNABLE"

text \<open>An iteration on a slot whose lock is free, with the lock taken in \<open>st1\<close>: the slot is passed over, or control
  goes to the scheduler of a container, or to a process.\<close>

lemma scheduler_slot_eval:
  assumes len: "length (ptable (scheduler (conts st c))) = NPROC" and i: "i < NPROC"
    and x: "x = proc_at (conts st) (c, i)" "\<not> locked (plock x)"
    and st1: "st1 = set_proc st (c, i) (\<lambda>y. y\<lparr>plock := (plock x)\<lparr>locked := True, lcpu := Some k\<rparr>\<rparr>)"
  shows "scheduler_slot k c i st =
    (if \<not> may_run k x then Inr (set_proc st1 (c, i) (\<lambda>y. y\<lparr>plock := (plock x)\<lparr>lcpu := None, locked := False\<rparr>\<rparr>), None)
     else if is_scheduler x then
       Inr (st1\<lparr>cpus := (cpus st1)(k := (cpus st1 k)\<lparr>cproc := Some (c, i), cscheduler := cont x\<rparr>)\<rparr>,
         Some \<lparr>sw_save = SchedContext c k, sw_to = contexts (scheduler (conts st (cont x))) ! k\<rparr>)
     else
       Inr (st1\<lparr>conts := upd_proc (conts st1) (c, i) (\<lambda>y. y\<lparr>pstate := RUNNING\<rparr>),
           cpus := (cpus st1)(k := (cpus st1 k)\<lparr>cproc := Some (c, i)\<rparr>), kvm := uvm_switch (kvm st1) (pgdir x)\<rparr>,
         Some \<lparr>sw_save = SchedContext c k, sw_to = pcontext x\<rparr>))"
proof -
  let ?l = "(plock x)\<lparr>locked := True, lcpu := Some k\<rparr>"
  have p1: "proc_at (conts st1) (c, i) = x\<lparr>plock := ?l\<rparr>" using len i x by (simp add: st1 proc_at_upd_proc)
  have lock: "try_acquire_spinlock k (plock x) = (True, ?l)" using x(2) by (simp add: try_acquire_spinlock_def)
  have unl: "unlock_proc k st1 (c, i) = Inr (set_proc st1 (c, i) (\<lambda>y. y\<lparr>plock := (plock x)\<lparr>lcpu := None, locked := False\<rparr>\<rparr>))"
    by (simp add: unlock_proc_def p1 release_spinlock_def holding_spinlock_def)
  have skip: "bounding x \<noteq> 0 \<and> \<not> bit (bounding x) k \<or> pstate x \<noteq> RUNNABLE \<longleftrightarrow> \<not> may_run k x"
    using x(2) by (auto simp: may_run_def)
  have slot: "scheduler_slot k c i st =
    (if bounding x \<noteq> 0 \<and> \<not> bit (bounding x) k \<or> pstate x \<noteq> RUNNABLE then bind_res (unlock_proc k st1 (c, i)) (\<lambda>st2. Inr (st2, None))
     else if is_scheduler x then
       let st4 = set_cpu (set_cpu st1 k (\<lambda>c'. c'\<lparr>cproc := Some (c, i)\<rparr>)) k (\<lambda>c'. c'\<lparr>cscheduler := cont x\<rparr>)
       in Inr (st4, Some \<lparr>sw_save = SchedContext c k, sw_to = contexts (scheduler (conts st4 (cont x))) ! k\<rparr>)
     else
       let st3 = set_cpu (set_proc st1 (c, i) (\<lambda>y. y\<lparr>pstate := RUNNING\<rparr>)) k (\<lambda>c'. c'\<lparr>cproc := Some (c, i)\<rparr>)
       in Inr (st3\<lparr>kvm := uvm_switch (kvm st3) (pgdir x)\<rparr>, Some \<lparr>sw_save = SchedContext c k, sw_to = pcontext x\<rparr>))"
    unfolding scheduler_slot_def Let_def x(1) [symmetric] lock prod.case bool.case st1 [symmetric] p1
    by (auto simp: and_exp_eq_0_iff_not_bit)
  show ?thesis unfolding slot unl skip Let_def by (simp add: set_cpu_def set_proc_def st1)
qed

lemma scheduler_slot_spec:
  assumes len: "length (ptable (scheduler (conts st c))) = NPROC" and i: "i < NPROC" and k: "k < NCPU"
  shows "\<exists>s r. scheduler_slot k c i st = Inr (s, r) \<and>
    (r \<noteq> None \<longleftrightarrow> may_run k (proc_at (conts st) (c, i))) \<and>
    (\<forall>q. q \<noteq> (c, i) \<longrightarrow> proc_at (conts s) q = proc_at (conts st) q) \<and>
    (\<forall>d. length (ptable (scheduler (conts s d))) = length (ptable (scheduler (conts st d)))) \<and>
    (r = None \<longrightarrow> cpus s = cpus st \<and> kvm s = kvm st \<and> (locked (plock (proc_at (conts st) (c, i))) \<longrightarrow> s = st) \<and>
       pstate (proc_at (conts s) (c, i)) = pstate (proc_at (conts st) (c, i))) \<and>
    (r \<noteq> None \<longrightarrow> holding_spinlock k (plock (proc_at (conts s) (c, i))) \<and> cproc (cpus s k) = Some (c, i) \<and>
       (\<forall>j. j \<noteq> k \<longrightarrow> cpus s j = cpus st j) \<and> sw_save (the r) = SchedContext c k \<and>
       is_scheduler (proc_at (conts s) (c, i)) = is_scheduler (proc_at (conts st) (c, i)) \<and>
       cont (proc_at (conts s) (c, i)) = cont (proc_at (conts st) (c, i)) \<and>
       (if is_scheduler (proc_at (conts st) (c, i))
        then cscheduler (cpus s k) = cont (proc_at (conts st) (c, i)) \<and>
             sw_to (the r) = contexts (scheduler (conts st (cont (proc_at (conts st) (c, i))))) ! k
        else pstate (proc_at (conts s) (c, i)) = RUNNING \<and> cscheduler (cpus s k) = cscheduler (cpus st k) \<and>
             ttbr0 (kvm s) = K2P (pgdir (proc_at (conts st) (c, i))) \<and>
             sw_to (the r) = pcontext (proc_at (conts st) (c, i))))"
proof (cases "locked (plock (proc_at (conts st) (c, i)))")
  case True
  then have "scheduler_slot k c i st = Inr (st, None)" by (simp add: scheduler_slot_def try_acquire_spinlock_def)
  with True show ?thesis by (auto simp: may_run_def)
next
  case False
  let ?x = "proc_at (conts st) (c, i)"
  let ?l = "(plock ?x)\<lparr>locked := True, lcpu := Some k\<rparr>"
  define st1 where "st1 = set_proc st (c, i) (\<lambda>y. y\<lparr>plock := ?l\<rparr>)"
  note run = scheduler_slot_eval [OF len i refl False st1_def]
  have p1: "proc_at (conts st1) q = (if q = (c, i) then ?x\<lparr>plock := ?l\<rparr> else proc_at (conts st) q)" for q
    using len i by (simp add: st1_def proc_at_upd_proc)
  have l1: "length (ptable (scheduler (conts st1 d))) = length (ptable (scheduler (conts st d)))" for d by (simp add: st1_def)
  have v1: "cpus st1 = cpus st" "kvm st1 = kvm st" by (simp_all add: st1_def)
  have ps: "proc_at (upd_proc (conts st1) (c, i) f) q = (if q = (c, i) then f (?x\<lparr>plock := ?l\<rparr>) else proc_at (conts st) q)" for q f
    using len i by (simp add: proc_at_upd_proc p1 l1)
  consider "\<not> may_run k ?x" | "may_run k ?x" "is_scheduler ?x" | "may_run k ?x" "\<not> is_scheduler ?x" by blast
  then show ?thesis
  proof cases
    case 1
    then show ?thesis unfolding run using False by (simp add: ps l1 v1)
  next
    case 2
    then show ?thesis unfolding run by (simp add: p1 l1 v1 holding_spinlock_def)
  next
    case 3
    then show ?thesis unfolding run by (simp add: ps l1 v1 holding_spinlock_def uvm_switch_def)
  qed
qed

text \<open>C31: one iteration of the scheduler on a slot never fails and switches away exactly when the slot's process is
  runnable, not locked by anybody and not bound to other CPUs. It then holds the lock of the process, the
  process is the current one of this CPU, and control goes to the context of the process, in its address
  space, or to the scheduler of the container it stands for. Otherwise no process changes state.\<close>

theorem scheduler_dispatch:
  assumes "length (ptable (scheduler (conts st c))) = NPROC" and "i < NPROC" and "k < NCPU"
  shows "\<exists>s r. scheduler_slot k c i st = Inr (s, r) \<and>
    (r \<noteq> None \<longleftrightarrow> may_run k (proc_at (conts st) (c, i))) \<and>
    (\<forall>q. q \<noteq> (c, i) \<longrightarrow> proc_at (conts s) q = proc_at (conts st) q) \<and>
    (r = None \<longrightarrow> cpus s = cpus st \<and> kvm s = kvm st \<and>
       pstate (proc_at (conts s) (c, i)) = pstate (proc_at (conts st) (c, i))) \<and>
    (r \<noteq> None \<longrightarrow> holding_spinlock k (plock (proc_at (conts s) (c, i))) \<and> cproc (cpus s k) = Some (c, i) \<and>
       (if is_scheduler (proc_at (conts st) (c, i))
        then cscheduler (cpus s k) = cont (proc_at (conts st) (c, i)) \<and>
             sw_to (the r) = contexts (scheduler (conts st (cont (proc_at (conts st) (c, i))))) ! k
        else pstate (proc_at (conts s) (c, i)) = RUNNING \<and> ttbr0 (kvm s) = K2P (pgdir (proc_at (conts st) (c, i))) \<and>
             sw_to (the r) = pcontext (proc_at (conts st) (c, i))))"
  using scheduler_slot_spec [OF assms] by (elim exE) (intro exI conjI, auto)

text \<open>The process in slot 3 is runnable.\<close>

definition runnable_example :: ksys where
  "runnable_example = set_proc sys_example (4096, 3) (\<lambda>x. x\<lparr>pstate := RUNNABLE, pcontext := 0x5000, pgdir := 0xffff000000006000\<rparr>)"

lemma runnable_at:
  "proc_at (conts runnable_example) (4096, 3) = zero_proc\<lparr>plock := init_spinlock null_lock ''process'', pstate := RUNNABLE,
     pcontext := 0x5000, pgdir := 0xffff000000006000\<rparr>"
  using slots_ok_fresh [of 4096]
  by (simp add: runnable_example_def sys_example_def proc_at_upd_proc slots_ok_def proc_at_fresh)

theorem scheduler_dispatch_witness:
  "(\<exists>s sw. scheduler_slot 1 4096 3 runnable_example = Inr (s, Some sw) \<and> sw_to sw = 0x5000 \<and> cproc (cpus s 1) = Some (4096, 3) \<and>
     pstate (proc_at (conts s) (4096, 3)) = RUNNING \<and> ttbr0 (kvm s) = 0x6000) \<and>
   (\<exists>s. scheduler_slot 0 4096 3 sleeper_example = Inr (s, None) \<and> cpus s = cpus sleeper_example)"
proof
  have len: "length (ptable (scheduler (conts runnable_example 4096))) = NPROC" "length (ptable (scheduler (conts sleeper_example 4096))) = NPROC"
    by (simp_all add: runnable_example_def sleeper_example_def sys_example_def fresh_container_def zero_container_def)
  have "may_run 1 (proc_at (conts runnable_example) (4096, 3))" "\<not> is_scheduler (proc_at (conts runnable_example) (4096, 3))"
    "pcontext (proc_at (conts runnable_example) (4096, 3)) = 0x5000" "K2P (pgdir (proc_at (conts runnable_example) (4096, 3))) = 0x6000"
    by (simp_all add: may_run_def runnable_at zero_proc_def init_spinlock_def K2P_def KSPACE_MASK_def)
  with scheduler_dispatch [OF len(1), of 3 1] show "\<exists>s sw. scheduler_slot 1 4096 3 runnable_example = Inr (s, Some sw) \<and> sw_to sw = 0x5000 \<and>
      cproc (cpus s 1) = Some (4096, 3) \<and> pstate (proc_at (conts s) (4096, 3)) = RUNNING \<and> ttbr0 (kvm s) = 0x6000" by auto
  have "\<not> may_run 0 (proc_at (conts sleeper_example) (4096, 3))" by (simp add: may_run_def sleeper_at)
  with scheduler_dispatch [OF len(2), of 3 0] show "\<exists>s. scheduler_slot 0 4096 3 sleeper_example = Inr (s, None) \<and> cpus s = cpus sleeper_example" by auto
qed

subsection \<open>Progress\<close>

lemma scheduler_scan_first:
  "length (ptable (scheduler (conts st c))) = NPROC \<Longrightarrow> i < NPROC \<Longrightarrow> k < NCPU \<Longrightarrow> d < n \<Longrightarrow> d < NPROC \<Longrightarrow>
   (\<And>e. e < d \<Longrightarrow> \<not> may_run k (proc_at (conts st) (c, (i + e) mod NPROC))) \<Longrightarrow>
   may_run k (proc_at (conts st) (c, (i + d) mod NPROC)) \<Longrightarrow>
   \<exists>s sw. scheduler_scan k c i n st = Inr (s, Some ((i + d) mod NPROC, sw)) \<and> cproc (cpus s k) = Some (c, (i + d) mod NPROC)"
proof (induction d arbitrary: i n st)
  case 0
  then obtain n' where "n = Suc n'" by (cases n) auto
  with scheduler_slot_spec [OF 0(1,2,3)] 0 show ?case by auto
next
  case (Suc d)
  obtain n' where n: "n = Suc n'" using Suc.prems(4) by (cases n) auto
  have no: "\<not> may_run k (proc_at (conts st) (c, i))" using Suc.prems(6) [of 0] Suc.prems(2) by simp
  obtain s where s: "scheduler_slot k c i st = Inr (s, None)" "\<forall>q. q \<noteq> (c, i) \<longrightarrow> proc_at (conts s) q = proc_at (conts st) q"
    "length (ptable (scheduler (conts s c))) = NPROC"
    using scheduler_slot_spec [OF Suc.prems(1-3)] no Suc.prems(1) by auto
  have same: "proc_at (conts s) (c, (Suc i mod NPROC + e) mod NPROC) = proc_at (conts st) (c, (i + Suc e) mod NPROC)" if "e \<le> d" for e
  proof -
    have "(Suc i mod NPROC + e) mod NPROC = (i + Suc e) mod NPROC" by (simp add: mod_add_left_eq)
    moreover have "(i + Suc e) mod NPROC \<noteq> i" using that Suc.prems(2,5) by (auto simp: mod_if)
    ultimately show ?thesis using s(2) by simp
  qed
  have "\<exists>t sw. scheduler_scan k c (Suc i mod NPROC) n' s = Inr (t, Some ((Suc i mod NPROC + d) mod NPROC, sw)) \<and>
     cproc (cpus t k) = Some (c, (Suc i mod NPROC + d) mod NPROC)"
  proof (rule Suc.IH [OF s(3) _ Suc.prems(3)])
    show "\<not> may_run k (proc_at (conts s) (c, (Suc i mod NPROC + e) mod NPROC))" if "e < d" for e
      using same [of e] Suc.prems(6) [of "Suc e"] that by simp
    show "may_run k (proc_at (conts s) (c, (Suc i mod NPROC + d) mod NPROC))" using same [of d] Suc.prems(7) by simp
  qed (use Suc.prems n in auto)
  moreover have "(Suc i mod NPROC + d) mod NPROC = (i + Suc d) mod NPROC" by (simp add: mod_add_left_eq)
  ultimately show ?case using s(1) n by simp
qed

text \<open>C18: wherever a CPU stands in a process table, if some process of the table may run on it, then within one round
  of sixteen slots the scheduler switches to such a process: the first one at or after its position.\<close>

theorem scheduler_progress:
  assumes "length (ptable (scheduler (conts st c))) = NPROC" and "i < NPROC" and "k < NCPU"
    and "j < NPROC" and "may_run k (proc_at (conts st) (c, j))"
  shows "\<exists>d s sw. d < NPROC \<and> scheduler_scan k c i NPROC st = Inr (s, Some ((i + d) mod NPROC, sw)) \<and>
    may_run k (proc_at (conts st) (c, (i + d) mod NPROC)) \<and>
    (\<forall>e<d. \<not> may_run k (proc_at (conts st) (c, (i + e) mod NPROC))) \<and>
    cproc (cpus s k) = Some (c, (i + d) mod NPROC)"
proof -
  let ?P = "\<lambda>d. d < NPROC \<and> may_run k (proc_at (conts st) (c, (i + d) mod NPROC))"
  have "(i + (j + NPROC - i) mod NPROC) mod NPROC = j" using assms(2,4) by (simp add: mod_if)
  then have ex: "?P ((j + NPROC - i) mod NPROC)" using assms(5) by simp
  define d where "d = (LEAST d. ?P d)"
  have d: "?P d" unfolding d_def by (rule LeastI [of ?P, OF ex])
  have least: "\<not> may_run k (proc_at (conts st) (c, (i + e) mod NPROC))" if "e < d" for e
    using not_less_Least [of e ?P] that d by (auto simp: d_def)
  from scheduler_scan_first [OF assms(1-3), of d NPROC] d least show ?thesis by blast
qed

theorem scheduler_progress_witness:
  "\<exists>s sw. scheduler_scan 2 4096 9 16 (set_proc sys_example (4096, 3) (\<lambda>x. x\<lparr>pstate := RUNNABLE\<rparr>)) = Inr (s, Some (3, sw))"
proof -
  let ?st = "set_proc sys_example (4096, 3) (\<lambda>x. x\<lparr>pstate := RUNNABLE\<rparr>)"
  have at: "proc_at (conts ?st) (4096, i) = (if i = 3 then zero_proc\<lparr>plock := init_spinlock null_lock ''process'', pstate := RUNNABLE\<rparr>
      else zero_proc\<lparr>plock := init_spinlock null_lock ''process''\<rparr>)" if "i < NPROC" for i
    using slots_ok_fresh [of 4096] that by (simp add: sys_example_def proc_at_upd_proc slots_ok_def proc_at_fresh)
  have len: "length (ptable (scheduler (conts ?st 4096))) = NPROC"
    by (simp add: sys_example_def fresh_container_def zero_container_def)
  have run: "may_run 2 (proc_at (conts ?st) (4096, i)) \<longleftrightarrow> i = 3" if "i < NPROC" for i
    using at [OF that] by (simp add: may_run_def init_spinlock_def null_lock_def zero_proc_def)
  from scheduler_progress [OF len, of 9 2 3] run [of 3] obtain d s sw where
    d: "scheduler_scan 2 4096 9 16 ?st = Inr (s, Some ((9 + d) mod 16, sw))" "may_run 2 (proc_at (conts ?st) (4096, (9 + d) mod 16))"
    by auto
  then have "(9 + d) mod 16 = 3" using run [of "(9 + d) mod 16"] by simp
  with d(1) show ?thesis by auto
qed

end
