(* ===== verification/KSchedExcl.thy ===== *)
theory KSchedExcl
  imports KSched
begin

text \<open>
  All CPUs together. Each CPU scans process tables, runs the process it has switched to, or is on its way
  back through the schedulers it came from; the processes it has switched to and not yet left, innermost
  first, are its stack. The theorem is that no process is on the stacks of two CPUs, whatever order the
  CPUs take their steps in.\<close>

datatype spc = Scan addr nat | User | Back

record msys =
  ks :: ksys
  stk :: "nat \<Rightarrow> procref list"
  mpc :: "nat \<Rightarrow> spc"
  resume_at :: "nat \<Rightarrow> addr \<Rightarrow> nat"

text \<open>What the operations keep of the locks: \<open>keeps st s\<close> says that no lock that is held changes and that
  the tables keep their size.\<close>

definition keeps :: "ksys \<Rightarrow> ksys \<Rightarrow> bool" where
  "keeps st s \<longleftrightarrow>
     (\<forall>q. snd q < NPROC \<longrightarrow> locked (plock (proc_at (conts st) q)) \<longrightarrow> plock (proc_at (conts s) q) = plock (proc_at (conts st) q)) \<and>
     (\<forall>d. length (ptable (scheduler (conts s d))) = length (ptable (scheduler (conts st d))))"

lemma keeps_refl: "keeps st st"
  by (simp add: keeps_def)

lemma keeps_trans: "keeps st s \<Longrightarrow> keeps s t \<Longrightarrow> keeps st t"
  by (auto simp: keeps_def)

lemma plock_upd_proc:
  assumes "\<And>x. plock (f x) = plock x" "length (ptable (scheduler (cs (fst q)))) = NPROC" "snd q < NPROC"
  shows "plock (proc_at (upd_proc cs p f) q) = plock (proc_at cs q)"
proof (cases "fst p = fst q \<and> snd p = snd q")
  case True
  then have "p = q" by (simp add: prod_eq_iff)
  then show ?thesis using assms by (simp add: proc_at_upd_proc)
qed (auto simp: proc_at_def upd_proc_def upd_sched_def)

definition tables :: "ksys \<Rightarrow> bool" where
  "tables st \<longleftrightarrow> (\<forall>d. length (ptable (scheduler (conts st d))) = NPROC)"

lemma keeps_set_proc: "tables st \<Longrightarrow> (\<And>x. plock (f x) = plock x) \<Longrightarrow> keeps st (set_proc st p f)"
  by (simp add: keeps_def plock_upd_proc tables_def)

lemma keeps_tables: "keeps st s \<Longrightarrow> tables st \<Longrightarrow> tables s"
  by (simp add: keeps_def tables_def)

lemma sched_frame: "sched k st = Inr (s, sw) \<Longrightarrow> conts s = conts st \<and> (\<forall>j. j \<noteq> k \<longrightarrow> cpus s j = cpus st j)"
  by (auto simp: sched_def sched_simple_def set_cpu_def Let_def split: option.splits)

lemma keeps_conts: "conts s = conts t \<Longrightarrow> keeps st s \<longleftrightarrow> keeps st t"
  by (simp add: keeps_def)

lemma yield_frame:
  "yield k st = Inr (s, sw) \<Longrightarrow> tables st \<Longrightarrow> keeps st s \<and> (\<forall>j. j \<noteq> k \<longrightarrow> cpus s j = cpus st j)"
  using sched_frame [of k "set_proc st p (\<lambda>x. x\<lparr>pstate := RUNNABLE\<rparr>)" s sw for p]
    keeps_conts [of s "set_proc st p (\<lambda>x. x\<lparr>pstate := RUNNABLE\<rparr>)" st for p]
  by (auto simp: yield_def keeps_set_proc simp del: set_proc_fields(1) split: option.splits)

lemma exit_frame:
  "exit k st = Inr (s, sw) \<Longrightarrow> tables st \<Longrightarrow> keeps st s \<and> (\<forall>j. j \<noteq> k \<longrightarrow> cpus s j = cpus st j)"
  using sched_frame [of k "set_proc st p (\<lambda>x. x\<lparr>pstate := ZOMBIE\<rparr>)" s sw for p]
    keeps_conts [of s "set_proc st p (\<lambda>x. x\<lparr>pstate := ZOMBIE\<rparr>)" st for p]
  by (auto simp: exit_def keeps_set_proc simp del: set_proc_fields(1) split: option.splits)

lemma sleep_frame:
  "sleep k st ch lo = Inr (s, lo', sw) \<Longrightarrow> tables st \<Longrightarrow> keeps st s \<and> (\<forall>j. j \<noteq> k \<longrightarrow> cpus s j = cpus st j)"
  using sched_frame [of k "set_proc st p (\<lambda>x. x\<lparr>pstate := SLEEPING, chan := ch\<rparr>)" s sw for p]
    keeps_conts [of s "set_proc st p (\<lambda>x. x\<lparr>pstate := SLEEPING, chan := ch\<rparr>)" st for p]
  by (auto simp: sleep_def keeps_set_proc Let_def simp del: set_proc_fields(1) split: option.splits)

lemma rec_wakeup_frame:
  "rec_wakeup ch c i cs = Some cs' \<Longrightarrow> (\<forall>d. length (ptable (scheduler (cs d))) = NPROC) \<longrightarrow>
     (\<forall>d. length (ptable (scheduler (cs' d))) = NPROC) \<and>
     (\<forall>q. snd q < NPROC \<longrightarrow> plock (proc_at cs' q) = plock (proc_at cs q))"
proof (induction rule: rec_wakeup.raw_induct [rotated, consumes 1, case_names step])
  case (step rw ch c i cs cs')
  show ?case
  proof (cases "NPROC \<le> i")
    case False
    let ?p = "proc_at cs (c, i)"
    let ?cs1 = "if pstate ?p = SLEEPING \<and> chan ?p = ch then upd_proc cs (c, i) (\<lambda>x. x\<lparr>pstate := RUNNABLE\<rparr>) else cs"
    have l: "length (ptable (scheduler (?cs1 d))) = length (ptable (scheduler (cs d)))" for d by simp
    have pl: "plock (proc_at ?cs1 q) = plock (proc_at cs q)" if "\<forall>d. length (ptable (scheduler (cs d))) = NPROC" "snd q < NPROC" for q
      using that by (simp add: plock_upd_proc)
    show ?thesis
    proof (cases "is_scheduler ?p")
      case True
      then obtain cs2 where "rw ch (cont ?p) 0 ?cs1 = Some cs2" "rw ch c (Suc i) cs2 = Some cs'"
        using step(2) False by (auto simp: Let_def bind_eq_Some_conv)
      with step(1) [of ch "cont ?p" 0 ?cs1 cs2] step(1) [of ch c "Suc i" cs2 cs'] l pl show ?thesis by simp
    next
      case F: False
      then have "rw ch c (Suc i) ?cs1 = Some cs'" using step(2) False by (simp add: Let_def)
      with step(1) [of ch c "Suc i" ?cs1 cs'] l pl show ?thesis by simp
    qed
  qed (use step(2) in simp)
qed

lemma wakeup_frame: "wakeup st ch = Some s \<Longrightarrow> tables st \<Longrightarrow> keeps st s \<and> cpus s = cpus st"
  by (auto simp: wakeup_def bind_eq_Some_conv keeps_def tables_def dest!: rec_wakeup_frame)

lemma alloc_resource_frame:
  "alloc_resource k c p cs = Some r \<Longrightarrow>
   (\<forall>n cs'. r = Inr (n, cs') \<longrightarrow> (\<forall>d. ptable (scheduler (cs' d)) = ptable (scheduler (cs d))))"
proof (induction rule: alloc_resource.raw_induct [rotated, consumes 1, case_names step])
  case (step ar k this p cs r)
  show ?case
  proof (intro allI impI)
    fix n cs' d assume r: "r = Inr (n, cs')"
    from step(2) show "ptable (scheduler (cs' d)) = ptable (scheduler (cs d))"
      unfolding r
      by (auto simp: Let_def bind_eq_Some_conv split: if_splits sum.splits option.splits dest!: step(1))
  qed
qed

lemma alloc_resource_keeps:
  assumes "alloc_resource k c p (conts st) = Some (Inr (n, cs))"
  shows "keeps st (st\<lparr>conts := cs\<rparr>)"
  using alloc_resource_frame [OF assms] by (simp add: keeps_def proc_at_def)

text \<open>An update of a process whose lock is not held keeps all held locks.\<close>

lemma keeps_unlocked:
  "tables st \<Longrightarrow> snd p < NPROC \<Longrightarrow> \<not> locked (plock (proc_at (conts st) p)) \<Longrightarrow> keeps st (set_proc st p f)"
  by (auto simp: keeps_def proc_at_upd_proc tables_def)

lemma alloc_pcb_scan_frame:
  "alloc_pcb_scan k c i r st = Some (Inr (x, s)) \<Longrightarrow> tables st \<Longrightarrow> i + r \<le> NPROC \<Longrightarrow>
   keeps st s \<and> cpus s = cpus st \<and> (\<forall>p. x = Some p \<longrightarrow> snd p < NPROC \<and> \<not> locked (plock (proc_at (conts st) p)) \<and>
     \<not> locked (plock (proc_at (conts s) p)))"
proof (induction r arbitrary: i st)
  case 0
  then show ?case by (simp add: keeps_refl)
next
  case (Suc r)
  let ?l = "plock (proc_at (conts st) (c, i))"
  consider (held) "locked ?l" | (free) "\<not> locked ?l" "pstate (proc_at (conts st) (c, i)) = UNUSED"
    | (busy) "\<not> locked ?l" "pstate (proc_at (conts st) (c, i)) \<noteq> UNUSED" by blast
  then show ?case
  proof cases
    case held
    then show ?thesis using Suc.IH [of "Suc i" st] Suc.prems by (simp add: try_acquire_spinlock_def)
  next
    case busy
    define st' where "st' = set_proc st (c, i) (\<lambda>x. x\<lparr>plock := ?l\<lparr>lcpu := None, locked := False\<rparr>\<rparr>)"
    have "alloc_pcb_scan k c (Suc i) r st' = Some (Inr (x, s))"
      using Suc.prems(1) busy
      by (simp add: try_acquire_spinlock_def release_spinlock_def holding_spinlock_def st'_def)
    moreover have k: "keeps st st'" unfolding st'_def by (rule keeps_unlocked) (use Suc.prems busy in auto)
    moreover have "tables st'" using k Suc.prems(2) by (rule keeps_tables)
    moreover have "locked (plock (proc_at (conts st') q)) = locked (plock (proc_at (conts st) q))" for q
      using Suc.prems busy by (simp add: st'_def proc_at_upd_proc tables_def)
    moreover have "cpus st' = cpus st" by (simp add: st'_def)
    ultimately show ?thesis using Suc.IH [of "Suc i" st'] Suc.prems(3) keeps_trans [OF k] by simp
  next
    case free
    define st1 where "st1 = set_proc st (c, i) (\<lambda>_. zero_proc\<lparr>pstate := EMBRYO\<rparr>)"
    have i: "i < NPROC" using Suc.prems(3) by simp
    from Suc.prems(1) free obtain n cs where
      ar: "alloc_resource k (scont (scheduler (conts st1 c))) (c, i) (conts st1) = Some (Inr (Some n, cs))"
      and s: "s = set_proc (st1\<lparr>conts := cs\<rparr>) (c, i) (\<lambda>x. x\<lparr>pid := n\<rparr>)" "x = Some (c, i)"
      by (auto simp: try_acquire_spinlock_def Let_def st1_def [symmetric] simp del: set_proc_fields split: option.splits)
    have k1: "keeps st st1" unfolding st1_def by (rule keeps_unlocked) (use Suc.prems free i in auto)
    have k2: "keeps st1 (st1\<lparr>conts := cs\<rparr>)" by (rule alloc_resource_keeps [OF ar])
    have t2: "tables (st1\<lparr>conts := cs\<rparr>)" using keeps_tables [OF keeps_trans [OF k1 k2] Suc.prems(2)] .
    have k3: "keeps (st1\<lparr>conts := cs\<rparr>) s" unfolding s by (rule keeps_set_proc [OF t2]) simp
    have "proc_at cs (c, i) = proc_at (conts st1) (c, i)" using alloc_resource_frame [OF ar] by (simp add: proc_at_def)
    then have "plock (proc_at (conts s) (c, i)) = plock (proc_at (conts st1) (c, i))"
      using t2 i by (simp add: s proc_at_upd_proc tables_def)
    also have "\<not> locked \<dots>" using Suc.prems(2) i by (simp add: st1_def proc_at_upd_proc tables_def zero_proc_def null_lock_def)
    finally have "\<not> locked (plock (proc_at (conts s) (c, i)))" .
    moreover have "keeps st s" by (rule keeps_trans [OF k1 keeps_trans [OF k2 k3]])
    moreover have "cpus s = cpus st" by (simp add: s st1_def)
    ultimately show ?thesis using s(2) free i by simp
  qed
qed

lemma alloc_proc_frame:
  assumes "alloc_proc k st = Some (Inr (p, s))" "tables st"
  shows "keeps st s \<and> cpus s = cpus st"
proof -
  from assms(1) obtain st1 stack pm st3 st6 where
    a: "alloc_pcb k st = Some (Inr (Some p, st1))" and
    l: "lock_proc k (st1\<lparr>kvm := (kvm st1)\<lparr>pmem := pm\<rparr>\<rparr>) p = Inr st3" and
    u: "unlock_proc k (set_proc (zero_words (stack + KSTACKSIZE - sizeof_Trapframe - sizeof_context) sizeof_context
         (zero_words (stack + KSTACKSIZE - sizeof_Trapframe) sizeof_Trapframe st3)) p
         (\<lambda>x. x\<lparr>kstack := stack, tf := stack + KSTACKSIZE - sizeof_Trapframe,
            pcontext := stack + KSTACKSIZE - sizeof_Trapframe - sizeof_context\<rparr>)) p = Inr s"
    by (auto simp: alloc_proc_def kalloc_page_def Let_def split: option.splits)
  have f: "keeps st st1" "cpus st1 = cpus st" "snd p < NPROC" "\<not> locked (plock (proc_at (conts st) p))"
      "\<not> locked (plock (proc_at (conts st1) p))"
    using a alloc_pcb_scan_frame [of k "cscheduler (cpus st k)" 0 NPROC st "Some p" st1] assms(2)
    by (auto simp: alloc_pcb_def alloc_pcb_simple_def split: if_splits)
  have t1: "tables st1" by (rule keeps_tables [OF f(1) assms(2)])
  from l u obtain f g h where s: "conts s = upd_proc (upd_proc (upd_proc (conts st1) p f) p g) p h" "cpus s = cpus st1"
    by (auto simp: lock_proc_def unlock_proc_def zero_words_def)
  have "keeps st1 s" using f t1 by (auto simp: keeps_def s proc_at_upd_proc tables_def)
  with f(1,2) s(2) show ?thesis using keeps_trans by auto
qed

text \<open>One step of the machine. \<open>resume_at\<close> is the slot at which the scheduler of a container continues on a
  CPU: zero before its first run, else the one after the slot it last left.\<close>

inductive mstep :: "msys \<Rightarrow> msys \<Rightarrow> bool" where
  skip: "mpc m k = Scan c i \<Longrightarrow> k < NCPU \<Longrightarrow> scheduler_slot k c i (ks m) = Inr (s, None) \<Longrightarrow>
    mstep m (m\<lparr>ks := s, mpc := (mpc m)(k := Scan c (Suc i mod NPROC))\<rparr>)"
| run: "mpc m k = Scan c i \<Longrightarrow> k < NCPU \<Longrightarrow> scheduler_slot k c i (ks m) = Inr (s, Some sw) \<Longrightarrow>
    \<not> is_scheduler (proc_at (conts s) (c, i)) \<Longrightarrow>
    mstep m (m\<lparr>ks := s, stk := (stk m)(k := (c, i) # stk m k), mpc := (mpc m)(k := User)\<rparr>)"
| enter: "mpc m k = Scan c i \<Longrightarrow> k < NCPU \<Longrightarrow> scheduler_slot k c i (ks m) = Inr (s, Some sw) \<Longrightarrow>
    is_scheduler (proc_at (conts s) (c, i)) \<Longrightarrow> d = cont (proc_at (conts s) (c, i)) \<Longrightarrow>
    mstep m (m\<lparr>ks := s, stk := (stk m)(k := (c, i) # stk m k), mpc := (mpc m)(k := Scan d (resume_at m k d))\<rparr>)"
| yields: "mpc m k = User \<Longrightarrow> yield k (ks m) = Inr (s, sw) \<Longrightarrow> mstep m (m\<lparr>ks := s, mpc := (mpc m)(k := Back)\<rparr>)"
| exits: "mpc m k = User \<Longrightarrow> exit k (ks m) = Inr (s, sw) \<Longrightarrow> mstep m (m\<lparr>ks := s, mpc := (mpc m)(k := Back)\<rparr>)"
| sleeps: "mpc m k = User \<Longrightarrow> sleep k (ks m) ch lo = Inr (s, lo', sw) \<Longrightarrow> mstep m (m\<lparr>ks := s, mpc := (mpc m)(k := Back)\<rparr>)"
| resume: "mpc m k = Back \<Longrightarrow> stk m k = (c, i) # ps \<Longrightarrow> scheduler_resume k c i (ks m) = Inr (s, None) \<Longrightarrow>
    mstep m (m\<lparr>ks := s, stk := (stk m)(k := ps), mpc := (mpc m)(k := Scan c (Suc i mod NPROC))\<rparr>)"
| resume_up: "mpc m k = Back \<Longrightarrow> stk m k = (c, i) # ps \<Longrightarrow> scheduler_resume k c i (ks m) = Inr (s, Some sw) \<Longrightarrow>
    mstep m (m\<lparr>ks := s, stk := (stk m)(k := ps),
      resume_at := (resume_at m)(k := (resume_at m k)(c := Suc i mod NPROC))\<rparr>)"
| wake: "wakeup (ks m) ch = Some s \<Longrightarrow> mstep m (m\<lparr>ks := s\<rparr>)"
| spawn: "alloc_proc k (ks m) = Some (Inr (p, s)) \<Longrightarrow> mstep m (m\<lparr>ks := s\<rparr>)"

inductive mreach :: "msys \<Rightarrow> msys \<Rightarrow> bool" for m0 where
  start: "mreach m0 m0"
| step: "mreach m0 m \<Longrightarrow> mstep m m' \<Longrightarrow> mreach m0 m'"

definition boot_state :: "msys \<Rightarrow> bool" where
  "boot_state m \<longleftrightarrow> tables (ks m) \<and> (\<forall>k. stk m k = [] \<and> mpc m k = Scan (root_container (ks m)) 0) \<and>
     (\<forall>k d. resume_at m k d = 0)"

definition minv :: "msys \<Rightarrow> bool" where
  "minv m \<longleftrightarrow> tables (ks m) \<and>
     (\<forall>k. distinct (stk m k)) \<and>
     (\<forall>k q. q \<in> set (stk m k) \<longrightarrow> snd q < NPROC \<and> holding_spinlock k (plock (proc_at (conts (ks m)) q))) \<and>
     (\<forall>k. mpc m k = User \<longrightarrow> stk m k \<noteq> [] \<and> cproc (cpus (ks m) k) = Some (hd (stk m k))) \<and>
     (\<forall>k c i. mpc m k = Scan c i \<longrightarrow> i < NPROC) \<and> (\<forall>k d. resume_at m k d < NPROC)"

lemma minv_boot: "boot_state m \<Longrightarrow> minv m"
  by (auto simp: boot_state_def minv_def)

lemma keeps_holding:
  "keeps st s \<Longrightarrow> snd q < NPROC \<Longrightarrow> holding_spinlock k (plock (proc_at (conts st) q)) \<Longrightarrow>
   holding_spinlock k (plock (proc_at (conts s) q))"
  by (cases q) (auto simp: keeps_def holding_spinlock_def)

lemma minv_unique: "minv m \<Longrightarrow> q \<in> set (stk m j) \<Longrightarrow> q \<in> set (stk m k) \<Longrightarrow> j = k"
proof -
  assume "minv m" "q \<in> set (stk m j)" "q \<in> set (stk m k)"
  then have "lcpu (plock (proc_at (conts (ks m)) q)) = Some j" "lcpu (plock (proc_at (conts (ks m)) q)) = Some k"
    unfolding minv_def holding_spinlock_def by blast+
  then show "j = k" by simp
qed

lemma minv_keeps:
  assumes "minv m" "keeps (ks m) s" "\<And>j. mpc m' j = User \<Longrightarrow> mpc m j = User \<and> cpus s j = cpus (ks m) j"
    and "ks m' = s" "stk m' = stk m" "resume_at m' = resume_at m" "\<And>j c i. mpc m' j = Scan c i \<Longrightarrow> i < NPROC"
  shows "minv m'"
  using assms keeps_tables [OF assms(2)] keeps_holding [OF assms(2)] unfolding minv_def by auto

lemma minv_dispatch:
  assumes inv: "minv m" and pc: "mpc m k = Scan c i" and k: "k < NCPU"
    and sl: "scheduler_slot k c i (ks m) = Inr (s, Some sw)"
    and m': "ks m' = s" "stk m' = (stk m)(k := (c, i) # stk m k)" "resume_at m' = resume_at m"
      "\<And>j. j \<noteq> k \<Longrightarrow> mpc m' j = mpc m j" "mpc m' k = User \<or> (\<exists>d n. mpc m' k = Scan d n \<and> n < NPROC)"
  shows "minv m'"
proof -
  have t: "tables (ks m)" and i: "i < NPROC" using inv pc by (auto simp: minv_def)
  then have len: "length (ptable (scheduler (conts (ks m) c))) = NPROC" by (simp add: tables_def)
  note sp = scheduler_slot_spec [OF len i k, unfolded sl]
  have free: "\<not> locked (plock (proc_at (conts (ks m)) (c, i)))" using sp by (auto simp: may_run_def)
  have hold: "holding_spinlock k (plock (proc_at (conts s) (c, i)))" "cproc (cpus s k) = Some (c, i)"
    "\<And>j. j \<noteq> k \<Longrightarrow> cpus s j = cpus (ks m) j" using sp by auto
  have same: "\<forall>q. q \<noteq> (c, i) \<longrightarrow> proc_at (conts s) q = proc_at (conts (ks m)) q"
    "\<forall>d. length (ptable (scheduler (conts s d))) = length (ptable (scheduler (conts (ks m) d)))" using sp by blast+
  have kp: "keeps (ks m) s"
    unfolding keeps_def
  proof (intro conjI allI impI)
    fix q assume "locked (plock (proc_at (conts (ks m)) q))"
    with free have "q \<noteq> (c, i)" by blast
    with same(1) show "plock (proc_at (conts s) q) = plock (proc_at (conts (ks m)) q)" by metis
  qed (use same(2) in blast)
  have new: "(c, i) \<notin> set (stk m j)" for j using inv free by (auto simp: minv_def holding_spinlock_def)
  have t': "tables s" by (rule keeps_tables [OF kp t])
  have "snd q < NPROC \<and> holding_spinlock j (plock (proc_at (conts s) q))" if "q \<in> set (stk m' j)" for j q
  proof (cases "q \<in> set (stk m j)")
    case True
    then have "snd q < NPROC" "holding_spinlock j (plock (proc_at (conts (ks m)) q))" using inv unfolding minv_def by blast+
    then show ?thesis using keeps_holding [OF kp] by blast
  next
    case False
    with that have "q = (c, i)" "j = k" by (auto simp: m' split: if_splits)
    then show ?thesis using hold(1) i by simp
  qed
  moreover have "distinct (stk m' j)" for j using inv new by (simp add: m' minv_def)
  moreover have "stk m' j \<noteq> [] \<and> cproc (cpus s j) = Some (hd (stk m' j))" if "mpc m' j = User" for j
    using that inv hold(2,3) by (cases "j = k") (auto simp: m' minv_def)
  moreover have "n < NPROC" if "mpc m' j = Scan d n" for j d n
    using that inv m'(4,5) by (cases "j = k") (auto simp: minv_def)
  ultimately show ?thesis using t' inv by (auto simp: minv_def m')
qed

lemma minv_resume:
  assumes inv: "minv m" and pc: "mpc m k = Back" and st: "stk m k = (c, i) # ps"
    and r: "scheduler_resume k c i (ks m) = Inr (s, sw)"
    and m': "ks m' = s" "stk m' = (stk m)(k := ps)" "\<And>j d. resume_at m' j d < NPROC"
      "\<And>j. j \<noteq> k \<Longrightarrow> mpc m' j = mpc m j" "mpc m' k = Back \<or> (\<exists>d n. mpc m' k = Scan d n \<and> n < NPROC)"
  shows "minv m'"
proof -
  have t: "tables (ks m)" and i: "i < NPROC" and dist: "(c, i) \<notin> set ps" "distinct ps"
    using inv st by (auto simp: minv_def dest: spec [of _ k])
  from r obtain l st1 where u: "st1 = set_proc (ks m) (c, i) (\<lambda>x. x\<lparr>plock := l\<rparr>)" and y: "yield_scheduler k c st1 = Inr (s, sw)"
    by (auto simp: scheduler_resume_def unlock_proc_def)
  have t1: "tables st1" using t by (simp add: u tables_def)
  have p1: "proc_at (conts st1) q = proc_at (conts (ks m)) q" if "q \<noteq> (c, i)" for q
    using that t i by (simp add: u proc_at_upd_proc tables_def)
  have "keeps st1 s \<and> (\<forall>j. j \<noteq> k \<longrightarrow> cpus s j = cpus st1 j)"
  proof (cases "sparent (scheduler (conts st1 c)) = NULL")
    case True
    then show ?thesis using y by (simp add: yield_scheduler_def keeps_refl)
  next
    case False
    let ?st = "set_cpu st1 k (\<lambda>x. x\<lparr>cscheduler := sparent (scheduler (conts st1 c))\<rparr>)"
    obtain w where "yield k ?st = Inr (s, w)" using y False by (auto simp: yield_scheduler_def)
    moreover have "tables ?st" using t1 by (simp add: tables_def set_cpu_def)
    ultimately have f: "keeps ?st s \<and> (\<forall>j. j \<noteq> k \<longrightarrow> cpus s j = cpus ?st j)" by (rule yield_frame)
    then show ?thesis by (simp add: keeps_def set_cpu_def)
  qed
  then have kp: "keeps st1 s" and cs: "\<And>j. j \<noteq> k \<Longrightarrow> cpus s j = cpus (ks m) j" by (auto simp: u)
  have other: "q \<noteq> (c, i)" if "q \<in> set (stk m' j)" for j q
  proof (cases "j = k")
    case False
    have "(c, i) \<in> set (stk m k)" using st by simp
    with False that show ?thesis using minv_unique [OF inv, of q j k] by (auto simp: m')
  qed (use that dist in \<open>auto simp: m'\<close>)
  have sub: "set (stk m' j) \<subseteq> set (stk m j)" for j using st by (auto simp: m')
  have "snd q < NPROC \<and> holding_spinlock j (plock (proc_at (conts s) q))" if q: "q \<in> set (stk m' j)" for j q
  proof -
    have "snd q < NPROC" "holding_spinlock j (plock (proc_at (conts (ks m)) q))" 
      using inv sub [of j] q unfolding minv_def by blast+
    then show ?thesis using keeps_holding [OF kp, of q j] p1 [OF other [OF q]] by simp
  qed
  moreover have "distinct (stk m' j)" for j using inv dist by (simp add: m' minv_def)
  moreover have "stk m' j \<noteq> [] \<and> cproc (cpus s j) = Some (hd (stk m' j))" if "mpc m' j = User" for j
  proof -
    have "j \<noteq> k" using that m'(5) by auto
    then show ?thesis using that inv cs by (simp add: m' minv_def)
  qed
  moreover have "n < NPROC" if "mpc m' j = Scan d n" for j d n
    using that inv m'(4,5) by (cases "j = k") (auto simp: minv_def)
  ultimately show ?thesis using keeps_tables [OF kp t1] m'(3) by (auto simp: minv_def m'(1))
qed

lemma mstep_minv: "mstep m m' \<Longrightarrow> minv m \<Longrightarrow> minv m'"
proof (induction rule: mstep.induct)
  case (skip m k c i s)
  have i: "i < NPROC" and t: "tables (ks m)" using skip by (auto simp: minv_def)
  then have len: "length (ptable (scheduler (conts (ks m) c))) = NPROC" by (simp add: tables_def)
  note sp = scheduler_slot_spec [OF len i skip(2), unfolded skip(3)]
  have same: "\<forall>q. q \<noteq> (c, i) \<longrightarrow> proc_at (conts s) q = proc_at (conts (ks m)) q"
    "\<forall>d. length (ptable (scheduler (conts s d))) = length (ptable (scheduler (conts (ks m) d)))"
    "locked (plock (proc_at (conts (ks m)) (c, i))) \<longrightarrow> s = ks m" "cpus s = cpus (ks m)" using sp by blast+
  have "keeps (ks m) s" unfolding keeps_def using same(1-3) by metis
  then show ?case by (rule minv_keeps [OF skip(4)]) (use same(4) skip in \<open>auto simp: minv_def split: if_splits\<close>)
next
  case (run m k c i s sw)
  show ?case by (rule minv_dispatch [OF run(5,1,2,3)]) auto
next
  case (enter m k c i s sw d)
  show ?case by (rule minv_dispatch [OF enter(6,1,2,3)]) (use enter(6) in \<open>auto simp: minv_def\<close>)
next
  case (yields m k s sw)
  then have "keeps (ks m) s \<and> (\<forall>j. j \<noteq> k \<longrightarrow> cpus s j = cpus (ks m) j)" by (intro yield_frame) (auto simp: minv_def)
  then show ?case by (intro minv_keeps [OF yields(3)]) (use yields(3) in \<open>auto simp: minv_def split: if_splits\<close>)
next
  case (exits m k s sw)
  then have "keeps (ks m) s \<and> (\<forall>j. j \<noteq> k \<longrightarrow> cpus s j = cpus (ks m) j)" by (intro exit_frame) (auto simp: minv_def)
  then show ?case by (intro minv_keeps [OF exits(3)]) (use exits(3) in \<open>auto simp: minv_def split: if_splits\<close>)
next
  case (sleeps m k ch lo s lo' sw)
  then have "keeps (ks m) s \<and> (\<forall>j. j \<noteq> k \<longrightarrow> cpus s j = cpus (ks m) j)" by (intro sleep_frame) (auto simp: minv_def)
  then show ?case by (intro minv_keeps [OF sleeps(3)]) (use sleeps(3) in \<open>auto simp: minv_def split: if_splits\<close>)
next
  case (resume m k c i ps s)
  show ?case by (rule minv_resume [OF resume(4,1,2,3)]) (use resume(4) in \<open>auto simp: minv_def\<close>)
next
  case (resume_up m k c i ps s sw)
  show ?case by (rule minv_resume [OF resume_up(4,1,2,3)]) (use resume_up(1,4) in \<open>auto simp: minv_def\<close>)
next
  case (wake m ch s)
  then have "keeps (ks m) s \<and> cpus s = cpus (ks m)" by (intro wakeup_frame) (auto simp: minv_def)
  then show ?case by (intro minv_keeps [OF wake(2)]) (use wake(2) in \<open>auto simp: minv_def\<close>)
next
  case (spawn k m p s)
  then have "keeps (ks m) s \<and> cpus s = cpus (ks m)" by (intro alloc_proc_frame) (auto simp: minv_def)
  then show ?case by (intro minv_keeps [OF spawn(2)]) (use spawn(2) in \<open>auto simp: minv_def\<close>)
qed

lemma mreach_minv: "mreach m0 m \<Longrightarrow> boot_state m0 \<Longrightarrow> minv m"
  by (induction rule: mreach.induct) (auto intro: minv_boot mstep_minv)

text \<open>C3: from boot on, in every interleaving of the CPUs' steps with wake-ups and process creation, a process that is
  running or whose container's scheduler is running belongs to one CPU only, and that CPU holds its lock; a
  CPU in user mode runs the process its \<open>proc\<close> pointer names.\<close>

theorem no_double_run:
  assumes "boot_state m0" and "mreach m0 m"
  shows "(\<forall>j k. j \<noteq> k \<longrightarrow> set (stk m j) \<inter> set (stk m k) = {}) \<and>
    (\<forall>k. \<forall>q\<in>set (stk m k). holding_spinlock k (plock (proc_at (conts (ks m)) q))) \<and>
    (\<forall>k. mpc m k = User \<longrightarrow> stk m k \<noteq> [] \<and> cproc (cpus (ks m) k) = Some (hd (stk m k)))"
proof -
  have inv: "minv m" by (rule mreach_minv [OF assms(2,1)])
  have "set (stk m j) \<inter> set (stk m k) = {}" if "j \<noteq> k" for j k using minv_unique [OF inv] that by blast
  moreover have "holding_spinlock k (plock (proc_at (conts (ks m)) q))" if "q \<in> set (stk m k)" for k q
    using inv that unfolding minv_def by blast
  ultimately show ?thesis using inv unfolding minv_def by blast
qed

text \<open>The machine at boot: CPU 0 and CPU 1 find the same process in the root container; CPU 0 takes it.\<close>

definition boot_example :: msys where
  "boot_example = \<lparr>ks = set_proc sys_example (4096, 0) (\<lambda>x. x\<lparr>pstate := RUNNABLE, pcontext := 0x500\<rparr>),
     stk = (\<lambda>_. []), mpc = (\<lambda>_. Scan 4096 0), resume_at = (\<lambda>_ _. 0)\<rparr>"

lemma boot_example_ok: "boot_state boot_example"
  by (simp add: boot_state_def boot_example_def tables_def)
    (simp add: sys_example_def fresh_container_def zero_container_def)

theorem no_double_run_witness:
  "\<exists>m. mreach boot_example m \<and> stk m 0 = [(4096, 0)] \<and> (4096, 0) \<notin> set (stk m 1)"
proof -
  have x: "proc_at (conts (ks boot_example)) (4096, 0) =
      zero_proc\<lparr>plock := init_spinlock null_lock ''process'', pstate := RUNNABLE, pcontext := 0x500\<rparr>"
    using slots_ok_fresh [of 4096] by (simp add: boot_example_def sys_example_def proc_at_upd_proc slots_ok_def proc_at_fresh)
  have len: "length (ptable (scheduler (conts (ks boot_example) 4096))) = NPROC"
    using boot_example_ok by (simp add: boot_state_def tables_def)
  have "may_run 0 (proc_at (conts (ks boot_example)) (4096, 0))"
    by (simp add: x may_run_def init_spinlock_def null_lock_def zero_proc_def)
  then obtain s sw where s: "scheduler_slot 0 4096 0 (ks boot_example) = Inr (s, Some sw)"
      "is_scheduler (proc_at (conts s) (4096, 0)) = is_scheduler (proc_at (conts (ks boot_example)) (4096, 0))"
    using scheduler_slot_spec [OF len, of 0 0] by auto
  have "mstep boot_example (boot_example\<lparr>ks := s, stk := (stk boot_example)(0 := (4096, 0) # stk boot_example 0),
      mpc := (mpc boot_example)(0 := User)\<rparr>)"
    by (rule mstep.run [OF _ _ s(1)]) (use s(2) x in \<open>auto simp: zero_proc_def boot_example_def\<close>)
  then have r: "mreach boot_example (boot_example\<lparr>ks := s, stk := (stk boot_example)(0 := (4096, 0) # stk boot_example 0),
      mpc := (mpc boot_example)(0 := User)\<rparr>)" by (rule mreach.step [OF mreach.start])
  have "set (stk (boot_example\<lparr>ks := s, stk := (stk boot_example)(0 := (4096, 0) # stk boot_example 0),
      mpc := (mpc boot_example)(0 := User)\<rparr>) 0) \<inter> set (stk (boot_example\<lparr>ks := s, stk := (stk boot_example)(0 := (4096, 0) # stk boot_example 0),
      mpc := (mpc boot_example)(0 := User)\<rparr>) 1) = {}"
    using no_double_run [OF boot_example_ok r] by (metis zero_neq_one)
  with r show ?thesis by (intro exI) (auto simp: boot_example_def)
qed

end
