(* ===== verification/KMachine.thy ===== *)
theory KMachine
  imports KPrelude
begin

text \<open>
  The machine under the drivers. The devices and the system registers of the CPU are not code of the kernel:
  they are the parameter \<open>m\<close>, a table of what a load, a store, a system register access and a few
  instructions do to a hardware state \<open>'h\<close>. A load may change that state, as reading a FIFO does. The
  accessors of \<open>src/aarch64/intrinsic.h\<close>, \<open>src/aarch64/arm.h\<close> and the delay loop of \<open>intrinsic.c\<close> are
  defined over it; each assembly statement is one access.\<close>

datatype sysreg = MPIDR_EL1 | CNTFRQ_EL0 | CNTPCT_EL0 | ESR_EL1 | ELR_EL1 | VBAR_EL1 | TTBR0_EL1 | TTBR1_EL1
  | DAIF | CNTP_CTL_EL0 | CNTP_TVAL_EL0

datatype insn = ISB | DSB_SY | TLBI_VMALLE1 | TLBI_VMALLE1IS | DC_CIVAC addr | SEV | WFE | WFI | YIELD

record 'h machine =
  mread :: "addr \<Rightarrow> 'h \<Rightarrow> u32 \<times> 'h"
  mwrite :: "addr \<Rightarrow> u32 \<Rightarrow> 'h \<Rightarrow> 'h"
  sys_read :: "sysreg \<Rightarrow> 'h \<Rightarrow> u64 \<times> 'h"
  sys_write :: "sysreg \<Rightarrow> u64 \<Rightarrow> 'h \<Rightarrow> 'h"
  exec_insn :: "insn \<Rightarrow> 'h \<Rightarrow> 'h"

subsection \<open>\<open>intrinsic.h\<close>\<close>

definition cpuid :: "'h machine \<Rightarrow> 'h \<Rightarrow> usize \<times> 'h" where
  "cpuid m h = (case sys_read m MPIDR_EL1 h of (v, h1) \<Rightarrow> (v AND 0xff, h1))"

definition get_clock_frequency :: "'h machine \<Rightarrow> 'h \<Rightarrow> u64 \<times> 'h" where
  "get_clock_frequency m h = sys_read m CNTFRQ_EL0 h"

definition get_timestamp :: "'h machine \<Rightarrow> 'h \<Rightarrow> u64 \<times> 'h" where
  "get_timestamp m h = sys_read m CNTPCT_EL0 h"

definition arch_isb :: "'h machine \<Rightarrow> 'h \<Rightarrow> 'h" where "arch_isb m h = exec_insn m ISB h"
definition arch_dsb_sy :: "'h machine \<Rightarrow> 'h \<Rightarrow> 'h" where "arch_dsb_sy m h = exec_insn m DSB_SY h"
definition arch_fence :: "'h machine \<Rightarrow> 'h \<Rightarrow> 'h" where "arch_fence m h = arch_isb m (arch_dsb_sy m h)"

definition device_put_u32 :: "'h machine \<Rightarrow> addr \<Rightarrow> u32 \<Rightarrow> 'h \<Rightarrow> 'h" where
  "device_put_u32 m a v h = mwrite m a v h"

definition device_get_u32 :: "'h machine \<Rightarrow> addr \<Rightarrow> 'h \<Rightarrow> u32 \<times> 'h" where
  "device_get_u32 m a h = mread m a h"

definition arch_get_esr :: "'h machine \<Rightarrow> 'h \<Rightarrow> u64 \<times> 'h" where
  "arch_get_esr m h = (case sys_read m ESR_EL1 (arch_fence m h) of (v, h1) \<Rightarrow> (v, arch_fence m h1))"

definition arch_reset_esr :: "'h machine \<Rightarrow> 'h \<Rightarrow> 'h" where
  "arch_reset_esr m h = arch_fence m (sys_write m ESR_EL1 0 (arch_fence m h))"

definition arch_get_elr :: "'h machine \<Rightarrow> 'h \<Rightarrow> u64 \<times> 'h" where
  "arch_get_elr m h = (case sys_read m ELR_EL1 (arch_fence m h) of (v, h1) \<Rightarrow> (v, arch_fence m h1))"

definition arch_set_vbar :: "'h machine \<Rightarrow> addr \<Rightarrow> 'h \<Rightarrow> 'h" where
  "arch_set_vbar m p h = arch_fence m (sys_write m VBAR_EL1 p (arch_fence m h))"

definition arch_tlbi_vmalle1is :: "'h machine \<Rightarrow> 'h \<Rightarrow> 'h" where
  "arch_tlbi_vmalle1is m h = arch_fence m (exec_insn m TLBI_VMALLE1IS (arch_fence m h))"

definition arch_set_ttbr0 :: "'h machine \<Rightarrow> u64 \<Rightarrow> 'h \<Rightarrow> 'h" where
  "arch_set_ttbr0 m a h = arch_tlbi_vmalle1is m (sys_write m TTBR0_EL1 a (arch_fence m h))"

definition arch_set_ttbr1 :: "'h machine \<Rightarrow> u64 \<Rightarrow> 'h \<Rightarrow> 'h" where
  "arch_set_ttbr1 m a h = arch_tlbi_vmalle1is m (sys_write m TTBR1_EL1 a (arch_fence m h))"

definition arch_sev :: "'h machine \<Rightarrow> 'h \<Rightarrow> 'h" where "arch_sev m h = exec_insn m SEV h"
definition arch_wfe :: "'h machine \<Rightarrow> 'h \<Rightarrow> 'h" where "arch_wfe m h = exec_insn m WFE h"
definition arch_wfi :: "'h machine \<Rightarrow> 'h \<Rightarrow> 'h" where "arch_wfi m h = exec_insn m WFI h"
definition arch_yield :: "'h machine \<Rightarrow> 'h \<Rightarrow> 'h" where "arch_yield m h = exec_insn m YIELD h"

definition arch_enable_trap :: "'h machine \<Rightarrow> 'h \<Rightarrow> 'h" where
  "arch_enable_trap m h = sys_write m DAIF 0 h"

definition arch_disable_trap :: "'h machine \<Rightarrow> 'h \<Rightarrow> 'h" where
  "arch_disable_trap m h = sys_write m DAIF (push_bit 6 0xf) h"

subsection \<open>Delays\<close>

text \<open>\<open>delay_us\<close> reads the counter until it has passed the end; without progress of the counter it never returns.\<close>

partial_function (option) wait_after :: "'h machine \<Rightarrow> u64 \<Rightarrow> 'h \<Rightarrow> 'h option" where
  "wait_after m stop h =
     (case get_timestamp m h of (now, h1) \<Rightarrow> if now \<le> stop then wait_after m stop h1 else Some h1)"

definition delay_us :: "'h machine \<Rightarrow> u64 \<Rightarrow> 'h \<Rightarrow> 'h option" where
  "delay_us m n h =
     (case get_clock_frequency m h of (freq, h1) \<Rightarrow>
      case get_timestamp m h1 of (t, h2) \<Rightarrow> wait_after m (t + freq div 1000000 * n) h2)"

subsection \<open>\<open>arm.h\<close>\<close>

partial_function (option) wait_until :: "'h machine \<Rightarrow> u64 \<Rightarrow> 'h \<Rightarrow> 'h option" where
  "wait_until m t h =
     (case sys_read m CNTPCT_EL0 h of (r, h1) \<Rightarrow> if r < t then wait_until m t h1 else Some h1)"

definition delayus :: "'h machine \<Rightarrow> u32 \<Rightarrow> 'h \<Rightarrow> 'h option" where
  "delayus m n h =
     (case sys_read m CNTFRQ_EL0 h of (f, h1) \<Rightarrow>
      case sys_read m CNTPCT_EL0 h1 of (t, h2) \<Rightarrow> wait_until m (t + f div 1000000 * ucast n) h2)"

definition timestamp :: "'h machine \<Rightarrow> 'h \<Rightarrow> u64 \<times> 'h" where
  "timestamp m h = sys_read m CNTPCT_EL0 h"

definition put32 :: "'h machine \<Rightarrow> addr \<Rightarrow> u32 \<Rightarrow> 'h \<Rightarrow> 'h" where
  "put32 m p x h = mwrite m p x h"

definition get32 :: "'h machine \<Rightarrow> addr \<Rightarrow> 'h \<Rightarrow> u32 \<times> 'h" where
  "get32 m p h = mread m p h"

definition sti :: "'h machine \<Rightarrow> 'h \<Rightarrow> 'h" where "sti m h = sys_write m DAIF 0 h"
definition cli :: "'h machine \<Rightarrow> 'h \<Rightarrow> 'h" where "cli m h = sys_write m DAIF (push_bit 6 0xF) h"
definition disb :: "'h machine \<Rightarrow> 'h \<Rightarrow> 'h" where "disb m h = exec_insn m ISB (exec_insn m DSB_SY h)"

primrec dccivac :: "'h machine \<Rightarrow> addr \<Rightarrow> nat \<Rightarrow> 'h \<Rightarrow> 'h" where
  "dccivac m p 0 h = h"
| "dccivac m p (Suc n) h = dccivac m p n (exec_insn m (DC_CIVAC (p + of_nat n)) h)"

definition resr :: "'h machine \<Rightarrow> 'h \<Rightarrow> u64 \<times> 'h" where "resr m h = sys_read m ESR_EL1 h"
definition relr :: "'h machine \<Rightarrow> 'h \<Rightarrow> u64 \<times> 'h" where "relr m h = sys_read m ELR_EL1 h"
definition lesr :: "'h machine \<Rightarrow> u64 \<Rightarrow> 'h \<Rightarrow> 'h" where "lesr m r h = sys_write m ESR_EL1 r h"

definition lvbar :: "'h machine \<Rightarrow> addr \<Rightarrow> 'h \<Rightarrow> 'h" where
  "lvbar m p h = disb m (sys_write m VBAR_EL1 p (disb m h))"

definition lttbr0 :: "'h machine \<Rightarrow> u64 \<Rightarrow> 'h \<Rightarrow> 'h" where
  "lttbr0 m p h = disb m (exec_insn m TLBI_VMALLE1 (disb m (sys_write m TTBR0_EL1 p h)))"

definition lttbr1 :: "'h machine \<Rightarrow> u64 \<Rightarrow> 'h \<Rightarrow> 'h" where
  "lttbr1 m p h = disb m (exec_insn m TLBI_VMALLE1 (disb m (sys_write m TTBR1_EL1 p h)))"

text \<open>A counter that grows by less than its period and passes the end: the delay returns at the first
  reading past the end.\<close>

definition counts :: "'h machine \<Rightarrow> ('h \<Rightarrow> u64) \<Rightarrow> bool" where
  "counts m c \<longleftrightarrow> (\<forall>h. fst (sys_read m CNTPCT_EL0 h) = c h \<and> (c h \<noteq> -1 \<longrightarrow> c h < c (snd (sys_read m CNTPCT_EL0 h))))"

lemma wait_until_returns:
  assumes "counts m c" and keep: "\<And>h r. \<alpha> (snd (sys_read m r h)) = \<alpha> h"
  shows "\<exists>h'. wait_until m t h = Some h' \<and> \<alpha> h' = \<alpha> h"
proof (induction "unat (- 1 - c h)" arbitrary: h rule: less_induct)
  case less
  obtain r h1 where r: "sys_read m CNTPCT_EL0 h = (r, h1)" by (cases "sys_read m CNTPCT_EL0 h")
  have a: "\<alpha> h1 = \<alpha> h" using keep [of CNTPCT_EL0 h] r by simp
  show ?case
  proof (cases "r < t")
    case True
    have "r \<noteq> - 1" using True word_n1_ge [of t] by (metis leD)
    then have "c h < c h1" using assms(1) r by (auto simp: counts_def dest!: spec [of _ h])
    moreover have "unat (- 1 - x) = unat (- 1 :: u64) - unat x" for x :: u64
      using word_n1_ge [of x] by (simp add: unat_sub)
    moreover have "unat (c h1) \<le> unat (- 1 :: u64)" using word_n1_ge [of "c h1"] by (simp add: word_le_nat_alt)
    ultimately have "unat (- 1 - c h1) < unat (- 1 - c h)" by (simp add: word_less_nat_alt)
    with less [of h1] show ?thesis using True r a by (simp add: wait_until.simps)
  next
    case False
    then show ?thesis using r a by (simp add: wait_until.simps)
  qed
qed

lemma delayus_returns:
  assumes "counts m c" and keep: "\<And>h r. \<alpha> (snd (sys_read m r h)) = \<alpha> h"
  shows "\<exists>h'. delayus m n h = Some h' \<and> \<alpha> h' = \<alpha> h"
proof -
  obtain f h1 where f: "sys_read m CNTFRQ_EL0 h = (f, h1)" by (cases "sys_read m CNTFRQ_EL0 h")
  obtain t h2 where t: "sys_read m CNTPCT_EL0 h1 = (t, h2)" by (cases "sys_read m CNTPCT_EL0 h1")
  have "\<alpha> h2 = \<alpha> h" using keep [of CNTFRQ_EL0 h] keep [of CNTPCT_EL0 h1] f t by simp
  then show ?thesis using wait_until_returns [of m c \<alpha>, OF assms] f t by (simp add: delayus_def) metis
qed

end
