(* ===== verification/KFormat.thy ===== *)
theory KFormat
  imports KPrelude
begin

text \<open>
  Formatted output, \<open>src/common/format.c\<close>. The callback \<open>put_char\<close> with its context is a function on an arbitrary
  state that may fail or not return. The variadic arguments are a list; taking one that is missing or
  of another kind is reported as a fault.\<close>

type_synonym 's put_char = "char \<Rightarrow> 's \<Rightarrow> 's res option"

datatype va = VInt u64 | VStr "string option"

definition va_int :: "va list \<Rightarrow> (u64 \<times> va list) res" where
  "va_int args = (case args of VInt w # r \<Rightarrow> Inr (w, r) | _ \<Rightarrow> Inl (Fault ''va_arg''))"

definition va_str :: "va list \<Rightarrow> (string option \<times> va list) res" where
  "va_str args = (case args of VStr s # r \<Rightarrow> Inr (s, r) | _ \<Rightarrow> Inl (Fault ''va_arg''))"

primrec put_string :: "'s put_char \<Rightarrow> string \<Rightarrow> 's \<Rightarrow> 's res option" where
  "put_string put [] s = Some (Inr s)"
| "put_string put (c # cs) s = bind_run (put c s) (put_string put cs)"

definition digit :: string where "digit = ''0123456789abcdef''"

text \<open>The first loop of \<open>_print_int\<close>: the digits of \<open>v\<close> from the lowest on, pushed to the buffer of 64 bytes; the last
  one pushed is the first of the list.\<close>

function int_digits :: "u64 \<Rightarrow> u64 \<Rightarrow> string \<Rightarrow> string res" where
  "int_digits v base buf =
     (if \<not> length buf < 64 then Inl (Fault ''buf'')
      else let buf1 = digit ! unat (v mod base) # buf in
           if v div base = 0 then Inr buf1 else int_digits (v div base) base buf1)"
  by pat_completeness auto
termination by (relation "measure (\<lambda>(v, base, buf). 64 - length buf)") auto

declare int_digits.simps [simp del]

definition print_int :: "'s put_char \<Rightarrow> u64 \<Rightarrow> u64 \<Rightarrow> bool \<Rightarrow> 's \<Rightarrow> 's res option" where
  "print_int put u base is_signed s =
     (let neg = is_signed \<and> sint u < 0; v = if neg then - u else u in
      bind_run (if neg then put (CHR ''-'') s else Some (Inr s)) (\<lambda>s1.
      bind_run (Some (int_digits v base [])) (\<lambda>buf. put_string put buf s1)))"

text \<open>The cases of the macro \<open>_INT_CASE\<close> in their order: the specifier, the conversion of the argument to its type and
  on to \<open>i64\<close>, the base and the signedness.\<close>

definition int_cases :: "(string \<times> (u64 \<Rightarrow> u64) \<times> u64 \<times> bool) list" where
  "int_cases =
     [(''u'', \<lambda>w. ucast (ucast w :: u32), 10, False), (''llu'', id, 10, False),
      (''d'', \<lambda>w. scast (ucast w :: u32), 10, True), (''lld'', id, 10, True),
      (''x'', \<lambda>w. ucast (ucast w :: u32), 16, False), (''llx'', id, 16, False),
      (''p'', id, 16, False), (''zu'', id, 10, False), (''zd'', id, 10, True)]"

definition is_case :: "string \<Rightarrow> string \<times> 'x \<Rightarrow> bool" where
  "is_case pos x \<longleftrightarrow> take (length (fst x)) pos = fst x"

function vformat :: "'s put_char \<Rightarrow> string \<Rightarrow> va list \<Rightarrow> 's \<Rightarrow> 's res option" where
  "vformat put [] args s = Some (Inr s)"
| "vformat put (c # pos) args s =
     (if c \<noteq> CHR ''%'' then bind_run (put c s) (vformat put pos args)
      else if take 1 pos = ''%'' then bind_run (put (CHR ''%'') s) (vformat put (drop 1 pos) args)
      else if take 1 pos = ''c'' then
        bind_run (Some (va_int args)) (\<lambda>(w, args1).
        bind_run (put (char_of (unat (ucast w :: u8))) s) (vformat put (drop 1 pos) args1))
      else if take 1 pos = ''s'' then
        bind_run (Some (va_str args)) (\<lambda>(x, args1).
        bind_run (put_string put (case x of None \<Rightarrow> ''(null)'' | Some t \<Rightarrow> t) s) (vformat put (drop 1 pos) args1))
      else case find (is_case pos) int_cases of
        Some (ident, conv, base, is_signed) \<Rightarrow>
          bind_run (Some (va_int args)) (\<lambda>(w, args1).
          bind_run (print_int put (conv w) base is_signed s) (vformat put (drop (length ident) pos) args1))
      | None \<Rightarrow> bind_run (put c s) (vformat put pos args))"
  by pat_completeness auto
termination by (relation "measure (\<lambda>(put, fmt, args, s). length fmt)") auto

text \<open>\<open>format\<close> only packs its arguments.\<close>

definition format :: "'s put_char \<Rightarrow> string \<Rightarrow> va list \<Rightarrow> 's \<Rightarrow> 's res option" where
  "format put fmt args s = vformat put fmt args s"

subsection \<open>Numbers\<close>

text \<open>The usual notation of a number in a base, and of an integer.\<close>

fun nat_string :: "nat \<Rightarrow> nat \<Rightarrow> string" where
  "nat_string b n = (if n < b \<or> b \<le> 1 then [digit ! n] else nat_string b (n div b) @ [digit ! (n mod b)])"

declare nat_string.simps [simp del]

definition int_string :: "nat \<Rightarrow> int \<Rightarrow> string" where
  "int_string b i = (if i < 0 then ''-'' else []) @ nat_string b (nat \<bar>i\<bar>)"

lemma put_string_append: "put_string put (xs @ ys) s = bind_run (put_string put xs s) (put_string put ys)"
proof (induction xs arbitrary: s)
  case (Cons x xs)
  have "put_string put (xs @ ys) = (\<lambda>s. bind_run (put_string put xs s) (put_string put ys))" using Cons.IH by blast
  then show ?case by (simp add: bind_run_assoc)
qed simp

lemma int_digits_notation:
  assumes "2 \<le> unat base" "unat v < unat base ^ k" "0 < k" "length buf + k \<le> 64"
  shows "int_digits v base buf = Inr (nat_string (unat base) (unat v) @ buf)"
  using assms(2-)
proof (induction k arbitrary: v buf)
  case (Suc k)
  have q: "v div base = 0 \<longleftrightarrow> unat v < unat base" using assms(1) by (simp add: word_eq_iff_unsigned unat_div div_eq_0_iff flip: unat_eq_zero)
  show ?case
  proof (cases "unat v < unat base")
    case True
    then show ?thesis using q Suc.prems by (simp add: int_digits.simps nat_string.simps unat_mod)
  next
    case False
    have "unat (v div base) < unat base ^ k" using Suc.prems(1) assms(1)
      by (simp add: unat_div less_mult_imp_div_less mult.commute)
    moreover have "k \<noteq> 0" using False Suc.prems(1) by (intro notI) simp
    ultimately have "int_digits (v div base) base (digit ! unat (v mod base) # buf) =
        Inr (nat_string (unat base) (unat (v div base)) @ (digit ! unat (v mod base)) # buf)"
      using Suc.prems by (intro Suc.IH) auto
    then show ?thesis using False q assms(1) Suc.prems
      by (simp add: int_digits.simps [of v] nat_string.simps [of _ "unat v"] unat_mod unat_div)
  qed
qed simp

lemma print_int_notation:
  assumes "2 \<le> unat base"
  shows "print_int put u base is_signed s =
    put_string put (if is_signed then int_string (unat base) (sint u) else nat_string (unat base) (unat u)) s"
proof -
  have d: "int_digits v base [] = Inr (nat_string (unat base) (unat v))" for v
  proof -
    have "unat v < 2 ^ 64" by simp
    also have "(2 :: nat) ^ 64 \<le> unat base ^ 64" using assms by (intro power_mono) auto
    finally show ?thesis using int_digits_notation [OF assms, of v 64 "[]"] by simp
  qed
  have n: "nat \<bar>sint u\<bar> = unat (if sint u < 0 then - u else u)"
  proof (cases "sint u < 0")
    case True
    have "uint (- u) = uint (word_of_int (- sint u) :: u64)" by simp
    also have "\<dots> = (- sint u) mod 2 ^ 64" by (simp add: uint_word_of_int del: word_of_int_minus of_int_minus)
    also have "\<dots> = - sint u" using True sint_greater_eq [of u] by simp
    finally show ?thesis using True by (simp add: unat_eq_nat_uint)
  next
    case False
    have "uint u = sint u mod 2 ^ 64" by (simp add: uint_sint take_bit_eq_mod)
    also have "\<dots> = sint u" using False sint_less [of u] by simp
    finally show ?thesis using False by (simp add: unat_eq_nat_uint)
  qed
  show ?thesis using n by (cases "is_signed"; cases "sint u < 0") (simp_all add: print_int_def int_string_def d)
qed

subsection \<open>What a format string stands for\<close>

text \<open>A format string as a list of directives: a character (a percent sign is doubled), a character or string
  argument, or a number. The specification gives for each the spelling, the argument and the text.\<close>

datatype conv = Cu | Cllu | Cd | Clld | Cx | Cllx | Cp | Czu | Czd

datatype directive = Lit char | Chr u64 | Str "string option" | Num conv u64

fun conv_name :: "conv \<Rightarrow> string" where
  "conv_name Cu = ''u''" | "conv_name Cllu = ''llu''" | "conv_name Cd = ''d''" | "conv_name Clld = ''lld''"
| "conv_name Cx = ''x''" | "conv_name Cllx = ''llx''" | "conv_name Cp = ''p''" | "conv_name Czu = ''zu''" | "conv_name Czd = ''zd''"

fun spelling :: "directive \<Rightarrow> string" where
  "spelling (Lit c) = (if c = CHR ''%'' then ''%%'' else [c])"
| "spelling (Chr w) = ''%c''"
| "spelling (Str x) = ''%s''"
| "spelling (Num k w) = ''%'' @ conv_name k"

fun argument :: "directive \<Rightarrow> va list" where
  "argument (Lit c) = []"
| "argument (Chr w) = [VInt w]"
| "argument (Str x) = [VStr x]"
| "argument (Num k w) = [VInt w]"

fun conv_text :: "conv \<Rightarrow> u64 \<Rightarrow> string" where
  "conv_text Cu w = nat_string 10 (unat (ucast w :: u32))"
| "conv_text Cllu w = nat_string 10 (unat w)"
| "conv_text Cd w = int_string 10 (sint (ucast w :: u32))"
| "conv_text Clld w = int_string 10 (sint w)"
| "conv_text Cx w = nat_string 16 (unat (ucast w :: u32))"
| "conv_text Cllx w = nat_string 16 (unat w)"
| "conv_text Cp w = nat_string 16 (unat w)"
| "conv_text Czu w = nat_string 10 (unat w)"
| "conv_text Czd w = int_string 10 (sint w)"

fun directive_text :: "directive \<Rightarrow> string" where
  "directive_text (Lit c) = [c]"
| "directive_text (Chr w) = [char_of (unat (ucast w :: u8))]"
| "directive_text (Str x) = (case x of None \<Rightarrow> ''(null)'' | Some t \<Rightarrow> t)"
| "directive_text (Num k w) = conv_text k w"

lemma unat_u32_u64: "unat (ucast (x :: u32) :: u64) = unat x"
proof -
  have "unat x < 2 ^ 32" using unsigned_less [of x] by simp
  then show ?thesis by (simp add: unsigned_ucast_eq take_bit_nat_eq_self)
qed

lemma sint_i32_i64: "sint (scast (x :: u32) :: u64) = sint x"
proof -
  have "- (2 ^ 31) \<le> sint x" "sint x < 2 ^ 31" using sint_greater_eq [of x] sint_less [of x] by simp_all
  then show ?thesis by (simp add: signed_scast_eq signed_take_bit_int_eq_self)
qed

lemma vformat_step:
  "vformat put (spelling d @ fmt) (argument d @ args) s = bind_run (put_string put (directive_text d) s) (vformat put fmt args)"
proof (cases d)
  case (Lit c)
  then show ?thesis by (simp add: bind_run_assoc)
next
  case (Num k w)
  have b: "2 \<le> unat (10 :: u64)" "2 \<le> unat (16 :: u64)" by simp_all
  show ?thesis
    by (cases k)
      (simp_all add: Num int_cases_def is_case_def va_int_def print_int_notation [OF b(1)] print_int_notation [OF b(2)] unat_u32_u64 sint_i32_i64)
qed (simp_all add: va_int_def va_str_def bind_run_assoc)

lemma vformat_text:
  "vformat put (concat (map spelling ds)) (concat (map argument ds) @ args) s =
   put_string put (concat (map directive_text ds)) s"
proof (induction ds arbitrary: s)
  case (Cons d ds)
  have "vformat put (concat (map spelling ds)) (concat (map argument ds) @ args) = put_string put (concat (map directive_text ds))"
    using Cons.IH by blast
  then show ?case by (simp add: vformat_step put_string_append)
qed simp

text \<open>C15: \<open>vformat\<close> on the spelling of any list of directives, given their arguments, emits through the callback
  exactly the texts of the directives in order: decimal or hexadecimal notation of the argument at its
  width and signedness, the smallest negative number included, \<open>(null)\<close> for a null string.\<close>

theorem vformat_renders:
  "vformat put (concat (map spelling ds)) (concat (map argument ds) @ args) s =
   put_string put (concat (map directive_text ds)) s"
  by (rule vformat_text)

lemma nat_string_example: "nat_string 10 4096 = ''4096''" "int_string 10 (-15) = ''-15''" "nat_string 16 48879 = ''beef''"
  by (simp_all add: nat_string.simps int_string_def digit_def)

end
