(* ===== verification/KDevices.thy ===== *)
theory KDevices
  imports KMachine KFormat KLock
begin

text \<open>
  The small drivers and the console: \<open>src/driver/clock.c\<close>, \<open>interrupt.c\<close>, \<open>uart.c\<close>,
  \<open>src/core/char_device.c\<close> and \<open>console.c\<close>. Their static variables and the hardware are one record. The function
  pointers the kernel stores are named by the functions they point to; calling one is a parameter of
  the routine that calls it. The character device of the console is always the UART.\<close>

datatype ClockHandler = hello_handler
datatype InterruptHandler = uart_intr_handler | sd_intr_handler

record 'h kdev =
  hw :: 'h
  one_ms :: u64
  clock_handler :: "ClockHandler option"
  irq_handler :: "InterruptHandler option list"
  con_lock :: SpinLock
  panicked_flag :: bool

abbreviation MMIO_BASE :: addr where "MMIO_BASE \<equiv> 0xffff00003F000000"
abbreviation LOCAL_BASE :: addr where "LOCAL_BASE \<equiv> 0xffff000040000000"

text \<open>A load, and a store, to a device register; a routine on the hardware that may not return.\<close>

definition dev_get :: "'h machine \<Rightarrow> addr \<Rightarrow> 'h kdev \<Rightarrow> u32 \<times> 'h kdev" where
  "dev_get m a st = (case device_get_u32 m a (hw st) of (v, h) \<Rightarrow> (v, st\<lparr>hw := h\<rparr>))"

definition dev_put :: "'h machine \<Rightarrow> addr \<Rightarrow> u32 \<Rightarrow> 'h kdev \<Rightarrow> 'h kdev" where
  "dev_put m a v st = st\<lparr>hw := device_put_u32 m a v (hw st)\<rparr>"

definition dev_run :: "('h \<Rightarrow> 'h option) \<Rightarrow> 'h kdev \<Rightarrow> 'h kdev res option" where
  "dev_run f st = (case f (hw st) of None \<Rightarrow> None | Some h \<Rightarrow> Some (Inr (st\<lparr>hw := h\<rparr>)))"

subsection \<open>Clock\<close>

abbreviation CORE_CLOCK_CTRL :: "usize \<Rightarrow> addr" where "CORE_CLOCK_CTRL i \<equiv> LOCAL_BASE + 0x40 + 4 * i"

definition reset_clock :: "'h machine \<Rightarrow> u64 \<Rightarrow> 'h kdev \<Rightarrow> 'h kdev" where
  "reset_clock m countdown_ms st = st\<lparr>hw := sys_write m CNTP_TVAL_EL0 (countdown_ms * one_ms st) (hw st)\<rparr>"

definition init_clock :: "'h machine \<Rightarrow> 'h kdev \<Rightarrow> 'h kdev" where
  "init_clock m st =
     (case get_clock_frequency m (hw st) of (f, h1) \<Rightarrow>
      let st1 = reset_clock m 1000 (st\<lparr>one_ms := f div 1000, hw := sys_write m CNTP_CTL_EL0 1 h1\<rparr>) in
      case cpuid m (hw st1) of (i, h2) \<Rightarrow> dev_put m (CORE_CLOCK_CTRL i) 2 (st1\<lparr>hw := h2\<rparr>))"

definition set_clock_handler :: "ClockHandler \<Rightarrow> 'h kdev \<Rightarrow> 'h kdev" where
  "set_clock_handler f st = st\<lparr>clock_handler := Some f\<rparr>"

definition invoke_clock_handler :: "(ClockHandler \<Rightarrow> 's \<Rightarrow> 's res option) \<Rightarrow> ClockHandler option \<Rightarrow> 's \<Rightarrow> 's res option" where
  "invoke_clock_handler call f s = (case f of None \<Rightarrow> Some (Inl (Panic ''no clock handler'')) | Some g \<Rightarrow> call g s)"

subsection \<open>Interrupt controller\<close>

abbreviation IRQ_PENDING_1 :: addr where "IRQ_PENDING_1 \<equiv> MMIO_BASE + 0xB204"
abbreviation IRQ_PENDING_2 :: addr where "IRQ_PENDING_2 \<equiv> MMIO_BASE + 0xB208"
abbreviation ENABLE_IRQS_1 :: addr where "ENABLE_IRQS_1 \<equiv> MMIO_BASE + 0xB210"
abbreviation ENABLE_IRQS_2 :: addr where "ENABLE_IRQS_2 \<equiv> MMIO_BASE + 0xB214"
abbreviation GPU_INT_ROUTE :: addr where "GPU_INT_ROUTE \<equiv> LOCAL_BASE + 0xC"
abbreviation IRQ_SRC_CORE :: "usize \<Rightarrow> addr" where "IRQ_SRC_CORE i \<equiv> LOCAL_BASE + 0x60 + 4 * i"
abbreviation IRQ_SRC_GPU :: u32 where "IRQ_SRC_GPU \<equiv> 0x100"
abbreviation IRQ_SRC_CNTPNSIRQ :: u32 where "IRQ_SRC_CNTPNSIRQ \<equiv> 2"
abbreviation NUM_IRQ_TYPES :: nat where "NUM_IRQ_TYPES \<equiv> 64"
abbreviation AUX_INT :: u32 where "AUX_INT \<equiv> 0x20000000"
abbreviation VC_ARASANSDIO_INT :: u32 where "VC_ARASANSDIO_INT \<equiv> 0x40000000"
abbreviation IRQ_AUX :: nat where "IRQ_AUX \<equiv> 29"
abbreviation IRQ_SDIO :: nat where "IRQ_SDIO \<equiv> 56"
abbreviation IRQ_ARASANSDIO :: nat where "IRQ_ARASANSDIO \<equiv> 62"

definition init_interrupt :: "'h machine \<Rightarrow> 'h kdev \<Rightarrow> 'h kdev" where
  "init_interrupt m st =
     dev_put m GPU_INT_ROUTE 0 (dev_put m ENABLE_IRQS_2 VC_ARASANSDIO_INT (dev_put m ENABLE_IRQS_1 AUX_INT
       (st\<lparr>irq_handler := replicate NUM_IRQ_TYPES None\<rparr>)))"

definition set_interrupt_handler :: "'h machine \<Rightarrow> nat \<Rightarrow> InterruptHandler \<Rightarrow> 'h kdev \<Rightarrow> 'h kdev" where
  "set_interrupt_handler m ty f st =
     (let st1 = dev_put m (ENABLE_IRQS_1 + 4 * of_nat (ty div 32)) (push_bit (ty mod 32) 1) st in
      st1\<lparr>irq_handler := (irq_handler st1)[ty := Some f]\<rparr>)"

text \<open>The loop over the pending interrupts from \<open>i\<close> on. The handlers are read from the table at the time of the call.\<close>

primrec irq_loop :: "(InterruptHandler \<Rightarrow> 's \<Rightarrow> 's res option) \<Rightarrow> ('s \<Rightarrow> InterruptHandler option list) \<Rightarrow> u64 \<Rightarrow> nat \<Rightarrow> nat \<Rightarrow> 's \<Rightarrow> 's res option" where
  "irq_loop call tab pend i 0 s = Some (Inr s)"
| "irq_loop call tab pend i (Suc r) s =
     (if drop_bit i pend AND 1 \<noteq> 0 then
        (case tab s ! i of
           Some f \<Rightarrow> bind_run (call f s) (irq_loop call tab pend (Suc i) r)
         | None \<Rightarrow> Some (Inl (Panic ''unknown interrupt type'')))
      else irq_loop call tab pend (Suc i) r s)"

text \<open>The state \<open>'s\<close> of the handlers includes the devices, reached with \<open>get\<close> and \<open>put\<close>.\<close>

definition interrupt_global_handler :: "'h machine \<Rightarrow> ('s \<Rightarrow> 'h kdev) \<Rightarrow> ('h kdev \<Rightarrow> 's \<Rightarrow> 's) \<Rightarrow>
    (ClockHandler \<Rightarrow> 's \<Rightarrow> 's res option) \<Rightarrow> (InterruptHandler \<Rightarrow> 's \<Rightarrow> 's res option) \<Rightarrow> 's \<Rightarrow> 's res option" where
  "interrupt_global_handler m get put clock call s =
     (case cpuid m (hw (get s)) of (i, h1) \<Rightarrow>
      case dev_get m (IRQ_SRC_CORE i) ((get s)\<lparr>hw := h1\<rparr>) of (source, st1) \<Rightarrow>
      let s1 = put st1 s in
      bind_run
        (if source AND IRQ_SRC_CNTPNSIRQ \<noteq> 0 then
           bind_run (invoke_clock_handler clock (clock_handler (get s1)) s1) (\<lambda>s2. Some (Inr (source XOR IRQ_SRC_CNTPNSIRQ, s2)))
         else Some (Inr (source, s1))) (\<lambda>(source1, s2).
      bind_run
        (if source1 AND IRQ_SRC_GPU \<noteq> 0 then
           (case dev_get m IRQ_PENDING_1 (get s2) of (p1, st2) \<Rightarrow>
            case dev_get m IRQ_PENDING_2 st2 of (p2, st3) \<Rightarrow>
            bind_run (irq_loop call (irq_handler \<circ> get) (ucast p1 OR push_bit 32 (ucast p2)) 0 NUM_IRQ_TYPES (put st3 s2)) (\<lambda>s3.
              Some (Inr (source1 XOR IRQ_SRC_GPU, s3))))
         else Some (Inr (source1, s2))) (\<lambda>(source2, s3).
      if source2 \<noteq> 0 then Some (Inl (Panic ''unknown interrupt sources'')) else Some (Inr s3))))"

subsection \<open>UART\<close>

abbreviation AUX_BASE :: addr where "AUX_BASE \<equiv> MMIO_BASE + 0x215000"
abbreviation AUX_ENABLES :: addr where "AUX_ENABLES \<equiv> AUX_BASE + 0x04"
abbreviation AUX_MU_IO_REG :: addr where "AUX_MU_IO_REG \<equiv> AUX_BASE + 0x40"
abbreviation AUX_MU_IER_REG :: addr where "AUX_MU_IER_REG \<equiv> AUX_BASE + 0x44"
abbreviation AUX_MU_IIR_REG :: addr where "AUX_MU_IIR_REG \<equiv> AUX_BASE + 0x48"
abbreviation AUX_MU_LCR_REG :: addr where "AUX_MU_LCR_REG \<equiv> AUX_BASE + 0x4C"
abbreviation AUX_MU_MCR_REG :: addr where "AUX_MU_MCR_REG \<equiv> AUX_BASE + 0x50"
abbreviation AUX_MU_LSR_REG :: addr where "AUX_MU_LSR_REG \<equiv> AUX_BASE + 0x54"
abbreviation AUX_MU_CNTL_REG :: addr where "AUX_MU_CNTL_REG \<equiv> AUX_BASE + 0x60"
abbreviation AUX_MU_BAUD_REG :: addr where "AUX_MU_BAUD_REG \<equiv> AUX_BASE + 0x68"
abbreviation GPPUD :: addr where "GPPUD \<equiv> MMIO_BASE + 0x200094"
abbreviation GPPUDCLK0 :: addr where "GPPUDCLK0 \<equiv> MMIO_BASE + 0x200098"

definition AUX_MU_BAUD :: "nat \<Rightarrow> u32" where
  "AUX_MU_BAUD baudrate = of_nat (250000000 div (baudrate * 8) - 1)"

definition init_uart :: "'h machine \<Rightarrow> 'h kdev \<Rightarrow> 'h kdev res option" where
  "init_uart m st =
     bind_run (dev_run (delay_us m 5) (dev_put m GPPUD 0 st)) (\<lambda>st1.
     bind_run (dev_run (delay_us m 5) (dev_put m GPPUDCLK0 0xC000 st1)) (\<lambda>st2.
       Some (Inr (set_interrupt_handler m IRQ_AUX uart_intr_handler
         (dev_put m AUX_MU_CNTL_REG 3 (dev_put m AUX_MU_IIR_REG 6 (dev_put m AUX_MU_BAUD_REG (AUX_MU_BAUD 115200)
         (dev_put m AUX_MU_MCR_REG 0 (dev_put m AUX_MU_LCR_REG 3 (dev_put m AUX_MU_IER_REG 13
         (dev_put m AUX_MU_CNTL_REG 0 (dev_put m AUX_ENABLES 1 (dev_put m GPPUDCLK0 0 st2)))))))))))))"

definition uart_get_char :: "'h machine \<Rightarrow> 'h kdev \<Rightarrow> char \<times> 'h kdev" where
  "uart_get_char m st =
     (case dev_get m AUX_MU_IIR_REG st of (state, st1) \<Rightarrow>
      if state AND 1 \<noteq> 0 \<or> state AND 6 \<noteq> 4 then (char_of (255 :: nat), st1)
      else case dev_get m AUX_MU_IO_REG st1 of (v, st2) \<Rightarrow> (char_of (unat (v AND 0xff)), st2))"

partial_function (option) uart_wait :: "'h machine \<Rightarrow> 'h kdev \<Rightarrow> 'h kdev res option" where
  "uart_wait m st = (case dev_get m AUX_MU_LSR_REG st of (v, st1) \<Rightarrow> if v AND 0x20 = 0 then uart_wait m st1 else Some (Inr st1))"

definition uart_put_one :: "'h machine \<Rightarrow> 'h kdev put_char" where
  "uart_put_one m c st = bind_run (uart_wait m st) (\<lambda>st1. Some (Inr (dev_put m AUX_MU_IO_REG (of_char c) st1)))"

text \<open>The recursive call has a carriage return as its argument and does not recur.\<close>

definition uart_put_char :: "'h machine \<Rightarrow> 'h kdev put_char" where
  "uart_put_char m c st =
     bind_run (uart_put_one m c st) (\<lambda>st1. if c = CHR 0x0A then uart_put_one m (CHR 0x0D) st1 else Some (Inr st1))"

definition init_char_device :: "'h machine \<Rightarrow> 'h kdev \<Rightarrow> 'h kdev res option" where
  "init_char_device m st = init_uart m st"

subsection \<open>Console\<close>

text \<open>The console routines return whether the call returns, with the state: \<open>no_return\<close> parks the CPU for ever.\<close>

definition init_console :: "'h kdev \<Rightarrow> 'h kdev" where
  "init_console st = st\<lparr>con_lock := init_spinlock (con_lock st) ''console''\<rparr>"

definition no_return :: "'h machine \<Rightarrow> 'h kdev \<Rightarrow> bool \<times> 'h kdev" where
  "no_return m st = (False, st\<lparr>hw := arch_disable_trap m (hw st)\<rparr>)"

definition lock_console :: "nat \<Rightarrow> 'h kdev \<Rightarrow> 'h kdev res option" where
  "lock_console k st = Some (bind_res (acquire_spinlock k (con_lock st)) (\<lambda>l. Inr (st\<lparr>con_lock := l\<rparr>)))"

definition unlock_console :: "nat \<Rightarrow> 'h kdev \<Rightarrow> 'h kdev res option" where
  "unlock_console k st = Some (bind_res (release_spinlock k (con_lock st)) (\<lambda>l. Inr (st\<lparr>con_lock := l\<rparr>)))"

definition check_panicked :: "'h machine \<Rightarrow> nat \<Rightarrow> 'h kdev \<Rightarrow> ('h kdev \<Rightarrow> (bool \<times> 'h kdev) res option) \<Rightarrow> (bool \<times> 'h kdev) res option" where
  "check_panicked m k st rest =
     (if panicked_flag st then bind_run (unlock_console k st) (\<lambda>st1. Some (Inr (no_return m st1))) else rest st)"

definition puts :: "'h machine \<Rightarrow> nat \<Rightarrow> string \<Rightarrow> 'h kdev \<Rightarrow> (bool \<times> 'h kdev) res option" where
  "puts m k str st =
     bind_run (lock_console k st) (\<lambda>st1.
     check_panicked m k st1 (\<lambda>st2.
     bind_run (put_string (uart_put_char m) str st2) (\<lambda>st3.
     bind_run (uart_put_char m (CHR 0x0A) st3) (\<lambda>st4.
     bind_run (unlock_console k st4) (\<lambda>st5. Some (Inr (True, st5)))))))"

definition vprintf :: "'h machine \<Rightarrow> nat \<Rightarrow> string \<Rightarrow> va list \<Rightarrow> 'h kdev \<Rightarrow> (bool \<times> 'h kdev) res option" where
  "vprintf m k fmt arg st =
     bind_run (lock_console k st) (\<lambda>st1.
     check_panicked m k st1 (\<lambda>st2.
     bind_run (vformat (uart_put_char m) fmt arg st2) (\<lambda>st3.
     bind_run (unlock_console k st3) (\<lambda>st4. Some (Inr (True, st4))))))"

definition printf :: "'h machine \<Rightarrow> nat \<Rightarrow> string \<Rightarrow> va list \<Rightarrow> 'h kdev \<Rightarrow> (bool \<times> 'h kdev) res option" where
  "printf m k fmt arg st = vprintf m k fmt arg st"

definition panic :: "'h machine \<Rightarrow> nat \<Rightarrow> string \<Rightarrow> usize \<Rightarrow> string \<Rightarrow> va list \<Rightarrow> 'h kdev \<Rightarrow> (bool \<times> 'h kdev) res option" where
  "panic m k file line fmt arg st =
     bind_run (lock_console k st) (\<lambda>st1.
     check_panicked m k st1 (\<lambda>st2.
     let put = uart_put_char m in
     bind_run (put_string put (replicate 32 (CHR ''='')) (st2\<lparr>panicked_flag := True\<rparr>)) (\<lambda>st3.
     bind_run (put (CHR 0x0A) st3) (\<lambda>st4.
     bind_run (format put (''KERNEL PANIC at CPU %zu:'' @ [CHR 0x0A]) [VInt (of_nat k)] st4) (\<lambda>st5.
     bind_run (format put (''file: %s'' @ [CHR 0x0A]) [VStr (Some file)] st5) (\<lambda>st6.
     bind_run (format put (''line: %zu'' @ [CHR 0x0A]) [VInt line] st6) (\<lambda>st7.
     bind_run (vformat put fmt arg st7) (\<lambda>st8.
     bind_run (put (CHR 0x0A) st8) (\<lambda>st9.
     bind_run (unlock_console k st9) (\<lambda>st10. Some (Inr (no_return m st10))))))))))))"

text \<open>The receive interrupt echoes what arrives; \<open>False\<close> when a \<open>printf\<close> does not return.\<close>

partial_function (option) uart_intr :: "'h machine \<Rightarrow> nat \<Rightarrow> 'h kdev \<Rightarrow> (bool \<times> 'h kdev) res option" where
  "uart_intr m k st =
     (case dev_get m AUX_MU_IIR_REG st of (stat, st1) \<Rightarrow>
      if stat AND 1 \<noteq> 0 then Some (Inr (True, st1))
      else if stat AND 6 = 4 then
        (case dev_get m AUX_MU_IO_REG st1 of (v, st2) \<Rightarrow>
         case printf m k ''%c'' [VInt (ucast (v AND 0xFF))] st2 of
           None \<Rightarrow> None
         | Some (Inl e) \<Rightarrow> Some (Inl e)
         | Some (Inr (ret, st3)) \<Rightarrow> if ret then uart_intr m k st3 else Some (Inr (False, st3)))
      else uart_intr m k st1)"

end
