(* ===== verification/KMbox.thy ===== *)
theory KMbox
  imports KDevices KPhysMem
begin

text \<open>
  The mailbox of the GPU, \<open>src/driver/mbox.c\<close>. The message buffer is an array on the stack at the address \<open>a\<close>
  given by the caller; the GPU reads and writes it, so it is accessed as memory of the machine.
  Messages on the console are left out.\<close>

abbreviation VIDEOCORE_MBOX :: addr where "VIDEOCORE_MBOX \<equiv> MMIO_BASE + 0xB880"
abbreviation MBOX_READ :: addr where "MBOX_READ \<equiv> VIDEOCORE_MBOX"
abbreviation MBOX_STATUS :: addr where "MBOX_STATUS \<equiv> VIDEOCORE_MBOX + 0x18"
abbreviation MBOX_WRITE :: addr where "MBOX_WRITE \<equiv> VIDEOCORE_MBOX + 0x20"
abbreviation MBOX_FULL :: u32 where "MBOX_FULL \<equiv> 0x80000000"
abbreviation MBOX_EMPTY :: u32 where "MBOX_EMPTY \<equiv> 0x40000000"

definition dev_do :: "('h \<Rightarrow> 'h) \<Rightarrow> 'h kdev \<Rightarrow> 'h kdev" where
  "dev_do f st = st\<lparr>hw := f (hw st)\<rparr>"

text \<open>Polling the status register until none of the bits \<open>b\<close> is set.\<close>

partial_function (option) mbox_wait :: "'h machine \<Rightarrow> u32 \<Rightarrow> 'h kdev \<Rightarrow> 'h kdev option" where
  "mbox_wait m b st = (case dev_get m MBOX_STATUS st of (v, st1) \<Rightarrow> if v AND b \<noteq> 0 then mbox_wait m b st1 else Some st1)"

partial_function (option) mbox_read :: "'h machine \<Rightarrow> u8 \<Rightarrow> 'h kdev \<Rightarrow> (u32 \<times> 'h kdev) option" where
  "mbox_read m chan st =
     Option.bind (mbox_wait m MBOX_EMPTY (dev_do (disb m) st)) (\<lambda>st1.
     case dev_get m MBOX_READ (dev_do (disb m) st1) of (r, st2) \<Rightarrow>
     if r AND 0xF = ucast chan then Some (drop_bit 4 r, st2) else mbox_read m chan st2)"

definition mbox_write :: "'h machine \<Rightarrow> u32 \<Rightarrow> u8 \<Rightarrow> 'h kdev \<Rightarrow> 'h kdev res option" where
  "mbox_write m b chan st =
     (let st1 = dev_do (disb m) st in
      if \<not> (b AND 0xF = 0 \<and> chan AND NOT 0xF = 0) then Some (Inl (Panic ''(buf & 0xF) == 0 && (chan & ~0xF) == 0''))
      else Option.bind (mbox_wait m MBOX_FULL st1) (\<lambda>st2.
        Some (Inr (dev_do (disb m) (dev_put m MBOX_WRITE ((b AND NOT 0xF) OR ucast chan) (dev_do (disb m) st2))))))"

primrec store_words :: "'h machine \<Rightarrow> addr \<Rightarrow> u32 list \<Rightarrow> 'h kdev \<Rightarrow> 'h kdev" where
  "store_words m a [] st = st"
| "store_words m a (v # vs) st = store_words m (a + 4) vs (dev_put m a v st)"

text \<open>The exchange both requests make: the message is written, handed to the GPU, and answered in place.\<close>

definition mbox_call :: "'h machine \<Rightarrow> addr \<Rightarrow> u32 list \<Rightarrow> 'h kdev \<Rightarrow> 'h kdev res option" where
  "mbox_call m a msg st =
     (let st1 = store_words m a msg st; sync = dev_do (disb m) \<circ> dev_do (dccivac m a (4 * length msg)) \<circ> dev_do (disb m) in
      if K2P a AND 0xF \<noteq> 0 then Some (Inl (Panic ''Buffer should align to 16 bytes. ''))
      else bind_run (mbox_write m (ucast (K2P a)) 8 (sync st1)) (\<lambda>st2.
        Option.bind (mbox_read m 8 (dev_do (disb m) st2)) (\<lambda>(r, st3). Some (Inr (sync st3)))))"

definition mbox_get_arm_memory :: "'h machine \<Rightarrow> addr \<Rightarrow> 'h kdev \<Rightarrow> (u32 \<times> 'h kdev) res option" where
  "mbox_get_arm_memory m a st =
     bind_run (mbox_call m a [36, 0, 0x00010005, 8, 0, 0, 0, 0] st) (\<lambda>st1.
     case dev_get m (a + 20) st1 of (b5, st2) \<Rightarrow>
     if b5 \<noteq> 0 then Some (Inl (Panic ''Memory base address should be zero. ''))
     else case dev_get m (a + 24) st2 of (b6, st3) \<Rightarrow>
       if b6 = 0 then Some (Inl (Panic ''Memory size should not be zero. '')) else Some (Inr (b6, st3)))"

definition mbox_get_clock_rate :: "'h machine \<Rightarrow> addr \<Rightarrow> 'h kdev \<Rightarrow> (u32 \<times> 'h kdev) res option" where
  "mbox_get_clock_rate m a st =
     bind_run (mbox_call m a [36, 0, 0x00030002, 8, 0, 1, 0, 0] st) (\<lambda>st1. Some (Inr (dev_get m (a + 24) st1)))"

end
