(* ===== verification/KBuf.thy ===== *)
theory KBuf
  imports KList KLock
begin

text \<open>
  The request queue of the disk driver, \<open>src/driver/buf.c\<close> and \<open>buf.h\<close>: a ring of \<open>buf\<close> structures linked
  through the node at their offset 8, guarded by a spin lock. It is shown to implement a queue of
  buffers, first in, first out.\<close>

abbreviation B_VALID :: u32 where "B_VALID \<equiv> 2"
abbreviation B_DIRTY :: u32 where "B_DIRTY \<equiv> 4"

record buf =
  bflags :: u32
  blockno :: u32
  bdata :: "u8 list"

record bufq =
  bufs :: "addr \<Rightarrow> buf"
  qlinks :: links
  buflock :: SpinLock
  bufhead :: addr

definition listnode :: "addr \<Rightarrow> addr" where "listnode b = b + 8"
definition buf_of_node :: "addr \<Rightarrow> addr" where "buf_of_node n = n - 8"

lemma buf_of_listnode [simp]: "buf_of_node (listnode b) = b" by (simp add: buf_of_node_def listnode_def)
lemma listnode_inj [simp]: "listnode a = listnode b \<longleftrightarrow> a = b" by (simp add: listnode_def)

definition init_buf_lock :: "bufq \<Rightarrow> bufq" where
  "init_buf_lock q = q\<lparr>buflock := init_spinlock (buflock q) ''buflock''\<rparr>"

definition acquire_buf_lock :: "nat \<Rightarrow> bufq \<Rightarrow> bufq res" where
  "acquire_buf_lock k q = bind_res (acquire_spinlock k (buflock q)) (\<lambda>l. Inr (q\<lparr>buflock := l\<rparr>))"

definition release_buf_lock :: "nat \<Rightarrow> bufq \<Rightarrow> bufq res" where
  "release_buf_lock k q = bind_res (release_spinlock k (buflock q)) (\<lambda>l. Inr (q\<lparr>buflock := l\<rparr>))"

definition init_sdbuf :: "bufq \<Rightarrow> bufq" where
  "init_sdbuf q = (let q1 = init_buf_lock q in q1\<lparr>qlinks := init_list_node (qlinks q1) (bufhead q1)\<rparr>)"

definition try_fetch_task :: "nat \<Rightarrow> bufq \<Rightarrow> (addr \<times> bufq) res" where
  "try_fetch_task k q =
     bind_res (acquire_buf_lock k q) (\<lambda>q1.
     let b = if lnext (qlinks q1) (bufhead q1) \<noteq> bufhead q1 then buf_of_node (lnext (qlinks q1) (bufhead q1)) else NULL in
     bind_res (release_buf_lock k q1) (\<lambda>q2. Inr (b, q2)))"

definition fetch_task :: "nat \<Rightarrow> bufq \<Rightarrow> (addr \<times> bufq) res" where
  "fetch_task k q =
     bind_res (try_fetch_task k q) (\<lambda>(b, q1).
     if b \<noteq> NULL then
       bind_res (acquire_buf_lock k q1) (\<lambda>q2.
       bind_res (release_buf_lock k (q2\<lparr>qlinks := snd (detach_from_list (qlinks q2) (listnode b))\<rparr>)) (\<lambda>q3. Inr (b, q3)))
     else Inr (b, q1))"

definition add_task :: "nat \<Rightarrow> addr \<Rightarrow> bufq \<Rightarrow> bufq res" where
  "add_task k b q =
     bind_res (acquire_buf_lock k q) (\<lambda>q1.
     let head = bufhead q1; tail = lprev (qlinks q1) head; n = listnode b;
         l1 = (qlinks q1)\<lparr>lprev := (lprev (qlinks q1))(n := tail)\<rparr>;
         l2 = l1\<lparr>lnext := (lnext l1)(n := head)\<rparr>;
         l3 = l2\<lparr>lnext := (lnext l2)(tail := n)\<rparr>;
         l4 = l3\<lparr>lprev := (lprev l3)(head := n)\<rparr>
     in release_buf_lock k (q1\<lparr>qlinks := l4\<rparr>))"

subsection \<open>The contract\<close>

text \<open>A queue: \<open>holds q xs\<close> says that the concrete queue holds the elements \<open>xs\<close>, oldest first.\<close>

primrec add_all :: "('b \<Rightarrow> 'q \<Rightarrow> 'q res) \<Rightarrow> 'b list \<Rightarrow> 'q \<Rightarrow> 'q res" where
  "add_all add [] q = Inr q"
| "add_all add (b # bs) q = bind_res (add b q) (add_all add bs)"

primrec fetch_all :: "('q \<Rightarrow> ('b \<times> 'q) res) \<Rightarrow> nat \<Rightarrow> 'q \<Rightarrow> ('b list \<times> 'q) res" where
  "fetch_all fetch 0 q = Inr ([], q)"
| "fetch_all fetch (Suc n) q =
     bind_res (fetch q) (\<lambda>(b, q1). bind_res (fetch_all fetch n q1) (\<lambda>(bs, q2). Inr (b # bs, q2)))"

locale task_queue =
  fixes add :: "'b \<Rightarrow> 'q \<Rightarrow> 'q res" and fetch :: "'q \<Rightarrow> ('b \<times> 'q) res" and peek :: "'q \<Rightarrow> ('b \<times> 'q) res"
    and holds :: "'q \<Rightarrow> 'b list \<Rightarrow> bool" and may :: "'q \<Rightarrow> 'b \<Rightarrow> bool" and none :: 'b
  assumes add_holds: "holds q xs \<Longrightarrow> may q b \<Longrightarrow> b \<notin> set xs \<Longrightarrow>
      \<exists>q'. add b q = Inr q' \<and> holds q' (xs @ [b]) \<and> (\<forall>c. may q' c = may q c)"
    and fetch_holds: "holds q (b # xs) \<Longrightarrow> \<exists>q'. fetch q = Inr (b, q') \<and> holds q' xs \<and> (\<forall>c. may q' c = may q c)"
    and fetch_empty: "holds q [] \<Longrightarrow> fetch q = Inr (none, q)"
    and peek_holds: "holds q xs \<Longrightarrow> peek q = Inr (case xs of [] \<Rightarrow> none | b # _ \<Rightarrow> b, q)"
begin

lemma add_all_holds:
  "holds q xs \<Longrightarrow> distinct (xs @ bs) \<Longrightarrow> \<forall>b\<in>set bs. may q b \<Longrightarrow> \<exists>q'. add_all add bs q = Inr q' \<and> holds q' (xs @ bs)"
proof (induction bs arbitrary: q xs)
  case (Cons b bs)
  obtain q1 where q1: "add b q = Inr q1" "holds q1 (xs @ [b])" "\<forall>c. may q1 c = may q c"
    using add_holds [OF Cons.prems(1), of b] Cons.prems(2,3) by auto
  have "\<exists>q'. add_all add bs q1 = Inr q' \<and> holds q' ((xs @ [b]) @ bs)"
    by (rule Cons.IH [OF q1(2)]) (use Cons.prems(2,3) q1(3) in auto)
  then show ?case using q1(1) by auto
qed simp

lemma fetch_all_holds:
  "holds q (bs @ xs) \<Longrightarrow> \<exists>q'. fetch_all fetch (length bs) q = Inr (bs, q') \<and> holds q' xs"
proof (induction bs arbitrary: q)
  case (Cons b bs)
  then obtain q1 where q1: "fetch q = Inr (b, q1)" "holds q1 (bs @ xs)" using fetch_holds [of q b "bs @ xs"] by auto
  from Cons.IH [OF q1(2)] show ?case using q1(1) by auto
qed simp

lemma first_in_first_out:
  assumes "holds q []" "distinct bs" "\<forall>b\<in>set bs. may q b"
  shows "\<exists>q1 q2. add_all add bs q = Inr q1 \<and> fetch_all fetch (length bs) q1 = Inr (bs, q2) \<and> holds q2 [] \<and> fetch q2 = Inr (none, q2)"
proof -
  obtain q1 where q1: "add_all add bs q = Inr q1" "holds q1 (bs @ [])" using add_all_holds [OF assms(1), of bs] assms(2,3) by auto
  from fetch_all_holds [OF q1(2)] q1(1) fetch_empty show ?thesis by blast
qed

end

text \<open>The ring holds the buffers \<open>bs\<close>. A buffer can be added if its node is not that of the head; no node is null.\<close>

definition may_queue :: "bufq \<Rightarrow> addr \<Rightarrow> bool" where
  "may_queue q b \<longleftrightarrow> b \<noteq> NULL \<and> listnode b \<noteq> bufhead q"

definition queue_holds :: "bufq \<Rightarrow> addr list \<Rightarrow> bool" where
  "queue_holds q bs \<longleftrightarrow> lock_free (buflock q) \<and> cyc (qlinks q) (bufhead q # map listnode bs) \<and> (\<forall>b\<in>set bs. may_queue q b)"

lemma try_fetch_task_holds:
  assumes "queue_holds q bs"
  shows "try_fetch_task k q = Inr (case bs of [] \<Rightarrow> NULL | b # _ \<Rightarrow> b, q)"
proof -
  have c: "cyc (qlinks q) (bufhead q # map listnode bs)" and l: "lock_free (buflock q)" using assms by (simp_all add: queue_holds_def)
  have n: "lnext (qlinks q) (bufhead q) = hd (map listnode bs @ [bufhead q])" using cycD(1) [OF c] .
  have "lnext (qlinks q) (bufhead q) \<noteq> bufhead q" if "bs \<noteq> []"
    using cycD(7) [OF c] n that by (cases bs) auto
  then show ?thesis using l n
    by (cases bs) (simp_all add: try_fetch_task_def acquire_buf_lock_def release_buf_lock_def)
qed

lemma fetch_task_holds:
  assumes "queue_holds q (b # bs)"
  shows "fetch_task k q = Inr (b, q\<lparr>qlinks := snd (detach_from_list (qlinks q) (listnode b))\<rparr>)"
    and "queue_holds (q\<lparr>qlinks := snd (detach_from_list (qlinks q) (listnode b))\<rparr>) bs"
proof -
  have c: "cyc (qlinks q) (bufhead q # listnode b # map listnode bs)" and l: "lock_free (buflock q)" and m: "\<forall>x\<in>set (b # bs). may_queue q x"
    using assms by (simp_all add: queue_holds_def)
  show "fetch_task k q = Inr (b, q\<lparr>qlinks := snd (detach_from_list (qlinks q) (listnode b))\<rparr>)"
    using try_fetch_task_holds [OF assms, of k] l m
    by (simp add: fetch_task_def acquire_buf_lock_def release_buf_lock_def may_queue_def)
  show "queue_holds (q\<lparr>qlinks := snd (detach_from_list (qlinks q) (listnode b))\<rparr>) bs"
    using l m clist.remove_middle [of "qlinks q" "bufhead q" "[]" "listnode b" "map listnode bs"] c
    by (auto simp: queue_holds_def may_queue_def)
qed

lemma add_task_cyc:
  assumes c: "cyc h (head # xs)" and n: "n \<notin> set (head # xs)"
  shows "cyc (h\<lparr>lprev := (lprev h)(n := lprev h head, head := n), lnext := (lnext h)(n := head, lprev h head := n)\<rparr>) (head # xs @ [n])"
proof -
  let ?h = "h\<lparr>lprev := (lprev h)(n := lprev h head, head := n), lnext := (lnext h)(n := head, lprev h head := n)\<rparr>"
  have t: "lprev h head = last (head # xs)" using cycD(2) [OF c] .
  have "chain h ((head # xs) @ [head])" "distinct (head # xs)" using c by (simp_all add: cyc_def)
  then have d: "distinct (head # xs)" "chain h (head # xs)" unfolding chain_append by simp_all
  have "chain ?h (head # xs)"
    by (rule chain_frame [OF d(2,1)]) (use n t in auto)
  then have "chain ?h ((head # xs) @ [n])" unfolding chain_append using n t by (auto simp: linked_def)
  moreover have "linked ?h n head" using n t by (auto simp: linked_def)
  ultimately show ?thesis using d(1) n by (intro cycI) auto
qed

lemma add_task_holds:
  assumes "queue_holds q bs" "may_queue q b" "b \<notin> set bs"
  shows "\<exists>q'. add_task k b q = Inr q' \<and> queue_holds q' (bs @ [b]) \<and> bufhead q' = bufhead q \<and> bufs q' = bufs q"
proof -
  have c: "cyc (qlinks q) (bufhead q # map listnode bs)" and l: "lock_free (buflock q)" and m: "\<forall>x\<in>set bs. may_queue q x"
    using assms by (simp_all add: queue_holds_def)
  have n: "listnode b \<notin> set (bufhead q # map listnode bs)" using assms(2,3) by (auto simp: may_queue_def)
  let ?l = "(qlinks q)\<lparr>lprev := (lprev (qlinks q))(listnode b := lprev (qlinks q) (bufhead q), bufhead q := listnode b),
      lnext := (lnext (qlinks q))(listnode b := bufhead q, lprev (qlinks q) (bufhead q) := listnode b)\<rparr>"
  have "add_task k b q = Inr (q\<lparr>qlinks := ?l\<rparr>)"
    using l by (simp add: add_task_def Let_def acquire_buf_lock_def release_buf_lock_def)
  moreover have "queue_holds (q\<lparr>qlinks := ?l\<rparr>) (bs @ [b])"
    using add_task_cyc [OF c n] l m assms(2) by (auto simp: queue_holds_def may_queue_def)
  ultimately show ?thesis by auto
qed

interpretation bq: task_queue "add_task k" "fetch_task k" "try_fetch_task k" queue_holds may_queue NULL for k
proof
  show "\<exists>q'. add_task k b q = Inr q' \<and> queue_holds q' (xs @ [b]) \<and> (\<forall>c. may_queue q' c = may_queue q c)"
    if "queue_holds q xs" "may_queue q b" "b \<notin> set xs" for q xs b
    using add_task_holds [OF that, of k] by (auto simp: may_queue_def)
  show "\<exists>q'. fetch_task k q = Inr (b, q') \<and> queue_holds q' xs \<and> (\<forall>c. may_queue q' c = may_queue q c)"
    if "queue_holds q (b # xs)" for q b xs
    using fetch_task_holds(1) [OF that, of k] fetch_task_holds(2) [OF that] by (auto simp: may_queue_def)
  show "fetch_task k q = Inr (NULL, q)" if "queue_holds q []" for q
    using try_fetch_task_holds [OF that, of k] by (simp add: fetch_task_def)
  show "try_fetch_task k q = Inr (case xs of [] \<Rightarrow> NULL | b # _ \<Rightarrow> b, q)" if "queue_holds q xs" for q xs
    using try_fetch_task_holds [OF that] .
qed

text \<open>C11: the ring of buffers refines a queue. After initialisation it is empty; adding a buffer that is not
  queued appends it, fetching removes the oldest one and returns it, and on an empty queue fetching
  returns a null pointer and changes nothing; looking at the queue returns what fetching would. Buffers
  added in a row come out in that order. The lock is free again after each operation.\<close>

theorem buf_queue_refines:
  "queue_holds (init_sdbuf q0) [] \<and>
   (queue_holds q bs \<longrightarrow>
      try_fetch_task k q = Inr (case bs of [] \<Rightarrow> NULL | b # _ \<Rightarrow> b, q) \<and>
      (case bs of [] \<Rightarrow> fetch_task k q = Inr (NULL, q)
       | b # bs' \<Rightarrow> \<exists>q'. fetch_task k q = Inr (b, q') \<and> queue_holds q' bs') \<and>
      (\<forall>b. may_queue q b \<and> b \<notin> set bs \<longrightarrow> (\<exists>q'. add_task k b q = Inr q' \<and> queue_holds q' (bs @ [b]))) \<and>
      (\<forall>ds. bs = [] \<and> distinct ds \<and> (\<forall>d\<in>set ds. may_queue q d) \<longrightarrow>
         (\<exists>q1 q2. add_all (add_task k) ds q = Inr q1 \<and> fetch_all (fetch_task k) (length ds) q1 = Inr (ds, q2) \<and> queue_holds q2 [])))"
proof (intro conjI impI)
  show "queue_holds (init_sdbuf q0) []"
    by (simp add: queue_holds_def init_sdbuf_def init_buf_lock_def init_spinlock_def lock_free_def cyc_init Let_def)
next
  assume h: "queue_holds q bs"
  show "try_fetch_task k q = Inr (case bs of [] \<Rightarrow> NULL | b # _ \<Rightarrow> b, q)" using bq.peek_holds [OF h] .
  show "case bs of [] \<Rightarrow> fetch_task k q = Inr (NULL, q) | b # bs' \<Rightarrow> \<exists>q'. fetch_task k q = Inr (b, q') \<and> queue_holds q' bs'"
  proof (cases bs)
    case Nil
    then show ?thesis using h bq.fetch_empty [of q k] by simp
  next
    case (Cons b bs')
    then show ?thesis using h bq.fetch_holds [of q b bs' k] by auto
  qed
  show "\<forall>b. may_queue q b \<and> b \<notin> set bs \<longrightarrow> (\<exists>q'. add_task k b q = Inr q' \<and> queue_holds q' (bs @ [b]))"
    using bq.add_holds [OF h, of _ k] by blast
  show "\<forall>ds. bs = [] \<and> distinct ds \<and> (\<forall>d\<in>set ds. may_queue q d) \<longrightarrow>
      (\<exists>q1 q2. add_all (add_task k) ds q = Inr q1 \<and> fetch_all (fetch_task k) (length ds) q1 = Inr (ds, q2) \<and> queue_holds q2 [])"
    using h bq.first_in_first_out [of q _ k] by blast
qed

definition bufq_example :: bufq where
  "bufq_example = \<lparr>bufs = (\<lambda>_. \<lparr>bflags = 0, blockno = 0, bdata = []\<rparr>), qlinks = \<lparr>lprev = (\<lambda>_. 64), lnext = (\<lambda>_. 64)\<rparr>,
     buflock = \<lparr>locked = False, lcpu = None, lname = ''buflock''\<rparr>, bufhead = 64\<rparr>"

theorem buf_queue_refines_witness:
  "\<exists>q1 q2. add_all (add_task 0) [128, 1024] bufq_example = Inr q1 \<and> fetch_all (fetch_task 0) (length [128, 1024 :: addr]) q1 = Inr ([128, 1024], q2)"
proof -
  have "queue_holds bufq_example []" by (simp add: queue_holds_def bufq_example_def lock_free_def cyc_single)
  moreover have "\<forall>d\<in>set [128, 1024]. may_queue bufq_example d" by (simp add: may_queue_def bufq_example_def listnode_def)
  moreover have "distinct [128, 1024 :: addr]" by simp
  ultimately show ?thesis using buf_queue_refines [of bufq_example bufq_example "[]" 0] by blast
qed

end
