(* ===== verification/KSd.thy ===== *)
theory KSd
  imports KMbox KBuf KSched
begin

text \<open>
  The SD card driver, \<open>src/driver/sd.c\<close>: the command layer of the EMMC controller. The controller and the card
  are hardware behind the register accesses of the machine. A routine of the driver is an action on the state
  of the driver; C \<open>int\<close> results are 32-bit words. Messages on the console, and the registers that are read
  only to be shown there, are left out.\<close>

subsection \<open>Registers, commands and the card\<close>

abbreviation EMMC_BLKSIZECNT :: addr where "EMMC_BLKSIZECNT \<equiv> MMIO_BASE + 0x300004"
abbreviation EMMC_ARG1 :: addr where "EMMC_ARG1 \<equiv> MMIO_BASE + 0x300008"
abbreviation EMMC_CMDTM :: addr where "EMMC_CMDTM \<equiv> MMIO_BASE + 0x30000C"
abbreviation EMMC_RESP0 :: addr where "EMMC_RESP0 \<equiv> MMIO_BASE + 0x300010"
abbreviation EMMC_RESP1 :: addr where "EMMC_RESP1 \<equiv> MMIO_BASE + 0x300014"
abbreviation EMMC_RESP2 :: addr where "EMMC_RESP2 \<equiv> MMIO_BASE + 0x300018"
abbreviation EMMC_RESP3 :: addr where "EMMC_RESP3 \<equiv> MMIO_BASE + 0x30001C"
abbreviation EMMC_DATA :: addr where "EMMC_DATA \<equiv> MMIO_BASE + 0x300020"
abbreviation EMMC_STATUS :: addr where "EMMC_STATUS \<equiv> MMIO_BASE + 0x300024"
abbreviation EMMC_CONTROL0 :: addr where "EMMC_CONTROL0 \<equiv> MMIO_BASE + 0x300028"
abbreviation EMMC_CONTROL1 :: addr where "EMMC_CONTROL1 \<equiv> MMIO_BASE + 0x30002C"
abbreviation EMMC_INTERRUPT :: addr where "EMMC_INTERRUPT \<equiv> MMIO_BASE + 0x300030"
abbreviation EMMC_IRPT_MASK :: addr where "EMMC_IRPT_MASK \<equiv> MMIO_BASE + 0x300034"
abbreviation EMMC_IRPT_EN :: addr where "EMMC_IRPT_EN \<equiv> MMIO_BASE + 0x300038"
abbreviation EMMC_SLOTISR_VER :: addr where "EMMC_SLOTISR_VER \<equiv> MMIO_BASE + 0x3000fc"

abbreviation CMD_IS_DATA :: u32 where "CMD_IS_DATA \<equiv> 0x200000"
abbreviation CMD_RSPNS_NO :: u32 where "CMD_RSPNS_NO \<equiv> 0"
abbreviation CMD_RSPNS_136 :: u32 where "CMD_RSPNS_136 \<equiv> 0x10000"
abbreviation CMD_RSPNS_48 :: u32 where "CMD_RSPNS_48 \<equiv> 0x20000"
abbreviation CMD_RSPNS_48B :: u32 where "CMD_RSPNS_48B \<equiv> 0x30000"
abbreviation TM_MULTI_BLOCK :: u32 where "TM_MULTI_BLOCK \<equiv> 0x20"
abbreviation TM_DAT_DIR_HC :: u32 where "TM_DAT_DIR_HC \<equiv> 0"
abbreviation TM_DAT_DIR_CH :: u32 where "TM_DAT_DIR_CH \<equiv> 0x10"
abbreviation TM_BLKCNT_EN :: u32 where "TM_BLKCNT_EN \<equiv> 2"
abbreviation TM_MULTI_DATA :: u32 where "TM_MULTI_DATA \<equiv> CMD_IS_DATA OR TM_MULTI_BLOCK OR TM_BLKCNT_EN"
abbreviation INT_DATA_TIMEOUT :: u32 where "INT_DATA_TIMEOUT \<equiv> 0x100000"
abbreviation INT_CMD_TIMEOUT :: u32 where "INT_CMD_TIMEOUT \<equiv> 0x10000"
abbreviation INT_READ_RDY :: u32 where "INT_READ_RDY \<equiv> 0x20"
abbreviation INT_WRITE_RDY :: u32 where "INT_WRITE_RDY \<equiv> 0x10"
abbreviation INT_DATA_DONE :: u32 where "INT_DATA_DONE \<equiv> 2"
abbreviation INT_CMD_DONE :: u32 where "INT_CMD_DONE \<equiv> 1"
abbreviation INT_ERROR_MASK :: u32 where "INT_ERROR_MASK \<equiv> 0x20000 OR 0x40000 OR 0x80000 OR INT_DATA_TIMEOUT OR 0x200000 OR 0x400000 OR 0x8000 OR 0x1000000"
abbreviation C0_HCTL_DWITDH :: u32 where "C0_HCTL_DWITDH \<equiv> 2"
abbreviation C1_SRST_HC :: u32 where "C1_SRST_HC \<equiv> 0x1000000"
abbreviation C1_TOUNIT_MAX :: u32 where "C1_TOUNIT_MAX \<equiv> 0xe0000"
abbreviation C1_CLK_EN :: u32 where "C1_CLK_EN \<equiv> 4"
abbreviation C1_CLK_STABLE :: u32 where "C1_CLK_STABLE \<equiv> 2"
abbreviation C1_CLK_INTLEN :: u32 where "C1_CLK_INTLEN \<equiv> 1"
abbreviation FREQ_SETUP :: u32 where "FREQ_SETUP \<equiv> 400000"
abbreviation FREQ_NORMAL :: u32 where "FREQ_NORMAL \<equiv> 25000000"
abbreviation SR_READ_AVAILABLE :: u32 where "SR_READ_AVAILABLE \<equiv> 0x800"
abbreviation SR_DAT_INHIBIT :: u32 where "SR_DAT_INHIBIT \<equiv> 2"
abbreviation SR_CMD_INHIBIT :: u32 where "SR_CMD_INHIBIT \<equiv> 1"
abbreviation ACMD41_VOLTAGE :: u32 where "ACMD41_VOLTAGE \<equiv> 0xff8000"
abbreviation ACMD41_ARG_HC :: u32 where "ACMD41_ARG_HC \<equiv> 0x40000000 OR 0x10000000 OR ACMD41_VOLTAGE OR 0x1000000"
abbreviation ACMD41_ARG_SC :: u32 where "ACMD41_ARG_SC \<equiv> ACMD41_VOLTAGE OR 0x1000000"
abbreviation ST_CARD_STATE :: u32 where "ST_CARD_STATE \<equiv> 0x1e00"
abbreviation ST_APP_CMD :: u32 where "ST_APP_CMD \<equiv> 0x20"
abbreviation R1_ERRORS_MASK :: u32 where "R1_ERRORS_MASK \<equiv> 0xfff9c004"
abbreviation R3_COMPLETE :: u32 where "R3_COMPLETE \<equiv> 0x80000000"
abbreviation R3_CCS :: u32 where "R3_CCS \<equiv> 0x40000000"
abbreviation R3_S18A :: u32 where "R3_S18A \<equiv> 0x1000000"
abbreviation R6_RCA_MASK :: u32 where "R6_RCA_MASK \<equiv> 0xffff0000"
abbreviation SD_OK :: u32 where "SD_OK \<equiv> 0"
abbreviation SD_ERROR :: u32 where "SD_ERROR \<equiv> 1"
abbreviation SD_TIMEOUT :: u32 where "SD_TIMEOUT \<equiv> 2"
abbreviation SD_BUSY :: u32 where "SD_BUSY \<equiv> 3"
abbreviation SD_ERROR_RESET :: u32 where "SD_ERROR_RESET \<equiv> 6"
abbreviation SD_ERROR_CLOCK :: u32 where "SD_ERROR_CLOCK \<equiv> 7"
abbreviation SD_ERROR_VOLTAGE :: u32 where "SD_ERROR_VOLTAGE \<equiv> 8"
abbreviation SD_ERROR_APP_CMD :: u32 where "SD_ERROR_APP_CMD \<equiv> 9"
abbreviation SD_CARD_CHANGED :: u32 where "SD_CARD_CHANGED \<equiv> 10"
abbreviation SD_CARD_REINSERTED :: u32 where "SD_CARD_REINSERTED \<equiv> 12"
abbreviation SD_TYPE_1 :: u32 where "SD_TYPE_1 \<equiv> 2"
abbreviation SD_TYPE_2_SC :: u32 where "SD_TYPE_2_SC \<equiv> 3"
abbreviation SD_TYPE_2_HC :: u32 where "SD_TYPE_2_HC \<equiv> 4"

abbreviation RESP_NO :: nat where "RESP_NO \<equiv> 0"
abbreviation RESP_R1 :: nat where "RESP_R1 \<equiv> 1"
abbreviation RESP_R1b :: nat where "RESP_R1b \<equiv> 11"
abbreviation RESP_R2I :: nat where "RESP_R2I \<equiv> 2"
abbreviation RESP_R2S :: nat where "RESP_R2S \<equiv> 12"
abbreviation RESP_R3 :: nat where "RESP_R3 \<equiv> 3"
abbreviation RESP_R6 :: nat where "RESP_R6 \<equiv> 6"
abbreviation RESP_R7 :: nat where "RESP_R7 \<equiv> 7"
abbreviation RCA_NO :: nat where "RCA_NO \<equiv> 1"
abbreviation RCA_YES :: nat where "RCA_YES \<equiv> 2"
abbreviation IX_GO_IDLE_STATE :: nat where "IX_GO_IDLE_STATE \<equiv> 0"
abbreviation IX_ALL_SEND_CID :: nat where "IX_ALL_SEND_CID \<equiv> 1"
abbreviation IX_SEND_REL_ADDR :: nat where "IX_SEND_REL_ADDR \<equiv> 2"
abbreviation IX_CARD_SELECT :: nat where "IX_CARD_SELECT \<equiv> 5"
abbreviation IX_SEND_IF_COND :: nat where "IX_SEND_IF_COND \<equiv> 6"
abbreviation IX_SEND_CSD :: nat where "IX_SEND_CSD \<equiv> 7"
abbreviation IX_SET_BLOCKLEN :: nat where "IX_SET_BLOCKLEN \<equiv> 13"
abbreviation IX_READ_SINGLE :: nat where "IX_READ_SINGLE \<equiv> 14"
abbreviation IX_WRITE_SINGLE :: nat where "IX_WRITE_SINGLE \<equiv> 19"
abbreviation IX_APP_CMD :: nat where "IX_APP_CMD \<equiv> 29"
abbreviation IX_APP_CMD_RCA :: nat where "IX_APP_CMD_RCA \<equiv> 30"
abbreviation IX_APP_CMD_START :: nat where "IX_APP_CMD_START \<equiv> 32"
abbreviation IX_SET_BUS_WIDTH :: nat where "IX_SET_BUS_WIDTH \<equiv> 32"
abbreviation IX_APP_SEND_OP_COND :: nat where "IX_APP_SEND_OP_COND \<equiv> 36"
abbreviation IX_SEND_SCR :: nat where "IX_SEND_SCR \<equiv> 38"

record EMMCCommand =
  cname :: string
  ccode :: u32
  cresp :: nat
  crca :: nat
  cdelay :: u32

definition command :: "string \<Rightarrow> u32 \<Rightarrow> nat \<Rightarrow> nat \<Rightarrow> u32 \<Rightarrow> EMMCCommand" where
  "command n c r a d = \<lparr>cname = n, ccode = c, cresp = r, crca = a, cdelay = d\<rparr>"

definition sdCommandTable :: "EMMCCommand list" where
  "sdCommandTable =
     [command ''GO_IDLE_STATE'' (0x00000000 OR CMD_RSPNS_NO) RESP_NO RCA_NO 0,
      command ''ALL_SEND_CID'' (0x02000000 OR CMD_RSPNS_136) RESP_R2I RCA_NO 0,
      command ''SEND_REL_ADDR'' (0x03000000 OR CMD_RSPNS_48) RESP_R6 RCA_NO 0,
      command ''SET_DSR'' (0x04000000 OR CMD_RSPNS_NO) RESP_NO RCA_NO 0,
      command ''SWITCH_FUNC'' (0x06000000 OR CMD_RSPNS_48) RESP_R1 RCA_NO 0,
      command ''CARD_SELECT'' (0x07000000 OR CMD_RSPNS_48B) RESP_R1b RCA_YES 0,
      command ''SEND_IF_COND'' (0x08000000 OR CMD_RSPNS_48) RESP_R7 RCA_NO 100,
      command ''SEND_CSD'' (0x09000000 OR CMD_RSPNS_136) RESP_R2S RCA_YES 0,
      command ''SEND_CID'' (0x0A000000 OR CMD_RSPNS_136) RESP_R2I RCA_YES 0,
      command ''VOLT_SWITCH'' (0x0B000000 OR CMD_RSPNS_48) RESP_R1 RCA_NO 0,
      command ''STOP_TRANS'' (0x0C000000 OR CMD_RSPNS_48B) RESP_R1b RCA_NO 0,
      command ''SEND_STATUS'' (0x0D000000 OR CMD_RSPNS_48) RESP_R1 RCA_YES 0,
      command ''GO_INACTIVE'' (0x0F000000 OR CMD_RSPNS_NO) RESP_NO RCA_YES 0,
      command ''SET_BLOCKLEN'' (0x10000000 OR CMD_RSPNS_48) RESP_R1 RCA_NO 0,
      command ''READ_SINGLE'' (0x11000000 OR CMD_RSPNS_48 OR CMD_IS_DATA OR TM_DAT_DIR_CH) RESP_R1 RCA_NO 0,
      command ''READ_MULTI'' (0x12000000 OR CMD_RSPNS_48 OR TM_MULTI_DATA OR TM_DAT_DIR_CH) RESP_R1 RCA_NO 0,
      command ''SEND_TUNING'' (0x13000000 OR CMD_RSPNS_48) RESP_R1 RCA_NO 0,
      command ''SPEED_CLASS'' (0x14000000 OR CMD_RSPNS_48B) RESP_R1b RCA_NO 0,
      command ''SET_BLOCKCNT'' (0x17000000 OR CMD_RSPNS_48) RESP_R1 RCA_NO 0,
      command ''WRITE_SINGLE'' (0x18000000 OR CMD_RSPNS_48 OR CMD_IS_DATA OR TM_DAT_DIR_HC) RESP_R1 RCA_NO 0,
      command ''WRITE_MULTI'' (0x19000000 OR CMD_RSPNS_48 OR TM_MULTI_DATA OR TM_DAT_DIR_HC) RESP_R1 RCA_NO 0,
      command ''PROGRAM_CSD'' (0x1B000000 OR CMD_RSPNS_48) RESP_R1 RCA_NO 0,
      command ''SET_WRITE_PR'' (0x1C000000 OR CMD_RSPNS_48B) RESP_R1b RCA_NO 0,
      command ''CLR_WRITE_PR'' (0x1D000000 OR CMD_RSPNS_48B) RESP_R1b RCA_NO 0,
      command ''SND_WRITE_PR'' (0x1E000000 OR CMD_RSPNS_48) RESP_R1 RCA_NO 0,
      command ''ERASE_WR_ST'' (0x20000000 OR CMD_RSPNS_48) RESP_R1 RCA_NO 0,
      command ''ERASE_WR_END'' (0x21000000 OR CMD_RSPNS_48) RESP_R1 RCA_NO 0,
      command ''ERASE'' (0x26000000 OR CMD_RSPNS_48B) RESP_R1b RCA_NO 0,
      command ''LOCK_UNLOCK'' (0x2A000000 OR CMD_RSPNS_48) RESP_R1 RCA_NO 0,
      command ''APP_CMD'' (0x37000000 OR CMD_RSPNS_NO) RESP_NO RCA_NO 100,
      command ''APP_CMD'' (0x37000000 OR CMD_RSPNS_48) RESP_R1 RCA_YES 0,
      command ''GEN_CMD'' (0x38000000 OR CMD_RSPNS_48) RESP_R1 RCA_NO 0,
      command ''SET_BUS_WIDTH'' (0x06000000 OR CMD_RSPNS_48) RESP_R1 RCA_NO 0,
      command ''SD_STATUS'' (0x0D000000 OR CMD_RSPNS_48) RESP_R1 RCA_YES 0,
      command ''SEND_NUM_WRBL'' (0x16000000 OR CMD_RSPNS_48) RESP_R1 RCA_NO 0,
      command ''SEND_NUM_ERS'' (0x17000000 OR CMD_RSPNS_48) RESP_R1 RCA_NO 0,
      command ''SD_SENDOPCOND'' (0x29000000 OR CMD_RSPNS_48) RESP_R3 RCA_NO 1000,
      command ''SET_CLR_DET'' (0x2A000000 OR CMD_RSPNS_48) RESP_R1 RCA_NO 0,
      command ''SEND_SCR'' (0x33000000 OR CMD_RSPNS_48 OR CMD_IS_DATA OR TM_DAT_DIR_CH) RESP_R1 RCA_NO 0]"

record SDDescriptor =
  capacity :: u64
  cid :: "u32 list"
  csd :: "u32 list"
  scr :: "u32 list"
  ocr :: u32
  support :: u32
  fileFormat :: u32
  ctype :: u32
  uhsi :: u32
  card_init :: bool
  card_absent :: bool
  rca :: u32
  cardState :: u32
  card_status :: u32
  lastCmd :: "EMMCCommand option"
  lastArg :: u32

record 'h sdsys =
  sdev :: "'h kdev"
  sdCard :: SDDescriptor
  sdHostVer :: u32
  sdBaseClock :: u32
  sdlock :: SpinLock
  squeue :: bufq
  skern :: ksys

subsection \<open>Actions\<close>

type_synonym ('s, 'a) act = "'s \<Rightarrow> ('a \<times> 's) res option"

definition ret :: "'a \<Rightarrow> ('s, 'a) act" where "ret x s = Some (Inr (x, s))"
definition fails :: "kerr \<Rightarrow> ('s, 'a) act" where "fails e s = Some (Inl e)"
definition bind_act :: "('s, 'a) act \<Rightarrow> ('a \<Rightarrow> ('s, 'b) act) \<Rightarrow> ('s, 'b) act" where
  "bind_act f g s = bind_run (f s) (\<lambda>(x, s1). g x s1)"
definition then_act :: "('s, 'a) act \<Rightarrow> ('s, 'b) act \<Rightarrow> ('s, 'b) act" where
  "then_act f g = bind_act f (\<lambda>_. g)"
definition when_act :: "bool \<Rightarrow> ('s, unit) act \<Rightarrow> ('s, unit) act" where
  "when_act b f = (if b then f else ret ())"

lemma act_simps [simp]:
  "bind_act (ret x) g = g x" "bind_act (fails e) g = fails e" "when_act True f = f" "when_act False f = ret ()"
  by (simp_all add: fun_eq_iff bind_act_def ret_def fails_def when_act_def)

text \<open>A result other than 0 ends the routine at once with that result.\<close>

definition check_act :: "('s, u32) act \<Rightarrow> ('s, u32) act \<Rightarrow> ('s, u32) act" where
  "check_act f g = bind_act f (\<lambda>r. if r \<noteq> 0 then ret r else g)"

definition reg :: "'h machine \<Rightarrow> addr \<Rightarrow> ('h sdsys, u32) act" where
  "reg m a s = (case dev_get m a (sdev s) of (v, d) \<Rightarrow> Some (Inr (v, s\<lparr>sdev := d\<rparr>)))"

definition set_reg :: "'h machine \<Rightarrow> addr \<Rightarrow> u32 \<Rightarrow> ('h sdsys, unit) act" where
  "set_reg m a v s = Some (Inr ((), s\<lparr>sdev := dev_put m a v (sdev s)\<rparr>))"

definition card :: "(SDDescriptor \<Rightarrow> 'a) \<Rightarrow> ('h sdsys, 'a) act" where
  "card f s = Some (Inr (f (sdCard s), s))"

definition set_card :: "(SDDescriptor \<Rightarrow> SDDescriptor) \<Rightarrow> ('h sdsys, unit) act" where
  "set_card f s = Some (Inr ((), s\<lparr>sdCard := f (sdCard s)\<rparr>))"

definition machine_act :: "('h \<Rightarrow> 'h) \<Rightarrow> ('h sdsys, unit) act" where
  "machine_act f s = Some (Inr ((), s\<lparr>sdev := (sdev s)\<lparr>hw := f (hw (sdev s))\<rparr>\<rparr>))"

definition sd_delayus :: "'h machine \<Rightarrow> u32 \<Rightarrow> ('h sdsys, unit) act" where
  "sd_delayus m c s = bind_run (dev_run (delayus m (c * 3)) (sdev s)) (\<lambda>d. Some (Inr ((), s\<lparr>sdev := d\<rparr>)))"

text \<open>The loops \<open>while (test && count--) delay\<close>, \<open>while (test && --count) delay\<close> and
  \<open>while (test && ++count < limit) delay\<close>, with the value of \<open>count\<close> after the loop.\<close>

primrec poll_postdec :: "('s, bool) act \<Rightarrow> ('s, unit) act \<Rightarrow> nat \<Rightarrow> ('s, int) act" where
  "poll_postdec test delay 0 = bind_act test (\<lambda>b. ret (if b then -1 else 0))"
| "poll_postdec test delay (Suc n) =
     bind_act test (\<lambda>b. if b then then_act delay (poll_postdec test delay n) else ret (int (Suc n)))"

primrec poll_predec :: "('s, bool) act \<Rightarrow> ('s, unit) act \<Rightarrow> nat \<Rightarrow> ('s, int) act" where
  "poll_predec test delay 0 = ret 0"
| "poll_predec test delay (Suc n) =
     bind_act test (\<lambda>b. if \<not> b then ret (int (Suc n)) else if n = 0 then ret 0 else then_act delay (poll_predec test delay n))"

primrec poll_preinc :: "('s, bool) act \<Rightarrow> ('s, unit) act \<Rightarrow> nat \<Rightarrow> nat \<Rightarrow> ('s, nat) act" where
  "poll_preinc test delay c 0 = ret c"
| "poll_preinc test delay c (Suc r) =
     bind_act test (\<lambda>b. if \<not> b then ret c else if r = 0 then ret (Suc c) else then_act delay (poll_preinc test delay (Suc c) r))"

subsection \<open>Waiting\<close>

definition sdWaitForInterrupt :: "'h machine \<Rightarrow> u32 \<Rightarrow> ('h sdsys, u32) act" where
  "sdWaitForInterrupt m msk =
     bind_act (poll_postdec (bind_act (reg m EMMC_INTERRUPT) (\<lambda>v. ret (v AND (msk OR INT_ERROR_MASK) = 0))) (sd_delayus m 1) 1000000) (\<lambda>left.
     bind_act (reg m EMMC_INTERRUPT) (\<lambda>ival.
     if left \<le> 0 \<or> ival AND INT_CMD_TIMEOUT \<noteq> 0 \<or> ival AND INT_DATA_TIMEOUT \<noteq> 0
     then then_act (set_reg m EMMC_INTERRUPT ival) (ret SD_TIMEOUT)
     else if ival AND INT_ERROR_MASK \<noteq> 0
     then then_act (set_reg m EMMC_INTERRUPT ival) (ret SD_ERROR)
     else then_act (set_reg m EMMC_INTERRUPT msk) (ret SD_OK)))"

text \<open>The condition \<open>status & inhibit && !(interrupt & INT_ERROR_MASK)\<close>, evaluated from left to right.\<close>

definition inhibited :: "'h machine \<Rightarrow> u32 \<Rightarrow> ('h sdsys, bool) act" where
  "inhibited m inhibit =
     bind_act (reg m EMMC_STATUS) (\<lambda>v. if v AND inhibit = 0 then ret False
       else bind_act (reg m EMMC_INTERRUPT) (\<lambda>i. ret (i AND INT_ERROR_MASK = 0)))"

definition sdWaitForCommand :: "'h machine \<Rightarrow> ('h sdsys, u32) act" where
  "sdWaitForCommand m =
     bind_act (poll_postdec (inhibited m SR_CMD_INHIBIT) (sd_delayus m 1) 1000000) (\<lambda>left.
     if left \<le> 0 then ret SD_BUSY
     else bind_act (reg m EMMC_INTERRUPT) (\<lambda>i. ret (if i AND INT_ERROR_MASK \<noteq> 0 then SD_BUSY else SD_OK)))"

definition sdWaitForData :: "'h machine \<Rightarrow> ('h sdsys, u32) act" where
  "sdWaitForData m =
     bind_act (poll_preinc (inhibited m SR_DAT_INHIBIT) (sd_delayus m 1) 0 500000) (\<lambda>left.
     if 500000 \<le> left then ret SD_BUSY
     else bind_act (reg m EMMC_INTERRUPT) (\<lambda>i. ret (if i AND INT_ERROR_MASK \<noteq> 0 then SD_BUSY else SD_OK)))"

subsection \<open>Commands\<close>

text \<open>What a response of each type does to the descriptor of the card, and the result of the command; \<open>resp\<close> holds
  the registers \<open>RESP0\<close> to \<open>RESP3\<close>.\<close>

definition handle_response :: "EMMCCommand \<Rightarrow> u32 \<Rightarrow> u32 \<Rightarrow> u32 \<Rightarrow> u32 \<Rightarrow> u32 \<Rightarrow> SDDescriptor \<Rightarrow> (u32 \<times> SDDescriptor) res" where
  "handle_response cmd arg r0 r1 r2 r3 c =
     (if cresp cmd = RESP_NO then Inr (SD_OK, c)
      else if cresp cmd = RESP_R1 \<or> cresp cmd = RESP_R1b then
        Inr (r0 AND R1_ERRORS_MASK, c\<lparr>card_status := r0, cardState := drop_bit 9 (r0 AND ST_CARD_STATE)\<rparr>)
      else if cresp cmd = RESP_R2I then Inr (SD_OK, c\<lparr>card_status := 0, cid := [r3, r2, r1, r0]\<rparr>)
      else if cresp cmd = RESP_R2S then Inr (SD_OK, c\<lparr>card_status := 0, csd := [r3, r2, r1, r0]\<rparr>)
      else if cresp cmd = RESP_R3 then Inr (SD_OK, c\<lparr>card_status := 0, ocr := r0\<rparr>)
      else if cresp cmd = RESP_R6 then
        (let s = (r0 AND 0x1fff) OR push_bit 6 (r0 AND 0x2000) OR push_bit 8 (r0 AND 0x4000) OR push_bit 8 (r0 AND 0x8000) in
         Inr (s AND R1_ERRORS_MASK, c\<lparr>rca := r0 AND R6_RCA_MASK, card_status := s, cardState := drop_bit 9 (r0 AND ST_CARD_STATE)\<rparr>))
      else if cresp cmd = RESP_R7 then Inr (if r0 = arg then SD_OK else SD_ERROR, c\<lparr>card_status := 0\<rparr>)
      else Inl (Panic ''Unexpected response.''))"

definition sdSendCommandP :: "'h machine \<Rightarrow> EMMCCommand \<Rightarrow> u32 \<Rightarrow> ('h sdsys, u32) act" where
  "sdSendCommandP m cmd arg =
     bind_act (sdWaitForCommand m) (\<lambda>w.
     if w \<noteq> 0 then ret SD_BUSY
     else
       then_act (set_card (\<lambda>c. c\<lparr>lastCmd := Some cmd, lastArg := arg\<rparr>))
       (bind_act (reg m EMMC_INTERRUPT) (\<lambda>i.
       then_act (set_reg m EMMC_INTERRUPT i)
       (then_act (set_reg m EMMC_ARG1 arg)
       (then_act (set_reg m EMMC_CMDTM (ccode cmd))
       (then_act (when_act (cdelay cmd \<noteq> 0) (sd_delayus m (cdelay cmd)))
       (check_act (sdWaitForInterrupt m INT_CMD_DONE)
       (bind_act (reg m EMMC_RESP0) (\<lambda>r0.
       bind_act (if cresp cmd = RESP_R2I \<or> cresp cmd = RESP_R2S then
           bind_act (reg m EMMC_RESP3) (\<lambda>r3. bind_act (reg m EMMC_RESP2) (\<lambda>r2. bind_act (reg m EMMC_RESP1) (\<lambda>r1. ret (r1, r2, r3))))
         else ret (0, 0, 0)) (\<lambda>(r1, r2, r3) s.
       bind_run (Some (handle_response cmd arg r0 r1 r2 r3 (sdCard s))) (\<lambda>(r, c). Some (Inr (r, s\<lparr>sdCard := c\<rparr>)))))))))))))"

definition sdSendAppCommand :: "'h machine \<Rightarrow> ('h sdsys, u32) act" where
  "sdSendAppCommand m =
     bind_act (card rca) (\<lambda>a.
     if a = 0 then then_act (sdSendCommandP m (sdCommandTable ! IX_APP_CMD) 0) (ret SD_OK)
     else check_act (sdSendCommandP m (sdCommandTable ! IX_APP_CMD_RCA) a)
       (bind_act (card card_status) (\<lambda>st. ret (if st AND ST_APP_CMD = 0 then SD_ERROR else SD_OK))))"

text \<open>The last check of both ways to send a command.\<close>

definition app_accepted :: "nat \<Rightarrow> ('h sdsys, u32) act" where
  "app_accepted index =
     bind_act (card (\<lambda>c. IX_APP_CMD_START \<le> index \<and> rca c \<noteq> 0 \<and> card_status c AND ST_APP_CMD = 0)) (\<lambda>bad.
       ret (if bad then SD_ERROR_APP_CMD else SD_OK))"

definition sdSendCommand :: "'h machine \<Rightarrow> nat \<Rightarrow> ('h sdsys, u32) act" where
  "sdSendCommand m index =
     check_act (if IX_APP_CMD_START \<le> index then sdSendAppCommand m else ret SD_OK)
     (bind_act (card rca) (\<lambda>a.
     check_act (sdSendCommandP m (sdCommandTable ! index) (if crca (sdCommandTable ! index) = RCA_YES then a else 0)) (app_accepted index)))"

definition sdSendCommandA :: "'h machine \<Rightarrow> nat \<Rightarrow> u32 \<Rightarrow> ('h sdsys, u32) act" where
  "sdSendCommandA m index arg =
     check_act (if IX_APP_CMD_START \<le> index then sdSendAppCommand m else ret SD_OK)
     (check_act (sdSendCommandP m (sdCommandTable ! index) arg) (app_accepted index))"

text \<open>The words of the SCR register are read as they become available, at most 100000 polls in vain.\<close>

function scr_loop :: "'h machine \<Rightarrow> nat \<Rightarrow> nat \<Rightarrow> ('h sdsys, nat) act" where
  "scr_loop m numRead left =
     (if \<not> numRead < 2 then ret numRead
      else bind_act (reg m EMMC_STATUS) (\<lambda>v.
        if v AND SR_READ_AVAILABLE \<noteq> 0 then
          bind_act (reg m EMMC_DATA) (\<lambda>d.
          then_act (set_card (\<lambda>c. c\<lparr>scr := (scr c)[numRead := d]\<rparr>)) (scr_loop m (Suc numRead) left))
        else then_act (sd_delayus m 1) (if left \<le> 1 then ret numRead else scr_loop m numRead (left - 1))))"
  by pat_completeness auto
termination by (relation "measure (\<lambda>(m, numRead, left). left + (2 - numRead))") auto

declare scr_loop.simps [simp del]

definition scr_support :: "u32 \<Rightarrow> u32 \<Rightarrow> u32" where
  "scr_support s0 sp =
     (let a = (if s0 AND 0x400 \<noteq> 0 then sp OR 0x20000000 else sp);
          b = (if s0 AND 0x100 \<noteq> 0 then a OR 0x10000000 else a);
          c = (if s0 AND 0x2000000 \<noteq> 0 then b OR 0x80000000 else b)
      in if s0 AND 0x1000000 \<noteq> 0 then c OR 0x40000000 else c)"

definition sdReadSCR :: "'h machine \<Rightarrow> ('h sdsys, u32) act" where
  "sdReadSCR m =
     bind_act (sdWaitForData m) (\<lambda>w.
     if w \<noteq> 0 then ret SD_TIMEOUT
     else
       then_act (set_reg m EMMC_BLKSIZECNT 0x10008)
       (check_act (sdSendCommand m IX_SEND_SCR)
       (check_act (sdWaitForInterrupt m INT_READ_RDY)
       (bind_act (scr_loop m 0 100000) (\<lambda>n.
       if n \<noteq> 2 then ret SD_TIMEOUT
       else then_act (set_card (\<lambda>c. c\<lparr>support := scr_support (scr c ! 0) (support c)\<rparr>)) (ret SD_OK))))))"

subsection \<open>Clock\<close>

text \<open>\<open>unsigned long\<close> has 64 bits; \<open>r\<close> starts at 32.\<close>

definition fls_step :: "u64 \<Rightarrow> nat \<Rightarrow> u64 \<times> nat \<Rightarrow> u64 \<times> nat" where
  "fls_step hi n p = (case p of (x, r) \<Rightarrow> if x AND hi = 0 then (push_bit n x, r - n) else (x, r))"

definition fls_long :: "u64 \<Rightarrow> nat" where
  "fls_long x =
     (if x = 0 then 0
      else snd (fls_step 0x80000000 1 (fls_step 0xc0000000 2 (fls_step 0xf0000000 4
        (fls_step 0xff000000 8 (fls_step 0xffff0000 16 (x, 32)))))))"

definition roundup_pow_of_two :: "u64 \<Rightarrow> u64" where
  "roundup_pow_of_two x = push_bit (fls_long (x - 1)) 1"

definition sdGetClockDivider :: "u32 \<Rightarrow> u32 \<Rightarrow> u32" where
  "sdGetClockDivider host_ver freq =
     (let closest = 41666666 div freq;
          shift0 = fls_long (ucast (closest - 1));
          shift1 = (if 0 < shift0 then shift0 - 1 else shift0);
          shiftcount = (if 7 < shift1 then 7 else shift1);
          divisor0 = (if 1 < host_ver then closest else push_bit shiftcount 1);
          divisor = (if divisor0 \<le> 2 then 2 else divisor0);
          hi = (if 1 < host_ver then drop_bit 2 (divisor AND 0x300) else 0);
          lo = divisor AND 0xff
      in push_bit 8 lo + hi)"

definition sdSetClock :: "'h machine \<Rightarrow> u32 \<Rightarrow> ('h sdsys, u32) act" where
  "sdSetClock m freq =
     bind_act (poll_predec (bind_act (reg m EMMC_STATUS) (\<lambda>v. ret (v AND (SR_CMD_INHIBIT OR SR_DAT_INHIBIT) \<noteq> 0))) (sd_delayus m 1) 100000) (\<lambda>left.
     if left \<le> 0 then ret SD_ERROR_CLOCK
     else
       bind_act (reg m EMMC_CONTROL1) (\<lambda>c1.
       then_act (set_reg m EMMC_CONTROL1 (c1 AND NOT C1_CLK_EN))
       (then_act (sd_delayus m 10)
       (bind_act (\<lambda>s. Some (Inr (sdGetClockDivider (sdHostVer s) freq, s))) (\<lambda>cdiv.
       bind_act (reg m EMMC_CONTROL1) (\<lambda>c2.
       then_act (set_reg m EMMC_CONTROL1 ((c2 AND 0xffff003f) OR cdiv))
       (then_act (sd_delayus m 10)
       (bind_act (reg m EMMC_CONTROL1) (\<lambda>c3.
       then_act (set_reg m EMMC_CONTROL1 (c3 OR C1_CLK_EN))
       (then_act (sd_delayus m 10)
       (bind_act (poll_postdec (bind_act (reg m EMMC_CONTROL1) (\<lambda>v. ret (v AND C1_CLK_STABLE = 0))) (sd_delayus m 10) 10000) (\<lambda>left2.
       ret (if left2 \<le> 0 then SD_ERROR_CLOCK else SD_OK)))))))))))))"

subsection \<open>Initialisation\<close>

definition sdResetCard :: "'h machine \<Rightarrow> u32 \<Rightarrow> ('h sdsys, u32) act" where
  "sdResetCard m resetType =
     then_act (set_reg m EMMC_CONTROL0 0)
     (bind_act (reg m EMMC_CONTROL1) (\<lambda>c1.
     then_act (set_reg m EMMC_CONTROL1 (c1 OR resetType))
     (then_act (sd_delayus m 10)
     (bind_act (poll_postdec (bind_act (reg m EMMC_CONTROL1) (\<lambda>v. ret (v AND resetType \<noteq> 0))) (sd_delayus m 10) 10000) (\<lambda>left.
     if left \<le> 0 then ret SD_ERROR_RESET
     else
       bind_act (reg m EMMC_CONTROL1) (\<lambda>c2.
       then_act (set_reg m EMMC_CONTROL1 (c2 OR (C1_CLK_INTLEN OR C1_TOUNIT_MAX)))
       (then_act (sd_delayus m 10)
       (check_act (sdSetClock m FREQ_SETUP)
       (then_act (set_reg m EMMC_IRPT_EN (0xffffffff AND NOT INT_CMD_DONE AND NOT INT_WRITE_RDY))
       (then_act (set_reg m EMMC_IRPT_MASK 0xffffffff)
       (then_act (set_card (\<lambda>c. c\<lparr>rca := 0, ocr := 0, lastArg := 0, lastCmd := None, card_status := 0, ctype := 0, uhsi := 0\<rparr>))
         (sdSendCommand m IX_GO_IDLE_STATE))))))))))))"

text \<open>\<open>delay\<close> counts down in a register and has no effect on the state.\<close>

primrec op_cond_loop :: "'h machine \<Rightarrow> u32 \<Rightarrow> nat \<Rightarrow> ('h sdsys, u32) act" where
  "op_cond_loop m arg 0 = ret SD_OK"
| "op_cond_loop m arg (Suc n) =
     bind_act (card ocr) (\<lambda>o1.
     if o1 AND R3_COMPLETE \<noteq> 0 then ret SD_OK
     else bind_act (sdSendCommandA m IX_APP_SEND_OP_COND arg) (\<lambda>r.
       if r \<noteq> 0 \<and> r \<noteq> SD_TIMEOUT then ret r else op_cond_loop m arg n))"

definition sdAppSendOpCond :: "'h machine \<Rightarrow> u32 \<Rightarrow> ('h sdsys, u32) act" where
  "sdAppSendOpCond m arg =
     bind_act (sdSendCommandA m IX_APP_SEND_OP_COND arg) (\<lambda>r.
     if r \<noteq> 0 \<and> r \<noteq> SD_TIMEOUT then ret r
     else check_act (op_cond_loop m arg 6)
       (bind_act (card ocr) (\<lambda>o1.
       ret (if o1 AND R3_COMPLETE = 0 then SD_TIMEOUT else if o1 AND ACMD41_VOLTAGE = 0 then SD_ERROR_VOLTAGE else SD_OK))))"

definition sdSwitchVoltage :: "('h sdsys, u32) act" where
  "sdSwitchVoltage = ret SD_OK"

abbreviation GPFSEL4 :: addr where "GPFSEL4 \<equiv> MMIO_BASE + 0x200010"
abbreviation GPFSEL5 :: addr where "GPFSEL5 \<equiv> MMIO_BASE + 0x200014"
abbreviation GPEDS1 :: addr where "GPEDS1 \<equiv> MMIO_BASE + 0x200044"
abbreviation GPHEN1 :: addr where "GPHEN1 \<equiv> MMIO_BASE + 0x200068"
abbreviation GPPUDCLK1 :: addr where "GPPUDCLK1 \<equiv> MMIO_BASE + 0x20009C"

text \<open>Pulling up the pins of \<open>bits\<close>: the sequence each of the three groups of pins goes through.\<close>

definition pull_up :: "'h machine \<Rightarrow> u32 \<Rightarrow> ('h sdsys, unit) act" where
  "pull_up m bits =
     then_act (set_reg m GPPUD 2) (then_act (set_reg m GPPUDCLK1 bits) (then_act (set_reg m GPPUD 0) (set_reg m GPPUDCLK1 0)))"

definition sdInitGPIO :: "'h machine \<Rightarrow> ('h sdsys, unit) act" where
  "sdInitGPIO m =
     bind_act (reg m GPFSEL4) (\<lambda>r1.
     then_act (set_reg m GPFSEL4 (r1 AND NOT (push_bit 21 7)))
     (then_act (pull_up m (push_bit 15 1))
     (bind_act (reg m GPHEN1) (\<lambda>r2.
     then_act (set_reg m GPHEN1 (r2 OR push_bit 15 1))
     (bind_act (reg m GPFSEL4) (\<lambda>r3.
     then_act (set_reg m GPFSEL4 (r3 OR (push_bit 24 7 OR push_bit 27 7)))
     (then_act (pull_up m (push_bit 16 1 OR push_bit 17 1))
     (bind_act (reg m GPFSEL5) (\<lambda>r4.
     then_act (set_reg m GPFSEL5 (r4 OR (7 OR push_bit 3 7 OR push_bit 6 7 OR push_bit 9 7)))
       (pull_up m (push_bit 18 1 OR push_bit 19 1 OR push_bit 20 1 OR push_bit 21 1)))))))))))"

text \<open>\<open>a\<close> is the address of the buffer of the mailbox call.\<close>

definition sdGetBaseClock :: "'h machine \<Rightarrow> addr \<Rightarrow> ('h sdsys, u32) act" where
  "sdGetBaseClock m a s =
     bind_run (mbox_get_clock_rate m a (sdev s)) (\<lambda>(v, d). ret (if v = -1 then SD_ERROR else SD_OK) (s\<lparr>sdev := d, sdBaseClock := v\<rparr>))"

definition sdParseCSD :: "SDDescriptor \<Rightarrow> SDDescriptor" where
  "sdParseCSD c =
     c\<lparr>capacity :=
         (if csd c ! 0 AND 0xc00000 = 0 then
            (let csize = push_bit 10 (csd c ! 1 AND 3) + drop_bit 22 (csd c ! 2 AND 0xffc00000);
                 mult = push_bit (unat (drop_bit 7 (csd c ! 2 AND 0x380) + 2)) 1 :: u64;
                 blockSize = push_bit (unat (drop_bit 8 (csd c ! 1 AND 0xf00))) 1 :: u64
             in (ucast csize + 1) * mult * blockSize)
          else (ucast (drop_bit 8 (csd c ! 2 AND 0x3fffff00)) + 1) * 512 * 1024),
       fileFormat := csd c ! 3 AND 0xc\<rparr>"

text \<open>The arguments of the line that \<open>sdParseCID\<close> prints: type, megabytes, UHS-I, manufacturer, application, product
  name, revision, month, year, serial number and address.\<close>

definition byte_char :: "u32 \<Rightarrow> nat \<Rightarrow> char" where
  "byte_char w i = char_of (unat (drop_bit (8 * i) w AND 0xff))"

definition sdParseCID :: "SDDescriptor \<Rightarrow> va list" where
  "sdParseCID c =
     [VStr (Some ([''Unknown'', ''MMC'', ''Type 1'', ''Type 2 SC'', ''Type 2 HC''] ! unat (ctype c))),
      VInt (drop_bit 20 (capacity c)), VInt (ucast (uhsi c)), VInt (ucast (drop_bit 16 (cid c ! 0 AND 0xff0000))),
      VStr (Some (takeWhile (\<lambda>x. x \<noteq> CHR 0x00) [byte_char (cid c ! 0) 1, byte_char (cid c ! 0) 0])),
      VStr (Some (takeWhile (\<lambda>x. x \<noteq> CHR 0x00) [byte_char (cid c ! 1) 3, byte_char (cid c ! 1) 2, byte_char (cid c ! 1) 1,
        byte_char (cid c ! 1) 0, byte_char (cid c ! 2) 3])),
      VInt (ucast (drop_bit 20 (cid c ! 2 AND 0xf00000))), VInt (ucast (drop_bit 16 (cid c ! 2 AND 0xf0000))),
      VInt (ucast (cid c ! 3 AND 0xf)), VInt (ucast (drop_bit 4 (cid c ! 3 AND 0xff0)) + 2000),
      VInt (ucast (push_bit 16 (cid c ! 2 AND 0xffff) + drop_bit 16 (cid c ! 3 AND 0xffff0000))), VInt (ucast (drop_bit 16 (rca c)))]"

text \<open>The part of \<open>sdInit\<close> that identifies the card: its type, or the result to return.\<close>

definition sdIdentify :: "'h machine \<Rightarrow> ('h sdsys, u32) act" where
  "sdIdentify m =
     then_act (machine_act (disb m)) (bind_act (sdSendCommandA m IX_SEND_IF_COND 0x1AA) (\<lambda>r.
     if r = SD_OK then
       check_act (sdAppSendOpCond m ACMD41_ARG_HC)
       (then_act (set_card (\<lambda>c. c\<lparr>ctype := if ocr c AND R3_CCS \<noteq> 0 then SD_TYPE_2_HC else SD_TYPE_2_SC\<rparr>)) (ret SD_OK))
     else if r = SD_BUSY then ret r
     else
       check_act (bind_act (reg m EMMC_STATUS) (\<lambda>v. if v AND SR_CMD_INHIBIT \<noteq> 0 then sdResetCard m C1_SRST_HC else ret SD_OK))
       (check_act (sdAppSendOpCond m ACMD41_ARG_SC)
       (then_act (set_card (\<lambda>c. c\<lparr>ctype := SD_TYPE_1\<rparr>)) (ret SD_OK)))))"

text \<open>\<open>old\<close> is what the array \<open>oldCID\<close> holds where the code does not set it. The card is never found absent.\<close>

definition sdInit :: "'h machine \<Rightarrow> addr \<Rightarrow> u32 list \<Rightarrow> ('h sdsys, u32) act" where
  "sdInit m mbox old =
     bind_act (card card_init) (\<lambda>ini.
     then_act (when_act (\<not> ini) (sdInitGPIO m))
     (bind_act (reg m GPEDS1) (\<lambda>ev.
     then_act (set_card (\<lambda>c. c\<lparr>card_absent := False\<rparr>))
     (bind_act (card cid) (\<lambda>oc.
     let ejected = ev AND push_bit 15 1 \<noteq> 0; oldCID = (if ejected \<and> ini then oc else if \<not> ini then replicate 4 0 else old) in
     then_act (when_act (ejected \<and> ini) (set_card (\<lambda>c. c\<lparr>card_init := False\<rparr>)))
     (bind_act (card card_init) (\<lambda>ini2.
     if ini2 then ret SD_OK
     else
       bind_act (reg m EMMC_SLOTISR_VER) (\<lambda>v.
       then_act (\<lambda>s. Some (Inr ((), s\<lparr>sdHostVer := drop_bit 16 (v AND 0xff0000)\<rparr>)))
       (check_act (sdGetBaseClock m mbox)
       (check_act (sdResetCard m C1_SRST_HC)
       (check_act (sdIdentify m)
       (bind_act (card ocr) (\<lambda>o1.
       check_act (if o1 AND R3_S18A \<noteq> 0 then sdSwitchVoltage else ret SD_OK)
       (check_act (sdSendCommand m IX_ALL_SEND_CID)
       (check_act (sdSendCommand m IX_SEND_REL_ADDR)
       (check_act (sdSendCommand m IX_SEND_CSD)
       (then_act (set_card sdParseCSD)
       (bind_act (card fileFormat) (\<lambda>ff.
       if ff \<noteq> 4 \<and> ff \<noteq> 0 then ret SD_ERROR
       else
         check_act (sdSetClock m FREQ_NORMAL)
         (check_act (sdSendCommand m IX_CARD_SELECT)
         (check_act (sdReadSCR m)
         (bind_act (card (\<lambda>c. (support c, rca c))) (\<lambda>(sp, a).
         check_act
           (if sp AND 0x20000000 \<noteq> 0 then
              check_act (sdSendCommandA m IX_SET_BUS_WIDTH (a OR 2))
              (bind_act (reg m EMMC_CONTROL0) (\<lambda>c0. then_act (set_reg m EMMC_CONTROL0 (c0 OR C0_HCTL_DWITDH)) (ret SD_OK)))
            else ret SD_OK)
         (check_act (sdSendCommandA m IX_SET_BLOCKLEN 512)
         (then_act (set_card (\<lambda>c. c\<lparr>card_init := True\<rparr>))
         (bind_act (card cid) (\<lambda>nc. ret (if oldCID = nc then SD_CARD_REINSERTED else SD_CARD_CHANGED))))))))))))))))))))))))))))"

subsection \<open>Transfers\<close>

text \<open>The data of a buffer is at offset 24 of the structure.\<close>

definition upd_buf :: "'h sdsys \<Rightarrow> addr \<Rightarrow> (buf \<Rightarrow> buf) \<Rightarrow> 'h sdsys" where
  "upd_buf s b f = s\<lparr>squeue := (squeue s)\<lparr>bufs := (bufs (squeue s))(b := f (bufs (squeue s) b))\<rparr>\<rparr>"

definition buf_act :: "addr \<Rightarrow> (buf \<Rightarrow> 'a) \<Rightarrow> ('h sdsys, 'a) act" where
  "buf_act b f s = (if b = NULL then Some (Inl (Fault ''buf'')) else Some (Inr (f (bufs (squeue s) b), s)))"

definition set_buf :: "addr \<Rightarrow> (buf \<Rightarrow> buf) \<Rightarrow> ('h sdsys, unit) act" where
  "set_buf b f s = Some (Inr ((), upd_buf s b f))"

definition assert_act :: "bool \<Rightarrow> string \<Rightarrow> ('s, 'a) act \<Rightarrow> ('s, 'a) act" where
  "assert_act P msg f = (if P then f else fails (Panic msg))"

primrec put_words :: "'h machine \<Rightarrow> u32 list \<Rightarrow> ('h sdsys, unit) act" where
  "put_words m [] = ret ()"
| "put_words m (w # ws) = then_act (set_reg m EMMC_DATA w) (put_words m ws)"

primrec get_words :: "'h machine \<Rightarrow> nat \<Rightarrow> ('h sdsys, u32 list) act" where
  "get_words m 0 = ret []"
| "get_words m (Suc n) = bind_act (reg m EMMC_DATA) (\<lambda>w. bind_act (get_words m n) (\<lambda>ws. ret (w # ws)))"

primrec u32_words :: "nat \<Rightarrow> u8 list \<Rightarrow> u32 list" where
  "u32_words 0 bs = []"
| "u32_words (Suc n) bs = le_word (take 4 bs) # u32_words n (drop 4 bs)"

definition bytes_of_words :: "u32 list \<Rightarrow> u8 list" where
  "bytes_of_words ws = concat (map (le_bytes 4) ws)"

definition sd_doit :: "'h machine \<Rightarrow> addr \<Rightarrow> ('h sdsys, unit) act" where
  "sd_doit m b =
     bind_act (buf_act b (\<lambda>x. bflags x AND B_DIRTY \<noteq> 0)) (\<lambda>wr.
     assert_act ((b + 24) AND 3 = 0) ''Only support word-aligned buffers. ''
     (if wr then
        bind_act (sdWaitForInterrupt m INT_WRITE_RDY) (\<lambda>r.
        assert_act (r = 0) ''* EMMC ERROR: Timeout waiting for ready to write''
        (bind_act (reg m EMMC_INTERRUPT) (\<lambda>i.
        assert_act (i = 0) ''!*EMMC_INTERRUPT''
        (bind_act (buf_act b bdata) (\<lambda>d. put_words m (u32_words 128 d))))))
      else
        bind_act (sdWaitForInterrupt m INT_READ_RDY) (\<lambda>r.
        assert_act (r = 0) ''* EMMC ERROR: Timeout waiting for ready to read''
        (bind_act (reg m EMMC_INTERRUPT) (\<lambda>i.
        assert_act (i = 0) ''!*EMMC_INTERRUPT''
        (bind_act (get_words m 128) (\<lambda>ws. set_buf b (\<lambda>x. x\<lparr>bdata := bytes_of_words ws\<rparr>))))))))"

definition sd_start :: "'h machine \<Rightarrow> addr \<Rightarrow> bool \<Rightarrow> ('h sdsys, unit) act" where
  "sd_start m b transfer =
     bind_act (buf_act b (\<lambda>x. x)) (\<lambda>x.
     bind_act (card ctype) (\<lambda>ty.
     let bno = (if ty = SD_TYPE_2_HC then blockno x else push_bit 9 (blockno x)) in
     then_act (machine_act (disb m))
     (assert_act (bflags x AND B_VALID = 0) ''valid buf should not be here.''
     (bind_act (reg m EMMC_INTERRUPT) (\<lambda>i.
     assert_act (i = 0) ''emmc interrupt flag should be empty''
     (then_act (machine_act (disb m))
     (then_act (set_reg m EMMC_BLKSIZECNT 512)
     (bind_act (sdSendCommandA m (if bflags x AND B_DIRTY \<noteq> 0 then IX_WRITE_SINGLE else IX_READ_SINGLE) bno) (\<lambda>r.
     assert_act (r = 0) ''* EMMC send command error.''
     (assert_act ((b + 24) AND 3 = 0) ''Only support word-aligned buffers. ''
     (when_act transfer (sd_doit m b))))))))))))"

definition sd_waitdone :: "'h machine \<Rightarrow> addr \<Rightarrow> ('h sdsys, unit) act" where
  "sd_waitdone m b =
     bind_act (sdWaitForInterrupt m INT_DATA_DONE) (\<lambda>r.
     assert_act (r = 0) ''* EMMC ERROR: Timeout waiting for ready to read''
     (then_act (set_buf b (\<lambda>x. x\<lparr>bflags := B_VALID\<rparr>))
     (\<lambda>s. case wakeup (skern s) b of None \<Rightarrow> None | Some ks \<Rightarrow> Some (Inr ((), s\<lparr>skern := ks\<rparr>)))))"

definition queue_act :: "(bufq \<Rightarrow> ('a \<times> bufq) res) \<Rightarrow> ('h sdsys, 'a) act" where
  "queue_act f s = bind_run (Some (f (squeue s))) (\<lambda>(x, q). Some (Inr (x, s\<lparr>squeue := q\<rparr>)))"

definition lock_sd :: "nat \<Rightarrow> ('h sdsys, unit) act" where
  "lock_sd k s = Some (bind_res (acquire_spinlock k (sdlock s)) (\<lambda>l. Inr ((), s\<lparr>sdlock := l\<rparr>)))"

definition unlock_sd :: "nat \<Rightarrow> ('h sdsys, unit) act" where
  "unlock_sd k s = Some (bind_res (release_spinlock k (sdlock s)) (\<lambda>l. Inr ((), s\<lparr>sdlock := l\<rparr>)))"

text \<open>The requests that follow the one that was in progress.\<close>

partial_function (option) intr_loop :: "'h machine \<Rightarrow> nat \<Rightarrow> addr \<Rightarrow> 'h sdsys \<Rightarrow> (unit \<times> 'h sdsys) res option" where
  "intr_loop m k b s =
     (if b = NULL then Some (Inr ((), s))
      else case then_act (sd_start m b True) (then_act (sd_waitdone m b) (queue_act (fetch_task k))) s of
        None \<Rightarrow> None
      | Some (Inl e) \<Rightarrow> Some (Inl e)
      | Some (Inr (b', s')) \<Rightarrow> intr_loop m k b' s')"

text \<open>\<open>sd_intr\<close> and \<open>sdrw\<close> end by giving up the CPU; \<open>sdrw_resume\<close> is the rest of \<open>sdrw\<close> once its process runs again.\<close>

definition sd_intr :: "'h machine \<Rightarrow> nat \<Rightarrow> ('h sdsys, switch) act" where
  "sd_intr m k =
     then_act (machine_act (disb m))
     (then_act (lock_sd k)
     (then_act (machine_act (disb m))
     (bind_act (queue_act (fetch_task k)) (\<lambda>b.
     bind_act (buf_act b bflags) (\<lambda>fl.
     assert_act (fl \<noteq> B_VALID) ''b->flags != B_VALID''
     (then_act (when_act (fl = 0) (sd_doit m b))
     (then_act (sd_waitdone m b)
     (then_act (machine_act (disb m))
     (bind_act (queue_act (fetch_task k)) (\<lambda>b2.
     then_act (intr_loop m k b2)
     (bind_act (reg m EMMC_INTERRUPT) (\<lambda>i.
     assert_act (i = 0) ''[sd_intr] Interrupt should zero''
     (then_act (machine_act (disb m))
     (then_act (unlock_sd k)
     (\<lambda>s. bind_run (Some (yield k (skern s))) (\<lambda>(ks, sw). Some (Inr (sw, s\<lparr>skern := ks\<rparr>))))))))))))))))))"

text \<open>A request is queued, with the result whether the caller has to wait for it; then, with \<open>sdlock\<close> free again, the caller goes to sleep.\<close>

definition sdrw_queue :: "'h machine \<Rightarrow> nat \<Rightarrow> addr \<Rightarrow> ('h sdsys, bool) act" where
  "sdrw_queue m k b =
     bind_act (reg m EMMC_INTERRUPT) (\<lambda>i.
     assert_act (i = 0) ''emmc interrupt flag should be empty''
     (bind_act (buf_act b bflags) (\<lambda>fl.
     if fl = B_VALID then ret False
     else
       then_act (machine_act (disb m))
       (then_act (lock_sd k)
       (then_act (machine_act (disb m))
       (bind_act (queue_act (try_fetch_task k)) (\<lambda>h.
       then_act (when_act (h = NULL) (sd_start m b (fl \<noteq> 0)))
       (then_act (queue_act (\<lambda>q. bind_res (add_task k b q) (\<lambda>q1. Inr ((), q1))))
       (then_act (machine_act (disb m))
       (then_act (unlock_sd k)
       (then_act (machine_act (disb m)) (ret True))))))))))))"

definition sdrw_sleep :: "nat \<Rightarrow> addr \<Rightarrow> ('h sdsys, switch option) act" where
  "sdrw_sleep k b s = bind_run (Some (sleep k (skern s) b None)) (\<lambda>(ks, _, sw). Some (Inr (Some sw, s\<lparr>skern := ks\<rparr>)))"

definition sdrw :: "'h machine \<Rightarrow> nat \<Rightarrow> addr \<Rightarrow> ('h sdsys, switch option) act" where
  "sdrw m k b = bind_act (sdrw_queue m k b) (\<lambda>wait. if wait then sdrw_sleep k b else ret None)"

definition sdrw_resume :: "addr \<Rightarrow> ('h sdsys, unit) act" where
  "sdrw_resume b =
     bind_act (buf_act b bflags) (\<lambda>fl. assert_act (fl AND B_VALID \<noteq> 0) ''flag should be valid after being waken.'' (ret ()))"

text \<open>\<open>mbr\<close> is the address of the buffer on the stack. The first partition entries are read from its data.\<close>

definition dev_act :: "('h kdev \<Rightarrow> 'h kdev) \<Rightarrow> ('h sdsys, unit) act" where
  "dev_act f s = Some (Inr ((), s\<lparr>sdev := f (sdev s)\<rparr>))"

definition sd_init :: "'h machine \<Rightarrow> addr \<Rightarrow> u32 list \<Rightarrow> addr \<Rightarrow> ('h sdsys, u32 \<times> u32) act" where
  "sd_init m mbox old mbr =
     then_act (sdInit m mbox old)
     (then_act (queue_act (\<lambda>q. Inr ((), init_sdbuf q)))
     (then_act (\<lambda>s. Some (Inr ((), s\<lparr>sdlock := init_spinlock (sdlock s) ''sdlock''\<rparr>)))
     (then_act (dev_act (set_interrupt_handler m IRQ_SDIO sd_intr_handler))
     (then_act (dev_act (set_interrupt_handler m IRQ_ARASANSDIO sd_intr_handler))
     (then_act (set_buf mbr (\<lambda>x. x\<lparr>bflags := 0, blockno := 0\<rparr>))
     (then_act (sd_start m mbr True)
     (then_act (sd_waitdone m mbr)
     (buf_act mbr (\<lambda>x. (le_word (take 4 (drop 0x1d6 (bdata x))), le_word (take 4 (drop 0x1da (bdata x)))))))))))))"

end
