(* ===== verification/KSdClock.thy ===== *)
theory KSdClock
  imports KSd
begin

text \<open>
  The clock computations of \<open>src/driver/sd.c\<close>: the position of the highest bit, rounding up to a power of two, and the
  divider of the EMMC clock, which must stay in its field of the control register.\<close>

lemma and_high_bits:
  assumes "unat z < 2 ^ 32" "k \<le> 32" "hi = push_bit k (mask (32 - k))"
  shows "(z :: u64) AND hi = 0 \<longleftrightarrow> unat z < 2 ^ k"
proof -
  have top: "\<not> bit z i" if "32 \<le> i" for i
  proof -
    have "take_bit 32 (unat z) = unat z" using assms(1) by (simp add: take_bit_nat_eq_self)
    then have "\<not> bit (unat z) i" using that by (metis bit_take_bit_iff linorder_not_le)
    then show ?thesis by (simp add: bit_unsigned_iff)
  qed
  have low: "unat z < 2 ^ k \<longleftrightarrow> (\<forall>i\<ge>k. \<not> bit z i)"
  proof
    assume "unat z < 2 ^ k"
    then have "take_bit k (unat z) = unat z" by (simp add: take_bit_nat_eq_self)
    then have "\<not> bit (unat z) i" if "k \<le> i" for i using that by (metis bit_take_bit_iff linorder_not_le)
    then show "\<forall>i\<ge>k. \<not> bit z i" by (simp add: bit_unsigned_iff)
  next
    assume "\<forall>i\<ge>k. \<not> bit z i"
    then have "take_bit k z = z" by (intro bit_eqI) (auto simp: bit_take_bit_iff not_le)
    then have "unat z = take_bit k (unat z)" by (metis unsigned_take_bit_eq)
    then show "unat z < 2 ^ k" by (metis take_bit_nat_less_exp)
  qed
  have "z AND hi = 0 \<longleftrightarrow> (\<forall>i\<ge>k. \<not> bit z i)"
  proof
    assume a: "z AND hi = 0"
    show "\<forall>i\<ge>k. \<not> bit z i"
    proof (intro allI impI notI)
      fix i assume i: "k \<le> i" "bit z i"
      then have "i < 32" using top by (meson not_le)
      with i assms(2) have "bit (z AND hi) i" by (simp add: assms(3) bit_simps diff_less_mono)
      with a show False by simp
    qed
  next
    assume "\<forall>i\<ge>k. \<not> bit z i"
    then show "z AND hi = 0" by (intro bit_eqI) (auto simp: assms(3) bit_simps)
  qed
  with low show ?thesis by simp
qed

text \<open>The state of \<open>fls_long\<close> for the argument \<open>X\<close>: the value shifted left by \<open>32 - r\<close>, at least \<open>2 ^ l\<close>.\<close>

definition fls_inv :: "nat \<Rightarrow> nat \<Rightarrow> u64 \<times> nat \<Rightarrow> bool" where
  "fls_inv X l p \<longleftrightarrow> snd p \<le> 32 \<and> unat (fst p) = X * 2 ^ (32 - snd p) \<and> 2 ^ l \<le> unat (fst p) \<and> unat (fst p) < 2 ^ 32"

lemma fls_step_inv:
  assumes inv: "fls_inv X (32 - 2 * n) p" and X: "0 < X" and n: "0 < n" "2 * n \<le> 32" and hi: "hi = push_bit (32 - n) (mask n)"
  shows "fls_inv X (32 - n) (fls_step hi n p)"
proof -
  obtain x r where p: "p = (x, r)" by (cases p)
  have i: "r \<le> 32" "unat x = X * 2 ^ (32 - r)" "2 ^ (32 - 2 * n) \<le> unat x" "unat x < 2 ^ 32" using inv by (simp_all add: fls_inv_def p)
  have test: "x AND hi = 0 \<longleftrightarrow> unat x < 2 ^ (32 - n)" by (rule and_high_bits [OF i(4)]) (use n hi in simp_all)
  show ?thesis
  proof (cases "unat x < 2 ^ (32 - n)")
    case True
    have r: "n < r"
    proof (rule ccontr)
      assume "\<not> n < r"
      then have "(2 :: nat) ^ (32 - n) \<le> 2 ^ (32 - r)" by (intro power_increasing) auto
      also have "\<dots> \<le> unat x" using i(2) X by simp
      finally show False using True by simp
    qed
    have lt: "unat x * 2 ^ n < 2 ^ 32"
    proof -
      have "unat x * 2 ^ n < 2 ^ (32 - n) * 2 ^ n" using True by simp
      also have "\<dots> = 2 ^ 32" using n by (simp flip: power_add)
      finally show ?thesis .
    qed
    have "unat (push_bit n x) = take_bit 64 (push_bit n (unat x))" by (simp add: unsigned_push_bit_eq)
    then have sh: "unat (push_bit n x) = unat x * 2 ^ n"
      using lt by (simp add: push_bit_nat_def take_bit_nat_eq_self)
    have "(2 :: nat) ^ (32 - n) = 2 ^ (32 - 2 * n) * 2 ^ n" using n by (simp flip: power_add)
    also have "\<dots> \<le> unat x * 2 ^ n" using i(3) by simp
    finally have low: "2 ^ (32 - n) \<le> unat x * 2 ^ n" .
    have "X * 2 ^ (32 - r) * 2 ^ n = X * 2 ^ (32 - (r - n))" using i(1) r by (simp flip: power_add)
    then have "unat (push_bit n x) = X * 2 ^ (32 - (r - n))" using sh i(2) by simp
    then show ?thesis using True test lt low sh i(1) by (simp add: fls_inv_def fls_step_def p le_diff_conv)
  next
    case False
    then show ?thesis using test i by (simp add: fls_inv_def fls_step_def p)
  qed
qed

lemma fls_long_spec:
  assumes "x \<noteq> 0" "unat x < 2 ^ 32"
  shows "2 ^ (fls_long x - 1) \<le> unat x" "unat x < 2 ^ fls_long x" "0 < fls_long x" "fls_long x \<le> 32"
proof -
  have X: "0 < unat x" using assms(1) by (simp add: unat_gt_0)
  have "fls_inv (unat x) 0 (x, 32)" using assms(2) X by (simp add: fls_inv_def)
  then have "fls_inv (unat x) (32 - 2 * 16) (x, 32)" by simp
  from fls_step_inv [OF this X, of "0xffff0000"] have "fls_inv (unat x) (32 - 2 * 8) (fls_step 0xffff0000 16 (x, 32))"
    by (simp add: mask_eq_exp_minus_1)
  from fls_step_inv [OF this X, of "0xff000000"] have "fls_inv (unat x) (32 - 2 * 4) (fls_step 0xff000000 8 (fls_step 0xffff0000 16 (x, 32)))"
    by (simp add: mask_eq_exp_minus_1)
  from fls_step_inv [OF this X, of "0xf0000000"] have "fls_inv (unat x) (32 - 2 * 2) (fls_step 0xf0000000 4 (fls_step 0xff000000 8 (fls_step 0xffff0000 16 (x, 32))))"
    by (simp add: mask_eq_exp_minus_1)
  from fls_step_inv [OF this X, of "0xc0000000"] have "fls_inv (unat x) (32 - 2 * 1) (fls_step 0xc0000000 2 (fls_step 0xf0000000 4 (fls_step 0xff000000 8 (fls_step 0xffff0000 16 (x, 32)))))"
    by (simp add: mask_eq_exp_minus_1)
  from fls_step_inv [OF this X, of "0x80000000"] have f: "fls_inv (unat x) 31 (fls_step 0x80000000 1 (fls_step 0xc0000000 2 (fls_step 0xf0000000 4 (fls_step 0xff000000 8 (fls_step 0xffff0000 16 (x, 32))))))"
    by (simp add: mask_eq_exp_minus_1)
  let ?r = "fls_long x"
  from f have r: "?r \<le> 32" "2 ^ 31 \<le> unat x * 2 ^ (32 - ?r)" "unat x * 2 ^ (32 - ?r) < 2 ^ 32"
    using assms(1) by (simp_all add: fls_inv_def fls_long_def)
  show pos: "0 < ?r" using r(3) X by (cases ?r) auto
  have e: "(2 :: nat) ^ 31 = 2 ^ (?r - 1) * 2 ^ (32 - ?r)" "(2 :: nat) ^ 32 = 2 ^ ?r * 2 ^ (32 - ?r)"
    using pos r(1) by (simp_all flip: power_add)
  show "2 ^ (?r - 1) \<le> unat x" using r(2) unfolding e(1) by simp
  show "unat x < 2 ^ ?r" using r(3) unfolding e(2) by simp
  show "?r \<le> 32" by (rule r(1))
qed


lemma roundup_spec:
  assumes "1 \<le> unat x" "unat x \<le> 2 ^ 32"
  shows "\<exists>k\<le>32. unat (roundup_pow_of_two x) = 2 ^ k \<and> unat x \<le> 2 ^ k \<and> 2 ^ k < 2 * unat x"
proof -
  let ?f = "fls_long (x - 1)"
  have x1: "unat (x - 1) = unat x - 1" using assms(1) by (simp add: unat_sub word_le_nat_alt)
  have up: "unat (push_bit k (1 :: u64)) = 2 ^ k" if "k \<le> 32" for k
  proof -
    have "(2 :: nat) ^ k \<le> 2 ^ 32" using that by (intro power_increasing) auto
    then have "unat (of_nat (2 ^ k) :: u64) = 2 ^ k" by (intro unat_of_nat_u64) simp
    then show ?thesis by (simp add: push_bit_eq_mult)
  qed
  show ?thesis
  proof (cases "x - 1 = 0")
    case True
    then have "?f = 0" by (simp add: fls_long_def)
    moreover have "unat x = 1" using x1 True assms(1) by simp
    ultimately show ?thesis using up [of 0] by (intro exI [of _ 0]) (simp add: roundup_pow_of_two_def)
  next
    case False
    have "unat (x - 1) < 2 ^ 32" using x1 assms by simp
    note f = fls_long_spec [OF False this]
    have "(2 :: nat) ^ ?f = 2 * 2 ^ (?f - 1)" using f(3) by (cases ?f) auto
    then have "unat x \<le> 2 ^ ?f" "2 ^ ?f < 2 * unat x" using f(1,2) x1 assms(1) by linarith+
    then show ?thesis using f(4) up [OF f(4)] by (intro exI [of _ ?f]) (simp add: roundup_pow_of_two_def)
  qed
qed

text \<open>C36: for arguments up to \<open>2 ^ 32\<close> the highest set bit is found exactly and rounding up gives the least power of two that is
  not smaller, although the argument has 64 bits: just above, at \<open>2 ^ 33\<close>, the result is too small. The
  divider of the clock stays within bits 6 to 15 for every host version and frequency, so that setting it leaves
  the other fields of the control register as they are.\<close>

theorem clock_bounds:
  shows "(x \<noteq> 0 \<and> unat x < 2 ^ 32 \<longrightarrow> 2 ^ (fls_long x - 1) \<le> unat x \<and> unat x < 2 ^ fls_long x \<and> fls_long x \<le> 32) \<and>
    (1 \<le> unat y \<and> unat y \<le> 2 ^ 32 \<longrightarrow>
       (\<exists>k\<le>32. unat (roundup_pow_of_two y) = 2 ^ k \<and> unat y \<le> 2 ^ k \<and> 2 ^ k < 2 * unat y)) \<and>
    roundup_pow_of_two (2 ^ 33) = 2 ^ 32 \<and>
    sdGetClockDivider ver freq AND 0xffff003f = 0"
proof (intro conjI impI)
  assume "x \<noteq> 0 \<and> unat x < 2 ^ 32"
  then show "2 ^ (fls_long x - 1) \<le> unat x" "unat x < 2 ^ fls_long x" "fls_long x \<le> 32" using fls_long_spec by blast+
next
  assume "1 \<le> unat y \<and> unat y \<le> 2 ^ 32"
  then show "\<exists>k\<le>32. unat (roundup_pow_of_two y) = 2 ^ k \<and> unat y \<le> 2 ^ k \<and> 2 ^ k < 2 * unat y" using roundup_spec by blast
next
  show "roundup_pow_of_two (2 ^ 33) = 2 ^ 32" by (simp add: roundup_pow_of_two_def fls_long_def fls_step_def)
next
  have lo: "push_bit 8 (d AND 0xff) AND 0xffff003f = 0" for d :: u32
  proof -
    have "push_bit 8 (d AND 0xff) = push_bit 8 d AND 0xff00" by (simp add: push_bit_and)
    then show ?thesis by (simp add: and.assoc)
  qed
  have hi: "drop_bit 2 (d AND 0x300) AND 0xffff003f = 0" for d :: u32 by (simp add: drop_bit_and and.assoc)
  have dis: "push_bit 8 (d AND 0xff) AND drop_bit 2 (d AND 0x300) = 0" for d :: u32
  proof -
    have "(a AND 0xff00) AND (b AND 0xc0) = (a AND b) AND (0xff00 AND 0xc0)" for a b :: u32 by (simp only: ac_simps)
    then show ?thesis by (simp add: push_bit_and drop_bit_and)
  qed
  have sum: "(push_bit 8 (d AND 0xff) + drop_bit 2 (d AND 0x300)) AND 0xffff003f = 0" for d :: u32
    unfolding disjunctive_add_eq_or [OF dis] bit.conj_disj_distrib2 using lo [of d] hi [of d] by (simp only: or.right_neutral)
  show "sdGetClockDivider ver freq AND 0xffff003f = 0"
    using lo sum by (simp add: sdGetClockDivider_def Let_def)
qed

theorem clock_bounds_witness:
  "2 ^ (fls_long 103 - 1) \<le> unat (103 :: u64) \<and> unat (103 :: u64) < 2 ^ fls_long 103 \<and> sdGetClockDivider 1 400000 AND 0xffff003f = 0"
  using clock_bounds [of 103 1 1 400000] by simp

end
