(* ===== verification/KSdSpec.thy ===== *)
theory KSdSpec
  imports KSd
begin

text \<open>
  Block transfers of the SD driver against the documented behaviour of the controller and a card in transfer state:
  interrupt flags are cleared by writing ones, a single-block command raises \<open>CMD_DONE\<close> and the ready flag after
  some time, the data register then delivers or takes the 128 words of the block, and \<open>DATA_DONE\<close> follows
  the last one; the status it returns is that of a card ready for data in transfer state. \<open>emmc\<close> is the state a driver can rely on; \<open>drives\<close> says that a machine behaves like it.\<close>

record emmc =
  eirq :: u32
  epend :: u32
  ewait :: nat
  earg :: u32
  efifo :: "u32 list"
  ewbuf :: "u32 list"
  estore :: "u32 \<Rightarrow> u32 list"

text \<open>The flags in \<open>epend\<close> show up after \<open>ewait\<close> further readings of the interrupt register.\<close>

definition tick :: "emmc \<Rightarrow> emmc" where
  "tick e = (if ewait e = 0 then e\<lparr>eirq := eirq e OR epend e, epend := 0\<rparr> else e\<lparr>ewait := ewait e - 1\<rparr>)"

definition raises :: "nat \<Rightarrow> u32 \<Rightarrow> emmc \<Rightarrow> emmc" where
  "raises L flags e = e\<lparr>epend := flags, ewait := L\<rparr>"

definition take_word :: "nat \<Rightarrow> emmc \<Rightarrow> emmc" where
  "take_word L e = (let e1 = e\<lparr>efifo := tl (efifo e)\<rparr> in if efifo e1 = [] then raises L INT_DATA_DONE e1 else e1)"

definition give_word :: "nat \<Rightarrow> u32 \<Rightarrow> emmc \<Rightarrow> emmc" where
  "give_word L w e =
     (let e1 = e\<lparr>ewbuf := ewbuf e @ [w]\<rparr> in
      if length (ewbuf e1) = 128 then raises L INT_DATA_DONE (e1\<lparr>estore := (estore e)(earg e := ewbuf e1)\<rparr>) else e1)"

definition do_command :: "nat \<Rightarrow> u32 \<Rightarrow> emmc \<Rightarrow> emmc" where
  "do_command L code e =
     (if code = ccode (sdCommandTable ! IX_READ_SINGLE) then raises L (INT_CMD_DONE OR INT_READ_RDY) (e\<lparr>efifo := estore e (earg e)\<rparr>)
      else if code = ccode (sdCommandTable ! IX_WRITE_SINGLE) then raises L (INT_CMD_DONE OR INT_WRITE_RDY) (e\<lparr>ewbuf := []\<rparr>)
      else e)"

definition drives :: "'h machine \<Rightarrow> ('h \<Rightarrow> emmc) \<Rightarrow> ('h \<Rightarrow> u64) \<Rightarrow> nat \<Rightarrow> bool" where
  "drives m \<alpha> c L \<longleftrightarrow>
     (\<forall>h. fst (mread m EMMC_INTERRUPT h) = eirq (tick (\<alpha> h)) \<and> \<alpha> (snd (mread m EMMC_INTERRUPT h)) = tick (\<alpha> h)) \<and>
     (\<forall>h. fst (mread m EMMC_STATUS h) AND SR_CMD_INHIBIT = 0 \<and> \<alpha> (snd (mread m EMMC_STATUS h)) = \<alpha> h) \<and>
     (\<forall>h. fst (mread m EMMC_RESP0 h) = 0x900 \<and> \<alpha> (snd (mread m EMMC_RESP0 h)) = \<alpha> h) \<and>
     (\<forall>h. efifo (\<alpha> h) \<noteq> [] \<longrightarrow> fst (mread m EMMC_DATA h) = hd (efifo (\<alpha> h)) \<and> \<alpha> (snd (mread m EMMC_DATA h)) = take_word L (\<alpha> h)) \<and>
     (\<forall>h v. \<alpha> (mwrite m EMMC_INTERRUPT v h) = (\<alpha> h)\<lparr>eirq := eirq (\<alpha> h) AND NOT v\<rparr>) \<and>
     (\<forall>h v. \<alpha> (mwrite m EMMC_ARG1 v h) = (\<alpha> h)\<lparr>earg := v\<rparr>) \<and>
     (\<forall>h v. \<alpha> (mwrite m EMMC_CMDTM v h) = do_command L v (\<alpha> h)) \<and>
     (\<forall>h v. \<alpha> (mwrite m EMMC_DATA v h) = give_word L v (\<alpha> h)) \<and>
     (\<forall>h v. \<alpha> (mwrite m EMMC_BLKSIZECNT v h) = \<alpha> h) \<and>
     (\<forall>h r. \<alpha> (snd (sys_read m r h)) = \<alpha> h) \<and> (\<forall>h i. \<alpha> (exec_insn m i h) = \<alpha> h) \<and> counts m c"

subsection \<open>Reasoning about actions\<close>

text \<open>The driver in state \<open>s0\<close>, up to the hardware, which looks like \<open>e\<close>.\<close>

definition hwset :: "'h sdsys \<Rightarrow> 'h \<Rightarrow> 'h sdsys" where
  "hwset s h = s\<lparr>sdev := (sdev s)\<lparr>hw := h\<rparr>\<rparr>"

definition looks :: "('h \<Rightarrow> emmc) \<Rightarrow> 'h sdsys \<Rightarrow> emmc \<Rightarrow> 'h sdsys \<Rightarrow> bool" where
  "looks \<alpha> s0 e s \<longleftrightarrow> (\<exists>h. s = hwset s0 h \<and> \<alpha> h = e)"

definition does :: "('h \<Rightarrow> emmc) \<Rightarrow> ('h sdsys, 'a) act \<Rightarrow> 'h sdsys \<Rightarrow> emmc \<Rightarrow> 'a \<Rightarrow> 'h sdsys \<Rightarrow> emmc \<Rightarrow> bool" where
  "does \<alpha> f s0 e x s1 e1 \<longleftrightarrow> (\<forall>s. looks \<alpha> s0 e s \<longrightarrow> (\<exists>s'. f s = Some (Inr (x, s')) \<and> looks \<alpha> s1 e1 s'))"

lemma hwset_simps [simp]:
  "hwset (hwset s h) h' = hwset s h'" "sdCard (hwset s h) = sdCard s" "squeue (hwset s h) = squeue s" "skern (hwset s h) = skern s"
  "hw (sdev (hwset s h)) = h" "(hwset s h)\<lparr>sdCard := c\<rparr> = hwset (s\<lparr>sdCard := c\<rparr>) h" "(hwset s h)\<lparr>squeue := q\<rparr> = hwset (s\<lparr>squeue := q\<rparr>) h"
  "(hwset s h)\<lparr>skern := k\<rparr> = hwset (s\<lparr>skern := k\<rparr>) h" "sdlock (hwset s h) = sdlock s"
  by (simp_all add: hwset_def)

lemma looks_self: "looks \<alpha> s (\<alpha> (hw (sdev s))) s"
  unfolding looks_def by (intro exI [of _ "hw (sdev s)"]) (simp add: hwset_def)

lemma does_ret: "does \<alpha> (ret x) s e x s e"
  by (simp add: does_def ret_def)

lemma does_bind: "does \<alpha> f s e x s1 e1 \<Longrightarrow> does \<alpha> (g x) s1 e1 y s2 e2 \<Longrightarrow> does \<alpha> (bind_act f g) s e y s2 e2"
  by (fastforce simp: does_def bind_act_def)

lemma does_then: "does \<alpha> f s e x s1 e1 \<Longrightarrow> does \<alpha> g s1 e1 y s2 e2 \<Longrightarrow> does \<alpha> (then_act f g) s e y s2 e2"
  unfolding then_act_def by (rule does_bind)

lemma does_check: "does \<alpha> f s e 0 s1 e1 \<Longrightarrow> does \<alpha> g s1 e1 y s2 e2 \<Longrightarrow> does \<alpha> (check_act f g) s e y s2 e2"
  unfolding check_act_def by (erule does_bind) simp

lemma does_assert: "P \<Longrightarrow> does \<alpha> f s e x s1 e1 \<Longrightarrow> does \<alpha> (assert_act P msg f) s e x s1 e1"
  by (simp add: assert_act_def)

lemma does_state:
  "(\<And>h. f (hwset s h) = Some (Inr (x, hwset s1 h))) \<Longrightarrow> does \<alpha> f s e x s1 e"
  by (auto simp: does_def looks_def)

lemma does_read:
  assumes "\<And>h. \<alpha> h = e \<Longrightarrow> fst (mread m a h) = v \<and> \<alpha> (snd (mread m a h)) = e1"
  shows "does \<alpha> (reg m a) s e v s e1"
proof -
  have "reg m a (hwset s h) = Some (Inr (fst (mread m a h), hwset s (snd (mread m a h))))" for h
    by (simp add: reg_def dev_get_def device_get_u32_def hwset_def split: prod.split)
  then show ?thesis using assms by (auto simp: does_def looks_def)
qed

lemma does_write:
  assumes "\<And>h. \<alpha> h = e \<Longrightarrow> \<alpha> (mwrite m a v h) = e1"
  shows "does \<alpha> (set_reg m a v) s e () s e1"
proof -
  have "set_reg m a v (hwset s h) = Some (Inr ((), hwset s (mwrite m a v h)))" for h
    by (simp add: set_reg_def dev_put_def device_put_u32_def hwset_def)
  then show ?thesis using assms by (auto simp: does_def looks_def)
qed

lemma does_card: "does \<alpha> (card f) s e (f (sdCard s)) s e"
  by (rule does_state) (simp add: card_def)

lemma does_set_card: "does \<alpha> (set_card f) s e () (s\<lparr>sdCard := f (sdCard s)\<rparr>) e"
  by (rule does_state) (simp add: set_card_def)

lemma does_buf: "b \<noteq> NULL \<Longrightarrow> does \<alpha> (buf_act b f) s e (f (bufs (squeue s) b)) s e"
  by (rule does_state) (simp add: buf_act_def)

lemma does_set_buf: "does \<alpha> (set_buf b f) s e () (upd_buf s b f) e"
  by (rule does_state) (simp add: set_buf_def upd_buf_def)

subsection \<open>The controller\<close>

lemma does_delay:
  assumes "drives m \<alpha> c L"
  shows "does \<alpha> (sd_delayus m n) s e () s e"
proof -
  have "\<exists>h'. delayus m (n * 3) h = Some h' \<and> \<alpha> h' = \<alpha> h" for h
    using assms by (intro delayus_returns [where c = c]) (simp_all add: drives_def)
  then have "\<exists>h'. sd_delayus m n (hwset s h) = Some (Inr ((), hwset s h')) \<and> \<alpha> h' = \<alpha> h" for h
    by (force simp: sd_delayus_def dev_run_def hwset_def)
  then show ?thesis unfolding does_def looks_def by metis
qed

lemma does_irq: "drives m \<alpha> c L \<Longrightarrow> does \<alpha> (reg m EMMC_INTERRUPT) s e (eirq (tick e)) s (tick e)"
  by (rule does_read) (simp add: drives_def)

lemma does_disb: "drives m \<alpha> c L \<Longrightarrow> does \<alpha> (machine_act (disb m)) s e () s e"
  by (auto simp: does_def looks_def machine_act_def hwset_def drives_def disb_def)

text \<open>The loop ends with a positive count as soon as the test fails, if the pending flags show in time.\<close>

definition shown :: "emmc \<Rightarrow> emmc" where
  "shown e = e\<lparr>eirq := eirq e OR epend e, epend := 0, ewait := 0\<rparr>"

lemma poll_until:
  assumes test: "\<And>e. does \<alpha> T s e (P (eirq (tick e))) s (tick e)" and delay: "\<And>e. does \<alpha> D s e () s e"
    and "ewait e < n" "\<not> P (eirq e OR epend e)" "ewait e = 0 \<or> P (eirq e)"
  shows "\<exists>left. 0 < left \<and> does \<alpha> (poll_postdec T D n) s e left s (shown e)"
  using assms(3-)
proof (induction n arbitrary: e)
  case (Suc n)
  show ?case
  proof (cases "ewait e = 0")
    case True
    then have e: "tick e = shown e" "\<not> P (eirq (tick e))" using Suc.prems(2) by (simp_all add: tick_def shown_def)
    have "does \<alpha> (poll_postdec T D (Suc n)) s e (int (Suc n)) s (shown e)"
      unfolding poll_postdec.simps by (rule does_bind [OF test]) (use e does_ret in simp)
    then show ?thesis by (intro exI [of _ "int (Suc n)"] conjI) simp_all
  next
    case False
    then have e: "tick e = e\<lparr>ewait := ewait e - 1\<rparr>" "P (eirq (tick e))" "shown (tick e) = shown e"
      using Suc.prems(3) by (simp_all add: tick_def shown_def)
    have "\<exists>left. 0 < left \<and> does \<alpha> (poll_postdec T D n) s (tick e) left s (shown (tick e))"
      by (rule Suc.IH) (use e Suc.prems False in auto)
    then obtain left where l: "0 < left" "does \<alpha> (poll_postdec T D n) s (tick e) left s (shown e)" unfolding e(3) by blast
    have "does \<alpha> (poll_postdec T D (Suc n)) s e left s (shown e)"
      unfolding poll_postdec.simps by (rule does_bind [OF test]) (use e(2) does_then [OF delay l(2)] in simp)
    with l(1) show ?thesis by blast
  qed
qed simp

lemma and_sub:
  assumes "x AND k = 0" "k AND b = b"
  shows "x AND b = (0 :: u32)"
proof -
  have "x AND b = (x AND k) AND b" using assms(2) by (simp add: and.assoc)
  with assms(1) show ?thesis by simp
qed

lemma and_or_0: "x AND (a OR b) = (0 :: u32) \<longleftrightarrow> x AND a = 0 \<and> x AND b = 0"
  by (simp add: bit.conj_disj_distrib or_eq_0_iff)

lemma or_and_0: "(a OR b) AND x = (0 :: u32) \<longleftrightarrow> a AND x = 0 \<and> b AND x = 0"
  by (simp add: bit.conj_disj_distrib2 or_eq_0_iff)

lemma wait_irq:
  assumes d: "drives m \<alpha> c L" and w: "ewait e < 1000000"
    and flag: "(eirq e OR epend e) AND msk \<noteq> 0" and quiet: "(eirq e OR epend e) AND (INT_ERROR_MASK OR INT_CMD_TIMEOUT) = 0"
    and hid: "ewait e = 0 \<or> eirq e AND msk = 0"
  shows "does \<alpha> (sdWaitForInterrupt m msk) s e SD_OK s (e\<lparr>eirq := (eirq e OR epend e) AND NOT msk, epend := 0, ewait := 0\<rparr>)"
proof -
  let ?T = "bind_act (reg m EMMC_INTERRUPT) (\<lambda>v. ret (v AND (msk OR INT_ERROR_MASK) = 0))"
  let ?P = "\<lambda>v. v AND (msk OR INT_ERROR_MASK) = 0"
  have test: "does \<alpha> ?T s e' (?P (eirq (tick e'))) s (tick e')" for e'
    by (rule does_bind [OF does_irq [OF d] does_ret])
  have q: "(eirq e OR epend e) AND INT_ERROR_MASK = 0" "(eirq e OR epend e) AND INT_CMD_TIMEOUT = 0" "(eirq e OR epend e) AND INT_DATA_TIMEOUT = 0"
    by (rule and_sub [OF quiet], simp)+
  have "eirq e AND INT_ERROR_MASK = 0" using q(1) unfolding or_and_0 by blast
  then have hid': "ewait e = 0 \<or> ?P (eirq e)" using hid unfolding and_or_0 by blast
  have nP: "\<not> ?P (eirq e OR epend e)" using flag unfolding and_or_0 by blast
  have "\<exists>left. 0 < left \<and> does \<alpha> (poll_postdec ?T (sd_delayus m 1) 1000000) s e left s (shown e)"
    by (rule poll_until [OF test does_delay [OF d] w nP hid'])
  then obtain left where l: "0 < left" "does \<alpha> (poll_postdec ?T (sd_delayus m 1) 1000000) s e left s (shown e)" by blast
  have t: "tick (shown e) = shown e" "eirq (shown e) = eirq e OR epend e" by (simp_all add: tick_def shown_def)
  have clr: "does \<alpha> (set_reg m EMMC_INTERRUPT msk) s (shown e) () s ((shown e)\<lparr>eirq := eirq (shown e) AND NOT msk\<rparr>)"
    by (rule does_write) (use d in \<open>simp add: drives_def\<close>)
  have fin: "(shown e)\<lparr>eirq := eirq (shown e) AND NOT msk\<rparr> = e\<lparr>eirq := (eirq e OR epend e) AND NOT msk, epend := 0, ewait := 0\<rparr>"
    by (simp add: shown_def)
  have br: "\<not> (left \<le> 0 \<or> (eirq e OR epend e) AND INT_CMD_TIMEOUT \<noteq> 0 \<or> (eirq e OR epend e) AND INT_DATA_TIMEOUT \<noteq> 0)"
    "\<not> (eirq e OR epend e) AND INT_ERROR_MASK \<noteq> 0" using l(1) q by simp_all
  show ?thesis
    unfolding sdWaitForInterrupt_def
    by (rule does_bind [OF l(2)], rule does_bind [OF does_irq [OF d]], unfold t if_not_P [OF br(1)] if_not_P [OF br(2)],
      rule does_then [OF clr [unfolded fin] does_ret])
qed

subsection \<open>Commands\<close>

lemma does_read_any:
  assumes "\<And>h. \<alpha> h = e \<Longrightarrow> Q (fst (mread m a h)) \<and> \<alpha> (snd (mread m a h)) = e1" and g: "\<And>v. Q v \<Longrightarrow> does \<alpha> (g v) s e1 y s2 e2"
  shows "does \<alpha> (bind_act (reg m a) g) s e y s2 e2"
proof -
  have "reg m a (hwset s h) = Some (Inr (fst (mread m a h), hwset s (snd (mread m a h))))" for h
    by (simp add: reg_def dev_get_def device_get_u32_def hwset_def split: prod.split)
  then have r: "bind_act (reg m a) g (hwset s h) = g (fst (mread m a h)) (hwset s (snd (mread m a h)))" for h
    by (simp add: bind_act_def)
  have "\<exists>s'. bind_act (reg m a) g (hwset s h) = Some (Inr (y, s')) \<and> looks \<alpha> s2 e2 s'" if "\<alpha> h = e" for h
  proof -
    have "looks \<alpha> s e1 (hwset s (snd (mread m a h)))" using assms(1) [OF that] by (auto simp: looks_def)
    then show ?thesis using g [of "fst (mread m a h)"] assms(1) [OF that] unfolding r does_def by blast
  qed
  then show ?thesis by (auto simp: does_def looks_def)
qed

lemma wait_command:
  assumes d: "drives m \<alpha> c L" and e: "eirq e = 0" "epend e = 0"
  shows "\<exists>e1. does \<alpha> (sdWaitForCommand m) s e SD_OK s e1 \<and> (\<exists>w. e1 = e\<lparr>ewait := w\<rparr>)"
proof -
  have inh: "does \<alpha> (inhibited m SR_CMD_INHIBIT) s e False s e"
    unfolding inhibited_def
    by (rule does_read_any [where Q = "\<lambda>v. v AND SR_CMD_INHIBIT = 0"]) (use d in \<open>auto simp: drives_def does_ret\<close>)
  have p: "does \<alpha> (poll_postdec (inhibited m SR_CMD_INHIBIT) (sd_delayus m 1) (Suc n)) s e (int (Suc n)) s e" for n
    unfolding poll_postdec.simps by (rule does_bind [OF inh]) (simp add: does_ret)
  have p': "does \<alpha> (poll_postdec (inhibited m SR_CMD_INHIBIT) (sd_delayus m 1) 1000000) s e 1000000 s e"
    using p [of 999999] by simp
  have t: "eirq (tick e) = 0" "\<exists>w. tick e = e\<lparr>ewait := w\<rparr>"
    using e by (auto simp: tick_def intro!: exI [of _ "ewait e"] exI [of _ "ewait e - 1"])
  have "does \<alpha> (bind_act (reg m EMMC_INTERRUPT) (\<lambda>i. ret (if i AND INT_ERROR_MASK \<noteq> 0 then SD_BUSY else SD_OK))) s e SD_OK s (tick e)"
    by (rule does_bind [OF does_irq [OF d]]) (simp add: t(1) does_ret)
  then have "does \<alpha> (sdWaitForCommand m) s e SD_OK s (tick e)"
    unfolding sdWaitForCommand_def by (intro does_bind [OF p']) simp
  with t(2) show ?thesis by blast
qed

text \<open>The state after a single-block command with its ready flag \<open>rdy\<close> up.\<close>

definition sent_card :: "EMMCCommand \<Rightarrow> u32 \<Rightarrow> SDDescriptor \<Rightarrow> SDDescriptor" where
  "sent_card cmd arg c = c\<lparr>lastCmd := Some cmd, lastArg := arg, card_status := 0x900, cardState := 4\<rparr>"

lemma single_commands:
  "cdelay (sdCommandTable ! IX_READ_SINGLE) = 0" "cresp (sdCommandTable ! IX_READ_SINGLE) = RESP_R1"
  "cdelay (sdCommandTable ! IX_WRITE_SINGLE) = 0" "cresp (sdCommandTable ! IX_WRITE_SINGLE) = RESP_R1"
  "ccode (sdCommandTable ! IX_READ_SINGLE) = 0x11220010" "ccode (sdCommandTable ! IX_WRITE_SINGLE) = 0x18220000"
  by (simp_all add: sdCommandTable_def command_def)

lemma and_not_disjoint: "a AND b = 0 \<Longrightarrow> a AND NOT b = a" for a b :: "'a::len word"
  by (auto simp: bit_eq_iff bit_simps)

lemma send_command:
  assumes d: "drives m \<alpha> c L" and L: "L < 1000000" and e: "eirq e = 0" "epend e = 0"
    and cmd: "cdelay cmd = 0" "cresp cmd = RESP_R1"
    and e1: "eirq e1 = 0" and rdy: "rdy AND (INT_ERROR_MASK OR INT_CMD_TIMEOUT OR INT_CMD_DONE) = 0"
    and keep: "\<And>w. do_command L (ccode cmd) (e\<lparr>earg := arg, ewait := w\<rparr>) = raises L (INT_CMD_DONE OR rdy) e1"
  shows "does \<alpha> (sdSendCommandP m cmd arg) s e 0 (s\<lparr>sdCard := sent_card cmd arg (sdCard s)\<rparr>) (e1\<lparr>eirq := rdy, epend := 0, ewait := 0\<rparr>)"
proof -
  let ?s1 = "s\<lparr>sdCard := (sdCard s)\<lparr>lastCmd := Some cmd, lastArg := arg\<rparr>\<rparr>"
  obtain w where w: "does \<alpha> (sdWaitForCommand m) s e SD_OK s (e\<lparr>ewait := w\<rparr>)" using wait_command [OF d e] by blast
  let ?e = "e\<lparr>ewait := w\<rparr>"
  have t: "eirq (tick ?e) = 0" "\<exists>w'. tick ?e = e\<lparr>ewait := w'\<rparr>" using e by (auto simp: tick_def intro!: exI [of _ w] exI [of _ "w - 1"])
  then obtain w' where w': "tick ?e = e\<lparr>ewait := w'\<rparr>" by blast
  let ?ew = "e\<lparr>ewait := w'\<rparr>"
  let ?e2 = "raises L (INT_CMD_DONE OR rdy) e1"
  have clr: "does \<alpha> (set_reg m EMMC_INTERRUPT 0) ?s1 ?ew () ?s1 ?ew" by (rule does_write) (use d e in \<open>simp add: drives_def\<close>)
  have arg: "does \<alpha> (set_reg m EMMC_ARG1 arg) ?s1 ?ew () ?s1 (e\<lparr>earg := arg, ewait := w'\<rparr>)" by (rule does_write) (use d in \<open>simp add: drives_def\<close>)
  have go: "does \<alpha> (set_reg m EMMC_CMDTM (ccode cmd)) ?s1 (e\<lparr>earg := arg, ewait := w'\<rparr>) () ?s1 ?e2"
    by (rule does_write) (use d keep [of w'] in \<open>simp add: drives_def\<close>)
  have r: "rdy AND INT_CMD_DONE = 0" "rdy AND (INT_ERROR_MASK OR INT_CMD_TIMEOUT) = 0" by (rule and_sub [OF rdy], simp)+
  have wi: "does \<alpha> (sdWaitForInterrupt m INT_CMD_DONE) ?s1 ?e2 SD_OK ?s1 (?e2\<lparr>eirq := (eirq ?e2 OR epend ?e2) AND NOT INT_CMD_DONE, epend := 0, ewait := 0\<rparr>)"
    by (rule wait_irq [OF d]) (use L e1 r in \<open>simp_all add: raises_def or_and_0\<close>)
  have "(INT_CMD_DONE OR rdy) AND NOT INT_CMD_DONE = rdy AND NOT INT_CMD_DONE" by (simp add: bit.conj_disj_distrib2)
  also have "\<dots> = rdy" by (rule and_not_disjoint [OF r(1)])
  finally have fin: "?e2\<lparr>eirq := (eirq ?e2 OR epend ?e2) AND NOT INT_CMD_DONE, epend := 0, ewait := 0\<rparr> = e1\<lparr>eirq := rdy, epend := 0, ewait := 0\<rparr>"
    using e1 by (simp add: raises_def)
  let ?e3 = "e1\<lparr>eirq := rdy, epend := 0, ewait := 0\<rparr>"
  have r0: "does \<alpha> (reg m EMMC_RESP0) ?s1 ?e3 0x900 ?s1 ?e3" by (rule does_read) (use d in \<open>simp add: drives_def\<close>)
  have rs: "does \<alpha> (\<lambda>s. bind_run (Some (handle_response cmd arg 0x900 0 0 0 (sdCard s))) (\<lambda>(r, c). Some (Inr (r, s\<lparr>sdCard := c\<rparr>))))
      ?s1 ?e3 0 (s\<lparr>sdCard := sent_card cmd arg (sdCard s)\<rparr>) ?e3"
    by (rule does_state) (use cmd in \<open>simp add: handle_response_def sent_card_def\<close>)
  have tail: "does \<alpha> (bind_act (reg m EMMC_RESP0) (\<lambda>r0.
       bind_act (if cresp cmd = RESP_R2I \<or> cresp cmd = RESP_R2S then
           bind_act (reg m EMMC_RESP3) (\<lambda>r3. bind_act (reg m EMMC_RESP2) (\<lambda>r2. bind_act (reg m EMMC_RESP1) (\<lambda>r1. ret (r1, r2, r3))))
         else ret (0, 0, 0)) (\<lambda>(r1, r2, r3) s.
       bind_run (Some (handle_response cmd arg r0 r1 r2 r3 (sdCard s))) (\<lambda>(r, c). Some (Inr (r, s\<lparr>sdCard := c\<rparr>))))))
      ?s1 ?e3 0 (s\<lparr>sdCard := sent_card cmd arg (sdCard s)\<rparr>) ?e3"
    by (rule does_bind [OF r0]) (use cmd(2) rs in simp)
  have irq: "does \<alpha> (reg m EMMC_INTERRUPT) ?s1 ?e 0 ?s1 ?ew" using does_irq [OF d, of ?s1 ?e] e(1) unfolding w' by simp
  have sc: "does \<alpha> (set_card (\<lambda>c. c\<lparr>lastCmd := Some cmd, lastArg := arg\<rparr>)) s ?e () ?s1 ?e" by (rule does_set_card)
  have wh: "does \<alpha> (when_act (cdelay cmd \<noteq> 0) (sd_delayus m (cdelay cmd))) ?s1 ?e2 () ?s1 ?e2" using cmd(1) by (simp add: does_ret)
  show ?thesis unfolding sdSendCommandP_def
    by (rule does_bind [OF w], subst if_not_P, simp)
      (intro does_then [OF sc] does_bind [OF irq] does_then [OF clr] does_then [OF arg] does_then [OF go] does_then [OF wh]
        does_check [OF wi [unfolded fin]] tail)
qed


lemma send_single:
  assumes d: "drives m \<alpha> c L" and L: "L < 1000000" and e: "eirq e = 0" "epend e = 0"
  shows "does \<alpha> (sdSendCommandA m IX_READ_SINGLE arg) s e 0 (s\<lparr>sdCard := sent_card (sdCommandTable ! IX_READ_SINGLE) arg (sdCard s)\<rparr>)
      (e\<lparr>earg := arg, efifo := estore e arg, eirq := INT_READ_RDY, epend := 0, ewait := 0\<rparr>)"
    and "does \<alpha> (sdSendCommandA m IX_WRITE_SINGLE arg) s e 0 (s\<lparr>sdCard := sent_card (sdCommandTable ! IX_WRITE_SINGLE) arg (sdCard s)\<rparr>)
      (e\<lparr>earg := arg, ewbuf := [], eirq := INT_WRITE_RDY, epend := 0, ewait := 0\<rparr>)"
proof -
  let ?R = "sdCommandTable ! IX_READ_SINGLE" and ?W = "sdCommandTable ! IX_WRITE_SINGLE"
  have r: "does \<alpha> (sdSendCommandP m ?R arg) s e 0 (s\<lparr>sdCard := sent_card ?R arg (sdCard s)\<rparr>)
      ((e\<lparr>earg := arg, efifo := estore e arg\<rparr>)\<lparr>eirq := INT_READ_RDY, epend := 0, ewait := 0\<rparr>)"
    by (rule send_command [OF d L e single_commands(1,2)]) (use e in \<open>simp_all add: do_command_def raises_def\<close>)
  have w: "does \<alpha> (sdSendCommandP m ?W arg) s e 0 (s\<lparr>sdCard := sent_card ?W arg (sdCard s)\<rparr>)
      ((e\<lparr>earg := arg, ewbuf := []\<rparr>)\<lparr>eirq := INT_WRITE_RDY, epend := 0, ewait := 0\<rparr>)"
    by (rule send_command [OF d L e single_commands(3,4)]) (use e in \<open>simp_all add: do_command_def raises_def single_commands\<close>)
  have app: "does \<alpha> (app_accepted ix) s' e' 0 s' e'" if "ix < IX_APP_CMD_START" for ix s' e'
    unfolding app_accepted_def by (rule does_bind [OF does_card]) (use that in \<open>simp add: does_ret\<close>)
  have acc: "does \<alpha> (if IX_APP_CMD_START \<le> ix then sdSendAppCommand m else ret SD_OK) s e 0 s e" if "ix < IX_APP_CMD_START" for ix
    using that by (simp add: does_ret)
  show "does \<alpha> (sdSendCommandA m IX_READ_SINGLE arg) s e 0 (s\<lparr>sdCard := sent_card ?R arg (sdCard s)\<rparr>)
      (e\<lparr>earg := arg, efifo := estore e arg, eirq := INT_READ_RDY, epend := 0, ewait := 0\<rparr>)"
    unfolding sdSendCommandA_def by (rule does_check [OF acc]) (simp, rule does_check [OF r], rule app, simp)
  show "does \<alpha> (sdSendCommandA m IX_WRITE_SINGLE arg) s e 0 (s\<lparr>sdCard := sent_card ?W arg (sdCard s)\<rparr>)
      (e\<lparr>earg := arg, ewbuf := [], eirq := INT_WRITE_RDY, epend := 0, ewait := 0\<rparr>)"
    unfolding sdSendCommandA_def by (rule does_check [OF acc]) (simp, rule does_check [OF w], rule app, simp)
qed

subsection \<open>Data\<close>

lemma get_words_all:
  assumes d: "drives m \<alpha> c L"
  shows "ws \<noteq> [] \<Longrightarrow> efifo e = ws \<Longrightarrow> does \<alpha> (get_words m (length ws)) s e ws s (raises L INT_DATA_DONE (e\<lparr>efifo := []\<rparr>))"
proof (induction ws arbitrary: e)
  case (Cons w ws)
  have r: "does \<alpha> (reg m EMMC_DATA) s e w s (take_word L e)"
    by (rule does_read) (use d Cons.prems(2) in \<open>simp add: drives_def\<close>)
  have "does \<alpha> (bind_act (get_words m (length ws)) (\<lambda>vs. ret (w # vs))) s (take_word L e) (w # ws) s (raises L INT_DATA_DONE (e\<lparr>efifo := []\<rparr>))"
  proof (cases "ws = []")
    case True
    then have "take_word L e = raises L INT_DATA_DONE (e\<lparr>efifo := []\<rparr>)" using Cons.prems(2) by (simp add: take_word_def)
    then show ?thesis using True by (simp add: does_ret)
  next
    case False
    have t: "take_word L e = e\<lparr>efifo := ws\<rparr>" using False Cons.prems(2) by (simp add: take_word_def)
    have "does \<alpha> (get_words m (length ws)) s (e\<lparr>efifo := ws\<rparr>) ws s (raises L INT_DATA_DONE ((e\<lparr>efifo := ws\<rparr>)\<lparr>efifo := []\<rparr>))"
      by (rule Cons.IH [OF False]) simp
    then show ?thesis unfolding t by (intro does_bind [OF _ does_ret]) simp
  qed
  then show ?case unfolding length_Cons get_words.simps by (rule does_bind [OF r])
qed simp

lemma put_words_all:
  assumes d: "drives m \<alpha> c L"
  shows "ws \<noteq> [] \<Longrightarrow> length (ewbuf e) + length ws = 128 \<Longrightarrow>
    does \<alpha> (put_words m ws) s e () s (raises L INT_DATA_DONE (e\<lparr>ewbuf := ewbuf e @ ws, estore := (estore e)(earg e := ewbuf e @ ws)\<rparr>))"
proof (induction ws arbitrary: e)
  case (Cons w ws)
  have r: "does \<alpha> (set_reg m EMMC_DATA w) s e () s (give_word L w e)" by (rule does_write) (use d in \<open>simp add: drives_def\<close>)
  have "does \<alpha> (put_words m ws) s (give_word L w e) () s
      (raises L INT_DATA_DONE (e\<lparr>ewbuf := ewbuf e @ w # ws, estore := (estore e)(earg e := ewbuf e @ w # ws)\<rparr>))"
  proof (cases "ws = []")
    case True
    then show ?thesis using Cons.prems(2) by (simp add: does_ret give_word_def)
  next
    case False
    then have g: "give_word L w e = e\<lparr>ewbuf := ewbuf e @ [w]\<rparr>" using Cons.prems(2) by (cases ws) (simp_all add: give_word_def)
    have "does \<alpha> (put_words m ws) s (give_word L w e) () s (raises L INT_DATA_DONE ((give_word L w e)
        \<lparr>ewbuf := ewbuf (give_word L w e) @ ws, estore := (estore (give_word L w e))(earg (give_word L w e) := ewbuf (give_word L w e) @ ws)\<rparr>))"
      by (rule Cons.IH [OF False]) (use Cons.prems(2) g in simp)
    then show ?thesis unfolding g by simp
  qed
  then show ?case unfolding put_words.simps by (rule does_then [OF r])
qed simp

lemma u32_words_length [simp]: "length (u32_words n bs) = n" by (induction n arbitrary: bs) auto

lemma length_bytes_of_words [simp]: "length (bytes_of_words ws) = 4 * length ws"
  by (induction ws) (simp_all add: bytes_of_words_def)

lemma words_bytes [simp]: "length ws = n \<Longrightarrow> u32_words n (bytes_of_words ws) = ws"
  by (induction ws arbitrary: n) (auto simp: bytes_of_words_def)

lemma bytes_words [simp]: "length bs = 4 * n \<Longrightarrow> bytes_of_words (u32_words n bs) = bs"
proof (induction n arbitrary: bs)
  case (Suc n)
  have "le_bytes 4 (le_word (take 4 bs) :: u32) = take 4 bs" by (rule le_bytes_le_word) (use Suc.prems in auto)
  then show ?case using Suc.IH [of "drop 4 bs"] Suc.prems by (simp add: bytes_of_words_def)
qed (simp add: bytes_of_words_def)

subsection \<open>Transfers\<close>

abbreviation quiet :: "emmc \<Rightarrow> emmc" where "quiet e \<equiv> e\<lparr>eirq := 0, epend := 0, ewait := 0\<rparr>"

lemma quiet_updates:
  "(quiet e)\<lparr>efifo := f\<rparr> = quiet (e\<lparr>efifo := f\<rparr>)" "(quiet e)\<lparr>ewbuf := f, estore := g\<rparr> = quiet (e\<lparr>ewbuf := f, estore := g\<rparr>)"
  "tick (quiet e) = quiet e" "eirq (quiet e) = 0"
  by (cases e, simp add: tick_def)+

text \<open>Waiting for the one flag that is up, and the check that no other is.\<close>

lemma wait_up:
  assumes d: "drives m \<alpha> c L" and f: "f \<noteq> 0" "f AND (INT_ERROR_MASK OR INT_CMD_TIMEOUT) = 0" and e: "eirq e = f" "epend e = 0" "ewait e = 0"
  shows "does \<alpha> (sdWaitForInterrupt m f) s e SD_OK s (quiet e)"
proof -
  have "does \<alpha> (sdWaitForInterrupt m f) s e SD_OK s (e\<lparr>eirq := (eirq e OR epend e) AND NOT f, epend := 0, ewait := 0\<rparr>)"
    by (rule wait_irq [OF d]) (use f e in simp_all)
  then show ?thesis using e by simp
qed

lemma does_quiet: "drives m \<alpha> c L \<Longrightarrow> does \<alpha> (reg m EMMC_INTERRUPT) s (quiet e) 0 s (quiet e)"
  using does_irq [of m \<alpha> c L s "quiet e"] unfolding quiet_updates .

lemma doit_read:
  assumes d: "drives m \<alpha> c L" and b: "b \<noteq> NULL" "(b + 24) AND 3 = 0" and x: "bflags (bufs (squeue s) b) AND B_DIRTY = 0"
    and e: "eirq e = INT_READ_RDY" "epend e = 0" "ewait e = 0" "length (efifo e) = 128"
  shows "does \<alpha> (sd_doit m b) s e () (upd_buf s b (\<lambda>x. x\<lparr>bdata := bytes_of_words (efifo e)\<rparr>)) (raises L INT_DATA_DONE (quiet (e\<lparr>efifo := []\<rparr>)))"
proof -
  have w: "does \<alpha> (sdWaitForInterrupt m INT_READ_RDY) s e SD_OK s (quiet e)" by (rule wait_up [OF d _ _ e(1-3)]) simp_all
  have "efifo e \<noteq> []" using e(4) by auto
  then have g: "does \<alpha> (get_words m 128) s (quiet e) (efifo e) s (raises L INT_DATA_DONE (quiet (e\<lparr>efifo := []\<rparr>)))"
    using get_words_all [OF d, of "efifo e" "quiet e" s] e(4) unfolding quiet_updates by simp
  have f: "(bflags (bufs (squeue s) b) AND B_DIRTY \<noteq> 0) = False" using x by simp
  note fl = does_buf [OF b(1), of \<alpha> "\<lambda>x. bflags x AND B_DIRTY \<noteq> 0" s e, unfolded f]
  show ?thesis unfolding sd_doit_def
    by (rule does_bind [OF fl], rule does_assert [OF b(2)], subst if_not_P, simp)
      (intro does_bind [OF w] does_assert does_bind [OF does_quiet [OF d]] does_bind [OF g] does_set_buf refl)
qed

lemma doit_write:
  assumes d: "drives m \<alpha> c L" and b: "b \<noteq> NULL" "(b + 24) AND 3 = 0" and x: "bflags (bufs (squeue s) b) AND B_DIRTY \<noteq> 0"
    and e: "eirq e = INT_WRITE_RDY" "epend e = 0" "ewait e = 0" "ewbuf e = []"
  shows "does \<alpha> (sd_doit m b) s e () s (raises L INT_DATA_DONE (quiet (e\<lparr>ewbuf := u32_words 128 (bdata (bufs (squeue s) b)),
    estore := (estore e)(earg e := u32_words 128 (bdata (bufs (squeue s) b)))\<rparr>)))"
proof -
  let ?ws = "u32_words 128 (bdata (bufs (squeue s) b))"
  have w: "does \<alpha> (sdWaitForInterrupt m INT_WRITE_RDY) s e SD_OK s (quiet e)" by (rule wait_up [OF d _ _ e(1-3)]) simp_all
  have l: "length ?ws = 128" by (rule u32_words_length)
  then have "?ws \<noteq> []" by (metis list.size(3) zero_neq_numeral)
  then have g: "does \<alpha> (put_words m ?ws) s (quiet e) () s (raises L INT_DATA_DONE (quiet (e\<lparr>ewbuf := ?ws, estore := (estore e)(earg e := ?ws)\<rparr>)))"
    using put_words_all [OF d, of ?ws "quiet e" s] e(4) l unfolding quiet_updates by (simp del: u32_words_length)
  have f: "(bflags (bufs (squeue s) b) AND B_DIRTY \<noteq> 0) = True" using x by simp
  note fl = does_buf [OF b(1), of \<alpha> "\<lambda>x. bflags x AND B_DIRTY \<noteq> 0" s e, unfolded f]
  show ?thesis unfolding sd_doit_def
    by (rule does_bind [OF fl], rule does_assert [OF b(2)], subst if_P, simp)
      (intro does_bind [OF w] does_assert does_bind [OF does_quiet [OF d]] does_bind [OF does_buf [OF b(1)]] g refl)
qed

lemma start_transfer:
  assumes d: "drives m \<alpha> c L" and b: "b \<noteq> NULL" "(b + 24) AND 3 = 0" and e: "eirq e = 0" "epend e = 0"
    and x: "bflags (bufs (squeue s) b) AND B_VALID = 0" and ty: "ctype (sdCard s) = SD_TYPE_2_HC"
    and send: "\<And>w. does \<alpha> (sdSendCommandA m (if bflags (bufs (squeue s) b) AND B_DIRTY \<noteq> 0 then IX_WRITE_SINGLE else IX_READ_SINGLE) (blockno (bufs (squeue s) b)))
      s (e\<lparr>ewait := w\<rparr>) 0 s1 e1" and doit: "does \<alpha> (when_act t (sd_doit m b)) s1 e1 () s2 e2"
  shows "does \<alpha> (sd_start m b t) s e () s2 e2"
proof -
  obtain w where w: "tick e = e\<lparr>ewait := w\<rparr>" "eirq (tick e) = 0"
    using e by (auto simp: tick_def intro!: that [of "ewait e"] that [of "ewait e - 1"])
  have irq: "does \<alpha> (reg m EMMC_INTERRUPT) s e 0 s (e\<lparr>ewait := w\<rparr>)" using does_irq [OF d, of s e] unfolding w(2) unfolding w(1) .
  have sz: "does \<alpha> (set_reg m EMMC_BLKSIZECNT 512) s (e\<lparr>ewait := w\<rparr>) () s (e\<lparr>ewait := w\<rparr>)" by (rule does_write) (use d in \<open>simp add: drives_def\<close>)
  show ?thesis unfolding sd_start_def
    by (rule does_bind [OF does_buf [OF b(1)]], rule does_bind [OF does_card], unfold Let_def if_P [OF ty],
      intro does_then [OF does_disb [OF d]] does_assert [OF x] does_bind [OF irq] does_assert [OF refl] does_then [OF sz]
        does_bind [OF send] does_assert [OF b(2)] doit)
qed

lemma waitdone:
  assumes d: "drives m \<alpha> c L" and L: "L < 1000000" and k: "wakeup (skern s) b = Some ks"
  shows "does \<alpha> (sd_waitdone m b) s (raises L INT_DATA_DONE (quiet e)) () ((upd_buf s b (\<lambda>x. x\<lparr>bflags := B_VALID\<rparr>))\<lparr>skern := ks\<rparr>) (quiet e)"
proof -
  have w: "does \<alpha> (sdWaitForInterrupt m INT_DATA_DONE) s (raises L INT_DATA_DONE (quiet e)) SD_OK s (quiet e)"
    using wait_irq [OF d, of "raises L INT_DATA_DONE (quiet e)" INT_DATA_DONE s] L by (simp add: raises_def)
  have k': "does \<alpha> (\<lambda>s. case wakeup (skern s) b of None \<Rightarrow> None | Some ks \<Rightarrow> Some (Inr ((), s\<lparr>skern := ks\<rparr>)))
      (upd_buf s b (\<lambda>x. x\<lparr>bflags := B_VALID\<rparr>)) (quiet e) () ((upd_buf s b (\<lambda>x. x\<lparr>bflags := B_VALID\<rparr>))\<lparr>skern := ks\<rparr>) (quiet e)"
    by (rule does_state) (simp add: upd_buf_def k)
  show ?thesis unfolding sd_waitdone_def
    by (intro does_bind [OF w] does_assert [OF refl] does_then [OF does_set_buf] k')
qed


text \<open>Both directions of a transfer: the command is sent, and then the data moves through the FIFO.\<close>

lemma transfer:
  assumes d: "drives m \<alpha> c L" and L: "L < 1000000" and e: "eirq e = 0" "epend e = 0" and ty: "ctype (sdCard s) = SD_TYPE_2_HC"
    and b: "b \<noteq> NULL" "(b + 24) AND 3 = 0" and x: "x = bufs (squeue s) b"
    and req: "bflags x = 0 \<and> length (estore e (blockno x)) = 128 \<or> bflags x = B_DIRTY \<and> length (bdata x) = 512"
  shows "\<exists>cd e1 e2. ctype cd = ctype (sdCard s) \<and> (\<forall>w t s2 e3. does \<alpha> (when_act t (sd_doit m b)) (s\<lparr>sdCard := cd\<rparr>) e1 () s2 e3 \<longrightarrow>
      does \<alpha> (sd_start m b t) s (e\<lparr>ewait := w\<rparr>) () s2 e3) \<and>
    estore e2 = (if bflags x = 0 then estore e else (estore e)(blockno x := u32_words 128 (bdata x))) \<and>
    (\<forall>s2. bufs (squeue s2) b = x \<longrightarrow> does \<alpha> (sd_doit m b) s2 e1 ()
      (upd_buf s2 b (\<lambda>y. y\<lparr>bdata := if bflags x = 0 then bytes_of_words (estore e (blockno x)) else bdata x\<rparr>))
      (raises L INT_DATA_DONE (quiet e2)))"
  using req
proof
  assume r: "bflags x = 0 \<and> length (estore e (blockno x)) = 128"
  let ?cd = "sent_card (sdCommandTable ! IX_READ_SINGLE) (blockno x) (sdCard s)"
  let ?e1 = "e\<lparr>earg := blockno x, efifo := estore e (blockno x), eirq := INT_READ_RDY, epend := 0, ewait := 0\<rparr>"
  have send: "does \<alpha> (sdSendCommandA m (if bflags x AND B_DIRTY \<noteq> 0 then IX_WRITE_SINGLE else IX_READ_SINGLE) (blockno x))
      s (e\<lparr>ewait := w\<rparr>) 0 (s\<lparr>sdCard := ?cd\<rparr>) ?e1" for w
    using send_single(1) [OF d L, of "e\<lparr>ewait := w\<rparr>" "blockno x" s] e r by simp
  have st: "does \<alpha> (sd_start m b t) s (e\<lparr>ewait := w\<rparr>) () s2 e3"
    if "does \<alpha> (when_act t (sd_doit m b)) (s\<lparr>sdCard := ?cd\<rparr>) ?e1 () s2 e3" for w t s2 e3
    by (rule start_transfer [where s = s and b = b, folded x, OF d b _ _ _ ty _ that]) (use r e send in simp_all)
  have "does \<alpha> (sd_doit m b) s2 ?e1 () (upd_buf s2 b (\<lambda>y. y\<lparr>bdata := bytes_of_words (estore e (blockno x))\<rparr>))
      (raises L INT_DATA_DONE (quiet (?e1\<lparr>efifo := []\<rparr>)))" if "bufs (squeue s2) b = x" for s2
    using doit_read [OF d b, of s2 ?e1] that r by simp
  then show ?thesis using st r by (intro exI [of _ ?cd] exI [of _ ?e1] exI [of _ "?e1\<lparr>efifo := []\<rparr>"]) (simp add: sent_card_def)
next
  assume r: "bflags x = B_DIRTY \<and> length (bdata x) = 512"
  let ?cd = "sent_card (sdCommandTable ! IX_WRITE_SINGLE) (blockno x) (sdCard s)" and ?ws = "u32_words 128 (bdata x)"
  let ?e1 = "e\<lparr>earg := blockno x, ewbuf := [], eirq := INT_WRITE_RDY, epend := 0, ewait := 0\<rparr>"
  let ?e2 = "?e1\<lparr>ewbuf := ?ws, estore := (estore e)(blockno x := ?ws)\<rparr>"
  have send: "does \<alpha> (sdSendCommandA m (if bflags x AND B_DIRTY \<noteq> 0 then IX_WRITE_SINGLE else IX_READ_SINGLE) (blockno x))
      s (e\<lparr>ewait := w\<rparr>) 0 (s\<lparr>sdCard := ?cd\<rparr>) ?e1" for w
    using send_single(2) [OF d L, of "e\<lparr>ewait := w\<rparr>" "blockno x" s] e r by simp
  have st: "does \<alpha> (sd_start m b t) s (e\<lparr>ewait := w\<rparr>) () s2 e3"
    if "does \<alpha> (when_act t (sd_doit m b)) (s\<lparr>sdCard := ?cd\<rparr>) ?e1 () s2 e3" for w t s2 e3
    by (rule start_transfer [where s = s and b = b, folded x, OF d b _ _ _ ty _ that]) (use r e send in simp_all)
  have "does \<alpha> (sd_doit m b) s2 ?e1 () (upd_buf s2 b (\<lambda>y. y\<lparr>bdata := bdata x\<rparr>)) (raises L INT_DATA_DONE (quiet ?e2))"
    if y: "bufs (squeue s2) b = x" for s2
    using doit_write [OF d b, of s2 ?e1] r y by (simp add: upd_buf_def fun_upd_idem)
  then show ?thesis using st r by (intro exI [of _ ?cd] exI [of _ ?e1] exI [of _ ?e2]) (simp add: sent_card_def)
qed

text \<open>C16: against a card and a controller that behave as documented, a request for a block ends within the time limits
  of the driver. A read fills the buffer with the 512 bytes of the block; a write stores the 512 bytes of the buffer
  as that block and changes no other block. The buffer is then valid, the process waiting for it has been
  woken, and the controller is quiet, ready for the next request.\<close>

theorem sd_block_io:
  fixes s :: "'h sdsys" and b m \<alpha>
  defines "x \<equiv> bufs (squeue s) b" and "e \<equiv> \<alpha> (hw (sdev s))"
  assumes d: "drives m \<alpha> c L" and L: "L < 1000000" and e: "eirq e = 0" "epend e = 0" and ty: "ctype (sdCard s) = SD_TYPE_2_HC"
    and b: "b \<noteq> NULL" "(b + 24) AND 3 = 0" and tree: "cont_tree (conts (skern s)) C rank" "root_container (skern s) \<in> C"
    and req: "bflags x = 0 \<and> length (estore e (blockno x)) = 128 \<or> bflags x = B_DIRTY \<and> length (bdata x) = 512"
  shows "\<exists>s'. then_act (sd_start m b True) (sd_waitdone m b) s = Some (Inr ((), s')) \<and>
    bufs (squeue s') = (bufs (squeue s))(b := x\<lparr>
      bdata := if bflags x = 0 then bytes_of_words (estore e (blockno x)) else bdata x, bflags := B_VALID\<rparr>) \<and>
    estore (\<alpha> (hw (sdev s'))) = (if bflags x = 0 then estore e else (estore e)(blockno x := u32_words 128 (bdata x))) \<and>
    eirq (\<alpha> (hw (sdev s'))) = 0 \<and> epend (\<alpha> (hw (sdev s'))) = 0 \<and> wakeup (skern s) b = Some (skern s') \<and> sdlock s' = sdlock s"
proof -
  obtain ks where ks: "wakeup (skern s) b = Some ks"
    using rec_wakeup_spec [OF tree, of 0 b] by (simp add: wakeup_def)
  let ?d = "if bflags x = 0 then bytes_of_words (estore e (blockno x)) else bdata x"
  obtain cd e1 e2 where start: "\<And>w t s2 e3. does \<alpha> (when_act t (sd_doit m b)) (s\<lparr>sdCard := cd\<rparr>) e1 () s2 e3 \<Longrightarrow>
        does \<alpha> (sd_start m b t) s (e\<lparr>ewait := w\<rparr>) () s2 e3"
      and e2: "estore e2 = (if bflags x = 0 then estore e else (estore e)(blockno x := u32_words 128 (bdata x)))"
      and doit: "\<And>s2. bufs (squeue s2) b = x \<Longrightarrow> does \<alpha> (sd_doit m b) s2 e1 () (upd_buf s2 b (\<lambda>y. y\<lparr>bdata := ?d\<rparr>))
        (raises L INT_DATA_DONE (quiet e2))"
    using transfer [OF d L e ty b, of x] req by (auto simp: x_def)
  let ?s2 = "upd_buf (s\<lparr>sdCard := cd\<rparr>) b (\<lambda>y. y\<lparr>bdata := ?d\<rparr>)"
  have "does \<alpha> (sd_start m b True) s (e\<lparr>ewait := ewait e\<rparr>) () ?s2 (raises L INT_DATA_DONE (quiet e2))"
    by (rule start) (use doit in \<open>simp add: x_def\<close>)
  then have st: "does \<alpha> (sd_start m b True) s e () ?s2 (raises L INT_DATA_DONE (quiet e2))" by simp
  have k2: "wakeup (skern ?s2) b = Some ks" using ks by (simp add: upd_buf_def)
  have "does \<alpha> (then_act (sd_start m b True) (sd_waitdone m b)) s e () ((upd_buf ?s2 b (\<lambda>x. x\<lparr>bflags := B_VALID\<rparr>))\<lparr>skern := ks\<rparr>) (quiet e2)"
    by (rule does_then [OF st waitdone [OF d L k2]])
  then obtain s' where "then_act (sd_start m b True) (sd_waitdone m b) s = Some (Inr ((), s'))"
      "looks \<alpha> ((upd_buf ?s2 b (\<lambda>x. x\<lparr>bflags := B_VALID\<rparr>))\<lparr>skern := ks\<rparr>) (quiet e2) s'"
    using looks_self [of \<alpha> s] unfolding does_def e_def by blast
  then show ?thesis using ks e2 by (intro exI [of _ s']) (auto simp: looks_def upd_buf_def x_def)
qed


text \<open>A controller that needs five polls for each answer, with a counter that stops at its largest value.\<close>

definition emmc_example :: "(emmc \<times> u64) machine" where
  "emmc_example = \<lparr>mread = (\<lambda>a (e, t).
       if a = EMMC_INTERRUPT then (eirq (tick e), (tick e, t)) else if a = EMMC_RESP0 then (0x900, (e, t))
       else if a = EMMC_DATA then (hd (efifo e), (take_word 5 e, t)) else (0, (e, t))),
     mwrite = (\<lambda>a v (e, t).
       (if a = EMMC_INTERRUPT then e\<lparr>eirq := eirq e AND NOT v\<rparr> else if a = EMMC_ARG1 then e\<lparr>earg := v\<rparr>
        else if a = EMMC_CMDTM then do_command 5 v e else if a = EMMC_DATA then give_word 5 v e else e, t)),
     sys_read = (\<lambda>r (e, t). (t, (e, if t = -1 then t else t + 1))), sys_write = (\<lambda>r v h. h), exec_insn = (\<lambda>i h. h)\<rparr>"

lemma emmc_example_drives: "drives emmc_example fst snd 5"
proof -
  have "t < t + 1" if "t \<noteq> -1" for t :: u64 
  proof -
    have "unat t \<noteq> unat (- 1 :: u64)" using that by (metis unsigned_word_eqI)
    then have "unat t \<noteq> 2 ^ 64 - 1" by (simp add: unsigned_minus_1_eq_mask mask_eq_exp_minus_1)
    with unat_u64_less [of t] have "unat t + 1 < 2 ^ 64" by linarith
    then show ?thesis by (simp add: word_less_nat_alt unat_word_ariths)
  qed
  then show ?thesis unfolding drives_def counts_def emmc_example_def by (simp split: prod.split)
qed

definition sd_example :: "u32 \<Rightarrow> (emmc \<times> u64) sdsys" where
  "sd_example fl = \<lparr>
     sdev = \<lparr>hw = (\<lparr>eirq = 0, epend = 0, ewait = 0, earg = 0, efifo = [], ewbuf = [], estore = (\<lambda>n. replicate 128 n)\<rparr>, 0),
       one_ms = 0, clock_handler = None, irq_handler = [], con_lock = \<lparr>locked = False, lcpu = None, lname = []\<rparr>, panicked_flag = False\<rparr>,
     sdCard = \<lparr>capacity = 0, cid = [], csd = [], scr = [], ocr = 0, support = 0, fileFormat = 0, ctype = SD_TYPE_2_HC, uhsi = 0,
       card_init = True, card_absent = False, rca = 0, cardState = 0, card_status = 0, lastCmd = None, lastArg = 0\<rparr>,
     sdHostVer = 2, sdBaseClock = 0, sdlock = \<lparr>locked = False, lcpu = None, lname = []\<rparr>,
     squeue = bufq_example\<lparr>bufs := (\<lambda>_. \<lparr>bflags = fl, blockno = 7, bdata = replicate 512 9\<rparr>)\<rparr>, skern = sleeper_example\<rparr>"

theorem sd_block_io_witness:
  "\<exists>s'. then_act (sd_start emmc_example 1024 True) (sd_waitdone emmc_example 1024) (sd_example 0) = Some (Inr ((), s')) \<and>
    bdata (bufs (squeue s') 1024) = bytes_of_words (replicate 128 7)"
proof -
  have "\<exists>s'. then_act (sd_start emmc_example 1024 True) (sd_waitdone emmc_example 1024) (sd_example 0) = Some (Inr ((), s')) \<and>
    bufs (squeue s') = (bufs (squeue (sd_example 0)))(1024 := (bufs (squeue (sd_example 0)) 1024)\<lparr>
      bdata := if bflags (bufs (squeue (sd_example 0)) 1024) = 0
        then bytes_of_words (estore (fst (hw (sdev (sd_example 0)))) (blockno (bufs (squeue (sd_example 0)) 1024)))
        else bdata (bufs (squeue (sd_example 0)) 1024), bflags := B_VALID\<rparr>)"
    using sd_block_io [OF emmc_example_drives, of "sd_example 0" 1024 "{4096}" "\<lambda>_. 0"] sleeper_tree by (auto simp: sd_example_def)
  then show ?thesis by (auto simp: sd_example_def)
qed

end
