(* ===== verification/KConsoleSpec.thy ===== *)
theory KConsoleSpec
  imports KDevices
begin

text \<open>
  What the console puts on the serial line. The UART is hardware: \<open>serial_line\<close> states what its documentation
  promises, with \<open>sent\<close> the bytes transmitted so far and \<open>busy\<close> a bound on the number of polls until the
  transmitter accepts the next one.\<close>

definition serial_line :: "'h machine \<Rightarrow> ('h \<Rightarrow> u8 list) \<Rightarrow> ('h \<Rightarrow> nat) \<Rightarrow> bool" where
  "serial_line m sent busy \<longleftrightarrow>
     (\<forall>h. case mread m AUX_MU_LSR_REG h of (v, h1) \<Rightarrow> sent h1 = sent h \<and>
        (if busy h = 0 then v AND 0x20 \<noteq> 0 \<and> busy h1 = 0 else v AND 0x20 = 0 \<and> busy h1 < busy h)) \<and>
     (\<forall>h v. busy h = 0 \<longrightarrow> sent (mwrite m AUX_MU_IO_REG v h) = sent h @ [ucast v]) \<and>
     (\<forall>h r v. sent (sys_write m r v h) = sent h)"

text \<open>The UART driver follows each newline by a carriage return.\<close>

definition crlf :: "string \<Rightarrow> u8 list" where
  "crlf cs = concat (map (\<lambda>c. if c = CHR 0x0A then [of_char c, 0x0D] else [of_char c]) cs)"

lemma crlf_simps [simp]: "crlf [] = []" "crlf (xs @ ys) = crlf xs @ crlf ys"
  by (simp_all add: crlf_def)

lemma crlf_Cons: "crlf (c # cs) = crlf [c] @ crlf cs"
  by (simp add: crlf_def)

lemma uart_wait_ready:
  assumes "serial_line m sent busy"
  shows "\<exists>h. uart_wait m st = Some (Inr (st\<lparr>hw := h\<rparr>)) \<and> sent h = sent (hw st) \<and> busy h = 0"
proof (induction "busy (hw st)" arbitrary: st rule: less_induct)
  case less
  obtain v h1 where r: "mread m AUX_MU_LSR_REG (hw st) = (v, h1)" by (cases "mread m AUX_MU_LSR_REG (hw st)")
  have l: "sent h1 = sent (hw st) \<and> (if busy (hw st) = 0 then v AND 0x20 \<noteq> 0 \<and> busy h1 = 0 else v AND 0x20 = 0 \<and> busy h1 < busy (hw st))"
  proof -
    from assms have "case mread m AUX_MU_LSR_REG (hw st) of (v, h1) \<Rightarrow> sent h1 = sent (hw st) \<and>
        (if busy (hw st) = 0 then v AND 0x20 \<noteq> 0 \<and> busy h1 = 0 else v AND 0x20 = 0 \<and> busy h1 < busy (hw st))"
      unfolding serial_line_def by (elim conjE) (erule spec)
    then show ?thesis unfolding r prod.case .
  qed
  have run: "uart_wait m st = (if v AND 0x20 = 0 then uart_wait m (st\<lparr>hw := h1\<rparr>) else Some (Inr (st\<lparr>hw := h1\<rparr>)))"
    using r by (subst uart_wait.simps) (simp add: dev_get_def device_get_u32_def)
  show ?case
  proof (cases "busy (hw st) = 0")
    case True
    then show ?thesis using run l by auto
  next
    case False
    then have "busy (hw (st\<lparr>hw := h1\<rparr>)) < busy (hw st)" using l by simp
    from less [OF this] show ?thesis using run l False by auto
  qed
qed

lemma uart_put_one_sends:
  assumes "serial_line m sent busy"
  shows "\<exists>h. uart_put_one m c st = Some (Inr (st\<lparr>hw := h\<rparr>)) \<and> sent h = sent (hw st) @ [of_char c]"
proof -
  obtain h where h: "uart_wait m st = Some (Inr (st\<lparr>hw := h\<rparr>))" "sent h = sent (hw st)" "busy h = 0"
    using uart_wait_ready [OF assms] by blast
  have "ucast (of_char c :: u32) = (of_char c :: u8)"
  proof -
    have "(of_char c :: nat) < 2 ^ 32" by (rule less_le_trans [OF nat_of_char_less_256]) simp
    then have "take_bit 32 (of_char c :: nat) = of_char c" by (simp add: take_bit_nat_eq_self)
    then have "ucast (of_nat (of_char c) :: u32) = (of_nat (of_char c) :: u8)" by (simp add: unsigned_of_nat)
    then show ?thesis by (simp add: of_nat_of_char)
  qed
  then show ?thesis using h assms
    by (auto simp: uart_put_one_def dev_put_def device_put_u32_def serial_line_def)
qed

lemma uart_put_char_sends:
  assumes "serial_line m sent busy"
  shows "\<exists>h. uart_put_char m c st = Some (Inr (st\<lparr>hw := h\<rparr>)) \<and> sent h = sent (hw st) @ crlf [c]"
proof -
  obtain h1 where h1: "uart_put_one m c st = Some (Inr (st\<lparr>hw := h1\<rparr>))" "sent h1 = sent (hw st) @ [of_char c]"
    using uart_put_one_sends [OF assms] by blast
  obtain h2 where h2: "uart_put_one m (CHR 0x0D) (st\<lparr>hw := h1\<rparr>) = Some (Inr (st\<lparr>hw := h2\<rparr>))" "sent h2 = sent h1 @ [0x0D]"
    using uart_put_one_sends [OF assms, of "CHR 0x0D" "st\<lparr>hw := h1\<rparr>"] by (auto simp: of_char_def)
  show ?thesis using h1 h2 by (auto simp: uart_put_char_def crlf_def)
qed

lemma put_string_sends:
  assumes "serial_line m sent busy"
  shows "\<exists>h. put_string (uart_put_char m) cs st = Some (Inr (st\<lparr>hw := h\<rparr>)) \<and> sent h = sent (hw st) @ crlf cs"
proof (induction cs arbitrary: st)
  case Nil
  show ?case by (intro exI [of _ "hw st"]) simp
next
  case (Cons c cs)
  obtain h1 where h1: "uart_put_char m c st = Some (Inr (st\<lparr>hw := h1\<rparr>))" "sent h1 = sent (hw st) @ crlf [c]"
    using uart_put_char_sends [OF assms] by blast
  obtain h2 where "put_string (uart_put_char m) cs (st\<lparr>hw := h1\<rparr>) = Some (Inr (st\<lparr>hw := h2\<rparr>))" "sent h2 = sent h1 @ crlf cs"
    using Cons.IH [of "st\<lparr>hw := h1\<rparr>"] by auto
  then show ?case using h1 crlf_Cons [of c cs] by auto
qed

lemma lock_console_free:
  assumes "lock_free (con_lock st)"
  shows "lock_console k st = Some (Inr (st\<lparr>con_lock := (con_lock st)\<lparr>locked := True, lcpu := Some k\<rparr>\<rparr>))"
    and "unlock_console k (st\<lparr>con_lock := (con_lock st)\<lparr>locked := True, lcpu := Some k\<rparr>, hw := h\<rparr>) = Some (Inr (st\<lparr>hw := h\<rparr>))"
    and "unlock_console k (st\<lparr>con_lock := (con_lock st)\<lparr>locked := True, lcpu := Some k\<rparr>, hw := h, panicked_flag := p\<rparr>) = Some (Inr (st\<lparr>hw := h, panicked_flag := p\<rparr>))"
    and "unlock_console k (st\<lparr>con_lock := (con_lock st)\<lparr>locked := True, lcpu := Some k\<rparr>\<rparr>) = Some (Inr st)"
  using assms by (simp_all add: lock_console_def unlock_console_def)

lemma printf_sends:
  assumes line: "serial_line m sent busy" and "lock_free (con_lock st)" "\<not> panicked_flag st"
  shows "\<exists>h. printf m k (concat (map spelling ds)) (concat (map argument ds)) st = Some (Inr (True, st\<lparr>hw := h\<rparr>)) \<and>
    sent h = sent (hw st) @ crlf (concat (map directive_text ds))"
proof -
  let ?st = "st\<lparr>con_lock := (con_lock st)\<lparr>locked := True, lcpu := Some k\<rparr>\<rparr>"
  obtain h where h: "put_string (uart_put_char m) (concat (map directive_text ds)) ?st = Some (Inr (?st\<lparr>hw := h\<rparr>))"
    "sent h = sent (hw ?st) @ crlf (concat (map directive_text ds))"
    using put_string_sends [OF line, of "concat (map directive_text ds)" ?st] by blast
  have "vformat (uart_put_char m) (concat (map spelling ds)) (concat (map argument ds)) ?st = Some (Inr (?st\<lparr>hw := h\<rparr>))"
    using h(1) vformat_text [of "uart_put_char m" ds "[]"] by simp
  then have "printf m k (concat (map spelling ds)) (concat (map argument ds)) st = Some (Inr (True, st\<lparr>hw := h\<rparr>))"
    using assms(2,3) by (simp add: printf_def vprintf_def check_panicked_def lock_console_free)
  then show ?thesis using h(2) by auto
qed

text \<open>C20: on a working serial line, \<open>printf\<close> on a free console in a kernel that has not panicked returns, the lock
  released, and the line has transmitted exactly the text the format stands for, each newline followed
  by a carriage return, after what was sent before.\<close>

theorem printf_transmits:
  assumes line: "serial_line m sent busy" and "lock_free (con_lock st)" "\<not> panicked_flag st"
  shows "\<exists>h. printf m k (concat (map spelling ds)) (concat (map argument ds)) st = Some (Inr (True, st\<lparr>hw := h\<rparr>)) \<and>
    sent h = sent (hw st) @ crlf (concat (map directive_text ds))"
  by (rule printf_sends [OF assms])

lemma vprintf_panicked:
  assumes "lock_free (con_lock st)" "panicked_flag st"
  shows "printf m k fmt args st = Some (Inr (no_return m st))" "puts m k str st = Some (Inr (no_return m st))"
    "panic m k file line fmt args st = Some (Inr (no_return m st))"
  using assms by (simp_all add: printf_def vprintf_def puts_def panic_def check_panicked_def lock_console_free)

definition panic_text :: "nat \<Rightarrow> string \<Rightarrow> usize \<Rightarrow> string \<Rightarrow> string" where
  "panic_text k file line msg =
     replicate 32 (CHR ''='') @ [CHR 0x0A] @ ''KERNEL PANIC at CPU '' @ nat_string 10 k @ '':'' @ [CHR 0x0A] @
     ''file: '' @ file @ [CHR 0x0A] @ ''line: '' @ nat_string 10 (unat line) @ [CHR 0x0A] @ msg @ [CHR 0x0A]"

lemma panic_puts:
  assumes "lock_free (con_lock st)" "\<not> panicked_flag st" "k < 2 ^ 64"
  shows "panic m k file line (concat (map spelling ds)) (concat (map argument ds)) st =
    bind_run (put_string (uart_put_char m) (panic_text k file line (concat (map directive_text ds)))
      (st\<lparr>con_lock := (con_lock st)\<lparr>locked := True, lcpu := Some k\<rparr>, panicked_flag := True\<rparr>)) (\<lambda>st1.
    bind_run (unlock_console k st1) (\<lambda>st2. Some (Inr (no_return m st2))))"
proof -
  have l: "concat (map (spelling \<circ> Lit) cs) = cs" if "CHR ''%'' \<notin> set cs" for cs using that by (induction cs) auto
  have la: "concat (map (argument \<circ> Lit) cs) = []" "concat (map (directive_text \<circ> Lit) cs) = cs" for cs by (induction cs) auto
  have f1: "format put (''KERNEL PANIC at CPU %zu:'' @ [CHR 0x0A]) [VInt (of_nat k)] s =
      put_string put (''KERNEL PANIC at CPU '' @ nat_string 10 k @ '':'' @ [CHR 0x0A]) s" for put :: "'a kdev put_char" and s
    using vformat_text [of put "map Lit ''KERNEL PANIC at CPU '' @ [Num Czu (of_nat k)] @ map Lit ('':'' @ [CHR 0x0A])" "[]" s] assms(3)
    by (simp add: format_def l la unat_of_nat_u64)
  have f2: "format put (''file: %s'' @ [CHR 0x0A]) [VStr (Some file)] s =
      put_string put (''file: '' @ file @ [CHR 0x0A]) s" for put :: "'a kdev put_char" and s
    using vformat_text [of put "map Lit ''file: '' @ [Str (Some file)] @ map Lit [CHR 0x0A]" "[]" s]
    by (simp add: format_def l la)
  have f3: "format put (''line: %zu'' @ [CHR 0x0A]) [VInt line] s =
      put_string put (''line: '' @ nat_string 10 (unat line) @ [CHR 0x0A]) s" for put :: "'a kdev put_char" and s
    using vformat_text [of put "map Lit ''line: '' @ [Num Czu line] @ map Lit [CHR 0x0A]" "[]" s]
    by (simp add: format_def l la)
  have c: "put_string put [c] = put c" for put :: "'a kdev put_char" and c
    by (simp add: fun_eq_iff bind_run_def split: option.split sum.split)
  have app: "put_string put (xs @ ys) = (\<lambda>s. bind_run (put_string put xs s) (put_string put ys))" for put :: "'a kdev put_char" and xs ys
    by (simp add: fun_eq_iff put_string_append)
  have f4: "vformat put (concat (map spelling ds)) (concat (map argument ds)) s = put_string put (concat (map directive_text ds)) s"
    for put :: "'a kdev put_char" and s using vformat_text [of put ds "[]" s] by simp
  show ?thesis
    unfolding panic_def Let_def f1 f2 f3 f4 panic_text_def app c bind_run_assoc
    using assms(1,2) by (simp add: check_panicked_def lock_console_free bind_run_assoc del: put_string.simps)
qed


text \<open>C33: a panic on a free console of a working serial line transmits the bar, the CPU, the file, the line and the
  formatted message, once and in full, and releases the lock. From then on no call of \<open>printf\<close>, \<open>puts\<close> or
  \<open>_panic\<close>, by any CPU, returns or transmits anything: the CPU parks with its interrupts masked.\<close>

theorem panic_silences:
  assumes line: "serial_line m sent busy" and free: "lock_free (con_lock st)" "\<not> panicked_flag st" and k: "k < 2 ^ 64"
  shows "\<exists>st'. panic m k file no (concat (map spelling ds)) (concat (map argument ds)) st = Some (Inr (False, st')) \<and>
    sent (hw st') = sent (hw st) @ crlf (panic_text k file no (concat (map directive_text ds))) \<and>
    lock_free (con_lock st') \<and>
    (\<forall>k2 fmt2 args2 str2 file2 no2. \<exists>st''.
       printf m k2 fmt2 args2 st' = Some (Inr (False, st'')) \<and> puts m k2 str2 st' = Some (Inr (False, st'')) \<and>
       panic m k2 file2 no2 fmt2 args2 st' = Some (Inr (False, st'')) \<and>
       sent (hw st'') = sent (hw st') \<and> panicked_flag st'' \<and> con_lock st'' = con_lock st')"
proof -
  let ?st = "st\<lparr>con_lock := (con_lock st)\<lparr>locked := True, lcpu := Some k\<rparr>, panicked_flag := True\<rparr>"
  let ?text = "panic_text k file no (concat (map directive_text ds))"
  obtain h where h: "put_string (uart_put_char m) ?text ?st = Some (Inr (?st\<lparr>hw := h\<rparr>))" "sent h = sent (hw st) @ crlf ?text"
    using put_string_sends [OF line, of ?text ?st] by auto
  have "unlock_console k (?st\<lparr>hw := h\<rparr>) = Some (Inr (st\<lparr>hw := h, panicked_flag := True\<rparr>))"
    using free(1) by (simp add: unlock_console_def)
  then have run: "panic m k file no (concat (map spelling ds)) (concat (map argument ds)) st =
      Some (Inr (no_return m (st\<lparr>hw := h, panicked_flag := True\<rparr>)))"
    using h(1) panic_puts [OF free k, of m _ no ds] by simp
  have quiet: "sent (arch_disable_trap m h') = sent h'" for h' using line by (simp add: serial_line_def arch_disable_trap_def)
  let ?e = "st\<lparr>hw := arch_disable_trap m h, panicked_flag := True\<rparr>"
  have p: "lock_free (con_lock ?e)" "panicked_flag ?e" using free by simp_all
  show ?thesis
    using run h(2) quiet p by (intro exI [of _ ?e]) (simp add: vprintf_panicked [OF p] no_return_def)
qed

subsection \<open>A serial line\<close>

text \<open>A UART that needs three polls after each byte before it accepts the next one; its state is the number of
  polls left and what it sent.\<close>

definition line_example :: "(nat \<times> u8 list) machine" where
  "line_example = \<lparr>mread = (\<lambda>a h. if a = AUX_MU_LSR_REG then (if fst h = 0 then 0x60 else 0x40, (fst h - 1, snd h)) else (0, h)),
     mwrite = (\<lambda>a v h. if a = AUX_MU_IO_REG then (3, snd h @ [ucast v]) else h),
     sys_read = (\<lambda>r h. (0, h)), sys_write = (\<lambda>r v h. h), exec_insn = (\<lambda>i h. h)\<rparr>"

definition dev_example :: "(nat \<times> u8 list) kdev" where
  "dev_example = \<lparr>hw = (3, []), one_ms = 0, clock_handler = None, irq_handler = replicate NUM_IRQ_TYPES None,
     con_lock = \<lparr>locked = False, lcpu = None, lname = ''console''\<rparr>, panicked_flag = False\<rparr>"

lemma line_example_ok: "serial_line line_example snd fst"
  unfolding serial_line_def line_example_def by (simp split: prod.split)

lemma dev_example_ok: "lock_free (con_lock dev_example)" "\<not> panicked_flag dev_example" "hw dev_example = (3, [])"
  by (simp_all add: dev_example_def lock_free_def)

theorem printf_transmits_witness:
  "\<exists>st'. printf line_example 0 (concat (map spelling [Lit (CHR ''x''), Num Cd (-15), Lit (CHR 0x0A)]))
     (concat (map argument [Lit (CHR ''x''), Num Cd (-15), Lit (CHR 0x0A)])) dev_example = Some (Inr (True, st')) \<and>
    snd (hw st') = [0x78, 0x2D, 0x31, 0x35, 0x0A, 0x0D]"
proof -
  have "int_string 10 (- 15) = ''-15''" by (simp add: int_string_def nat_string.simps digit_def)
  then have t: "crlf (concat (map directive_text [Lit (CHR ''x''), Num Cd (-15), Lit (CHR 0x0A)])) = [0x78, 0x2D, 0x31, 0x35, 0x0A, 0x0D]"
    by (simp add: crlf_def of_char_def)
  obtain h where "printf line_example 0 (concat (map spelling [Lit (CHR ''x''), Num Cd (-15), Lit (CHR 0x0A)]))
     (concat (map argument [Lit (CHR ''x''), Num Cd (-15), Lit (CHR 0x0A)])) dev_example = Some (Inr (True, dev_example\<lparr>hw := h\<rparr>))"
    "snd h = snd (hw dev_example) @ crlf (concat (map directive_text [Lit (CHR ''x''), Num Cd (-15), Lit (CHR 0x0A)]))"
    using printf_transmits [OF line_example_ok dev_example_ok(1,2)] by blast
  then show ?thesis unfolding t dev_example_ok(3) by (intro exI [of _ "dev_example\<lparr>hw := h\<rparr>"] conjI) simp_all
qed

theorem panic_silences_witness:
  "\<exists>st' st''. panic line_example 1 ''proc.c'' 30 (concat (map spelling [Lit (CHR ''x'')])) (concat (map argument [Lit (CHR ''x'')])) dev_example
      = Some (Inr (False, st')) \<and> puts line_example 2 ''hello'' st' = Some (Inr (False, st'')) \<and> snd (hw st'') = snd (hw st')"
proof -
  have "(1 :: nat) < 2 ^ 64" by simp
  from panic_silences [OF line_example_ok dev_example_ok(1,2) this] show ?thesis by blast
qed

end
