(* ===== verification/KTrap.thy ===== *)
theory KTrap
  imports KConsoleSpec KSd
begin

text \<open>
  Traps and system calls: \<open>src/core/trap.c\<close>, \<open>syscall.c\<close>, \<open>sysproc_my.c\<close>, \<open>exit\<close> of \<open>proc.c\<close> with its message,
  and the timer handler and the start of a CPU in \<open>src/main.c\<close>. They run on the state of the whole kernel:
  devices, SD driver and processes. Where a routine gives up the CPU, the parameter \<open>others\<close> is what happens until some
  scheduler switches back to it: the other processes run and change the state, or nobody ever switches
  back, which is \<open>None\<close>. A CPU that parks for ever in the console does not return either.\<close>

subsection \<open>The trap frame\<close>

record Trapframe =
  tf_SP_EL0 :: u64
  tf_SPSR_EL1 :: u64
  tf_ELR_EL1 :: u64
  r0 :: u64
  r1 :: u64
  r2 :: u64
  r3 :: u64
  r4 :: u64
  r5 :: u64
  r6 :: u64
  r7 :: u64
  r8 :: u64
  r9 :: u64
  r10 :: u64
  r11 :: u64
  r12 :: u64
  r13 :: u64
  r14 :: u64
  r15 :: u64
  r16 :: u64
  r17 :: u64
  r18 :: u64
  r19 :: u64
  r20 :: u64
  r21 :: u64
  r22 :: u64
  r23 :: u64
  r24 :: u64
  r25 :: u64
  r26 :: u64
  r27 :: u64
  r28 :: u64
  r29 :: u64
  r30 :: u64

abbreviation ESR_EC_SHIFT :: nat where "ESR_EC_SHIFT \<equiv> 26"
abbreviation ESR_ISS_MASK :: u64 where "ESR_ISS_MASK \<equiv> 0xFFFFFF"
abbreviation ESR_IR_MASK :: u64 where "ESR_IR_MASK \<equiv> 0x2000000"
abbreviation ESR_EC_UNKNOWN :: u64 where "ESR_EC_UNKNOWN \<equiv> 0"
abbreviation ESR_EC_SVC64 :: u64 where "ESR_EC_SVC64 \<equiv> 0x15"
abbreviation SYS_myexecve :: u64 where "SYS_myexecve \<equiv> 456"
abbreviation SYS_myexit :: u64 where "SYS_myexit \<equiv> 457"
abbreviation SYS_myprint :: u64 where "SYS_myprint \<equiv> 458"

type_synonym 'h others = "switch \<Rightarrow> ('h sdsys, unit) act"

text \<open>A message of the kernel, and a routine of the process layer that switches away.\<close>

definition kprintf :: "'h machine \<Rightarrow> nat \<Rightarrow> string \<Rightarrow> va list \<Rightarrow> ('h sdsys, unit) act" where
  "kprintf m k fmt arg s =
     bind_run (printf m k fmt arg (sdev s)) (\<lambda>(returns, d). if returns then Some (Inr ((), s\<lparr>sdev := d\<rparr>)) else None)"

definition give_up :: "'h others \<Rightarrow> (ksys \<Rightarrow> (ksys \<times> switch) res) \<Rightarrow> ('h sdsys, unit) act" where
  "give_up others f s = bind_run (Some (f (skern s))) (\<lambda>(ks, sw). others sw (s\<lparr>skern := ks\<rparr>))"

definition this_cpu :: "'h machine \<Rightarrow> ('h sdsys, usize) act" where
  "this_cpu m s = (case cpuid m (hw (sdev s)) of (i, h) \<Rightarrow> Some (Inr (i, s\<lparr>sdev := (sdev s)\<lparr>hw := h\<rparr>\<rparr>)))"

definition this_proc :: "nat \<Rightarrow> ('h sdsys, procref) act" where
  "this_proc k s = (case cproc (cpus (skern s) k) of None \<Rightarrow> Some (Inl (Fault ''thiscpu()->proc'')) | Some p \<Rightarrow> Some (Inr (p, s)))"

definition proc_pid :: "procref \<Rightarrow> ('h sdsys, va) act" where
  "proc_pid p s = Some (Inr (VInt (scast (pid (proc_at (conts (skern s)) p))), s))"

subsection \<open>System calls\<close>

definition exit_call :: "'h machine \<Rightarrow> 'h others \<Rightarrow> nat \<Rightarrow> ('h sdsys, unit) act" where
  "exit_call m others k =
     bind_act (this_proc k) (\<lambda>p.
     then_act (\<lambda>s. Some (Inr ((), s\<lparr>skern := set_proc (skern s) p (\<lambda>x. x\<lparr>pstate := ZOMBIE\<rparr>)\<rparr>)))
     (bind_act (proc_pid p) (\<lambda>i.
     then_act (kprintf m k (CHR 0x0A # ''[exit] process (pid = %d) at exit.'' @ [CHR 0x0A]) [i])
     (then_act (give_up others (sched k))
     (fails (Panic ''ERROR: ZOMBIE trying return from exit''))))))"

text \<open>The string at an address of the user program is the parameter \<open>user_string\<close>.\<close>

definition sys_myexecve :: "'h machine \<Rightarrow> (addr \<Rightarrow> string option) \<Rightarrow> nat \<Rightarrow> addr \<Rightarrow> ('h sdsys, unit) act" where
  "sys_myexecve m user_string k a = kprintf m k (''sys_exec: executing %s'' @ [CHR 0x0A]) [VStr (user_string a)]"

definition sys_myexit :: "'h machine \<Rightarrow> 'h others \<Rightarrow> nat \<Rightarrow> ('h sdsys, unit) act" where
  "sys_myexit m others k = then_act (kprintf m k (''sys_exit: in exit'' @ [CHR 0x0A]) []) (exit_call m others k)"

text \<open>The identifier of the calling process in the root container: of the last matching entry, -1 if
  there is none.\<close>

primrec find_rootpid :: "pid_mapping list \<Rightarrow> procref option \<Rightarrow> int \<Rightarrow> int" where
  "find_rootpid [] p r = r"
| "find_rootpid (m # ms) p r = find_rootpid ms p (if mvalid m \<and> mproc m = p then sint (pid_local m) else r)"

definition sys_myprint :: "'h machine \<Rightarrow> 'h others \<Rightarrow> nat \<Rightarrow> u32 \<Rightarrow> ('h sdsys, unit) act" where
  "sys_myprint m others k x s =
     (let rootpid = find_rootpid (take NPID (pmap (conts (skern s) (root_container (skern s))))) (cproc (cpus (skern s) k)) (-1) in
      if \<not> 0 < rootpid then Some (Inl (Panic ''rootpid > 0''))
      else
        bind_act (this_proc k) (\<lambda>p.
        bind_act (proc_pid p) (\<lambda>i.
        then_act (kprintf m k (''pid %d, pid in root %d, cnt %d'' @ [CHR 0x0A]) [i, VInt (of_int rootpid), VInt (scast x)])
        (give_up others (yield k)))) s)"

definition syscall_dispatch :: "'h machine \<Rightarrow> 'h others \<Rightarrow> (addr \<Rightarrow> string option) \<Rightarrow> nat \<Rightarrow> Trapframe \<Rightarrow> ('h sdsys, unit) act" where
  "syscall_dispatch m others user_string k frame =
     (if r8 frame = SYS_myexecve then sys_myexecve m user_string k (r0 frame)
      else if r8 frame = SYS_myexit then sys_myexit m others k
      else if r8 frame = SYS_myprint then sys_myprint m others k (ucast (r0 frame))
      else fails (Panic ''Unknown syscall number.''))"

subsection \<open>Interrupts\<close>

definition hello :: "'h machine \<Rightarrow> 'h others \<Rightarrow> nat \<Rightarrow> ('h sdsys, unit) act" where
  "hello m others k =
     bind_act (this_cpu m) (\<lambda>i.
     then_act (kprintf m k (''CPU %d: HELLO!'' @ [CHR 0x0A]) [VInt i])
     (then_act (dev_act (reset_clock m 1000))
     (give_up others (yield k))))"

text \<open>The functions behind the pointers the drivers store; a handler returns no value.\<close>

definition run_act :: "('s, unit) act \<Rightarrow> 's \<Rightarrow> 's res option" where
  "run_act f s = bind_run (f s) (\<lambda>(_, s1). Some (Inr s1))"

definition call_clock :: "'h machine \<Rightarrow> 'h others \<Rightarrow> nat \<Rightarrow> ClockHandler \<Rightarrow> 'h sdsys \<Rightarrow> 'h sdsys res option" where
  "call_clock m others k f = (case f of hello_handler \<Rightarrow> run_act (hello m others k))"

definition call_irq :: "'h machine \<Rightarrow> 'h others \<Rightarrow> nat \<Rightarrow> InterruptHandler \<Rightarrow> 'h sdsys \<Rightarrow> 'h sdsys res option" where
  "call_irq m others k f =
     (case f of
        uart_intr_handler \<Rightarrow> (\<lambda>s. bind_run (uart_intr m k (sdev s)) (\<lambda>(returns, d). if returns then Some (Inr (s\<lparr>sdev := d\<rparr>)) else None))
      | sd_intr_handler \<Rightarrow> run_act (bind_act (sd_intr m k) others))"

subsection \<open>Traps\<close>

definition init_trap :: "'h machine \<Rightarrow> addr \<Rightarrow> 'h kdev \<Rightarrow> 'h kdev" where
  "init_trap m exception_vector st = st\<lparr>hw := arch_reset_esr m (arch_set_vbar m exception_vector (hw st))\<rparr>"

definition trap_global_handler ::
    "'h machine \<Rightarrow> 'h others \<Rightarrow> (addr \<Rightarrow> string option) \<Rightarrow> nat \<Rightarrow> Trapframe \<Rightarrow> 'h sdsys \<Rightarrow> 'h sdsys res option" where
  "trap_global_handler m others user_string k frame s =
     (case arch_get_esr m (hw (sdev s)) of (esr, h) \<Rightarrow>
      let ec = drop_bit ESR_EC_SHIFT esr; iss = esr AND ESR_ISS_MASK; ir = esr AND ESR_IR_MASK;
          s1 = s\<lparr>sdev := (sdev s)\<lparr>hw := arch_reset_esr m h\<rparr>\<rparr> in
      if ec = ESR_EC_UNKNOWN then
        if ir \<noteq> 0 then Some (Inl (Panic ''esr_ec unknown error''))
        else interrupt_global_handler m sdev (\<lambda>d s. s\<lparr>sdev := d\<rparr>) (call_clock m others k) (call_irq m others k) s1
      else if ec = ESR_EC_SVC64 then
        bind_run (run_act (syscall_dispatch m others user_string k frame) s1) (\<lambda>s2.
          if iss \<noteq> 0 then Some (Inl (Panic ''iss should not be zero'')) else Some (Inr s2))
      else run_act (exit_call m others k) s1)"

definition trap_error_handler :: "'h machine \<Rightarrow> nat \<Rightarrow> string \<Rightarrow> u64 \<Rightarrow> 'h kdev \<Rightarrow> (bool \<times> 'h kdev) res option" where
  "trap_error_handler m k trap_c ty st = panic m k trap_c 63 ''unknown trap type: %d'' [VInt ty] st"

definition init_system_per_cpu :: "'h machine \<Rightarrow> addr \<Rightarrow> nat \<Rightarrow> 'h sdsys \<Rightarrow> 'h sdsys" where
  "init_system_per_cpu m exception_vector k s =
     s\<lparr>sdev := init_trap m exception_vector (set_clock_handler hello_handler (init_clock m (sdev s))),
       skern := init_cpu k (root_container (skern s)) (skern s)\<rparr>"

end
