(* ===== verification/KBlockDev.thy ===== *)
theory KBlockDev
  imports KSdSpec KTrap
begin

text \<open>
  Requests to the disk from start to end: a process that calls \<open>sdrw\<close> of \<open>src/driver/sd.c\<close> sleeps, the interrupt of the
  controller completes the request and wakes it; and the block device of \<open>src/fs/block_device.c\<close>, whose
  functions place a buffer on the stack and call \<open>sdrw\<close>.\<close>

definition sdrw_call :: "'h machine \<Rightarrow> 'h others \<Rightarrow> nat \<Rightarrow> addr \<Rightarrow> ('h sdsys, unit) act" where
  "sdrw_call m others k b =
     bind_act (sdrw m k b) (\<lambda>r. case r of None \<Rightarrow> ret () | Some sw \<Rightarrow> then_act (others sw) (sdrw_resume b))"

text \<open>\<open>b\<close> is the address of the buffer on the stack of the caller.\<close>

definition block_read :: "'h machine \<Rightarrow> 'h others \<Rightarrow> nat \<Rightarrow> addr \<Rightarrow> usize \<Rightarrow> ('h sdsys, u8 list) act" where
  "block_read m others k b no =
     then_act (set_buf b (\<lambda>x. x\<lparr>blockno := ucast no, bflags := 0\<rparr>))
     (then_act (sdrw_call m others k b) (buf_act b bdata))"

definition block_write :: "'h machine \<Rightarrow> 'h others \<Rightarrow> nat \<Rightarrow> addr \<Rightarrow> usize \<Rightarrow> u8 list \<Rightarrow> ('h sdsys, unit) act" where
  "block_write m others k b no buffer =
     then_act (set_buf b (\<lambda>x. x\<lparr>blockno := ucast no, bflags := B_DIRTY OR B_VALID, bdata := buffer\<rparr>))
     (sdrw_call m others k b)"

abbreviation MBR_START :: usize where "MBR_START \<equiv> 0x20800"

text \<open>The bytes \<open>get_super_block\<close> points to after \<open>init_block_device\<close>.\<close>

definition init_block_device :: "'h machine \<Rightarrow> 'h others \<Rightarrow> nat \<Rightarrow> addr \<Rightarrow> u32 list \<Rightarrow> addr \<Rightarrow> addr \<Rightarrow> ('h sdsys, u8 list) act" where
  "init_block_device m others k mbox old mbr b =
     then_act (sd_init m mbox old mbr) (block_read m others k b MBR_START)"

subsection \<open>Steps of the request path\<close>

lemma does_lock_sd: "lock_free (sdlock s) \<Longrightarrow> does \<alpha> (lock_sd k) s e () (s\<lparr>sdlock := (sdlock s)\<lparr>locked := True, lcpu := Some k\<rparr>\<rparr>) e"
  by (rule does_state) (simp add: lock_sd_def hwset_def)

lemma does_unlock_sd:
  assumes "lock_free l" "l = sdlock s"
  shows "does \<alpha> (unlock_sd k) (s\<lparr>sdlock := l\<lparr>locked := True, lcpu := Some k\<rparr>\<rparr>) e () s e"
proof -
  have "unlock_sd k (hwset (s\<lparr>sdlock := l\<lparr>locked := True, lcpu := Some k\<rparr>\<rparr>) h) = Some (Inr ((), hwset s h))" for h
    using assms by (cases s, cases l) (simp add: unlock_sd_def release_spinlock_def holding_spinlock_def hwset_def lock_free_def)
  then show ?thesis by (rule does_state)
qed

lemma does_queue: "f (squeue s) = Inr (x, q) \<Longrightarrow> does \<alpha> (queue_act f) s e x (s\<lparr>squeue := q\<rparr>) e"
  by (rule does_state) (simp add: queue_act_def)

lemma start_request:
  assumes d: "drives m \<alpha> c L" and L: "L < 1000000" and e: "eirq e = 0" "epend e = 0" and ty: "ctype (sdCard s) = SD_TYPE_2_HC"
    and b: "b \<noteq> NULL" "(b + 24) AND 3 = 0" and x: "x = bufs (squeue s) b"
    and req: "bflags x = 0 \<and> length (estore e (blockno x)) = 128 \<or> bflags x = B_DIRTY \<and> length (bdata x) = 512"
  shows "\<exists>cd e1 e2. ctype cd = ctype (sdCard s) \<and> (\<forall>w. does \<alpha> (sd_start m b (bflags x \<noteq> 0)) s (e\<lparr>ewait := w\<rparr>) () (s\<lparr>sdCard := cd\<rparr>) e1) \<and>
    estore e2 = (if bflags x = 0 then estore e else (estore e)(blockno x := u32_words 128 (bdata x))) \<and>
    (\<forall>s2. bufs (squeue s2) b = x \<longrightarrow> does \<alpha> (when_act (bflags x = 0) (sd_doit m b)) s2 e1 ()
      (upd_buf s2 b (\<lambda>y. y\<lparr>bdata := if bflags x = 0 then bytes_of_words (estore e (blockno x)) else bdata x\<rparr>))
      (raises L INT_DATA_DONE (quiet e2)))"
proof -
  let ?d = "if bflags x = 0 then bytes_of_words (estore e (blockno x)) else bdata x"
  obtain cd e1 e2 where cd: "ctype cd = ctype (sdCard s)" and start: "\<And>w t s2 e3. does \<alpha> (when_act t (sd_doit m b)) (s\<lparr>sdCard := cd\<rparr>) e1 () s2 e3 \<Longrightarrow>
        does \<alpha> (sd_start m b t) s (e\<lparr>ewait := w\<rparr>) () s2 e3"
      and e2: "estore e2 = (if bflags x = 0 then estore e else (estore e)(blockno x := u32_words 128 (bdata x)))"
      and doit: "\<And>s2. bufs (squeue s2) b = x \<Longrightarrow> does \<alpha> (sd_doit m b) s2 e1 () (upd_buf s2 b (\<lambda>y. y\<lparr>bdata := ?d\<rparr>))
        (raises L INT_DATA_DONE (quiet e2))"
    using transfer [OF d L e ty b x req] by auto
  show ?thesis
  proof (cases "bflags x = 0")
    case True
    have "does \<alpha> (sd_start m b False) s (e\<lparr>ewait := w\<rparr>) () (s\<lparr>sdCard := cd\<rparr>) e1" for w by (rule start) (simp add: does_ret)
    with True cd e2 doit show ?thesis by (intro exI [of _ cd] exI [of _ e1] exI [of _ e2]) simp
  next
    case False
    have same: "upd_buf s2 b (\<lambda>y. y\<lparr>bdata := bdata x\<rparr>) = s2" if "bufs (squeue s2) b = x" for s2 :: "'a sdsys"
      using that by (simp add: upd_buf_def fun_upd_idem)
    have "does \<alpha> (sd_start m b True) s (e\<lparr>ewait := w\<rparr>) () (s\<lparr>sdCard := cd\<rparr>) (raises L INT_DATA_DONE (quiet e2))" for w
      by (rule start) (use doit [of "s\<lparr>sdCard := cd\<rparr>"] False same [of "s\<lparr>sdCard := cd\<rparr>"] x in simp)
    with False cd e2 show ?thesis
      by (intro exI [of _ cd] exI [of _ "raises L INT_DATA_DONE (quiet e2)"] exI [of _ e2]) (simp add: same does_ret)
  qed
qed

lemma sdrw_queues:
  assumes d: "drives m \<alpha> c L" and e: "eirq e = 0" "epend e = 0" and b: "b \<noteq> NULL" and x: "x = bufs (squeue s) b" "bflags x \<noteq> B_VALID"
    and q: "queue_holds (squeue s) []" "may_queue (squeue s) b" and lk: "lock_free (sdlock s)"
    and start: "\<And>s1 w. s1 = s\<lparr>sdlock := (sdlock s)\<lparr>locked := True, lcpu := Some k\<rparr>\<rparr> \<Longrightarrow>
      does \<alpha> (sd_start m b (bflags x \<noteq> 0)) s1 (e\<lparr>ewait := w\<rparr>) () (s1\<lparr>sdCard := cd\<rparr>) e1"
  shows "\<exists>q1. does \<alpha> (sdrw_queue m k b) s e True (s\<lparr>sdCard := cd, squeue := q1\<rparr>) e1 \<and>
    queue_holds q1 [b] \<and> bufs q1 = bufs (squeue s) \<and> bufhead q1 = bufhead (squeue s)"
proof -
  obtain w where w: "tick e = e\<lparr>ewait := w\<rparr>" "eirq (tick e) = 0"
    using e by (auto simp: tick_def intro!: that [of "ewait e"] that [of "ewait e - 1"])
  let ?l = "(sdlock s)\<lparr>locked := True, lcpu := Some k\<rparr>"
  let ?s1 = "s\<lparr>sdlock := ?l\<rparr>"
  obtain q1 where q1: "add_task k b (squeue s) = Inr q1" "queue_holds q1 [b]" "bufs q1 = bufs (squeue s)" "bufhead q1 = bufhead (squeue s)"
    using add_task_holds [OF q, of k] by auto
  have irq: "does \<alpha> (reg m EMMC_INTERRUPT) s e 0 s (e\<lparr>ewait := w\<rparr>)" using does_irq [OF d, of s e] unfolding w(2) unfolding w(1) .
  have fl: "does \<alpha> (buf_act b bflags) s (e\<lparr>ewait := w\<rparr>) (bflags x) s (e\<lparr>ewait := w\<rparr>)" using does_buf [OF b, of \<alpha> bflags s] unfolding x(1) .
  have lock: "does \<alpha> (lock_sd k) s (e\<lparr>ewait := w\<rparr>) () ?s1 (e\<lparr>ewait := w\<rparr>)" by (rule does_lock_sd [OF lk])
  have "try_fetch_task k (squeue s) = Inr (NULL, squeue s)" using try_fetch_task_holds [OF q(1), of k] by simp
  then have peek: "does \<alpha> (queue_act (try_fetch_task k)) ?s1 (e\<lparr>ewait := w\<rparr>) NULL ?s1 (e\<lparr>ewait := w\<rparr>)"
    using does_queue [of "try_fetch_task k" ?s1 NULL "squeue s" \<alpha>] by simp
  have st: "does \<alpha> (when_act (NULL = NULL) (sd_start m b (bflags x \<noteq> 0))) ?s1 (e\<lparr>ewait := w\<rparr>) () (?s1\<lparr>sdCard := cd\<rparr>) e1"
    using start [OF refl] by simp
  have add: "does \<alpha> (queue_act (\<lambda>q. bind_res (add_task k b q) (\<lambda>q1. Inr ((), q1)))) (?s1\<lparr>sdCard := cd\<rparr>) e1 () (?s1\<lparr>sdCard := cd, squeue := q1\<rparr>) e1"
    by (rule does_queue) (use q1(1) in simp)
  have unlock: "does \<alpha> (unlock_sd k) (?s1\<lparr>sdCard := cd, squeue := q1\<rparr>) e1 () (s\<lparr>sdCard := cd, squeue := q1\<rparr>) e1"
  proof -
    have eq: "?s1\<lparr>sdCard := cd, squeue := q1\<rparr> = s\<lparr>sdCard := cd, squeue := q1, sdlock := ?l\<rparr>" by (cases s) simp
    show ?thesis unfolding eq using does_unlock_sd [OF lk, of "s\<lparr>sdCard := cd, squeue := q1\<rparr>" \<alpha> k e1] by simp
  qed
  have "does \<alpha> (sdrw_queue m k b) s e True (s\<lparr>sdCard := cd, squeue := q1\<rparr>) e1" unfolding sdrw_queue_def
    by (rule does_bind [OF irq], rule does_assert [OF refl], rule does_bind [OF fl], subst if_not_P [OF x(2)])
      (intro does_then [OF does_disb [OF d]] does_then [OF lock] does_bind [OF peek] does_then [OF st] does_then [OF add]
        does_then [OF unlock] does_ret)
  with q1 show ?thesis by blast
qed

lemma does_sdrw_sleep:
  "sleep k (skern s) b None = Inr (ks, None, sw) \<Longrightarrow> does \<alpha> (sdrw_sleep k b) s e (Some sw) (s\<lparr>skern := ks\<rparr>) e"
  by (rule does_state) (simp add: sdrw_sleep_def)

lemma sd_intr_completes:
  assumes d: "drives m \<alpha> c L" and L: "L < 1000000" and b: "b \<noteq> NULL" and x: "x = bufs (squeue s) b" "bflags x \<noteq> B_VALID"
    and q: "queue_holds (squeue s) [b]" and lk: "lock_free (sdlock s)"
    and doit: "\<And>s2. bufs (squeue s2) b = x \<Longrightarrow> does \<alpha> (when_act (bflags x = 0) (sd_doit m b)) s2 e1 ()
      (upd_buf s2 b (\<lambda>y. y\<lparr>bdata := bs\<rparr>)) (raises L INT_DATA_DONE (quiet e2))"
    and wk: "wakeup (skern s) b = Some ks" and y: "yield k ks = Inr (ks2, sw)"
  shows "\<exists>q2. does \<alpha> (sd_intr m k) s e1 sw (s\<lparr>squeue := q2, skern := ks2\<rparr>) (quiet e2) \<and> queue_holds q2 [] \<and>
    bufs q2 = (bufs (squeue s))(b := x\<lparr>bdata := bs, bflags := B_VALID\<rparr>) \<and> bufhead q2 = bufhead (squeue s)"
proof -
  let ?l = "(sdlock s)\<lparr>locked := True, lcpu := Some k\<rparr>" and ?s1 = "s\<lparr>sdlock := (sdlock s)\<lparr>locked := True, lcpu := Some k\<rparr>\<rparr>"
  obtain q1 where q1: "fetch_task k (squeue s) = Inr (b, q1)" "queue_holds q1 []" "bufs q1 = bufs (squeue s)" "bufhead q1 = bufhead (squeue s)"
    using fetch_task_holds(1) [OF q, of k] fetch_task_holds(2) [OF q] by auto
  let ?q2 = "q1\<lparr>bufs := (bufs q1)(b := x\<lparr>bdata := bs, bflags := B_VALID\<rparr>)\<rparr>"
  have q2: "queue_holds ?q2 []" using q1(2) by (simp add: queue_holds_def)
  have lock: "does \<alpha> (lock_sd k) s e1 () ?s1 e1" by (rule does_lock_sd [OF lk])
  have fet: "does \<alpha> (queue_act (fetch_task k)) ?s1 e1 b (?s1\<lparr>squeue := q1\<rparr>) e1" by (rule does_queue) (use q1(1) in simp)
  have fl: "does \<alpha> (buf_act b bflags) (?s1\<lparr>squeue := q1\<rparr>) e1 (bflags x) (?s1\<lparr>squeue := q1\<rparr>) e1"
    using does_buf [OF b, of \<alpha> bflags "?s1\<lparr>squeue := q1\<rparr>" e1] x(1) q1(3) by simp
  have doi: "does \<alpha> (when_act (bflags x = 0) (sd_doit m b)) (?s1\<lparr>squeue := q1\<rparr>) e1 ()
      (upd_buf (?s1\<lparr>squeue := q1\<rparr>) b (\<lambda>y. y\<lparr>bdata := bs\<rparr>)) (raises L INT_DATA_DONE (quiet e2))"
    by (rule doit) (use x(1) q1(3) in simp)
  have wd: "does \<alpha> (sd_waitdone m b) (upd_buf (?s1\<lparr>squeue := q1\<rparr>) b (\<lambda>y. y\<lparr>bdata := bs\<rparr>)) (raises L INT_DATA_DONE (quiet e2)) ()
      (s\<lparr>squeue := ?q2, skern := ks, sdlock := ?l\<rparr>) (quiet e2)"
  proof -
    have "wakeup (skern (upd_buf (?s1\<lparr>squeue := q1\<rparr>) b (\<lambda>y. y\<lparr>bdata := bs\<rparr>))) b = Some ks" using wk by (simp add: upd_buf_def)
    from waitdone [OF d L this, of e2] show ?thesis using x(1) q1(3) by (cases s) (simp add: upd_buf_def)
  qed
  have fet2: "does \<alpha> (queue_act (fetch_task k)) (s\<lparr>squeue := ?q2, skern := ks, sdlock := ?l\<rparr>) (quiet e2) NULL
      (s\<lparr>squeue := ?q2, skern := ks, sdlock := ?l\<rparr>) (quiet e2)"
  proof -
    have "fetch_task k ?q2 = Inr (NULL, ?q2)" using bq.fetch_empty [OF q2] .
    then show ?thesis using does_queue [of "fetch_task k" "s\<lparr>squeue := ?q2, skern := ks, sdlock := ?l\<rparr>" NULL ?q2 \<alpha>] by (cases s) simp
  qed
  have lp: "does \<alpha> (intr_loop m k NULL) s' e' () s' e'" for s' e'
    using does_ret [of \<alpha> "()" s' e'] by (simp add: intr_loop.simps [of m k 0] does_def ret_def)
  have unlock: "does \<alpha> (unlock_sd k) (s\<lparr>squeue := ?q2, skern := ks, sdlock := ?l\<rparr>) (quiet e2) () (s\<lparr>squeue := ?q2, skern := ks\<rparr>) (quiet e2)"
    using does_unlock_sd [OF lk, of "s\<lparr>squeue := ?q2, skern := ks\<rparr>" \<alpha> k] by simp
  have yl: "does \<alpha> (\<lambda>s. bind_run (Some (yield k (skern s))) (\<lambda>(ks, sw). Some (Inr (sw, s\<lparr>skern := ks\<rparr>))))
      (s\<lparr>squeue := ?q2, skern := ks\<rparr>) (quiet e2) sw (s\<lparr>squeue := ?q2, skern := ks2\<rparr>) (quiet e2)"
    by (rule does_state) (use y in simp)
  have "does \<alpha> (sd_intr m k) s e1 sw (s\<lparr>squeue := ?q2, skern := ks2\<rparr>) (quiet e2)" unfolding sd_intr_def
    by (intro does_then [OF does_disb [OF d]] does_then [OF lock] does_bind [OF fet] does_bind [OF fl] does_assert [OF x(2)]
        does_then [OF doi] does_then [OF wd] does_bind [OF fet2] does_then [OF lp] does_bind [OF does_quiet [OF d]]
        does_assert [OF refl] does_then [OF unlock] yl)
  then show ?thesis using q2 q1(3,4) by (intro exI [of _ ?q2]) simp
qed

text \<open>What falling asleep and giving way do to the caller, and what a wakeup does to a sleeper.\<close>

lemma sleep_sleeps:
  assumes "cproc (cpus st k) = Some p" "snd p < length (ptable (scheduler (conts st (fst p))))"
  obtains st1 sw where "sleep k st b None = Inr (st1, None, sw)" "pstate (proc_at (conts st1) p) = SLEEPING" "chan (proc_at (conts st1) p) = b"
  using assms that
  by (cases p) (auto simp: sleep_def sched_def sched_simple_def Let_def set_proc_def set_cpu_def proc_at_def upd_proc_def upd_sched_def)

lemma yield_keeps_runnable:
  assumes "cproc (cpus st k) = Some q" "pstate (proc_at (conts st) p) = RUNNABLE"
  obtains st1 sw where "yield k st = Inr (st1, sw)" "pstate (proc_at (conts st1) p) = RUNNABLE"
proof -
  have "pstate (proc_at (upd_proc (conts st) q (pstate_update (\<lambda>_. RUNNABLE))) p) = RUNNABLE"
  proof (cases "snd q < length (ptable (scheduler (conts st (fst q))))")
    case True
    then show ?thesis using assms(2) by (simp add: proc_at_upd_proc)
  next
    case False
    then have "upd_proc (conts st) q (pstate_update (\<lambda>_. RUNNABLE)) = conts st"
      by (simp add: upd_proc_def upd_sched_def list_update_beyond fun_upd_idem)
    then show ?thesis using assms(2) by simp
  qed
  then show thesis using assms(1) that
    by (auto simp: yield_def sched_def sched_simple_def Let_def set_proc_def set_cpu_def)
qed

lemma wakeup_runnable:
  assumes "cont_tree (conts st) C rank" "root_container st \<in> C" "fst p \<in> C" "fst p \<in> subtree (conts st) (root_container st)" "snd p < NPROC"
    "pstate (proc_at (conts st) p) = SLEEPING" "chan (proc_at (conts st) p) = b"
  obtains st1 where "wakeup st b = Some st1" "cpus st1 = cpus st" "pstate (proc_at (conts st1) p) = RUNNABLE"
proof -
  let ?cs = "wakes b (marks (conts st) (root_container st) 0) (conts st)"
  have "length (ptable (scheduler (conts st (fst p)))) = NPROC" using assms(1,3) by (simp add: cont_tree_def)
  then have "pstate (proc_at ?cs p) = RUNNABLE"
    using assms(4-) proc_at_wakes [of "snd p" "conts st" "fst p" b] marks_0 [of "conts st" "root_container st"] by (simp add: wake_proc_def)
  then show thesis using wakeup_wakes [OF assms(1,2), of b] by (intro that [of "st\<lparr>conts := ?cs\<rparr>"]) simp_all
qed

text \<open>The process \<open>p\<close> of the tree of containers sleeps on \<open>b\<close> while \<open>k2\<close> runs a process.\<close>

definition asleep_in :: "ksys \<Rightarrow> procref \<Rightarrow> addr \<Rightarrow> nat \<Rightarrow> bool" where
  "asleep_in ks p b k2 \<longleftrightarrow> (\<exists>C rank. cont_tree (conts ks) C rank \<and> root_container ks \<in> C \<and> fst p \<in> C) \<and>
     fst p \<in> subtree (conts ks) (root_container ks) \<and> snd p < NPROC \<and>
     pstate (proc_at (conts ks) p) = SLEEPING \<and> chan (proc_at (conts ks) p) = b \<and> cproc (cpus ks k2) \<noteq> None"

lemma intr_finishes:
  assumes d: "drives m \<alpha> c L" and L: "L < 1000000" and b: "b \<noteq> NULL" and x: "x = bufs (squeue t) b" "bflags x \<noteq> B_VALID"
    and q: "queue_holds (squeue t) [b]" and lk: "lock_free (sdlock t)" and u: "looks \<alpha> t e1 u"
    and doit: "\<And>s2. bufs (squeue s2) b = x \<Longrightarrow> does \<alpha> (when_act (bflags x = 0) (sd_doit m b)) s2 e1 ()
      (upd_buf s2 b (\<lambda>y. y\<lparr>bdata := bs\<rparr>)) (raises L INT_DATA_DONE (quiet e2))"
    and asleep: "asleep_in (skern t) p b k2"
  shows "\<exists>s2 sw2. sd_intr m k2 u = Some (Inr (sw2, s2)) \<and>
      pstate (proc_at (conts (skern s2)) p) = RUNNABLE \<and> sdrw_resume b s2 = Some (Inr ((), s2)) \<and>
      bufs (squeue s2) = (bufs (squeue t))(b := x\<lparr>bdata := bs, bflags := B_VALID\<rparr>) \<and> \<alpha> (hw (sdev s2)) = quiet e2 \<and>
      queue_holds (squeue s2) [] \<and> lock_free (sdlock s2) \<and> bufhead (squeue s2) = bufhead (squeue t) \<and> sdCard s2 = sdCard t \<and>
      sdev s2 = (sdev t)\<lparr>hw := hw (sdev s2)\<rparr>"
proof -
  obtain C rank where k: "cont_tree (conts (skern t)) C rank" "root_container (skern t) \<in> C" "fst p \<in> C"
      "fst p \<in> subtree (conts (skern t)) (root_container (skern t))" "snd p < NPROC"
      "pstate (proc_at (conts (skern t)) p) = SLEEPING" "chan (proc_at (conts (skern t)) p) = b" "cproc (cpus (skern t) k2) \<noteq> None"
    using asleep unfolding asleep_in_def by blast
  obtain kw where kw: "wakeup (skern t) b = Some kw" "cpus kw = cpus (skern t)" "pstate (proc_at (conts kw) p) = RUNNABLE"
    using wakeup_runnable [OF k(1-7)] .
  obtain r where r: "cproc (cpus kw k2) = Some r" using kw(2) k(8) by auto
  obtain ky sw2 where ky: "yield k2 kw = Inr (ky, sw2)" "pstate (proc_at (conts ky) p) = RUNNABLE"
    using yield_keeps_runnable [OF r kw(3)] .
  obtain q2 where q2: "does \<alpha> (sd_intr m k2) t e1 sw2 (t\<lparr>squeue := q2, skern := ky\<rparr>) (quiet e2)" "queue_holds q2 []"
    "bufs q2 = (bufs (squeue t))(b := x\<lparr>bdata := bs, bflags := B_VALID\<rparr>)" "bufhead q2 = bufhead (squeue t)"
    using sd_intr_completes [OF d L b x q lk doit kw(1) ky(1)] by blast
  obtain h2 where h2: "sd_intr m k2 u = Some (Inr (sw2, hwset (t\<lparr>squeue := q2, skern := ky\<rparr>) h2))" "\<alpha> h2 = quiet e2"
    using q2(1) u unfolding does_def looks_def by blast
  let ?u = "hwset (t\<lparr>squeue := q2, skern := ky\<rparr>) h2"
  have "sdrw_resume b ?u = Some (Inr ((), ?u))"
    using q2(3) b by (simp add: sdrw_resume_def bind_act_def buf_act_def assert_act_def ret_def)
  then show ?thesis using h2 q2(2-4) ky(2) lk by (intro exI [of _ ?u] exI [of _ sw2]) (simp add: hwset_def)
qed

lemma request_runs:
  fixes s :: "'h sdsys" and b m \<alpha>
  defines "x \<equiv> bufs (squeue s) b" and "e \<equiv> \<alpha> (hw (sdev s))"
  assumes d: "drives m \<alpha> c L" and L: "L < 1000000" and e: "eirq e = 0" "epend e = 0" and ty: "ctype (sdCard s) = SD_TYPE_2_HC"
    and b: "b \<noteq> NULL" "(b + 24) AND 3 = 0"
    and req: "bflags x = 0 \<and> length (estore e (blockno x)) = 128 \<or> bflags x = B_DIRTY \<and> length (bdata x) = 512"
    and q: "queue_holds (squeue s) []" "may_queue (squeue s) b" and lk: "lock_free (sdlock s)"
    and p: "cproc (cpus (skern s) k) = Some p" "snd p < length (ptable (scheduler (conts (skern s) (fst p))))"
  shows "\<exists>s1 sw. sdrw m k b s = Some (Inr (Some sw, s1)) \<and>
    pstate (proc_at (conts (skern s1)) p) = SLEEPING \<and> chan (proc_at (conts (skern s1)) p) = b \<and> queue_holds (squeue s1) [b] \<and>
    (\<forall>ks' h k2. \<alpha> h = \<alpha> (hw (sdev s1)) \<and> asleep_in ks' p b k2 \<longrightarrow>
      (\<exists>s2 sw2. sd_intr m k2 (hwset (s1\<lparr>skern := ks'\<rparr>) h) = Some (Inr (sw2, s2)) \<and>
        pstate (proc_at (conts (skern s2)) p) = RUNNABLE \<and> sdrw_resume b s2 = Some (Inr ((), s2)) \<and>
        bufs (squeue s2) = (bufs (squeue s))(b := x\<lparr>
          bdata := if bflags x = 0 then bytes_of_words (estore e (blockno x)) else bdata x, bflags := B_VALID\<rparr>) \<and>
        estore (\<alpha> (hw (sdev s2))) = (if bflags x = 0 then estore e else (estore e)(blockno x := u32_words 128 (bdata x))) \<and>
        eirq (\<alpha> (hw (sdev s2))) = 0 \<and> epend (\<alpha> (hw (sdev s2))) = 0 \<and> queue_holds (squeue s2) [] \<and> lock_free (sdlock s2) \<and>
        bufhead (squeue s2) = bufhead (squeue s) \<and> ctype (sdCard s2) = SD_TYPE_2_HC \<and> sdev s2 = (sdev s)\<lparr>hw := hw (sdev s2)\<rparr>))"
proof -
  have nv: "bflags x \<noteq> B_VALID" using req by auto
  let ?bs = "if bflags x = 0 then bytes_of_words (estore e (blockno x)) else bdata x"
  obtain ks sw where sl: "sleep k (skern s) b None = Inr (ks, None, sw)" "pstate (proc_at (conts ks) p) = SLEEPING" "chan (proc_at (conts ks) p) = b"
    using sleep_sleeps [OF p] .
  let ?s1 = "s\<lparr>sdlock := (sdlock s)\<lparr>locked := True, lcpu := Some k\<rparr>\<rparr>"
  obtain cd e1 e2 where cd: "ctype cd = SD_TYPE_2_HC" and st: "\<forall>w. does \<alpha> (sd_start m b (bflags x \<noteq> 0)) ?s1 (e\<lparr>ewait := w\<rparr>) () (?s1\<lparr>sdCard := cd\<rparr>) e1"
    "estore e2 = (if bflags x = 0 then estore e else (estore e)(blockno x := u32_words 128 (bdata x)))"
    "\<forall>s2. bufs (squeue s2) b = x \<longrightarrow> does \<alpha> (when_act (bflags x = 0) (sd_doit m b)) s2 e1 () (upd_buf s2 b (\<lambda>y. y\<lparr>bdata := ?bs\<rparr>)) (raises L INT_DATA_DONE (quiet e2))"
    using start_request [OF d L e, of ?s1 b x] ty b req by (auto simp: x_def)
  obtain q1 where qu: "does \<alpha> (sdrw_queue m k b) s e True (s\<lparr>sdCard := cd, squeue := q1\<rparr>) e1"
    and q1: "queue_holds q1 [b]" "bufs q1 = bufs (squeue s)" "bufhead q1 = bufhead (squeue s)"
    using sdrw_queues [OF d e b(1) _ nv q lk, of k cd e1] st(1) x_def by blast
  have "does \<alpha> (sdrw m k b) s e (Some sw) (s\<lparr>sdCard := cd, squeue := q1, skern := ks\<rparr>) e1" unfolding sdrw_def
    by (rule does_bind [OF qu]) (use does_sdrw_sleep [of k "s\<lparr>sdCard := cd, squeue := q1\<rparr>" b ks sw \<alpha> e1] sl(1) in simp)
  then obtain h where h: "sdrw m k b s = Some (Inr (Some sw, hwset (s\<lparr>sdCard := cd, squeue := q1, skern := ks\<rparr>) h))" "\<alpha> h = e1"
    using looks_self [of \<alpha> s] unfolding does_def looks_def e_def by blast
  let ?s = "hwset (s\<lparr>sdCard := cd, squeue := q1, skern := ks\<rparr>) h"
  have fin: "\<exists>s2 sw2. sd_intr m k2 (hwset (?s\<lparr>skern := ks'\<rparr>) h') = Some (Inr (sw2, s2)) \<and>
      pstate (proc_at (conts (skern s2)) p) = RUNNABLE \<and> sdrw_resume b s2 = Some (Inr ((), s2)) \<and>
      bufs (squeue s2) = (bufs (squeue s))(b := x\<lparr>bdata := ?bs, bflags := B_VALID\<rparr>) \<and> \<alpha> (hw (sdev s2)) = quiet e2 \<and>
      queue_holds (squeue s2) [] \<and> lock_free (sdlock s2) \<and> bufhead (squeue s2) = bufhead (squeue s) \<and> ctype (sdCard s2) = SD_TYPE_2_HC \<and>
      sdev s2 = (sdev s)\<lparr>hw := hw (sdev s2)\<rparr>"
    if a: "\<alpha> h' = \<alpha> (hw (sdev ?s))" and k: "asleep_in ks' p b k2" for ks' h' k2
  proof -
    have "looks \<alpha> (s\<lparr>sdCard := cd, squeue := q1, skern := ks'\<rparr>) e1 (hwset (?s\<lparr>skern := ks'\<rparr>) h')"
      unfolding looks_def using h(2) a by (intro exI [of _ h']) (cases s, simp add: hwset_def)
    from intr_finishes [OF d L b(1) _ nv _ _ this, of ?bs e2 p k2] obtain s2 sw2 where
      r: "sd_intr m k2 (hwset (?s\<lparr>skern := ks'\<rparr>) h') = Some (Inr (sw2, s2))" "pstate (proc_at (conts (skern s2)) p) = RUNNABLE"
        "sdrw_resume b s2 = Some (Inr ((), s2))" "bufs (squeue s2) = (bufs (squeue s))(b := x\<lparr>bdata := ?bs, bflags := B_VALID\<rparr>)"
        "\<alpha> (hw (sdev s2)) = quiet e2" "queue_holds (squeue s2) []" "lock_free (sdlock s2)" "bufhead (squeue s2) = bufhead (squeue s)" "sdCard s2 = cd"
        "sdev s2 = (sdev s)\<lparr>hw := hw (sdev s2)\<rparr>"
      using k q1 lk st(3) x_def by auto
    show ?thesis by (rule exI [of _ s2], rule exI [of _ sw2]) (use r cd in simp)
  qed
  show ?thesis
    by (rule exI [of _ ?s], rule exI [of _ sw]) (use h sl q1 st(2) fin in \<open>fastforce\<close>)
qed

text \<open>C5: a process that calls \<open>sdrw\<close> for a read, or for a write of a buffer that is only dirty, while no request is queued goes to sleep on
  its buffer with the transfer started and the request queued. Whatever the other processes and the other devices do in the meantime, as long as it
  sleeps, the interrupt of the controller completes the transfer: the buffer holds the block, or the block what the
  buffer holds, and no other block has changed; the buffer is valid and the process runnable, so that its call
  returns; queue, lock and controller are ready for the next request.\<close>

theorem sd_request:
  fixes s :: "'h sdsys" and b m \<alpha>
  defines "x \<equiv> bufs (squeue s) b" and "e \<equiv> \<alpha> (hw (sdev s))"
  assumes d: "drives m \<alpha> c L" and L: "L < 1000000" and e: "eirq e = 0" "epend e = 0" and ty: "ctype (sdCard s) = SD_TYPE_2_HC"
    and b: "b \<noteq> NULL" "(b + 24) AND 3 = 0"
    and req: "bflags x = 0 \<and> length (estore e (blockno x)) = 128 \<or> bflags x = B_DIRTY \<and> length (bdata x) = 512"
    and q: "queue_holds (squeue s) []" "may_queue (squeue s) b" and lk: "lock_free (sdlock s)"
    and p: "cproc (cpus (skern s) k) = Some p" "snd p < length (ptable (scheduler (conts (skern s) (fst p))))"
  shows "\<exists>s1 sw. sdrw m k b s = Some (Inr (Some sw, s1)) \<and>
    pstate (proc_at (conts (skern s1)) p) = SLEEPING \<and> chan (proc_at (conts (skern s1)) p) = b \<and> queue_holds (squeue s1) [b] \<and>
    (\<forall>ks' h k2. \<alpha> h = \<alpha> (hw (sdev s1)) \<and> asleep_in ks' p b k2 \<longrightarrow>
      (\<exists>s2 sw2. sd_intr m k2 (hwset (s1\<lparr>skern := ks'\<rparr>) h) = Some (Inr (sw2, s2)) \<and>
        pstate (proc_at (conts (skern s2)) p) = RUNNABLE \<and> sdrw_resume b s2 = Some (Inr ((), s2)) \<and>
        bufs (squeue s2) = (bufs (squeue s))(b := x\<lparr>
          bdata := if bflags x = 0 then bytes_of_words (estore e (blockno x)) else bdata x, bflags := B_VALID\<rparr>) \<and>
        estore (\<alpha> (hw (sdev s2))) = (if bflags x = 0 then estore e else (estore e)(blockno x := u32_words 128 (bdata x))) \<and>
        eirq (\<alpha> (hw (sdev s2))) = 0 \<and> epend (\<alpha> (hw (sdev s2))) = 0 \<and> queue_holds (squeue s2) [] \<and> lock_free (sdlock s2)))"
  using request_runs [OF d L e [unfolded e_def] ty b req [unfolded e_def x_def] q lk p] unfolding e_def x_def
  by (elim ex_forward conj_forward all_forward imp_forward) (assumption | erule conjunct1)+

text \<open>\<open>sdrw\<close> releases \<open>sdlock\<close> before its caller sleeps.\<close>

lemma yield_other_cpu:
  assumes "cproc (cpus st k2) = Some q" "k \<noteq> k2"
  obtains st1 sw where "yield k2 st = Inr (st1, sw)" "cpus st1 k = cpus st k"
    "\<forall>c. length (ptable (scheduler (conts st1 c))) = length (ptable (scheduler (conts st c)))"
  using assms that by (auto simp: yield_def sched_def sched_simple_def Let_def set_proc_def set_cpu_def upd_proc_def upd_sched_def)

text \<open>When the interrupt of a request arrives on another CPU after the lock is free and before the caller sleeps, the caller is not
  woken: it sleeps on a buffer that is valid, and no request is left whose completion would wake it.\<close>

theorem lost_wakeup:
  fixes s :: "'h sdsys" and b m \<alpha>
  defines "x \<equiv> bufs (squeue s) b" and "e \<equiv> \<alpha> (hw (sdev s))"
  assumes d: "drives m \<alpha> c L" and L: "L < 1000000" and e: "eirq e = 0" "epend e = 0" and ty: "ctype (sdCard s) = SD_TYPE_2_HC"
    and b: "b \<noteq> NULL" "(b + 24) AND 3 = 0"
    and req: "bflags x = 0 \<and> length (estore e (blockno x)) = 128 \<or> bflags x = B_DIRTY \<and> length (bdata x) = 512"
    and q: "queue_holds (squeue s) []" "may_queue (squeue s) b" and lk: "lock_free (sdlock s)"
    and p: "cproc (cpus (skern s) k) = Some p" "snd p < length (ptable (scheduler (conts (skern s) (fst p))))"
    and tree: "cont_tree (conts (skern s)) C rank" "root_container (skern s) \<in> C" and k2: "k \<noteq> k2" "cproc (cpus (skern s) k2) = Some r"
  shows "\<exists>s1 s2 sw2 s3 sw. sdrw_queue m k b s = Some (Inr (True, s1)) \<and> sd_intr m k2 s1 = Some (Inr (sw2, s2)) \<and>
    sdrw_sleep k b s2 = Some (Inr (Some sw, s3)) \<and> pstate (proc_at (conts (skern s3)) p) = SLEEPING \<and> chan (proc_at (conts (skern s3)) p) = b \<and>
    bflags (bufs (squeue s3) b) = B_VALID \<and> queue_holds (squeue s3) []"
proof -
  have nv: "bflags x \<noteq> B_VALID" using req by auto
  let ?bs = "if bflags x = 0 then bytes_of_words (estore e (blockno x)) else bdata x"
  let ?s1 = "s\<lparr>sdlock := (sdlock s)\<lparr>locked := True, lcpu := Some k\<rparr>\<rparr>"
  obtain cd e1 e2 where st: "\<forall>w. does \<alpha> (sd_start m b (bflags x \<noteq> 0)) ?s1 (e\<lparr>ewait := w\<rparr>) () (?s1\<lparr>sdCard := cd\<rparr>) e1"
    "\<forall>s2. bufs (squeue s2) b = x \<longrightarrow> does \<alpha> (when_act (bflags x = 0) (sd_doit m b)) s2 e1 () (upd_buf s2 b (\<lambda>y. y\<lparr>bdata := ?bs\<rparr>)) (raises L INT_DATA_DONE (quiet e2))"
    using start_request [OF d L e, of ?s1 b x] ty b req by (auto simp: x_def)
  obtain q1 where qu: "does \<alpha> (sdrw_queue m k b) s e True (s\<lparr>sdCard := cd, squeue := q1\<rparr>) e1" and q1: "queue_holds q1 [b]" "bufs q1 = bufs (squeue s)"
    using sdrw_queues [OF d e b(1) _ nv q lk, of k cd e1] st(1) x_def by blast
  let ?t = "s\<lparr>sdCard := cd, squeue := q1\<rparr>" and ?cs = "wakes b (marks (conts (skern s)) (root_container (skern s)) 0) (conts (skern s))"
  obtain h where h: "sdrw_queue m k b s = Some (Inr (True, hwset ?t h))" "\<alpha> h = e1"
    using qu looks_self [of \<alpha> s] unfolding does_def looks_def e_def by blast
  have wk: "wakeup (skern ?t) b = Some ((skern s)\<lparr>conts := ?cs\<rparr>)" using wakeup_wakes [OF tree, of b] by simp
  have "cproc (cpus ((skern s)\<lparr>conts := ?cs\<rparr>) k2) = Some r" using k2(2) by simp
  from yield_other_cpu [OF this k2(1)] obtain ky sw2 where y: "yield k2 ((skern s)\<lparr>conts := ?cs\<rparr>) = Inr (ky, sw2)" "cpus ky k = cpus (skern s) k"
      "\<forall>c. length (ptable (scheduler (conts ky c))) = length (ptable (scheduler (?cs c)))" by auto
  obtain q2 where q2: "does \<alpha> (sd_intr m k2) ?t e1 sw2 (?t\<lparr>squeue := q2, skern := ky\<rparr>) (quiet e2)" "queue_holds q2 []"
      "bufs q2 = (bufs q1)(b := x\<lparr>bdata := ?bs, bflags := B_VALID\<rparr>)"
    using sd_intr_completes [OF d L b(1), of x ?t e1 ?bs e2, OF _ nv _ _ _ wk y(1)] q1 lk st(2) x_def by auto
  obtain h2 where h2: "sd_intr m k2 (hwset ?t h) = Some (Inr (sw2, hwset (?t\<lparr>squeue := q2, skern := ky\<rparr>) h2))"
    using q2(1) h(2) unfolding does_def looks_def by blast
  have "cproc (cpus ky k) = Some p" "snd p < length (ptable (scheduler (conts ky (fst p))))" using p y(2,3) by (simp_all add: wakes_def)
  from sleep_sleeps [OF this, of b] obtain ks sw where
    "sleep k ky b None = Inr (ks, None, sw)" "pstate (proc_at (conts ks) p) = SLEEPING" "chan (proc_at (conts ks) p) = b" .
  then show ?thesis using h(1) h2 q2(2,3)
    by (intro exI [of _ "hwset ?t h"] exI [of _ "hwset (?t\<lparr>squeue := q2, skern := ky\<rparr>) h2"] exI [of _ sw2]
        exI [of _ "hwset (?t\<lparr>squeue := q2, skern := ks\<rparr>) h2"] exI [of _ sw]) (simp add: sdrw_sleep_def)
qed

subsection \<open>Writes of the block device\<close>

text \<open>An action that ends in an error.\<close>

definition stops :: "('h \<Rightarrow> emmc) \<Rightarrow> ('h sdsys, 'a) act \<Rightarrow> 'h sdsys \<Rightarrow> emmc \<Rightarrow> kerr \<Rightarrow> bool" where
  "stops \<alpha> f s0 e err \<longleftrightarrow> (\<forall>s. looks \<alpha> s0 e s \<longrightarrow> f s = Some (Inl err))"

lemma stops_bind: "does \<alpha> f s e x s1 e1 \<Longrightarrow> stops \<alpha> (g x) s1 e1 err \<Longrightarrow> stops \<alpha> (bind_act f g) s e err"
  by (fastforce simp: does_def stops_def bind_act_def)

lemma stops_then: "does \<alpha> f s e x s1 e1 \<Longrightarrow> stops \<alpha> g s1 e1 err \<Longrightarrow> stops \<alpha> (then_act f g) s e err"
  unfolding then_act_def by (rule stops_bind)

lemma stops_first: "stops \<alpha> f s e err \<Longrightarrow> stops \<alpha> (bind_act f g) s e err" "stops \<alpha> f s e err \<Longrightarrow> stops \<alpha> (then_act f h) s e err"
  by (simp_all add: stops_def bind_act_def then_act_def)

lemma stops_assert: "P \<Longrightarrow> stops \<alpha> f s e err \<Longrightarrow> stops \<alpha> (assert_act P msg f) s e err" "\<not> P \<Longrightarrow> stops \<alpha> (assert_act P msg f) s e (Panic msg)"
  by (simp_all add: assert_act_def stops_def fails_def)

lemma start_valid_stops:
  assumes "drives m \<alpha> c L" "b \<noteq> NULL" "bflags (bufs (squeue s) b) AND B_VALID \<noteq> 0"
  shows "stops \<alpha> (sd_start m b t) s e (Panic ''valid buf should not be here.'')"
  unfolding sd_start_def
  by (rule stops_bind [OF does_buf [OF assms(2)]], rule stops_bind [OF does_card], unfold Let_def,
    rule stops_then [OF does_disb [OF assms(1)]], rule stops_assert(2)) (use assms(3) in simp)

text \<open>C39: writing a block through the block device while no request is queued panics: it marks its buffer both dirty and valid, and the
  driver refuses to start a request for a valid buffer. So the first write of the file system stops the kernel.\<close>

theorem block_write_panics:
  assumes d: "drives m \<alpha> c L" and e: "eirq (\<alpha> (hw (sdev s))) = 0" "epend (\<alpha> (hw (sdev s))) = 0" and b: "b \<noteq> NULL"
    and q: "queue_holds (squeue s) []" and lk: "lock_free (sdlock s)"
  shows "block_write m others k b no buffer s = Some (Inl (Panic ''valid buf should not be here.''))"
proof -
  let ?e = "\<alpha> (hw (sdev s))" and ?f = "\<lambda>x. x\<lparr>blockno := ucast no, bflags := B_DIRTY OR B_VALID, bdata := buffer\<rparr>"
  let ?s = "upd_buf s b ?f" and ?s1 = "(upd_buf s b ?f)\<lparr>sdlock := (sdlock s)\<lparr>locked := True, lcpu := Some k\<rparr>\<rparr>"
  have fl: "does \<alpha> (buf_act b bflags) ?s e' (B_DIRTY OR B_VALID) ?s e'" for e' using does_buf [OF b, of \<alpha> bflags ?s e'] by (simp add: upd_buf_def)
  have irq: "does \<alpha> (reg m EMMC_INTERRUPT) ?s ?e 0 ?s (tick ?e)"
  proof -
    have t: "eirq (tick ?e) = 0" using e by (simp add: tick_def)
    show ?thesis using does_irq [OF d, of ?s ?e] unfolding t .
  qed
  have lock: "does \<alpha> (lock_sd k) ?s e' () ?s1 e'" for e' using does_lock_sd [of ?s \<alpha> k e'] lk by (simp add: upd_buf_def)
  have q1: "queue_holds (squeue ?s1) []" using q by (simp add: queue_holds_def upd_buf_def)
  have peek: "does \<alpha> (queue_act (try_fetch_task k)) ?s1 e' NULL ?s1 e'" for e'
    using does_queue [of "try_fetch_task k" ?s1 NULL "squeue ?s1" \<alpha> e'] try_fetch_task_holds [OF q1, of k] by (cases s) simp
  have st: "stops \<alpha> (when_act (NULL = NULL) (sd_start m b t)) ?s1 e' (Panic ''valid buf should not be here.'')" for e' t
    using start_valid_stops [OF d b, of ?s1 t e'] by (simp add: upd_buf_def)
  have "stops \<alpha> (sdrw_queue m k b) ?s ?e (Panic ''valid buf should not be here.'')" unfolding sdrw_queue_def
    by (rule stops_bind [OF irq], rule stops_assert(1) [OF refl], rule stops_bind [OF fl], subst if_not_P, simp)
      (intro stops_then [OF does_disb [OF d]] stops_then [OF lock] stops_bind [OF peek] stops_first(2) st)
  then have "stops \<alpha> (block_write m others k b no buffer) s ?e (Panic ''valid buf should not be here.'')"
    unfolding block_write_def sdrw_call_def sdrw_def by (intro stops_then [OF does_set_buf] stops_first(1))
  then show ?thesis using looks_self [of \<alpha> s] unfolding stops_def by blast
qed

subsection \<open>A request\<close>

text \<open>Every CPU runs the process in slot 0 of the root container.\<close>

definition caller :: procref where "caller = (4096, 0)"

definition call_example :: "u32 \<Rightarrow> (emmc \<times> u64) sdsys" where
  "call_example fl = (sd_example fl)\<lparr>skern := sys_example\<lparr>cpus := (\<lambda>_. \<lparr>cscheduler = 4096, cproc = Some caller\<rparr>)\<rparr>\<rparr>"

definition asleep_example :: "addr \<Rightarrow> ksys" where
  "asleep_example b = set_proc sys_example caller (\<lambda>x. x\<lparr>pstate := SLEEPING, chan := b\<rparr>)\<lparr>cpus := (\<lambda>_. \<lparr>cscheduler = 4096, cproc = Some (4096, 1)\<rparr>)\<rparr>"

lemma call_example_ok:
  "fst (hw (sdev (call_example fl))) = \<lparr>eirq = 0, epend = 0, ewait = 0, earg = 0, efifo = [], ewbuf = [], estore = (\<lambda>n. replicate 128 n)\<rparr>"
  "ctype (sdCard (call_example fl)) = SD_TYPE_2_HC" "bufs (squeue (call_example fl)) b = \<lparr>bflags = fl, blockno = 7, bdata = replicate 512 9\<rparr>"
  "queue_holds (squeue (call_example fl)) []" "may_queue (squeue (call_example fl)) 1024" "lock_free (sdlock (call_example fl))"
  "cproc (cpus (skern (call_example fl)) k) = Some caller"
  "snd caller < length (ptable (scheduler (conts (skern (call_example fl)) (fst caller))))"
  by (simp_all add: call_example_def sd_example_def bufq_example_def queue_holds_def may_queue_def listnode_def lock_free_def cyc_single
      sys_example_def fresh_container_def zero_container_def caller_def)

lemma asleep_at:
  "i < NPROC \<Longrightarrow> proc_at (conts (asleep_example b)) (4096, i) =
     (if i = 0 then zero_proc\<lparr>plock := init_spinlock null_lock ''process'', pstate := SLEEPING, chan := b\<rparr>
      else zero_proc\<lparr>plock := init_spinlock null_lock ''process''\<rparr>)"
  using slots_ok_fresh [of 4096]
  by (simp add: asleep_example_def caller_def sys_example_def proc_at_upd_proc slots_ok_def proc_at_fresh)

lemma asleep_ok:
  "cont_tree (conts (asleep_example b)) {4096} (\<lambda>_. 0)" "root_container (asleep_example b) = 4096" "cproc (cpus (asleep_example b) k) \<noteq> None"
  "pstate (proc_at (conts (asleep_example b)) caller) = SLEEPING" "chan (proc_at (conts (asleep_example b)) caller) = b"
proof -
  show "cont_tree (conts (asleep_example b)) {4096} (\<lambda>_. 0)"
    by (simp add: cont_tree_def asleep_at)
      (simp add: zero_proc_def asleep_example_def caller_def sys_example_def fresh_container_def zero_container_def)
  show "root_container (asleep_example b) = 4096" "cproc (cpus (asleep_example b) k) \<noteq> None" by (simp_all add: asleep_example_def sys_example_def)
  show "pstate (proc_at (conts (asleep_example b)) caller) = SLEEPING" "chan (proc_at (conts (asleep_example b)) caller) = b"
    using asleep_at [of 0] by (simp_all add: caller_def)
qed

lemma asleep_example_in: "asleep_in (asleep_example b) caller b k"
  unfolding asleep_in_def using asleep_ok [of b] subtree.self [of 4096 "conts (asleep_example b)"] by (auto simp: caller_def)

theorem sd_request_witness:
  "\<exists>s1 sw s2 sw2. sdrw emmc_example 0 1024 (call_example 0) = Some (Inr (Some sw, s1)) \<and>
     sd_intr emmc_example 1 (s1\<lparr>skern := asleep_example 1024\<rparr>) = Some (Inr (sw2, s2)) \<and>
     bdata (bufs (squeue s2) 1024) = bytes_of_words (replicate 128 7) \<and> sdrw_resume 1024 s2 = Some (Inr ((), s2))"
proof -
  let ?s = "call_example 0"
  have pre: "eirq (fst (hw (sdev ?s))) = 0" "epend (fst (hw (sdev ?s))) = 0" "(1024 :: addr) \<noteq> NULL" "((1024 :: addr) + 24) AND 3 = 0" "(5 :: nat) < 1000000"
    "bflags (bufs (squeue ?s) 1024) = 0 \<and> length (estore (fst (hw (sdev ?s))) (blockno (bufs (squeue ?s) 1024))) = 128 \<or>
     bflags (bufs (squeue ?s) 1024) = B_DIRTY \<and> length (bdata (bufs (squeue ?s) 1024)) = 512"
    by (simp_all add: call_example_ok)
  note r = sd_request [OF emmc_example_drives pre(5,1,2) call_example_ok(2) pre(3,4,6) call_example_ok(4-7) call_example_ok(8)]
  show ?thesis
    using r [of 0] asleep_example_in [of 1024 1]
    apply (elim exE conjE)
    subgoal for s1 sw
      apply (elim allE [of _ "asleep_example 1024"] allE [of _ "hw (sdev s1)"] allE [of _ 1])
      apply (auto simp: call_example_ok hwset_def)
      done
    done
qed

theorem block_write_panics_witness:
  "block_write emmc_example (\<lambda>_. ret ()) 0 1024 7 (replicate 512 9) (call_example 0) = Some (Inl (Panic ''valid buf should not be here.''))"
  by (rule block_write_panics [OF emmc_example_drives _ _ _ call_example_ok(4) call_example_ok(6)]) (simp_all add: call_example_ok)

end
