(* ===== verification/KTrapSpec.thy ===== *)
theory KTrapSpec
  imports KTrap KSdSpec
begin

text \<open>
  What a trap does, end to end: from the exception through the drivers and the console to the scheduler. The
  registers of the CPU are hardware; \<open>core_regs\<close> is what the handler relies on: the syndrome and the interrupt source
  read back unchanged by barriers and reads, and a write to the timer sets its countdown.\<close>

definition core_regs :: "'h machine \<Rightarrow> nat \<Rightarrow> ('h \<Rightarrow> u64) \<Rightarrow> ('h \<Rightarrow> u32) \<Rightarrow> ('h \<Rightarrow> u64) \<Rightarrow> ('h \<Rightarrow> u8 list) \<Rightarrow> bool" where
  "core_regs m k esr src tval sent \<longleftrightarrow>
     (\<forall>h. fst (sys_read m ESR_EL1 h) = esr h) \<and>
     (\<forall>h. fst (sys_read m MPIDR_EL1 h) AND 0xff = of_nat k) \<and>
     (\<forall>h. fst (mread m (IRQ_SRC_CORE (of_nat k)) h) = src h) \<and>
     (\<forall>h. sent (snd (mread m (IRQ_SRC_CORE (of_nat k)) h)) = sent h) \<and>
     (\<forall>h v. tval (sys_write m CNTP_TVAL_EL0 v h) = v) \<and>
     (\<forall>h i. esr (exec_insn m i h) = esr h \<and> src (exec_insn m i h) = src h \<and> sent (exec_insn m i h) = sent h) \<and>
     (\<forall>h r. src (snd (sys_read m r h)) = src h \<and> sent (snd (sys_read m r h)) = sent h) \<and>
     (\<forall>h v. src (sys_write m ESR_EL1 v h) = src h)"

text \<open>A literal piece of a format.\<close>

abbreviation lits :: "string \<Rightarrow> directive list" where "lits cs \<equiv> map Lit cs"

lemma lits_simps [simp]:
  "concat (map (argument \<circ> Lit) cs) = []" "concat (map (directive_text \<circ> Lit) cs) = cs"
  "CHR ''%'' \<notin> set cs \<Longrightarrow> concat (map (spelling \<circ> Lit) cs) = cs"
  by (induction cs) auto

lemma esr_read:
  assumes "core_regs m k esr src tval sent" "serial_line m sent busy"
  obtains h where "arch_get_esr m h0 = (esr h0, h)" "src (arch_reset_esr m h) = src h0" "sent (arch_reset_esr m h) = sent h0"
proof -
  obtain v h where r: "sys_read m ESR_EL1 (arch_fence m h0) = (v, h)" by (cases "sys_read m ESR_EL1 (arch_fence m h0)")
  have "v = esr h0" "src h = src h0" "sent h = sent h0"
    using assms(1) r unfolding core_regs_def arch_fence_def arch_isb_def arch_dsb_sy_def by (metis fst_conv snd_conv)+
  then have "arch_get_esr m h0 = (esr h0, arch_fence m h)" "src (arch_reset_esr m (arch_fence m h)) = src h0"
    "sent (arch_reset_esr m (arch_fence m h)) = sent h0"
    using assms r by (simp_all add: core_regs_def serial_line_def arch_get_esr_def arch_reset_esr_def arch_fence_def arch_isb_def arch_dsb_sy_def)
  then show thesis by (rule that)
qed

lemma cpuid_core:
  assumes "core_regs m k esr src tval sent"
  obtains h where "cpuid m h0 = (of_nat k, h)" "src h = src h0" "sent h = sent h0"
proof -
  obtain v h where r: "sys_read m MPIDR_EL1 h0 = (v, h)" by (cases "sys_read m MPIDR_EL1 h0")
  have "fst (sys_read m MPIDR_EL1 h0) AND 0xff = of_nat k" "src (snd (sys_read m MPIDR_EL1 h0)) = src h0"
    "sent (snd (sys_read m MPIDR_EL1 h0)) = sent h0" using assms unfolding core_regs_def by blast+
  then show thesis using that r by (simp add: cpuid_def)
qed

lemma source_core:
  assumes "core_regs m k esr src tval sent"
  obtains h where "mread m (IRQ_SRC_CORE (of_nat k)) h0 = (src h0, h)" "sent h = sent h0"
proof -
  have "fst (mread m (IRQ_SRC_CORE (of_nat k)) h0) = src h0" "sent (snd (mread m (IRQ_SRC_CORE (of_nat k)) h0)) = sent h0"
    using assms unfolding core_regs_def by blast+
  then show thesis using that by (cases "mread m (IRQ_SRC_CORE (of_nat k)) h0") simp
qed

definition ready :: "'h sdsys \<Rightarrow> bool" where
  "ready s \<longleftrightarrow> lock_free (con_lock (sdev s)) \<and> \<not> panicked_flag (sdev s)"

lemma ready_hw [simp]: "ready (s\<lparr>sdev := (sdev s)\<lparr>hw := h\<rparr>\<rparr>) = ready s" "ready (s\<lparr>skern := ks\<rparr>) = ready s"
  by (simp_all add: ready_def)

lemma kprintf_sends:
  assumes "serial_line m sent busy" "ready s"
  obtains h where "kprintf m k (concat (map spelling ds)) (concat (map argument ds)) s = Some (Inr ((), s\<lparr>sdev := (sdev s)\<lparr>hw := h\<rparr>\<rparr>))"
    "sent h = sent (hw (sdev s)) @ crlf (concat (map directive_text ds))"
proof -
  obtain h where "printf m k (concat (map spelling ds)) (concat (map argument ds)) (sdev s) = Some (Inr (True, (sdev s)\<lparr>hw := h\<rparr>))"
    "sent h = sent (hw (sdev s)) @ crlf (concat (map directive_text ds))"
    using printf_sends [OF assms(1), of "sdev s" k ds] assms(2) unfolding ready_def by blast
  then show thesis using that by (simp add: kprintf_def)
qed

text \<open>The current process leaves the CPU with a new state: what the process layer and the switch are then.\<close>

definition leaves :: "nat \<Rightarrow> procref \<Rightarrow> procstate \<Rightarrow> ksys \<Rightarrow> ksys \<Rightarrow> switch \<Rightarrow> bool" where
  "leaves k p new ks0 ks sw \<longleftrightarrow>
     pstate (proc_at (conts ks) p) = new \<and> (\<forall>q. q \<noteq> p \<longrightarrow> proc_at (conts ks) q = proc_at (conts ks0) q) \<and>
     cproc (cpus ks k) = cp (conts ks0 (scont (scheduler (conts ks0 (cscheduler (cpus ks0 k)))))) \<and>
     (\<forall>j. j \<noteq> k \<longrightarrow> cpus ks j = cpus ks0 j) \<and>
     sw_to sw = contexts (scheduler (conts ks0 (cscheduler (cpus ks0 k)))) ! k"

lemma sched_leaves:
  assumes "cproc (cpus ks0 k) = Some p" "snd p < length (ptable (scheduler (conts ks0 (fst p))))"
  obtains ks sw where "sched k (set_proc ks0 p (\<lambda>x. x\<lparr>pstate := new\<rparr>)) = Inr (ks, sw)" "leaves k p new ks0 ks sw"
proof -
  let ?st = "set_proc ks0 p (\<lambda>x. x\<lparr>pstate := new\<rparr>)"
  obtain ks sw where r: "sched k ?st = Inr (ks, sw)" using assms(1)
    by (auto simp: sched_def sched_simple_def Let_def set_proc_def)
  have "leaves k p new ks0 ks sw"
    using r assms unfolding leaves_def sched_def sched_simple_def
    by (cases p) (auto simp: Let_def set_proc_def upd_proc_def upd_sched_def set_cpu_def proc_at_def)
  then show thesis using r that by blast
qed

subsection \<open>The timer interrupt\<close>

lemma bind_run_ret [simp]: "bind_run r (\<lambda>s. Some (Inr s)) = r"
  by (cases r) (auto simp: bind_run_def split: sum.split)

lemma small_int_u64: "k < 4 \<Longrightarrow> sint (ucast (of_nat k :: u64) :: u32) = int k"
proof -
  assume "k < 4"
  then consider "k = 0" | "k = 1" | "k = 2" | "k = 3" by linarith
  then show ?thesis by cases simp_all
qed

lemma hello_runs:
  assumes regs: "core_regs m k esr src tval sent" and line: "serial_line m sent busy" and "ready s"
    and p: "cproc (cpus (skern s) k) = Some p" "snd p < length (ptable (scheduler (conts (skern s) (fst p))))" and k: "k < NCPU"
  obtains h ks sw where "hello m others k s = others sw (s\<lparr>sdev := (sdev s)\<lparr>hw := h\<rparr>, skern := ks\<rparr>)"
    "sent h = sent (hw (sdev s)) @ crlf (''CPU '' @ int_string 10 (int k) @ '': HELLO!'' @ [CHR 0x0A])"
    "tval h = 1000 * one_ms (sdev s)" "leaves k p RUNNABLE (skern s) ks sw"
proof -
  obtain h1 where c: "cpuid m (hw (sdev s)) = (of_nat k, h1)" "sent h1 = sent (hw (sdev s))"
    using cpuid_core [OF regs] by blast
  let ?s1 = "s\<lparr>sdev := (sdev s)\<lparr>hw := h1\<rparr>\<rparr>"
  let ?ds = "lits ''CPU '' @ [Num Cd (of_nat k)] @ lits ('': HELLO!'' @ [CHR 0x0A])"
  have "ready ?s1" using assms(3) by simp
  from kprintf_sends [OF line this, of k ?ds] obtain h2 where
    h2: "kprintf m k (concat (map spelling ?ds)) (concat (map argument ?ds)) ?s1 = Some (Inr ((), ?s1\<lparr>sdev := (sdev ?s1)\<lparr>hw := h2\<rparr>\<rparr>))"
    "sent h2 = sent (hw (sdev ?s1)) @ crlf (concat (map directive_text ?ds))" .
  let ?h = "sys_write m CNTP_TVAL_EL0 (1000 * one_ms (sdev s)) h2"
  obtain ks sw where y: "sched k (set_proc (skern s) p (\<lambda>x. x\<lparr>pstate := RUNNABLE\<rparr>)) = Inr (ks, sw)" "leaves k p RUNNABLE (skern s) ks sw"
    using sched_leaves [OF p] by blast
  show thesis
  proof (rule that [of sw ks ?h])
    show "hello m others k s = others sw (s\<lparr>sdev := (sdev s)\<lparr>hw := ?h\<rparr>, skern := ks\<rparr>)"
      using c(1) h2(1) y(1) p(1)
      by (simp add: hello_def this_cpu_def bind_act_def then_act_def dev_act_def reset_clock_def give_up_def yield_def)
    show "sent ?h = sent (hw (sdev s)) @ crlf (''CPU '' @ int_string 10 (int k) @ '': HELLO!'' @ [CHR 0x0A])"
      using h2(2) c(2) line k by (simp add: serial_line_def small_int_u64)
    show "tval ?h = 1000 * one_ms (sdev s)" using regs by (simp add: core_regs_def)
  qed (rule y(2))
qed

lemma timer_only:
  assumes "cpuid m (hw (get s)) = (i, h1)" "mread m (IRQ_SRC_CORE i) h1 = (IRQ_SRC_CNTPNSIRQ, h2)"
    and "clock_handler (get (put ((get s)\<lparr>hw := h2\<rparr>) s)) = Some f"
  shows "interrupt_global_handler m get put clock call s = clock f (put ((get s)\<lparr>hw := h2\<rparr>) s)"
proof -
  have "dev_get m (IRQ_SRC_CORE i) ((get s)\<lparr>hw := h1\<rparr>) = (IRQ_SRC_CNTPNSIRQ, (get s)\<lparr>hw := h2\<rparr>)"
    using assms(2) by (simp add: dev_get_def device_get_u32_def)
  then show ?thesis
    unfolding interrupt_global_handler_def assms(1) prod.case Let_def
    by (simp only: prod.case assms(3)) (simp add: invoke_clock_handler_def bind_run_assoc)
qed

text \<open>C6: a timer interrupt that finds the console free and a process on the CPU goes through the trap handler, the interrupt
  controller and the clock driver to the timer handler: it prints its greeting, sets the timer to 1000 ms, makes the
  interrupted process, and no other, runnable and switches to the scheduler of the CPU. When that process is switched
  to again the handler returns, in whatever state the others have left.\<close>

theorem timer_interrupt:
  assumes "core_regs m k esr src tval sent" "serial_line m sent busy" "ready s" "k < NCPU"
    and "drop_bit ESR_EC_SHIFT (esr (hw (sdev s))) = 0" "esr (hw (sdev s)) AND ESR_IR_MASK = 0"
    and "src (hw (sdev s)) = IRQ_SRC_CNTPNSIRQ" "clock_handler (sdev s) = Some hello_handler"
    and "cproc (cpus (skern s) k) = Some p" "snd p < length (ptable (scheduler (conts (skern s) (fst p))))"
  shows "\<exists>h ks sw. trap_global_handler m others user_string k frame s =
      run_act (others sw) (s\<lparr>sdev := (sdev s)\<lparr>hw := h\<rparr>, skern := ks\<rparr>) \<and>
    sent h = sent (hw (sdev s)) @ crlf (''CPU '' @ int_string 10 (int k) @ '': HELLO!'' @ [CHR 0x0A]) \<and>
    tval h = 1000 * one_ms (sdev s) \<and> leaves k p RUNNABLE (skern s) ks sw"
proof -
  obtain h1 where h1: "arch_get_esr m (hw (sdev s)) = (esr (hw (sdev s)), h1)" "src (arch_reset_esr m h1) = src (hw (sdev s))"
    "sent (arch_reset_esr m h1) = sent (hw (sdev s))" using esr_read [OF assms(1,2)] by blast
  let ?h = "arch_reset_esr m h1"
  obtain h2 where c: "cpuid m ?h = (of_nat k, h2)" "src h2 = src ?h" "sent h2 = sent ?h"
    using cpuid_core [OF assms(1)] by blast
  obtain h3 where g: "mread m (IRQ_SRC_CORE (of_nat k)) h2 = (src h2, h3)" "sent h3 = sent h2"
    using source_core [OF assms(1)] by blast
  let ?s = "s\<lparr>sdev := (sdev s)\<lparr>hw := h3\<rparr>\<rparr>"
  obtain h ks sw where r: "hello m others k ?s = others sw (?s\<lparr>sdev := (sdev ?s)\<lparr>hw := h\<rparr>, skern := ks\<rparr>)"
    "sent h = sent (hw (sdev ?s)) @ crlf (''CPU '' @ int_string 10 (int k) @ '': HELLO!'' @ [CHR 0x0A])"
    "tval h = 1000 * one_ms (sdev ?s)" "leaves k p RUNNABLE (skern ?s) ks sw"
    by (rule hello_runs [OF assms(1,2), of ?s p others]) (use assms in simp_all)
  have "trap_global_handler m others user_string k frame s = run_act (hello m others k) ?s"
  proof -
    let ?s1 = "s\<lparr>sdev := (sdev s)\<lparr>hw := ?h\<rparr>\<rparr>"
    have "trap_global_handler m others user_string k frame s =
      interrupt_global_handler m sdev (\<lambda>d s. s\<lparr>sdev := d\<rparr>) (call_clock m others k) (call_irq m others k) ?s1"
      unfolding trap_global_handler_def h1(1) prod.case Let_def assms(5,6) by (simp only: if_True refl simp_thms if_False)
    moreover have "mread m (IRQ_SRC_CORE (of_nat k)) h2 = (IRQ_SRC_CNTPNSIRQ, h3)" using g(1) c(2) h1(2) assms(7) by (simp only: )
    note timer_only [of m sdev ?s1, OF _ this, of "\<lambda>d s. s\<lparr>sdev := d\<rparr>" hello_handler]
    ultimately show ?thesis using c(1) assms(8) by (simp add: call_clock_def)
  qed
  then show ?thesis using r h1(3) c(3) g(2) by (auto simp: run_act_def)
qed

subsection \<open>Exceptions and system calls\<close>

definition exit_text :: "u32 \<Rightarrow> string" where
  "exit_text i = CHR 0x0A # ''[exit] process (pid = '' @ int_string 10 (sint i) @ '') at exit.'' @ [CHR 0x0A]"

lemma pid_upd_proc:
  "snd p < length (ptable (scheduler (cs (fst p)))) \<Longrightarrow> pid (proc_at (upd_proc cs p (pstate_update f)) p) = pid (proc_at cs p)"
  by (simp add: upd_proc_def upd_sched_def proc_at_def)

lemma ucast_scast [simp]: "ucast (scast (x :: u32) :: u64) = x"
  by (rule bit_word_eqI) (auto simp: bit_simps)

lemma exit_runs:
  assumes line: "serial_line m sent busy" and "ready s"
    and p: "cproc (cpus (skern s) k) = Some p" "snd p < length (ptable (scheduler (conts (skern s) (fst p))))"
  obtains h ks sw where "exit_call m others k s =
      bind_run (others sw (s\<lparr>sdev := (sdev s)\<lparr>hw := h\<rparr>, skern := ks\<rparr>)) (\<lambda>_. Some (Inl (Panic ''ERROR: ZOMBIE trying return from exit'')))"
    "sent h = sent (hw (sdev s)) @ crlf (exit_text (pid (proc_at (conts (skern s)) p)))" "leaves k p ZOMBIE (skern s) ks sw"
proof -
  let ?ks = "set_proc (skern s) p (\<lambda>x. x\<lparr>pstate := ZOMBIE\<rparr>)"
  let ?s1 = "s\<lparr>skern := ?ks\<rparr>" and ?i = "pid (proc_at (conts (skern s)) p)"
  let ?ds = "lits (CHR 0x0A # ''[exit] process (pid = '') @ [Num Cd (scast ?i)] @ lits ('') at exit.'' @ [CHR 0x0A])"
  have "ready ?s1" using assms(2) by simp
  from kprintf_sends [OF line this, of k ?ds] obtain h where
    h: "kprintf m k (concat (map spelling ?ds)) (concat (map argument ?ds)) ?s1 = Some (Inr ((), ?s1\<lparr>sdev := (sdev ?s1)\<lparr>hw := h\<rparr>\<rparr>))"
    "sent h = sent (hw (sdev ?s1)) @ crlf (concat (map directive_text ?ds))" .
  obtain ks sw where y: "sched k ?ks = Inr (ks, sw)" "leaves k p ZOMBIE (skern s) ks sw"
    using sched_leaves [OF p] by blast
  show thesis
  proof (rule that [of sw ks h])
    show "exit_call m others k s =
      bind_run (others sw (s\<lparr>sdev := (sdev s)\<lparr>hw := h\<rparr>, skern := ks\<rparr>)) (\<lambda>_. Some (Inl (Panic ''ERROR: ZOMBIE trying return from exit'')))"
      using h(1) y(1) p
      by (simp add: exit_call_def this_proc_def proc_pid_def bind_act_def then_act_def give_up_def pid_upd_proc fails_def) (simp add: split_def)
    show "sent h = sent (hw (sdev s)) @ crlf (exit_text ?i)" using h(2) by (simp add: exit_text_def)
  qed (rule y(2))
qed

text \<open>C32: an exception that is neither an interrupt nor a system call, such as a fault of a user program, ends the current process: its
  exit is announced with its identifier, it alone becomes a zombie and the CPU switches to its scheduler. The handler never
  returns: should anything switch back to the zombie, the kernel panics.\<close>

theorem exception_kills:
  assumes "core_regs m k esr src tval sent" "serial_line m sent busy" "ready s"
    and "drop_bit ESR_EC_SHIFT (esr (hw (sdev s))) \<notin> {ESR_EC_UNKNOWN, ESR_EC_SVC64}"
    and "cproc (cpus (skern s) k) = Some p" "snd p < length (ptable (scheduler (conts (skern s) (fst p))))"
  shows "\<exists>h ks sw. trap_global_handler m others user_string k frame s =
      bind_run (others sw (s\<lparr>sdev := (sdev s)\<lparr>hw := h\<rparr>, skern := ks\<rparr>)) (\<lambda>_. Some (Inl (Panic ''ERROR: ZOMBIE trying return from exit''))) \<and>
    sent h = sent (hw (sdev s)) @ crlf (exit_text (pid (proc_at (conts (skern s)) p))) \<and> leaves k p ZOMBIE (skern s) ks sw"
proof -
  obtain h1 where h1: "arch_get_esr m (hw (sdev s)) = (esr (hw (sdev s)), h1)" "src (arch_reset_esr m h1) = src (hw (sdev s))"
    "sent (arch_reset_esr m h1) = sent (hw (sdev s))" using esr_read [OF assms(1,2)] by blast
  let ?s = "s\<lparr>sdev := (sdev s)\<lparr>hw := arch_reset_esr m h1\<rparr>\<rparr>"
  obtain h ks sw where e: "exit_call m others k ?s =
      bind_run (others sw (?s\<lparr>sdev := (sdev ?s)\<lparr>hw := h\<rparr>, skern := ks\<rparr>)) (\<lambda>_. Some (Inl (Panic ''ERROR: ZOMBIE trying return from exit'')))"
    "sent h = sent (hw (sdev ?s)) @ crlf (exit_text (pid (proc_at (conts (skern ?s)) p)))" "leaves k p ZOMBIE (skern ?s) ks sw"
    by (rule exit_runs [OF assms(2), of ?s k p others]) (use assms(3,5,6) in simp_all)
  have "trap_global_handler m others user_string k frame s = run_act (exit_call m others k) ?s"
    using assms(4) unfolding trap_global_handler_def h1(1) by (simp add: Let_def)
  then show ?thesis using e h1(3) by (intro exI [of _ h] exI [of _ ks] exI [of _ sw]) (simp add: run_act_def bind_run_assoc)
qed

lemma sys_myprint_runs:
  assumes line: "serial_line m sent busy" and "ready s"
    and p: "cproc (cpus (skern s) k) = Some p" "snd p < length (ptable (scheduler (conts (skern s) (fst p))))"
    and root: "find_rootpid (take NPID (pmap (conts (skern s) (root_container (skern s))))) (Some p) (-1) = sint (i :: u32)" "0 < sint i"
  obtains h ks sw where "sys_myprint m others k x s = others sw (s\<lparr>sdev := (sdev s)\<lparr>hw := h\<rparr>, skern := ks\<rparr>)"
    "sent h = sent (hw (sdev s)) @ crlf (''pid '' @ int_string 10 (sint (pid (proc_at (conts (skern s)) p))) @
       '', pid in root '' @ int_string 10 (sint i) @ '', cnt '' @ int_string 10 (sint x) @ [CHR 0x0A])"
    "leaves k p RUNNABLE (skern s) ks sw"
proof -
  let ?i = "pid (proc_at (conts (skern s)) p)"
  let ?ds = "lits ''pid '' @ [Num Cd (scast ?i)] @ lits '', pid in root '' @ [Num Cd (scast i)] @ lits '', cnt '' @ [Num Cd (scast x)] @ lits [CHR 0x0A]"
  from kprintf_sends [OF line assms(2), of k ?ds] obtain h where
    h: "kprintf m k (concat (map spelling ?ds)) (concat (map argument ?ds)) s = Some (Inr ((), s\<lparr>sdev := (sdev s)\<lparr>hw := h\<rparr>\<rparr>))"
    "sent h = sent (hw (sdev s)) @ crlf (concat (map directive_text ?ds))" .
  obtain ks sw where y: "sched k (set_proc (skern s) p (\<lambda>x. x\<lparr>pstate := RUNNABLE\<rparr>)) = Inr (ks, sw)" "leaves k p RUNNABLE (skern s) ks sw"
    using sched_leaves [OF p] by blast
  have e: "of_int (sint i) = (scast i :: u64)" by simp
  show thesis
  proof (rule that [of sw ks h])
    show "sys_myprint m others k x s = others sw (s\<lparr>sdev := (sdev s)\<lparr>hw := h\<rparr>, skern := ks\<rparr>)"
      using h(1) y(1) p root e
      by (simp add: sys_myprint_def this_proc_def proc_pid_def bind_act_def then_act_def give_up_def yield_def)
    show "sent h = sent (hw (sdev s)) @ crlf (''pid '' @ int_string 10 (sint ?i) @ '', pid in root '' @ int_string 10 (sint i) @
        '', cnt '' @ int_string 10 (sint x) @ [CHR 0x0A])"
      using h(2) by simp
  qed (rule y(2))
qed

lemma sys_myexit_runs:
  assumes line: "serial_line m sent busy" and "ready s"
    and p: "cproc (cpus (skern s) k) = Some p" "snd p < length (ptable (scheduler (conts (skern s) (fst p))))"
  obtains h ks sw where "sys_myexit m others k s =
      bind_run (others sw (s\<lparr>sdev := (sdev s)\<lparr>hw := h\<rparr>, skern := ks\<rparr>)) (\<lambda>_. Some (Inl (Panic ''ERROR: ZOMBIE trying return from exit'')))"
    "sent h = sent (hw (sdev s)) @ crlf (''sys_exit: in exit'' @ [CHR 0x0A] @ exit_text (pid (proc_at (conts (skern s)) p)))"
    "leaves k p ZOMBIE (skern s) ks sw"
proof -
  let ?ds = "lits (''sys_exit: in exit'' @ [CHR 0x0A])"
  obtain h1 where h1: "kprintf m k (concat (map spelling ?ds)) (concat (map argument ?ds)) s = Some (Inr ((), s\<lparr>sdev := (sdev s)\<lparr>hw := h1\<rparr>\<rparr>))"
    "sent h1 = sent (hw (sdev s)) @ crlf (concat (map directive_text ?ds))"
    using kprintf_sends [OF assms(1,2), of k ?ds] by blast
  let ?s1 = "s\<lparr>sdev := (sdev s)\<lparr>hw := h1\<rparr>\<rparr>"
  obtain h ks sw where e: "exit_call m others k ?s1 =
      bind_run (others sw (?s1\<lparr>sdev := (sdev ?s1)\<lparr>hw := h\<rparr>, skern := ks\<rparr>)) (\<lambda>_. Some (Inl (Panic ''ERROR: ZOMBIE trying return from exit'')))"
    "sent h = sent (hw (sdev ?s1)) @ crlf (exit_text (pid (proc_at (conts (skern ?s1)) p)))" "leaves k p ZOMBIE (skern ?s1) ks sw"
    by (rule exit_runs [OF assms(1), of ?s1 k p others]) (use assms in simp_all)
  show thesis
    by (rule that [of sw ks h])
      (use h1 e in \<open>simp_all add: sys_myexit_def then_act_def bind_act_def flip: crlf_simps(2)\<close>)
qed

lemma svc_enters:
  assumes "core_regs m k esr src tval sent" "serial_line m sent busy" "drop_bit ESR_EC_SHIFT (esr (hw (sdev s))) = ESR_EC_SVC64"
  obtains h where "trap_global_handler m others user_string k frame s =
      bind_run (run_act (syscall_dispatch m others user_string k frame) (s\<lparr>sdev := (sdev s)\<lparr>hw := h\<rparr>\<rparr>)) (\<lambda>s2.
        if esr (hw (sdev s)) AND ESR_ISS_MASK \<noteq> 0 then Some (Inl (Panic ''iss should not be zero'')) else Some (Inr s2))"
    "sent h = sent (hw (sdev s))"
proof -
  obtain h1 where h1: "arch_get_esr m (hw (sdev s)) = (esr (hw (sdev s)), h1)" "src (arch_reset_esr m h1) = src (hw (sdev s))"
    "sent (arch_reset_esr m h1) = sent (hw (sdev s))" using esr_read [OF assms(1,2)] by blast
  show thesis
    by (rule that [OF _ h1(3)]) (use assms(3) in \<open>simp add: trap_global_handler_def h1(1) Let_def\<close>)
qed

text \<open>C22: a system call of a user program runs the call its register 8 selects. Printing shows the two identifiers of the process
  and the argument and yields; after that the call returns, unless the immediate of the instruction was not 0, which
  panics only then. Exit announces itself, makes the process a zombie and never returns. The exec call only
  prints its argument. Any other number panics.\<close>

theorem svc_traps:
  assumes "core_regs m k esr src tval sent" "serial_line m sent busy" "ready s"
    and "drop_bit ESR_EC_SHIFT (esr (hw (sdev s))) = ESR_EC_SVC64"
    and "cproc (cpus (skern s) k) = Some p" "snd p < length (ptable (scheduler (conts (skern s) (fst p))))"
    and "find_rootpid (take NPID (pmap (conts (skern s) (root_container (skern s))))) (Some p) (-1) = sint (i :: u32)" "0 < sint i"
  shows "(r8 frame = SYS_myprint \<longrightarrow> (\<exists>h ks sw. trap_global_handler m others user_string k frame s =
      bind_run (run_act (others sw) (s\<lparr>sdev := (sdev s)\<lparr>hw := h\<rparr>, skern := ks\<rparr>)) (\<lambda>s2.
        if esr (hw (sdev s)) AND ESR_ISS_MASK \<noteq> 0 then Some (Inl (Panic ''iss should not be zero'')) else Some (Inr s2)) \<and>
      sent h = sent (hw (sdev s)) @ crlf (''pid '' @ int_string 10 (sint (pid (proc_at (conts (skern s)) p))) @
        '', pid in root '' @ int_string 10 (sint i) @ '', cnt '' @ int_string 10 (sint (ucast (r0 frame) :: u32)) @ [CHR 0x0A]) \<and>
      leaves k p RUNNABLE (skern s) ks sw)) \<and>
    (r8 frame = SYS_myexit \<longrightarrow> (\<exists>h ks sw. trap_global_handler m others user_string k frame s =
      bind_run (others sw (s\<lparr>sdev := (sdev s)\<lparr>hw := h\<rparr>, skern := ks\<rparr>)) (\<lambda>_. Some (Inl (Panic ''ERROR: ZOMBIE trying return from exit''))) \<and>
      sent h = sent (hw (sdev s)) @ crlf (''sys_exit: in exit'' @ [CHR 0x0A] @ exit_text (pid (proc_at (conts (skern s)) p))) \<and>
      leaves k p ZOMBIE (skern s) ks sw)) \<and>
    (r8 frame = SYS_myexecve \<and> esr (hw (sdev s)) AND ESR_ISS_MASK = 0 \<and> user_string (r0 frame) = Some cs \<longrightarrow>
      (\<exists>h. trap_global_handler m others user_string k frame s = Some (Inr (s\<lparr>sdev := (sdev s)\<lparr>hw := h\<rparr>\<rparr>)) \<and>
      sent h = sent (hw (sdev s)) @ crlf (''sys_exec: executing '' @ cs @ [CHR 0x0A]))) \<and>
    (r8 frame \<notin> {SYS_myexecve, SYS_myexit, SYS_myprint} \<longrightarrow>
      trap_global_handler m others user_string k frame s = Some (Inl (Panic ''Unknown syscall number.'')))"
proof -
  obtain h0 where t: "trap_global_handler m others user_string k frame s =
      bind_run (run_act (syscall_dispatch m others user_string k frame) (s\<lparr>sdev := (sdev s)\<lparr>hw := h0\<rparr>\<rparr>)) (\<lambda>s2.
        if esr (hw (sdev s)) AND ESR_ISS_MASK \<noteq> 0 then Some (Inl (Panic ''iss should not be zero'')) else Some (Inr s2))"
    "sent h0 = sent (hw (sdev s))" using svc_enters [OF assms(1,2,4)] by blast
  let ?s = "s\<lparr>sdev := (sdev s)\<lparr>hw := h0\<rparr>\<rparr>" and ?i = "pid (proc_at (conts (skern s)) p)"
  have r: "ready ?s" using assms(3) by simp
  show ?thesis
  proof (intro conjI impI, goal_cases)
    case 1
    obtain h ks sw where "sys_myprint m others k (ucast (r0 frame)) ?s = others sw (?s\<lparr>sdev := (sdev ?s)\<lparr>hw := h\<rparr>, skern := ks\<rparr>)"
      "sent h = sent (hw (sdev ?s)) @ crlf (''pid '' @ int_string 10 (sint ?i) @
         '', pid in root '' @ int_string 10 (sint i) @ '', cnt '' @ int_string 10 (sint (ucast (r0 frame) :: u32)) @ [CHR 0x0A])"
      "leaves k p RUNNABLE (skern s) ks sw"
      by (rule sys_myprint_runs [OF assms(2) r, of k p i others "ucast (r0 frame)"]) (use assms(5-8) in simp_all)
    with 1 show ?case
      unfolding t(1) by (intro exI [of _ h] exI [of _ ks] exI [of _ sw]) (simp add: syscall_dispatch_def run_act_def t(2))
  next
    case 2
    obtain h ks sw where "sys_myexit m others k ?s =
        bind_run (others sw (?s\<lparr>sdev := (sdev ?s)\<lparr>hw := h\<rparr>, skern := ks\<rparr>)) (\<lambda>_. Some (Inl (Panic ''ERROR: ZOMBIE trying return from exit'')))"
      "sent h = sent (hw (sdev ?s)) @ crlf (''sys_exit: in exit'' @ [CHR 0x0A] @ exit_text ?i)" "leaves k p ZOMBIE (skern s) ks sw"
      by (rule sys_myexit_runs [OF assms(2) r, of k p others]) (use assms(5,6) in simp_all)
    with 2 show ?case unfolding t(1)
      by (intro exI [of _ h] exI [of _ ks] exI [of _ sw]) (simp add: syscall_dispatch_def run_act_def t(2) bind_run_assoc)
  next
    case 3
    let ?ds = "lits ''sys_exec: executing '' @ [Str (Some cs)] @ lits [CHR 0x0A]"
    obtain h where "kprintf m k (concat (map spelling ?ds)) (concat (map argument ?ds)) ?s = Some (Inr ((), ?s\<lparr>sdev := (sdev ?s)\<lparr>hw := h\<rparr>\<rparr>))"
      "sent h = sent (hw (sdev ?s)) @ crlf (concat (map directive_text ?ds))"
      using kprintf_sends [OF assms(2) r, of k ?ds] by blast
    with 3 show ?case
      unfolding t(1) using t(2) by (intro exI [of _ h]) (simp add: syscall_dispatch_def sys_myexecve_def run_act_def)
  next
    case 4
    then show ?case unfolding t(1) by (simp add: syscall_dispatch_def run_act_def fails_def)
  qed
qed

subsection \<open>A machine that traps\<close>

text \<open>A CPU with a UART that is always ready: the syndrome, the interrupt source, the timer and the line. One process runs on CPU 0.\<close>

definition cpu_example :: "(u64 \<times> u32 \<times> u64 \<times> u8 list) machine" where
  "cpu_example = \<lparr>mread = (\<lambda>a h. (if a = AUX_MU_LSR_REG then 0x20 else fst (snd h), h)),
     mwrite = (\<lambda>a v (e, q, t, l). if a = AUX_MU_IO_REG then (e, q, t, l @ [ucast v]) else (e, q, t, l)),
     sys_read = (\<lambda>r h. (if r = ESR_EL1 then fst h else 0, h)),
     sys_write = (\<lambda>r v (e, q, t, l). if r = ESR_EL1 then (v, q, t, l) else if r = CNTP_TVAL_EL0 then (e, q, v, l) else (e, q, t, l)),
     exec_insn = (\<lambda>i h. h)\<rparr>"

definition cur_proc :: procref where
  "cur_proc = (4096, 0)"

definition trap_example :: "u64 \<Rightarrow> u32 \<Rightarrow> (u64 \<times> u32 \<times> u64 \<times> u8 list) sdsys" where
  "trap_example e q =
     \<lparr>sdev = \<lparr>hw = (e, q, 0, []), one_ms = 62500, clock_handler = Some hello_handler, irq_handler = replicate NUM_IRQ_TYPES None,
        con_lock = \<lparr>locked = False, lcpu = None, lname = ''console''\<rparr>, panicked_flag = False\<rparr>,
      sdCard = sdCard (sd_example 0), sdHostVer = 0, sdBaseClock = 0, sdlock = null_lock, squeue = squeue (sd_example 0),
      skern = sys_example\<lparr>conts := (\<lambda>_. (fresh_container 4096)\<lparr>pmap := replicate NPID \<lparr>mvalid = True, pid_local = 1, mproc = Some cur_proc\<rparr>\<rparr>),
        root_container := 4096, cpus := (\<lambda>_. \<lparr>cscheduler = 4096, cproc = Some cur_proc\<rparr>)\<rparr>\<rparr>"

lemma cpu_example_ok:
  "core_regs cpu_example 0 fst (fst \<circ> snd) (fst \<circ> snd \<circ> snd) (snd \<circ> snd \<circ> snd)"
  "serial_line cpu_example (snd \<circ> snd \<circ> snd) (\<lambda>_. 0)"
proof -
  have "IRQ_SRC_CORE (of_nat 0) \<noteq> AUX_MU_LSR_REG" by simp
  then show "core_regs cpu_example 0 fst (fst \<circ> snd) (fst \<circ> snd \<circ> snd) (snd \<circ> snd \<circ> snd)"
    by (simp add: core_regs_def cpu_example_def split: prod.split)
  show "serial_line cpu_example (snd \<circ> snd \<circ> snd) (\<lambda>_. 0)"
    by (simp add: serial_line_def cpu_example_def split: prod.split)
qed

lemma trap_example_ok:
  "ready (trap_example e q)" "cproc (cpus (skern (trap_example e q)) 0) = Some cur_proc"
  "snd cur_proc < length (ptable (scheduler (conts (skern (trap_example e q)) (fst cur_proc))))"
  "hw (sdev (trap_example e q)) = (e, q, 0, [])" "clock_handler (sdev (trap_example e q)) = Some hello_handler"
  by (simp_all add: trap_example_def ready_def lock_free_def fresh_container_def zero_container_def cur_proc_def)

lemma trap_example_rootpid:
  "find_rootpid (take NPID (pmap (conts (skern (trap_example e q)) (root_container (skern (trap_example e q)))))) (Some cur_proc) (-1) = sint (1 :: u32)"
proof -
  have "find_rootpid (replicate n \<lparr>mvalid = True, pid_local = 1, mproc = Some cur_proc\<rparr>) (Some cur_proc) r = (if n = 0 then r else sint (1 :: u32))" for n r
    by (induction n arbitrary: r) auto
  then show ?thesis by (simp add: trap_example_def)
qed

text \<open>Nobody switches back, and the example process comes back at once.\<close>

definition never :: "switch \<Rightarrow> ('s, unit) act" where "never sw s = None"
definition at_once :: "switch \<Rightarrow> ('s, unit) act" where "at_once sw = ret ()"

definition frame_example :: "u64 \<Rightarrow> u64 \<Rightarrow> Trapframe" where
  "frame_example n x = \<lparr>tf_SP_EL0 = 0, tf_SPSR_EL1 = 0, tf_ELR_EL1 = 0x40, r0 = x, r1 = 0, r2 = 0, r3 = 0, r4 = 0, r5 = 0, r6 = 0, r7 = 0, r8 = n, r9 = 0, r10 = 0, r11 = 0, r12 = 0, r13 = 0, 
     r14 = 0, r15 = 0, r16 = 0, r17 = 0, r18 = 0, r19 = 0, r20 = 0, r21 = 0, r22 = 0, r23 = 0, r24 = 0, r25 = 0, r26 = 0, r27 = 0, r28 = 0, r29 = 0, r30 = 0\<rparr>"

theorem timer_interrupt_witness:
  "\<exists>s'. trap_global_handler cpu_example at_once (\<lambda>_. None) 0 (frame_example 0 0) (trap_example 0 IRQ_SRC_CNTPNSIRQ) = Some (Inr s') \<and>
     fst (snd (snd (hw (sdev s')))) = 62500000 \<and>
     snd (snd (snd (hw (sdev s')))) = crlf (''CPU 0: HELLO!'' @ [CHR 0x0A]) \<and> pstate (proc_at (conts (skern s')) cur_proc) = RUNNABLE"
proof -
  let ?s = "trap_example 0 IRQ_SRC_CNTPNSIRQ"
  have e: "drop_bit ESR_EC_SHIFT (fst (hw (sdev ?s))) = 0" "fst (hw (sdev ?s)) AND ESR_IR_MASK = 0"
    "(fst \<circ> snd) (hw (sdev ?s)) = IRQ_SRC_CNTPNSIRQ" "0 < NCPU" by (simp_all add: trap_example_ok)
  obtain h ks sw where r: "trap_global_handler cpu_example at_once (\<lambda>_. None) 0 (frame_example 0 0) ?s =
      run_act (at_once sw) (?s\<lparr>sdev := (sdev ?s)\<lparr>hw := h\<rparr>, skern := ks\<rparr>)"
    "(snd \<circ> snd \<circ> snd) h = (snd \<circ> snd \<circ> snd) (hw (sdev ?s)) @ crlf (''CPU '' @ int_string 10 (int 0) @ '': HELLO!'' @ [CHR 0x0A])"
    "(fst \<circ> snd \<circ> snd) h = 1000 * one_ms (sdev ?s)" "leaves 0 cur_proc RUNNABLE (skern ?s) ks sw"
    using timer_interrupt [OF cpu_example_ok trap_example_ok(1) e(4) e(1-3) trap_example_ok(5,2,3)] by blast
  have ms: "one_ms (sdev ?s) = 62500" by (simp add: trap_example_def)
  have i: "int_string 10 (int 0) = ''0''" by (simp add: int_string_def nat_string.simps digit_def)
  show ?thesis
    using r ms unfolding i by (auto simp: run_act_def at_once_def ret_def leaves_def trap_example_ok)
qed

theorem exception_kills_witness:
  "trap_global_handler cpu_example at_once (\<lambda>_. None) 0 (frame_example 0 0) (trap_example 0x92000046 0) =
     Some (Inl (Panic ''ERROR: ZOMBIE trying return from exit'')) \<and>
   trap_global_handler cpu_example never (\<lambda>_. None) 0 (frame_example 0 0) (trap_example 0x92000046 0) = None"
proof -
  have e: "drop_bit ESR_EC_SHIFT (fst (hw (sdev (trap_example 0x92000046 0)))) \<notin> {ESR_EC_UNKNOWN, ESR_EC_SVC64}"
    by (simp add: trap_example_ok)
  note k = exception_kills [OF cpu_example_ok trap_example_ok(1) e trap_example_ok(2,3), of _ "\<lambda>_. None" "frame_example 0 0"]
  show ?thesis using k [of at_once] k [of never] by (auto simp: at_once_def never_def ret_def)
qed

theorem svc_traps_witness:
  "(\<exists>s'. trap_global_handler cpu_example at_once (\<lambda>_. None) 0 (frame_example SYS_myprint 7) (trap_example 0x56000000 0) = Some (Inr s') \<and>
      pstate (proc_at (conts (skern s')) cur_proc) = RUNNABLE) \<and>
   trap_global_handler cpu_example at_once (\<lambda>_. None) 0 (frame_example 459 0) (trap_example 0x56000000 0) = Some (Inl (Panic ''Unknown syscall number.''))"
proof -
  let ?s = "trap_example 0x56000000 0"
  have e: "drop_bit ESR_EC_SHIFT (fst (hw (sdev ?s))) = ESR_EC_SVC64" "0 < sint (1 :: u32)" "fst (hw (sdev ?s)) AND ESR_ISS_MASK = 0"
    by (simp_all add: trap_example_ok)
  have f: "r8 (frame_example n x) = n" for n x by (simp add: frame_example_def)
  note svc = svc_traps [OF cpu_example_ok trap_example_ok(1) e(1) trap_example_ok(2,3) trap_example_rootpid e(2), of _ at_once "\<lambda>_. None"]
  obtain h ks sw where "trap_global_handler cpu_example at_once (\<lambda>_. None) 0 (frame_example SYS_myprint 7) ?s =
      run_act (at_once sw) (?s\<lparr>sdev := (sdev ?s)\<lparr>hw := h\<rparr>, skern := ks\<rparr>)" "leaves 0 cur_proc RUNNABLE (skern ?s) ks sw"
    using svc [of "frame_example SYS_myprint 7"] f [of SYS_myprint 7] e(3) by auto
  moreover have "trap_global_handler cpu_example at_once (\<lambda>_. None) 0 (frame_example 459 0) ?s = Some (Inl (Panic ''Unknown syscall number.''))"
    using svc [of "frame_example 459 0"] f [of 459 0] by simp
  ultimately show ?thesis by (auto simp: run_act_def at_once_def ret_def leaves_def)
qed

end
