(* ===== verification/KSdTest.thy ===== *)
theory KSdTest
  imports KBlockDev KTrapSpec
begin

text \<open>
  The test of the disk in \<open>src/driver/sd.c\<close>, which the first process of \<open>src/core/proc.c\<close> runs: every block is saved, overwritten with a pattern, read
  back, compared and restored; then all blocks are read and written once for a measurement. The contract of a request is the interface
  \<open>disk_service\<close>, which \<open>sdrw\<close> provides when the interrupt of the controller is delivered.\<close>

subsection \<open>The test\<close>

text \<open>The \<open>i\<close>-th of the static buffers, 536 bytes each.\<close>

definition test_buf :: "addr \<Rightarrow> nat \<Rightarrow> addr" where
  "test_buf b i = b + 536 * of_nat i"

definition test_pattern :: "nat \<Rightarrow> u8 list" where
  "test_pattern i = map (\<lambda>j. of_nat (i * j)) [0..<512]"

definition sd_check_block :: "'h machine \<Rightarrow> 'h others \<Rightarrow> nat \<Rightarrow> addr \<Rightarrow> nat \<Rightarrow> ('h sdsys, unit) act" where
  "sd_check_block m others k b i =
     (let b0 = test_buf b 0; bi = test_buf b i in
      then_act (set_buf b0 (\<lambda>x. x\<lparr>bflags := 0, blockno := of_nat i\<rparr>))
      (then_act (sdrw_call m others k b0)
      (then_act (set_buf bi (\<lambda>x. x\<lparr>bflags := B_DIRTY, blockno := of_nat i, bdata := test_pattern i\<rparr>))
      (then_act (sdrw_call m others k bi)
      (then_act (set_buf bi (\<lambda>x. x\<lparr>bdata := replicate 512 0, bflags := 0\<rparr>))
      (then_act (sdrw_call m others k bi)
      (bind_act (buf_act bi bdata) (\<lambda>d.
       assert_act (\<forall>j\<in>set [0..<512]. d ! j = of_nat (i * j)) ''b[i].data[j] == (i * j & 0xFF)''
      (then_act (set_buf b0 (\<lambda>x. x\<lparr>bflags := B_DIRTY\<rparr>))
       (sdrw_call m others k b0))))))))))"

text \<open>The loops from \<open>i\<close> on, \<open>r\<close> times.\<close>

primrec sd_check_rw :: "'h machine \<Rightarrow> 'h others \<Rightarrow> nat \<Rightarrow> addr \<Rightarrow> nat \<Rightarrow> nat \<Rightarrow> ('h sdsys, unit) act" where
  "sd_check_rw m others k b i 0 = ret ()"
| "sd_check_rw m others k b i (Suc r) = then_act (sd_check_block m others k b i) (sd_check_rw m others k b (Suc i) r)"

primrec sd_transfer_all :: "'h machine \<Rightarrow> 'h others \<Rightarrow> nat \<Rightarrow> addr \<Rightarrow> u32 \<Rightarrow> nat \<Rightarrow> nat \<Rightarrow> ('h sdsys, unit) act" where
  "sd_transfer_all m others k b fl i 0 = ret ()"
| "sd_transfer_all m others k b fl i (Suc r) =
     then_act (set_buf (test_buf b i) (\<lambda>x. x\<lparr>bflags := fl, blockno := of_nat i\<rparr>))
     (then_act (sdrw_call m others k (test_buf b i)) (sd_transfer_all m others k b fl (Suc i) r))"

definition sys_act :: "('h \<Rightarrow> 'a \<times> 'h) \<Rightarrow> ('h sdsys, 'a) act" where
  "sys_act f s = (case f (hw (sdev s)) of (x, h) \<Rightarrow> Some (Inr (x, s\<lparr>sdev := (sdev s)\<lparr>hw := h\<rparr>\<rparr>)))"

definition sd_now :: "'h machine \<Rightarrow> ('h sdsys, u64) act" where
  "sd_now m =
     then_act (machine_act (disb m)) (bind_act (sys_act (timestamp m)) (\<lambda>t. then_act (machine_act (disb m)) (ret t)))"

text \<open>A division of signed 64-bit integers; on this CPU the quotient by zero is zero.\<close>

definition div_i64 :: "u64 \<Rightarrow> u64 \<Rightarrow> u64" where
  "div_i64 x y = word_of_int (sint x sdiv sint y)"

definition mod_i64 :: "u64 \<Rightarrow> u64 \<Rightarrow> u64" where
  "mod_i64 x y = word_of_int (sint x smod sint y)"

definition sd_benchmark :: "'h machine \<Rightarrow> 'h others \<Rightarrow> nat \<Rightarrow> addr \<Rightarrow> u64 \<Rightarrow> string \<Rightarrow> u32 \<Rightarrow> ('h sdsys, unit) act" where
  "sd_benchmark m others k b f what fl =
     bind_act (sd_now m) (\<lambda>t0.
     then_act (sd_transfer_all m others k b fl 0 2048)
     (bind_act (sd_now m) (\<lambda>t1.
      let t = t1 - t0 in
      kprintf m k (what @ '' %lldB (%lldMB), t: %lld cycles, speed: %lld.%lld MB/s'' @ [CHR 0x0A])
        [VInt (2048 * 512), VInt 1, VInt t, VInt (div_i64 f t), VInt (mod_i64 (div_i64 (f * 10) t) 10)])))"

definition sd_test :: "'h machine \<Rightarrow> 'h others \<Rightarrow> nat \<Rightarrow> addr \<Rightarrow> ('h sdsys, unit) act" where
  "sd_test m others k b =
     bind_act (sys_act (get_clock_frequency m)) (\<lambda>f.
     then_act (kprintf m k (''- sd test: begin nblocks %d'' @ [CHR 0x0A]) [VInt 2048])
     (then_act (kprintf m k (''- sd check rw...'' @ [CHR 0x0A]) [])
     (then_act (sd_check_rw m others k b 1 2047)
     (then_act (sd_benchmark m others k b f ''- read'' 0)
      (sd_benchmark m others k b f ''- write'' B_DIRTY)))))"

definition initret :: "'h machine \<Rightarrow> 'h others \<Rightarrow> nat \<Rightarrow> addr \<Rightarrow> ('h sdsys, unit) act" where
  "initret m others k b = sd_test m others k b"

subsection \<open>The contract of a request\<close>

text \<open>\<open>idle\<close>: nothing is under way and the calling process runs; \<open>store\<close>: the words of the blocks; \<open>usable\<close>: where a buffer may be.\<close>

locale disk_service =
  fixes m :: "'h machine" and others :: "'h others" and k :: nat
    and idle :: "'h sdsys \<Rightarrow> bool" and store :: "'h sdsys \<Rightarrow> u32 \<Rightarrow> u32 list" and usable :: "'h sdsys \<Rightarrow> addr \<Rightarrow> bool"
  assumes call: "\<lbrakk>idle s; usable s b; x = bufs (squeue s) b; bflags x = 0 \<or> bflags x = B_DIRTY \<and> length (bdata x) = 512\<rbrakk> \<Longrightarrow>
      \<exists>s'. sdrw_call m others k b s = Some (Inr ((), s')) \<and> idle s' \<and> usable s' = usable s \<and>
        bufs (squeue s') = (bufs (squeue s))(b := x\<lparr>bdata := if bflags x = 0 then bytes_of_words (store s (blockno x)) else bdata x, bflags := B_VALID\<rparr>) \<and>
        store s' = (if bflags x = 0 then store s else (store s)(blockno x := u32_words 128 (bdata x)))"
    and length_store: "idle s \<Longrightarrow> length (store s n) = 128"
    and not_null: "usable s b \<Longrightarrow> b \<noteq> NULL"
    and upd: "idle (upd_buf s b f) = idle s" "store (upd_buf s b f) = store s" "usable (upd_buf s b f) = usable s"
    and says: "idle s \<Longrightarrow> \<exists>s'. kprintf m k (concat (map spelling ds)) (concat (map argument ds)) s = Some (Inr ((), s')) \<and>
      idle s' \<and> usable s' = usable s \<and> store s' = store s \<and> bufs (squeue s') = bufs (squeue s)"
    and now: "idle s \<Longrightarrow> \<exists>t s'. sd_now m s = Some (Inr (t, s')) \<and> idle s' \<and> usable s' = usable s \<and> store s' = store s \<and> bufs (squeue s') = bufs (squeue s)"
    and freq: "idle s \<Longrightarrow> \<exists>f s'. sys_act (get_clock_frequency m) s = Some (Inr (f, s')) \<and> idle s' \<and> usable s' = usable s \<and> store s' = store s \<and>
      bufs (squeue s') = bufs (squeue s)"
begin

text \<open>A buffer is prepared and the request made.\<close>

lemma request:
  assumes "idle s" "usable s b" and f: "f (bufs (squeue s) b) = \<lparr>bflags = fl, blockno = n, bdata = d\<rparr>" and fl: "fl = 0 \<or> fl = B_DIRTY \<and> length d = 512"
  shows "\<exists>s'. (\<forall>g :: ('h sdsys, unit) act. then_act (set_buf b f) (then_act (sdrw_call m others k b) g) s = g s') \<and> then_act (set_buf b f) (sdrw_call m others k b) s = Some (Inr ((), s')) \<and>
    idle s' \<and> usable s' = usable s \<and> store s' = (if fl = 0 then store s else (store s)(n := u32_words 128 d)) \<and>
    bufs (squeue s') = (bufs (squeue s))(b := \<lparr>bflags = B_VALID, blockno = n, bdata = if fl = 0 then bytes_of_words (store s n) else d\<rparr>)"
proof -
  let ?s = "upd_buf s b f"
  have x: "\<lparr>bflags = fl, blockno = n, bdata = d\<rparr> = bufs (squeue ?s) b" using f by (simp add: upd_buf_def)
  have "idle ?s" "usable ?s b" "bflags \<lparr>bflags = fl, blockno = n, bdata = d\<rparr> = 0 \<or> bflags \<lparr>bflags = fl, blockno = n, bdata = d\<rparr> = B_DIRTY \<and> length (bdata \<lparr>bflags = fl, blockno = n, bdata = d\<rparr>) = 512"
    using assms by (simp_all add: upd)
  from call [OF this(1,2) x this(3)] obtain s' where r: "sdrw_call m others k b ?s = Some (Inr ((), s'))" "idle s'" "usable s' = usable s"
      "store s' = (if fl = 0 then store s else (store s)(n := u32_words 128 d))"
      "bufs (squeue s') = (bufs (squeue ?s))(b := \<lparr>bflags = B_VALID, blockno = n, bdata = if fl = 0 then bytes_of_words (store s n) else d\<rparr>)"
    by (auto simp: upd)
  then show ?thesis by (intro exI [of _ s']) (simp add: then_act_def bind_act_def set_buf_def, simp add: upd_buf_def)
qed

lemma check_block:
  assumes "idle s" "usable s (test_buf b 0)" "usable s (test_buf b i)" "test_buf b i \<noteq> test_buf b 0"
  shows "\<exists>s'. sd_check_block m others k b i s = Some (Inr ((), s')) \<and> idle s' \<and> usable s' = usable s \<and> store s' = store s \<and>
    (\<forall>c. c \<noteq> test_buf b 0 \<and> c \<noteq> test_buf b i \<longrightarrow> bufs (squeue s') c = bufs (squeue s) c)"
proof -
  let ?b0 = "test_buf b 0" and ?bi = "test_buf b i" and ?old = "bytes_of_words (store s (of_nat i))"
  have len: "length ?old = 512" using length_store [OF assms(1)] by simp
  obtain s1 where s1: "\<And>g :: ('h sdsys, unit) act. then_act (set_buf ?b0 (\<lambda>x. x\<lparr>bflags := 0, blockno := of_nat i\<rparr>)) (then_act (sdrw_call m others k ?b0) g) s = g s1"
      "idle s1" "usable s1 = usable s" "store s1 = store s" "bufs (squeue s1) = (bufs (squeue s))(?b0 := \<lparr>bflags = B_VALID, blockno = of_nat i, bdata = ?old\<rparr>)"
    using request [OF assms(1,2), of "\<lambda>x. x\<lparr>bflags := 0, blockno := of_nat i\<rparr>" 0 "of_nat i" "bdata (bufs (squeue s) ?b0)"] by auto
  let ?f2 = "\<lambda>x. x\<lparr>bflags := B_DIRTY, blockno := of_nat i, bdata := test_pattern i\<rparr>"
  obtain s2 where s2: "\<And>g :: ('h sdsys, unit) act. then_act (set_buf ?bi ?f2) (then_act (sdrw_call m others k ?bi) g) s1 = g s2"
      "idle s2" "usable s2 = usable s" "store s2 = (store s)(of_nat i := u32_words 128 (test_pattern i))"
      "bufs (squeue s2) = (bufs (squeue s1))(?bi := \<lparr>bflags = B_VALID, blockno = of_nat i, bdata = test_pattern i\<rparr>)"
    using request [OF s1(2), of ?bi ?f2 B_DIRTY "of_nat i" "test_pattern i"] s1(3,4) assms(3) by (auto simp: test_pattern_def)
  let ?f3 = "\<lambda>x. x\<lparr>bdata := replicate 512 0, bflags := 0\<rparr>"
  obtain s3 where s3: "\<And>g :: ('h sdsys, unit) act. then_act (set_buf ?bi ?f3) (then_act (sdrw_call m others k ?bi) g) s2 = g s3"
      "idle s3" "usable s3 = usable s" "store s3 = store s2"
      "bufs (squeue s3) = (bufs (squeue s2))(?bi := \<lparr>bflags = B_VALID, blockno = of_nat i, bdata = test_pattern i\<rparr>)"
    using request [OF s2(2), of ?bi ?f3 0 "of_nat i" "replicate 512 0"] s2(3-5) assms(3) by (auto simp: test_pattern_def)
  have d: "\<forall>j\<in>set [0..<512]. test_pattern i ! j = of_nat (i * j)" by (simp add: test_pattern_def)
  have get: "buf_act ?bi bdata s3 = Some (Inr (test_pattern i, s3))" using not_null [OF assms(3)] s3(5) by (simp add: buf_act_def)
  have b0: "bufs (squeue s3) ?b0 = \<lparr>bflags = B_VALID, blockno = of_nat i, bdata = ?old\<rparr>" using s1(5) s2(5) s3(5) assms(4) by simp
  obtain s4 where s4: "then_act (set_buf ?b0 (\<lambda>x. x\<lparr>bflags := B_DIRTY\<rparr>)) (sdrw_call m others k ?b0) s3 = Some (Inr ((), s4))"
      "idle s4" "usable s4 = usable s" "store s4 = (store s3)(of_nat i := u32_words 128 ?old)"
      "bufs (squeue s4) = (bufs (squeue s3))(?b0 := \<lparr>bflags = B_VALID, blockno = of_nat i, bdata = ?old\<rparr>)"
    using request [OF s3(2), of ?b0 "\<lambda>x. x\<lparr>bflags := B_DIRTY\<rparr>" B_DIRTY "of_nat i" ?old] s3(3) assms(2) b0 len by auto
  have "store s4 = store s" using s4(4) s3(4) s2(4) length_store [OF assms(1)] by simp
  moreover have "sd_check_block m others k b i s = Some (Inr ((), s4))"
    unfolding sd_check_block_def Let_def s1(1) s2(1) s3(1) using s4(1) d get by (simp add: bind_act_def assert_act_def)
  ultimately show ?thesis using s1(5) s2(5) s3(5) s4 by (intro exI [of _ s4]) simp
qed

text \<open>The loops. The buffers of the test are the only ones they change.\<close>

definition ours :: "'h sdsys \<Rightarrow> addr \<Rightarrow> bool" where
  "ours s b \<longleftrightarrow> inj_on (test_buf b) {..<2048} \<and> (\<forall>i<2048. usable s (test_buf b i))"

lemma check_rw:
  assumes "idle s" "ours s b" "0 < i" "i + r \<le> 2048"
  shows "\<exists>s'. sd_check_rw m others k b i r s = Some (Inr ((), s')) \<and> idle s' \<and> usable s' = usable s \<and> store s' = store s \<and>
    (\<forall>c. c \<notin> test_buf b ` {..<2048} \<longrightarrow> bufs (squeue s') c = bufs (squeue s) c)"
  using assms
proof (induction r arbitrary: s i)
  case 0
  then show ?case by (auto simp: ret_def)
next
  case (Suc r)
  have u: "usable s (test_buf b 0)" "usable s (test_buf b i)" "test_buf b i \<noteq> test_buf b 0"
    using Suc.prems unfolding ours_def by (auto dest: inj_onD)
  obtain s1 where s1: "sd_check_block m others k b i s = Some (Inr ((), s1))" "idle s1" "usable s1 = usable s" "store s1 = store s"
      "\<forall>c. c \<noteq> test_buf b 0 \<and> c \<noteq> test_buf b i \<longrightarrow> bufs (squeue s1) c = bufs (squeue s) c"
    using check_block [OF Suc.prems(1) u] by blast
  have "ours s1 b" using Suc.prems(2) s1(3) by (simp add: ours_def)
  then obtain s2 where s2: "sd_check_rw m others k b (Suc i) r s1 = Some (Inr ((), s2))" "idle s2" "usable s2 = usable s1" "store s2 = store s1"
      "\<forall>c. c \<notin> test_buf b ` {..<2048} \<longrightarrow> bufs (squeue s2) c = bufs (squeue s1) c"
    using Suc.IH [OF s1(2), of "Suc i"] Suc.prems(4) by auto
  have "bufs (squeue s2) c = bufs (squeue s) c" if "c \<notin> test_buf b ` {..<2048}" for c
  proof -
    have "c \<noteq> test_buf b 0" "c \<noteq> test_buf b i" using that Suc.prems(4) by auto
    then show ?thesis using that s2(5) s1(5) by simp
  qed
  then show ?case using s1 s2 by (intro exI [of _ s2]) (simp add: then_act_def bind_act_def)
qed

text \<open>The contents the buffers of a write must have: those of the blocks.\<close>

lemma transfer_all:
  assumes "idle s" "ours s b" "i + r \<le> 2048" "fl = 0 \<or> fl = B_DIRTY \<and> (\<forall>j. i \<le> j \<and> j < i + r \<longrightarrow> bdata (bufs (squeue s) (test_buf b j)) = bytes_of_words (store s (of_nat j)))"
  shows "\<exists>s'. sd_transfer_all m others k b fl i r s = Some (Inr ((), s')) \<and> idle s' \<and> usable s' = usable s \<and> store s' = store s \<and>
    (\<forall>c. bufs (squeue s') c = (if c \<in> test_buf b ` {i..<i + r} then \<lparr>bflags = B_VALID, blockno = of_nat (inv_into {..<2048} (test_buf b) c),
        bdata = bytes_of_words (store s (of_nat (inv_into {..<2048} (test_buf b) c)))\<rparr> else bufs (squeue s) c))"
  using assms
proof (induction r arbitrary: s i)
  case 0
  then show ?case by (auto simp: ret_def)
next
  case (Suc r)
  let ?bi = "test_buf b i" and ?f = "\<lambda>x. x\<lparr>bflags := fl, blockno := of_nat i\<rparr>"
  have inj: "inj_on (test_buf b) {..<2048}" and i: "i < 2048" and u: "usable s ?bi" using Suc.prems(2,3) by (auto simp: ours_def)
  have v: "inv_into {..<2048} (test_buf b) ?bi = i" using inv_into_f_f [OF inj] i by simp
  define d where "d = bdata (bufs (squeue s) ?bi)"
  have d: "fl = 0 \<or> fl = B_DIRTY \<and> d = bytes_of_words (store s (of_nat i))" using Suc.prems(4) by (auto simp: d_def)
  have ds: "fl = 0 \<or> fl = B_DIRTY \<and> length d = 512" using d length_store [OF Suc.prems(1)] by auto
  have f: "?f (bufs (squeue s) ?bi) = \<lparr>bflags = fl, blockno = of_nat i, bdata = d\<rparr>" by (simp add: d_def)
  obtain s1 where s1: "\<And>g :: ('h sdsys, unit) act. then_act (set_buf ?bi ?f) (then_act (sdrw_call m others k ?bi) g) s = g s1" "idle s1" "usable s1 = usable s" "store s1 = store s"
      "bufs (squeue s1) = (bufs (squeue s))(?bi := \<lparr>bflags = B_VALID, blockno = of_nat i, bdata = bytes_of_words (store s (of_nat i))\<rparr>)"
    using request [OF Suc.prems(1) u, of ?f, OF f ds] d length_store [OF Suc.prems(1)] by auto
  have ne: "test_buf b j \<noteq> ?bi" if "j < 2048" "j \<noteq> i" for j using inj_onD [OF inj, of j i] that i by auto
  have o1: "ours s1 b" using Suc.prems(2) s1(3) by (simp add: ours_def)
  have d1: "fl = 0 \<or> fl = B_DIRTY \<and> (\<forall>j. Suc i \<le> j \<and> j < Suc i + r \<longrightarrow> bdata (bufs (squeue s1) (test_buf b j)) = bytes_of_words (store s1 (of_nat j)))"
    using Suc.prems(3,4) s1(4,5) ne by auto
  obtain s2 where s2: "sd_transfer_all m others k b fl (Suc i) r s1 = Some (Inr ((), s2))" "idle s2" "usable s2 = usable s1" "store s2 = store s1"
      "\<forall>c. bufs (squeue s2) c = (if c \<in> test_buf b ` {Suc i..<Suc i + r} then \<lparr>bflags = B_VALID, blockno = of_nat (inv_into {..<2048} (test_buf b) c),
        bdata = bytes_of_words (store s1 (of_nat (inv_into {..<2048} (test_buf b) c)))\<rparr> else bufs (squeue s1) c)"
    using Suc.IH [OF s1(2) o1 _ d1] Suc.prems(3) by auto
  have "{i..<i + Suc r} = insert i {Suc i..<Suc i + r}" by auto
  then show ?case using s1 s2 v by (intro exI [of _ s2]) auto
qed

lemma benchmark:
  assumes "idle s" "ours s b" "fl = 0 \<or> fl = B_DIRTY \<and> (\<forall>j<2048. bdata (bufs (squeue s) (test_buf b j)) = bytes_of_words (store s (of_nat j)))"
    and what: "what = concat (map spelling ds)" "concat (map argument ds) = []"
  shows "\<exists>s'. sd_benchmark m others k b f what fl s = Some (Inr ((), s')) \<and> idle s' \<and> usable s' = usable s \<and> store s' = store s \<and>
    (\<forall>i<2048. bufs (squeue s') (test_buf b i) = \<lparr>bflags = B_VALID, blockno = of_nat i, bdata = bytes_of_words (store s (of_nat i))\<rparr>) \<and>
    (\<forall>c. c \<notin> test_buf b ` {..<2048} \<longrightarrow> bufs (squeue s') c = bufs (squeue s) c)"
proof -
  have inj: "inj_on (test_buf b) {..<2048}" using assms(2) by (simp add: ours_def)
  have at: "{0..<0 + 2048} = {..<2048 :: nat}" by auto
  obtain t1 s1 where s1: "sd_now m s = Some (Inr (t1, s1))" "idle s1" "usable s1 = usable s" "store s1 = store s" "bufs (squeue s1) = bufs (squeue s)"
    using now [OF assms(1)] by blast
  have o1: "ours s1 b" using assms(2) s1(3) by (simp add: ours_def)
  obtain s2 where s2: "sd_transfer_all m others k b fl 0 2048 s1 = Some (Inr ((), s2))" "idle s2" "usable s2 = usable s1" "store s2 = store s1"
      "\<forall>c. bufs (squeue s2) c = (if c \<in> test_buf b ` {..<2048} then \<lparr>bflags = B_VALID, blockno = of_nat (inv_into {..<2048} (test_buf b) c),
        bdata = bytes_of_words (store s1 (of_nat (inv_into {..<2048} (test_buf b) c)))\<rparr> else bufs (squeue s1) c)"
    using transfer_all [OF s1(2) o1, of 0 2048 fl] assms(3) s1(4,5) unfolding at by auto
  obtain t3 s3 where s3: "sd_now m s2 = Some (Inr (t3, s3))" "idle s3" "usable s3 = usable s2" "store s3 = store s2" "bufs (squeue s3) = bufs (squeue s2)"
    using now [OF s2(2)] by blast
  define t where "t = t3 - t1"
  let ?ds = "ds @ lits '' '' @ [Num Clld (2048 * 512)] @ lits ''B ('' @ [Num Clld 1] @ lits ''MB), t: '' @ [Num Clld t] @ lits '' cycles, speed: '' @ [Num Clld (div_i64 f t)] @
     lits ''.'' @ [Num Clld (mod_i64 (div_i64 (f * 10) t) 10)] @ lits ('' MB/s'' @ [CHR 0x0A])"
  obtain s4 where s4: "kprintf m k (concat (map spelling ?ds)) (concat (map argument ?ds)) s3 = Some (Inr ((), s4))" "idle s4" "usable s4 = usable s3"
      "store s4 = store s3" "bufs (squeue s4) = bufs (squeue s3)"
    using says [OF s3(2), of ?ds] by blast
  have "sd_benchmark m others k b f what fl s = Some (Inr ((), s4))"
    using s1(1) s2(1) s3(1) s4(1) what by (simp add: sd_benchmark_def then_act_def bind_act_def Let_def t_def [symmetric])
  moreover have "bufs (squeue s4) (test_buf b i) = \<lparr>bflags = B_VALID, blockno = of_nat i, bdata = bytes_of_words (store s (of_nat i))\<rparr>" if "i < 2048" for i
    using s2(5) s3(5) s4(5) s1(4) that inv_into_f_f [OF inj, of i] by simp
  ultimately show ?thesis using s1 s2 s3 s4 by (intro exI [of _ s4]) simp
qed

lemma test_runs:
  assumes "idle s" "ours s b"
  shows "\<exists>s'. sd_test m others k b s = Some (Inr ((), s')) \<and> idle s' \<and> store s' = store s \<and>
    (\<forall>i<2048. bufs (squeue s') (test_buf b i) = \<lparr>bflags = B_VALID, blockno = of_nat i, bdata = bytes_of_words (store s (of_nat i))\<rparr>) \<and>
    (\<forall>c. c \<notin> test_buf b ` {..<2048} \<longrightarrow> bufs (squeue s') c = bufs (squeue s) c)"
proof -
  obtain f s1 where s1: "sys_act (get_clock_frequency m) s = Some (Inr (f, s1))" "idle s1" "usable s1 = usable s" "store s1 = store s" "bufs (squeue s1) = bufs (squeue s)"
    using freq [OF assms(1)] by blast
  let ?d1 = "lits ''- sd test: begin nblocks '' @ [Num Cd 2048] @ lits [CHR 0x0A]" and ?d2 = "lits (''- sd check rw...'' @ [CHR 0x0A])"
  obtain s2 where s2: "kprintf m k (concat (map spelling ?d1)) (concat (map argument ?d1)) s1 = Some (Inr ((), s2))" "idle s2" "usable s2 = usable s"
      "store s2 = store s" "bufs (squeue s2) = bufs (squeue s)"
    using says [OF s1(2), of ?d1] s1 by auto
  obtain s3 where s3: "kprintf m k (concat (map spelling ?d2)) (concat (map argument ?d2)) s2 = Some (Inr ((), s3))" "idle s3" "usable s3 = usable s"
      "store s3 = store s" "bufs (squeue s3) = bufs (squeue s)"
    using says [OF s2(2), of ?d2] s2 by auto
  have o3: "ours s3 b" using assms(2) s3(3) by (simp add: ours_def)
  obtain s4 where s4: "sd_check_rw m others k b 1 2047 s3 = Some (Inr ((), s4))" "idle s4" "usable s4 = usable s" "store s4 = store s"
      "\<forall>c. c \<notin> test_buf b ` {..<2048} \<longrightarrow> bufs (squeue s4) c = bufs (squeue s) c"
    using check_rw [OF s3(2) o3, of 1 2047] s3 by auto
  have o4: "ours s4 b" using assms(2) s4(3) by (simp add: ours_def)
  obtain s5 where s5: "sd_benchmark m others k b f ''- read'' 0 s4 = Some (Inr ((), s5))" "idle s5" "usable s5 = usable s" "store s5 = store s"
      "\<forall>i<2048. bufs (squeue s5) (test_buf b i) = \<lparr>bflags = B_VALID, blockno = of_nat i, bdata = bytes_of_words (store s (of_nat i))\<rparr>"
      "\<forall>c. c \<notin> test_buf b ` {..<2048} \<longrightarrow> bufs (squeue s5) c = bufs (squeue s) c"
    using benchmark [OF s4(2) o4, of 0 "''- read''" "lits ''- read''" f] s4 by auto
  have o5: "ours s5 b" using assms(2) s5(3) by (simp add: ours_def)
  obtain s6 where s6: "sd_benchmark m others k b f ''- write'' B_DIRTY s5 = Some (Inr ((), s6))" "idle s6" "store s6 = store s"
      "\<forall>i<2048. bufs (squeue s6) (test_buf b i) = \<lparr>bflags = B_VALID, blockno = of_nat i, bdata = bytes_of_words (store s (of_nat i))\<rparr>"
      "\<forall>c. c \<notin> test_buf b ` {..<2048} \<longrightarrow> bufs (squeue s6) c = bufs (squeue s) c"
    using benchmark [OF s5(2) o5, of B_DIRTY "''- write''" "lits ''- write''" f] s5 by auto
  have "sd_test m others k b s = Some (Inr ((), s6))"
    using s1(1) s2(1) s3(1) s4(1) s5(1) s6(1) by (simp add: sd_test_def then_act_def bind_act_def)
  then show ?thesis using s6 by blast
qed

end

subsection \<open>The driver provides it\<close>

text \<open>What becomes of a process \<open>p\<close> that sleeps on a request: other processes run and other devices work, the interrupt of the controller is
  delivered on some CPU while it still sleeps, and when that has made it runnable, its CPU \<open>k\<close> switches to it again.\<close>

definition attends :: "'h machine \<Rightarrow> ('h \<Rightarrow> emmc) \<Rightarrow> nat \<Rightarrow> procref \<Rightarrow> 'h others \<Rightarrow> bool" where
  "attends m \<alpha> k p others \<longleftrightarrow> (\<forall>sw s. pstate (proc_at (conts (skern s)) p) = SLEEPING \<longrightarrow>
     (\<exists>ks h k2. \<alpha> h = \<alpha> (hw (sdev s)) \<and> asleep_in ks p (chan (proc_at (conts (skern s)) p)) k2 \<and>
        (\<forall>sw2 s2. sd_intr m k2 (hwset (s\<lparr>skern := ks\<rparr>) h) = Some (Inr (sw2, s2)) \<and> pstate (proc_at (conts (skern s2)) p) = RUNNABLE \<longrightarrow>
           (\<exists>ks2 h2. \<alpha> h2 = \<alpha> (hw (sdev s2)) \<and> others sw s = Some (Inr ((), hwset (s2\<lparr>skern := ks2\<rparr>) h2)) \<and>
              cproc (cpus ks2 k) = Some p \<and> snd p < length (ptable (scheduler (conts ks2 (fst p))))))))"

text \<open>The serial line and the controller are different devices.\<close>

definition uart_apart :: "'h machine \<Rightarrow> ('h \<Rightarrow> emmc) \<Rightarrow> bool" where
  "uart_apart m \<alpha> \<longleftrightarrow> (\<forall>h. \<alpha> (snd (mread m AUX_MU_LSR_REG h)) = \<alpha> h) \<and> (\<forall>h v. \<alpha> (mwrite m AUX_MU_IO_REG v h) = \<alpha> h) \<and>
     (\<forall>h r v. \<alpha> (sys_write m r v h) = \<alpha> h)"

text \<open>No request is under way, all locks are free, the card has high capacity and the process \<open>p\<close> runs on \<open>k\<close>.\<close>

definition disk_idle :: "('h \<Rightarrow> emmc) \<Rightarrow> nat \<Rightarrow> procref \<Rightarrow> 'h sdsys \<Rightarrow> bool" where
  "disk_idle \<alpha> k p s \<longleftrightarrow> eirq (\<alpha> (hw (sdev s))) = 0 \<and> epend (\<alpha> (hw (sdev s))) = 0 \<and> (\<forall>n. length (estore (\<alpha> (hw (sdev s))) n) = 128) \<and>
     ctype (sdCard s) = SD_TYPE_2_HC \<and> queue_holds (squeue s) [] \<and> lock_free (sdlock s) \<and> ready s \<and>
     cproc (cpus (skern s) k) = Some p \<and> snd p < length (ptable (scheduler (conts (skern s) (fst p))))"

definition buf_usable :: "'h sdsys \<Rightarrow> addr \<Rightarrow> bool" where
  "buf_usable s b \<longleftrightarrow> may_queue (squeue s) b \<and> (b + 24) AND 3 = 0"

lemma disk_idle_hw: "\<alpha> h = \<alpha> (hw (sdev s)) \<Longrightarrow> disk_idle \<alpha> k p (hwset s h) = disk_idle \<alpha> k p s" "buf_usable (hwset s h) = buf_usable s"
  by (auto simp: disk_idle_def buf_usable_def hwset_def)

text \<open>A message leaves the controller alone: seen through a history that marks every other state of the controller, it only adds its text.\<close>

lemma kprintf_apart:
  assumes line: "serial_line m sent polls" and ap: "uart_apart m \<alpha>" and rd: "ready s"
  shows "\<exists>h. kprintf m k (concat (map spelling ds)) (concat (map argument ds)) s = Some (Inr ((), hwset s h)) \<and> \<alpha> h = \<alpha> (hw (sdev s))"
proof -
  let ?e = "\<alpha> (hw (sdev s))"
  let ?seen = "\<lambda>h. (if \<alpha> h = ?e then [] else [0]) @ sent h"
  have "serial_line m ?seen polls"
    using line ap unfolding serial_line_def uart_apart_def by (simp add: split_beta)
  from kprintf_sends [OF this rd, of k ds] obtain h where
    h: "kprintf m k (concat (map spelling ds)) (concat (map argument ds)) s = Some (Inr ((), s\<lparr>sdev := (sdev s)\<lparr>hw := h\<rparr>\<rparr>))"
      "?seen h = ?seen (hw (sdev s)) @ crlf (concat (map directive_text ds))" by metis
  from kprintf_sends [OF line rd, of k ds] obtain h' where
    h': "kprintf m k (concat (map spelling ds)) (concat (map argument ds)) s = Some (Inr ((), s\<lparr>sdev := (sdev s)\<lparr>hw := h'\<rparr>\<rparr>))"
      "sent h' = sent (hw (sdev s)) @ crlf (concat (map directive_text ds))" by metis
  have "h' = h" using h(1) h'(1) by (cases s) (metis Inr_inject Pair_inject kdev.select_convs(1) kdev.surjective kdev.update_convs(1) option.inject sdsys.select_convs(1) sdsys.update_convs(1))
  then have "\<alpha> h = ?e" using h(2) h'(2) by (auto split: if_splits)
  then show ?thesis using h(1) by (intro exI [of _ h]) (simp add: hwset_def)
qed

lemma sdrw_call_completes:
  assumes d: "drives m \<alpha> c L" "L < 1000000" and at: "attends m \<alpha> k p others" and i: "disk_idle \<alpha> k p s" and u: "buf_usable s b"
    and x: "x = bufs (squeue s) b" "bflags x = 0 \<or> bflags x = B_DIRTY \<and> length (bdata x) = 512"
  shows "\<exists>s'. sdrw_call m others k b s = Some (Inr ((), s')) \<and> disk_idle \<alpha> k p s' \<and> buf_usable s' = buf_usable s \<and>
    bufs (squeue s') = (bufs (squeue s))(b := x\<lparr>bdata := if bflags x = 0 then bytes_of_words (estore (\<alpha> (hw (sdev s))) (blockno x)) else bdata x, bflags := B_VALID\<rparr>) \<and>
    estore (\<alpha> (hw (sdev s'))) = (if bflags x = 0 then estore (\<alpha> (hw (sdev s))) else (estore (\<alpha> (hw (sdev s))))(blockno x := u32_words 128 (bdata x)))"
proof -
  let ?e = "\<alpha> (hw (sdev s))" and ?d = "if bflags x = 0 then bytes_of_words (estore (\<alpha> (hw (sdev s))) (blockno x)) else bdata x"
  have f: "eirq ?e = 0" "epend ?e = 0" "\<forall>n. length (estore ?e n) = 128" "ctype (sdCard s) = SD_TYPE_2_HC" "queue_holds (squeue s) []" "lock_free (sdlock s)" "ready s"
    "cproc (cpus (skern s) k) = Some p" "snd p < length (ptable (scheduler (conts (skern s) (fst p))))"
    and b: "b \<noteq> NULL" "(b + 24) AND 3 = 0" "may_queue (squeue s) b"
    using i u by (simp_all add: disk_idle_def buf_usable_def may_queue_def)
  have "bflags (bufs (squeue s) b) = 0 \<and> length (estore ?e (blockno (bufs (squeue s) b))) = 128 \<or> bflags (bufs (squeue s) b) = B_DIRTY \<and> length (bdata (bufs (squeue s) b)) = 512"
    using x f(3) by simp
  note R = request_runs [OF d f(1,2,4) b(1,2) this f(5) b(3) f(6,8,9), folded x(1)]
  obtain s1 sw where s1: "sdrw m k b s = Some (Inr (Some sw, s1))" "pstate (proc_at (conts (skern s1)) p) = SLEEPING"
      "chan (proc_at (conts (skern s1)) p) = b"
    and fin: "\<forall>ks h k2. \<alpha> h = \<alpha> (hw (sdev s1)) \<and> asleep_in ks p b k2 \<longrightarrow>
      (\<exists>s2 sw2. sd_intr m k2 (hwset (s1\<lparr>skern := ks\<rparr>) h) = Some (Inr (sw2, s2)) \<and>
        pstate (proc_at (conts (skern s2)) p) = RUNNABLE \<and> sdrw_resume b s2 = Some (Inr ((), s2)) \<and>
        bufs (squeue s2) = (bufs (squeue s))(b := x\<lparr>bdata := ?d, bflags := B_VALID\<rparr>) \<and>
        estore (\<alpha> (hw (sdev s2))) = (if bflags x = 0 then estore ?e else (estore ?e)(blockno x := u32_words 128 (bdata x))) \<and>
        eirq (\<alpha> (hw (sdev s2))) = 0 \<and> epend (\<alpha> (hw (sdev s2))) = 0 \<and> queue_holds (squeue s2) [] \<and> lock_free (sdlock s2) \<and>
        bufhead (squeue s2) = bufhead (squeue s) \<and> ctype (sdCard s2) = SD_TYPE_2_HC \<and> sdev s2 = (sdev s)\<lparr>hw := hw (sdev s2)\<rparr>)"
    using R by (elim exE conjE) (rule that)
  obtain ks h k2 where a: "\<alpha> h = \<alpha> (hw (sdev s1))" "asleep_in ks p b k2"
    and resumed: "\<And>sw2 s2. sd_intr m k2 (hwset (s1\<lparr>skern := ks\<rparr>) h) = Some (Inr (sw2, s2)) \<Longrightarrow> pstate (proc_at (conts (skern s2)) p) = RUNNABLE \<Longrightarrow>
           \<exists>ks2 h2. \<alpha> h2 = \<alpha> (hw (sdev s2)) \<and> others sw s1 = Some (Inr ((), hwset (s2\<lparr>skern := ks2\<rparr>) h2)) \<and>
              cproc (cpus ks2 k) = Some p \<and> snd p < length (ptable (scheduler (conts ks2 (fst p))))"
    using at s1(2,3) unfolding attends_def by metis
  obtain s2 sw2 where s2: "sd_intr m k2 (hwset (s1\<lparr>skern := ks\<rparr>) h) = Some (Inr (sw2, s2))" "pstate (proc_at (conts (skern s2)) p) = RUNNABLE"
        "bufs (squeue s2) = (bufs (squeue s))(b := x\<lparr>bdata := ?d, bflags := B_VALID\<rparr>)"
        "estore (\<alpha> (hw (sdev s2))) = (if bflags x = 0 then estore ?e else (estore ?e)(blockno x := u32_words 128 (bdata x)))"
        "eirq (\<alpha> (hw (sdev s2))) = 0" "epend (\<alpha> (hw (sdev s2))) = 0" "queue_holds (squeue s2) []" "lock_free (sdlock s2)"
        "bufhead (squeue s2) = bufhead (squeue s)" "ctype (sdCard s2) = SD_TYPE_2_HC" "sdev s2 = (sdev s)\<lparr>hw := hw (sdev s2)\<rparr>"
    using fin [rule_format, OF conjI [OF a]] by blast
  obtain ks2 h2 where o: "\<alpha> h2 = \<alpha> (hw (sdev s2))" "others sw s1 = Some (Inr ((), hwset (s2\<lparr>skern := ks2\<rparr>) h2))"
      "cproc (cpus ks2 k) = Some p" "snd p < length (ptable (scheduler (conts ks2 (fst p))))"
    using resumed [OF s2(1,2)] by blast
  let ?s = "hwset (s2\<lparr>skern := ks2\<rparr>) h2"
  have "sdrw_resume b ?s = Some (Inr ((), ?s))"
    using s2(3) b(1) by (simp add: sdrw_resume_def bind_act_def buf_act_def assert_act_def ret_def)
  then have "sdrw_call m others k b s = Some (Inr ((), ?s))" using s1(1) o(2) by (simp add: sdrw_call_def bind_act_def then_act_def)
  moreover have "con_lock (sdev s2) = con_lock (sdev s)" "panicked_flag (sdev s2) = panicked_flag (sdev s)" by (subst s2(11), simp)+
  then have "ready ?s" using f(7) by (simp add: ready_def hwset_def)
  moreover have "\<forall>n. length (estore (\<alpha> h2) n) = 128" using o(1) s2(4) f(3) by simp
  ultimately show ?thesis using s2(3-10) o by (intro exI [of _ ?s]) (simp add: disk_idle_def buf_usable_def may_queue_def fun_eq_iff)
qed

definition disk_works :: "'h machine \<Rightarrow> ('h \<Rightarrow> emmc) \<Rightarrow> nat \<Rightarrow> procref \<Rightarrow> 'h others \<Rightarrow> bool" where
  "disk_works m \<alpha> k p others \<longleftrightarrow> (\<exists>c L. drives m \<alpha> c L \<and> L < 1000000) \<and> (\<exists>sent polls. serial_line m sent polls) \<and> uart_apart m \<alpha> \<and> attends m \<alpha> k p others"

lemma disk_works_keeps:
  assumes "disk_works m \<alpha> k p others"
  shows "\<alpha> (disb m h) = \<alpha> h" "\<alpha> (snd (timestamp m h)) = \<alpha> h" "\<alpha> (snd (get_clock_frequency m h)) = \<alpha> h"
  using assms by (auto simp: disk_works_def drives_def disb_def timestamp_def get_clock_frequency_def)

interpretation sdd: disk_service m others k "\<lambda>s. disk_works m \<alpha> k p others \<and> disk_idle \<alpha> k p s" "\<lambda>s. estore (\<alpha> (hw (sdev s)))" buf_usable
  for m :: "'h machine" and others k \<alpha> p
proof
  fix s :: "'h sdsys" and b x f n ds
  let ?ok = "\<lambda>s. disk_works m \<alpha> k p others \<and> disk_idle \<alpha> k p s" and ?store = "\<lambda>s. estore (\<alpha> (hw (sdev s)))"
  show "buf_usable s b \<Longrightarrow> b \<noteq> NULL" by (simp add: buf_usable_def may_queue_def)
  show "?store (upd_buf s b f) = ?store s" "buf_usable (upd_buf s b f) = buf_usable s" "?ok (upd_buf s b f) = ?ok s"
    by (auto simp: buf_usable_def disk_idle_def upd_buf_def may_queue_def queue_holds_def ready_def)
  {
    assume i: "?ok s"
    then obtain c L sent polls where w: "drives m \<alpha> c L" "L < 1000000" "serial_line m sent polls" "uart_apart m \<alpha>" "attends m \<alpha> k p others" "ready s"
      by (auto simp: disk_works_def disk_idle_def)
    note keeps = disk_works_keeps [OF conjunct1 [OF i]]
    show "length (?store s n) = 128" using i by (simp add: disk_idle_def)
    show "\<exists>s'. sdrw_call m others k b s = Some (Inr ((), s')) \<and> ?ok s' \<and> buf_usable s' = buf_usable s \<and>
        bufs (squeue s') = (bufs (squeue s))(b := x\<lparr>bdata := if bflags x = 0 then bytes_of_words (?store s (blockno x)) else bdata x, bflags := B_VALID\<rparr>) \<and>
        ?store s' = (if bflags x = 0 then ?store s else (?store s)(blockno x := u32_words 128 (bdata x)))"
      if "buf_usable s b" "x = bufs (squeue s) b" "bflags x = 0 \<or> bflags x = B_DIRTY \<and> length (bdata x) = 512"
      using sdrw_call_completes [OF w(1,2,5) conjunct2 [OF i] that] i by blast
    have same: "?ok (hwset s h) \<and> buf_usable (hwset s h) = buf_usable s \<and> ?store (hwset s h) = ?store s \<and> bufs (squeue (hwset s h)) = bufs (squeue s)"
      if "\<alpha> h = \<alpha> (hw (sdev s))" for h using i that by (simp add: disk_idle_hw)
    show "\<exists>s'. kprintf m k (concat (map spelling ds)) (concat (map argument ds)) s = Some (Inr ((), s')) \<and> ?ok s' \<and> buf_usable s' = buf_usable s \<and>
        ?store s' = ?store s \<and> bufs (squeue s') = bufs (squeue s)"
      using kprintf_apart [OF w(3,4,6), of k ds] same by blast
    obtain f h where f: "get_clock_frequency m (hw (sdev s)) = (f, h)" by (cases "get_clock_frequency m (hw (sdev s))")
    then show "\<exists>f s'. sys_act (get_clock_frequency m) s = Some (Inr (f, s')) \<and> ?ok s' \<and> buf_usable s' = buf_usable s \<and> ?store s' = ?store s \<and>
        bufs (squeue s') = bufs (squeue s)"
      using keeps(3) [of "hw (sdev s)"] same [of h] by (intro exI [of _ f] exI [of _ "hwset s h"]) (simp add: sys_act_def hwset_def)
    obtain t h where t: "timestamp m (disb m (hw (sdev s))) = (t, h)" by (cases "timestamp m (disb m (hw (sdev s)))")
    then have "\<alpha> (disb m h) = \<alpha> (hw (sdev s))" using keeps(1) [of h] keeps(1) [of "hw (sdev s)"] keeps(2) [of "disb m (hw (sdev s))"] by simp
    then show "\<exists>t s'. sd_now m s = Some (Inr (t, s')) \<and> ?ok s' \<and> buf_usable s' = buf_usable s \<and> ?store s' = ?store s \<and> bufs (squeue s') = bufs (squeue s)"
      using t same [of "disb m h"]
      by (intro exI [of _ t] exI [of _ "hwset s (disb m h)"]) (simp add: sd_now_def sys_act_def machine_act_def then_act_def bind_act_def ret_def hwset_def)
  }
qed

subsection \<open>The test passes\<close>

lemma unat_and_3: "unat (z AND 3 :: u64) = unat z mod 4"
proof -
  have "z AND 3 = take_bit 2 z" by (simp add: take_bit_eq_mask mask_eq_exp_minus_1)
  then show ?thesis by (simp add: take_bit_eq_mod unat_mod_distrib)
qed

lemma and_3_add: "(x + 4 * y) AND 3 = x AND (3 :: u64)"
proof -
  have c: "(a mod 18446744073709551616) mod 4 = a mod (4 :: nat)" for a by (rule mod_mod_cancel) simp
  have "unat (4 * y) mod 4 = 0" unfolding unat_word_ariths by (simp add: c)
  then have "unat (x + 4 * y) mod 4 = unat x mod 4" unfolding unat_word_ariths(1) by (simp add: c) (metis add_0_right mod_add_right_eq)
  then have "unat ((x + 4 * y) AND 3) = unat (x AND 3)" unfolding unat_and_3 .
  then show ?thesis by (rule unsigned_word_eqI)
qed

lemma test_buf_unat: "unat b + 536 * 2048 \<le> 2 ^ 64 \<Longrightarrow> i < 2048 \<Longrightarrow> unat (test_buf b i) = unat b + 536 * i"
  by (simp add: test_buf_def unat_word_ariths unat_of_nat)

lemma test_buf_inj:
  assumes "unat b + 536 * 2048 \<le> 2 ^ 64"
  shows "inj_on (test_buf b) {..<2048}"
proof (rule inj_onI)
  fix i j assume ij: "i \<in> {..<2048}" "j \<in> {..<2048}" and e: "test_buf b i = test_buf b j"
  have "unat b + 536 * i = unat (test_buf b i)" by (rule test_buf_unat [OF assms, symmetric]) (use ij in simp)
  also have "\<dots> = unat b + 536 * j" unfolding e by (rule test_buf_unat [OF assms]) (use ij in simp)
  finally show "i = j" by simp
qed

lemma test_buf_usable:
  assumes "(b + 24) AND 3 = 0" "b \<noteq> NULL" "unat b + 536 * 2048 \<le> 2 ^ 64" "i < 2048" "listnode (test_buf b i) \<noteq> bufhead (squeue s)"
  shows "buf_usable s (test_buf b i)"
proof -
  have "test_buf b i + 24 = b + 24 + 4 * (134 * of_nat i)" by (simp add: test_buf_def)
  then have "(test_buf b i + 24) AND 3 = 0" using assms(1) and_3_add [of "b + 24" "134 * of_nat i"] by (simp only:)
  moreover have "test_buf b i \<noteq> NULL" using test_buf_unat [OF assms(3,4)] assms(2) by (metis add_is_0 unat_0 unat_eq_zero)
  ultimately show ?thesis using assms(5) by (simp add: buf_usable_def may_queue_def)
qed

text \<open>C24: on a working disk, with the interrupt of the controller delivered whenever the process sleeps on a request, \<open>sd_test\<close> returns: every one
  of its 2047 patterns is read back as it was written, so no assertion fails; every block of the card holds in the end what it held
  before, although each was overwritten; the buffers hold the first 2048 blocks; no other buffer has changed, and the driver is
  ready for the next request.\<close>

theorem sd_test_passes:
  assumes works: "disk_works m \<alpha> k p others" and idle: "disk_idle \<alpha> k p s"
    and b: "b \<noteq> NULL" "(b + 24) AND 3 = 0" "unat b + 536 * 2048 \<le> 2 ^ 64" "\<forall>i<2048. listnode (test_buf b i) \<noteq> bufhead (squeue s)"
  shows "\<exists>s'. sd_test m others k b s = Some (Inr ((), s')) \<and> estore (\<alpha> (hw (sdev s'))) = estore (\<alpha> (hw (sdev s))) \<and>
    (\<forall>i<2048. bufs (squeue s') (test_buf b i) = \<lparr>bflags = B_VALID, blockno = of_nat i, bdata = bytes_of_words (estore (\<alpha> (hw (sdev s))) (of_nat i))\<rparr>) \<and>
    (\<forall>c. c \<notin> test_buf b ` {..<2048} \<longrightarrow> bufs (squeue s') c = bufs (squeue s) c) \<and> disk_idle \<alpha> k p s'"
proof -
  have "sdd.ours s b" unfolding sdd.ours_def using test_buf_inj [OF b(3)] test_buf_usable [OF b(2,1,3)] b(4) by blast
  from sdd.test_runs [OF conjI [OF works idle] this] show ?thesis by blast
qed

text \<open>The controller of the examples with an idle serial line beside it; the interrupt arrives on CPU 1 as soon as the caller sleeps.\<close>

definition test_machine :: "((emmc \<times> u64) \<times> u8 list) machine" where
  "test_machine = \<lparr>
     mread = (\<lambda>a (h, out). if a = AUX_MU_LSR_REG then (0x20, (h, out)) else (case mread emmc_example a h of (v, h1) \<Rightarrow> (v, (h1, out)))),
     mwrite = (\<lambda>a v (h, out). if a = AUX_MU_IO_REG then (h, out @ [ucast v]) else (mwrite emmc_example a v h, out)),
     sys_read = (\<lambda>r (h, out). case sys_read emmc_example r h of (v, h1) \<Rightarrow> (v, (h1, out))),
     sys_write = (\<lambda>r v h. h), exec_insn = (\<lambda>i h. h)\<rparr>"

definition test_others :: "((emmc \<times> u64) \<times> u8 list) others" where
  "test_others sw s =
     bind_run (sd_intr test_machine 1 (s\<lparr>skern := asleep_example (chan (proc_at (conts (skern s)) caller))\<rparr>)) (\<lambda>(_, s2).
     Some (Inr ((), s2\<lparr>skern := skern (call_example 0)\<rparr>)))"

definition test_state :: "((emmc \<times> u64) \<times> u8 list) sdsys" where
  "test_state = \<lparr>sdev = \<lparr>hw = (hw (sdev (call_example 0)), []), one_ms = 0, clock_handler = None, irq_handler = [],
      con_lock = null_lock, panicked_flag = False\<rparr>, sdCard = sdCard (call_example 0), sdHostVer = 2, sdBaseClock = 0,
      sdlock = sdlock (call_example 0), squeue = squeue (call_example 0), skern = skern (call_example 0)\<rparr>"

lemma test_machine_works: "disk_works test_machine (fst \<circ> fst) 0 caller test_others"
proof -
  have "drives test_machine (fst \<circ> fst) (snd \<circ> fst) 5"
    using emmc_example_drives unfolding drives_def counts_def by (simp add: test_machine_def split_beta)
  moreover have "serial_line test_machine snd (\<lambda>_. 0)" by (simp add: serial_line_def test_machine_def split_beta)
  moreover have "uart_apart test_machine (fst \<circ> fst)" by (simp add: uart_apart_def test_machine_def split_beta)
  moreover have "attends test_machine (fst \<circ> fst) 0 caller test_others"
    unfolding attends_def
  proof (intro allI impI)
    fix sw and s :: "((emmc \<times> u64) \<times> u8 list) sdsys"
    let ?b = "chan (proc_at (conts (skern s)) caller)"
    have same: "hwset (s\<lparr>skern := asleep_example ?b\<rparr>) (hw (sdev s)) = s\<lparr>skern := asleep_example ?b\<rparr>" by (simp add: hwset_def)
    have resumed: "\<exists>ks2 h2. (fst \<circ> fst) h2 = (fst \<circ> fst) (hw (sdev s2)) \<and> test_others sw s = Some (Inr ((), hwset (s2\<lparr>skern := ks2\<rparr>) h2)) \<and>
        cproc (cpus ks2 0) = Some caller \<and> snd caller < length (ptable (scheduler (conts ks2 (fst caller))))"
      if r: "sd_intr test_machine 1 (hwset (s\<lparr>skern := asleep_example ?b\<rparr>) (hw (sdev s))) = Some (Inr (sw2, s2))" for sw2 s2
    proof -
      have "test_others sw s = Some (Inr ((), s2\<lparr>skern := skern (call_example 0)\<rparr>))" using r unfolding same by (simp add: test_others_def)
      moreover have "hwset (s2\<lparr>skern := skern (call_example 0)\<rparr>) (hw (sdev s2)) = s2\<lparr>skern := skern (call_example 0)\<rparr>" by (simp add: hwset_def)
      ultimately show ?thesis
        by (intro exI [of _ "skern (call_example 0)"] exI [of _ "hw (sdev s2)"] conjI refl call_example_ok(7) call_example_ok(8)) simp
    qed
    show "\<exists>ks h k2. (fst \<circ> fst) h = (fst \<circ> fst) (hw (sdev s)) \<and> asleep_in ks caller ?b k2 \<and>
        (\<forall>sw2 s2. sd_intr test_machine k2 (hwset (s\<lparr>skern := ks\<rparr>) h) = Some (Inr (sw2, s2)) \<and> pstate (proc_at (conts (skern s2)) caller) = RUNNABLE \<longrightarrow>
           (\<exists>ks2 h2. (fst \<circ> fst) h2 = (fst \<circ> fst) (hw (sdev s2)) \<and> test_others sw s = Some (Inr ((), hwset (s2\<lparr>skern := ks2\<rparr>) h2)) \<and>
              cproc (cpus ks2 0) = Some caller \<and> snd caller < length (ptable (scheduler (conts ks2 (fst caller))))))"
      by (rule exI [of _ "asleep_example ?b"], rule exI [of _ "hw (sdev s)"], rule exI [of _ 1])
        (intro conjI refl asleep_example_in allI impI, elim conjE, erule resumed)
  qed
  moreover have "(5 :: nat) < 1000000" by simp
  ultimately show ?thesis unfolding disk_works_def by blast
qed

lemma test_state_idle: "disk_idle (fst \<circ> fst) 0 caller test_state"
proof -
  have "lock_free null_lock" by (simp add: lock_free_def null_lock_def)
  then show ?thesis by (simp add: disk_idle_def test_state_def call_example_ok ready_def)
qed

theorem sd_test_passes_witness:
  "\<exists>s'. sd_test test_machine test_others 0 0x100000 test_state = Some (Inr ((), s')) \<and>
     estore (fst (fst (hw (sdev s')))) = (\<lambda>n. replicate 128 n) \<and> bdata (bufs (squeue s') (0x100000 + 536 * 7)) = bytes_of_words (replicate 128 7)"
proof -
  have b: "(0x100000 :: addr) \<noteq> NULL" "((0x100000 :: addr) + 24) AND 3 = 0" "unat (0x100000 :: addr) + 536 * 2048 \<le> 2 ^ 64" by simp_all
  have "listnode (test_buf 0x100000 i) \<noteq> bufhead (squeue test_state)" if "i < 2048" for i
  proof
    assume "listnode (test_buf 0x100000 i) = bufhead (squeue test_state)"
    then have "test_buf 0x100000 i + 8 = 64" by (simp add: listnode_def test_state_def call_example_def sd_example_def bufq_example_def)
    then have "test_buf 0x100000 i = 64 - 8" by (metis add_diff_cancel_right')
    then show False using test_buf_unat [OF b(3) that] by simp
  qed
  then have h: "\<forall>i<2048. listnode (test_buf 0x100000 i) \<noteq> bufhead (squeue test_state)" by blast
  have st: "estore ((fst \<circ> fst) (hw (sdev test_state))) = (\<lambda>n. replicate 128 n)" by (simp add: test_state_def call_example_ok)
  from sd_test_passes [OF test_machine_works test_state_idle b h, unfolded st] obtain s' where
    r: "sd_test test_machine test_others 0 0x100000 test_state = Some (Inr ((), s'))" "estore ((fst \<circ> fst) (hw (sdev s'))) = (\<lambda>n. replicate 128 n)"
      "bufs (squeue s') (test_buf 0x100000 7) = \<lparr>bflags = B_VALID, blockno = of_nat 7, bdata = bytes_of_words (replicate 128 (of_nat 7))\<rparr>" by fastforce
  have "test_buf 0x100000 7 = 0x100000 + 536 * 7" by (simp add: test_buf_def)
  with r show ?thesis by (intro exI [of _ s']) simp
qed

end
