(* ===== verification/KArenaTest.thy ===== *)
theory KArenaTest
  imports KProc
begin

text \<open>
  The loops of the tests in \<open>src/core/arena.c\<close> and \<open>src/core/virtual_memory.c\<close>, on the memory of the kernel: the arena heap, the pages and
  their words. \<open>KSelfTest\<close> puts them together with the messages.\<close>

subsection \<open>The heap of the kernel\<close>

definition kheap :: "ksys \<Rightarrow> PMemory aheap" where
  "kheap st = (cont_arena st)\<lparr>apmem := pmem (kvm st)\<rparr>"

definition set_heap :: "ksys \<Rightarrow> PMemory aheap \<Rightarrow> ksys" where
  "set_heap st h = st\<lparr>cont_arena := h, kvm := (kvm st)\<lparr>pmem := apmem h\<rparr>\<rparr>"

subsection \<open>Payloads\<close>

definition sizeof_Payload :: usize where
  "sizeof_Payload = 1032"

definition fill_payload :: "addr \<Rightarrow> nat \<Rightarrow> ksys \<Rightarrow> ksys" where
  "fill_payload p i st =
     fold (\<lambda>j. put_word (p + 8 + 8 * of_nat j) (of_nat i * of_nat j)) [0..<128] (put_word p (of_nat i * 0x19260817) st)"

text \<open>The loops: the payloads from \<open>i\<close> on, \<open>r\<close> of them, and every second one.\<close>

primrec test_alloc :: "nat \<Rightarrow> addr \<Rightarrow> nat \<Rightarrow> nat \<Rightarrow> ksys \<Rightarrow> (addr list \<times> ksys) res" where
  "test_alloc k a i 0 st = Inr ([], st)"
| "test_alloc k a i (Suc r) st =
     bind_res (alloc_object k (kheap st) a) (\<lambda>(p, h).
     if p = NULL then Inl (Panic ''payloads[i] != NULL'')
     else
       let st1 = fill_payload p i (set_heap st h) in
       if num_objects (arenas (kheap st1) a) \<noteq> of_nat i + 1 then Inl (Panic ''arena.num_objects == i + 1'')
       else bind_res (test_alloc k a (Suc i) r st1) (\<lambda>(ps, st2). Inr (p # ps, st2)))"

primrec test_free :: "nat \<Rightarrow> addr list \<Rightarrow> nat \<Rightarrow> nat \<Rightarrow> ksys \<Rightarrow> ksys res" where
  "test_free k payloads i 0 st = Inr st"
| "test_free k payloads i (Suc r) st =
     (if ptmem (kvm st) (payloads ! i) \<noteq> of_nat i * 0x19260817 then Inl (Panic ''payloads[i]->cookie == i * 0x19260817'')
      else bind_res (free_object k (kheap st) (payloads ! i)) (\<lambda>h. test_free k payloads (i + 2) r (set_heap st h)))"

text \<open>The phases of \<open>arena_test\<close> between its messages.\<close>

definition arena_test_init :: "nat \<Rightarrow> addr \<Rightarrow> ksys \<Rightarrow> (unit \<times> ksys) res option" where
  "arena_test_init k a st =
     Some (bind_res (init_arena (kheap st) a sizeof_Payload (kernel_allocator k)) (\<lambda>h. Inr ((), set_heap st h)))"

definition arena_test_alloc :: "nat \<Rightarrow> addr \<Rightarrow> ksys \<Rightarrow> (addr list \<times> ksys) res option" where
  "arena_test_alloc k a st = Some (test_alloc k a 0 128 st)"

definition arena_test_free :: "nat \<Rightarrow> addr \<Rightarrow> addr list \<Rightarrow> ksys \<Rightarrow> (unit \<times> ksys) res option" where
  "arena_test_free k a payloads st =
     Some (bind_res (test_free k payloads 0 64 st) (\<lambda>st1.
       if num_objects (arenas (kheap st1) a) \<noteq> 64 then Inl (Panic ''arena.num_objects == 64'') else Inr ((), st1)))"

definition arena_test_realloc :: "nat \<Rightarrow> addr \<Rightarrow> ksys \<Rightarrow> (unit \<times> ksys) res option" where
  "arena_test_realloc k a st =
     Some (bind_res (alloc_object k (kheap st) a) (\<lambda>(ptr, h).
       if ptr = NULL then Inl (Panic ''ptr != NULL'')
       else if num_objects (arenas h a) \<noteq> 65 then Inl (Panic ''arena.num_objects == 65'')
       else Inr ((), set_heap st h)))"

definition arena_test_clear :: "nat \<Rightarrow> addr \<Rightarrow> ksys \<Rightarrow> (unit \<times> ksys) res option" where
  "arena_test_clear k a st = bind_run (clear_arena k (kheap st) a) (\<lambda>h. Some (Inr ((), set_heap st h)))"

subsection \<open>Pages\<close>

primrec kalloc_times :: "nat \<Rightarrow> nat \<Rightarrow> PMemory \<Rightarrow> (addr list \<times> PMemory) res" where
  "kalloc_times k 0 pm = Inr ([], pm)"
| "kalloc_times k (Suc n) pm =
     bind_res (kalloc k pm) (\<lambda>(p, pm1). bind_res (kalloc_times k n pm1) (\<lambda>(ps, pm2). Inr (p # ps, pm2)))"

text \<open>The second round checks every page when it has it.\<close>

primrec kalloc_again :: "nat \<Rightarrow> addr list \<Rightarrow> PMemory \<Rightarrow> (addr list \<times> PMemory) res" where
  "kalloc_again k [] pm = Inr ([], pm)"
| "kalloc_again k (c # cs) pm =
     bind_res (kalloc k pm) (\<lambda>(p, pm1).
     if p \<noteq> c then Inl (Panic ''contain2[i] == contain[i]'')
     else bind_res (kalloc_again k cs pm1) (\<lambda>(ps, pm2). Inr (p # ps, pm2)))"

text \<open>Freeing from the last to the first.\<close>

primrec kfree_back :: "nat \<Rightarrow> addr list \<Rightarrow> PMemory \<Rightarrow> PMemory res" where
  "kfree_back k [] pm = Inr pm"
| "kfree_back k (p # ps) pm = bind_res (kfree_back k ps pm) (\<lambda>pm1. kfree k pm1 p)"

subsection \<open>The payload loops\<close>

lemma kheap_simps [simp]:
  "kheap (set_heap st h) = h" "kheap (put_word x w st) = kheap st" "ptmem (kvm (set_heap st h)) = ptmem (kvm st)"
  "ptmem (kvm (put_word x w st)) = (ptmem (kvm st))(x := w)"
  by (simp_all add: kheap_def set_heap_def put_word_def)

lemma fold_put_word:
  "kheap (fold (\<lambda>j. put_word (f j) (g j)) js st) = kheap st"
  "x \<notin> f ` set js \<Longrightarrow> ptmem (kvm (fold (\<lambda>j. put_word (f j) (g j)) js st)) x = ptmem (kvm st) x"
  by (induction js arbitrary: st) auto

lemma fill_payload_effect:
  shows "kheap (fill_payload p i st) = kheap st" "ptmem (kvm (fill_payload p i st)) p = of_nat i * 0x19260817"
    "\<lbrakk>unat p + 1032 \<le> 2 ^ 64; unat x < unat p \<or> unat p + 1032 \<le> unat x\<rbrakk> \<Longrightarrow>
      ptmem (kvm (fill_payload p i st)) x = ptmem (kvm st) x"
proof -
  show "kheap (fill_payload p i st) = kheap st" by (simp add: fill_payload_def fold_put_word)
  have "p + 8 + 8 * of_nat j \<noteq> p" if "j < 128" for j
  proof
    assume "p + 8 + 8 * of_nat j = p"
    then have "of_nat (8 + 8 * j) = (0 :: u64)" by (simp add: add.assoc)
    moreover have "unat (of_nat (8 + 8 * j) :: u64) = 8 + 8 * j" by (rule unat_of_nat_u64) (use that in simp)
    ultimately show False by simp
  qed
  then have "p \<notin> (\<lambda>j. p + 8 + 8 * of_nat j) ` set [0..<128]" by force
  then show "ptmem (kvm (fill_payload p i st)) p = of_nat i * 0x19260817" by (simp add: fill_payload_def fold_put_word)
  assume b: "unat p + 1032 \<le> 2 ^ 64" "unat x < unat p \<or> unat p + 1032 \<le> unat x"
  have "unat (p + 8 + 8 * of_nat j) = unat p + 8 + 8 * j" if "j < 128" for j
  proof -
    have "p + 8 + 8 * of_nat j = of_nat (unat p + 8 + 8 * j)" by simp
    then show ?thesis using unat_of_nat_u64 [of "unat p + 8 + 8 * j"] b(1) that by simp
  qed
  then have "x \<notin> (\<lambda>j. p + 8 + 8 * of_nat j) ` set [0..<128]" "x \<noteq> p" using b(2) by force+
  then show "ptmem (kvm (fill_payload p i st)) x = ptmem (kvm st) x" by (simp add: fill_payload_def fold_put_word)
qed

text \<open>The arena of the test with the payloads \<open>objs\<close>.\<close>

definition test_arena :: "nat \<Rightarrow> addr \<Rightarrow> ksys \<Rightarrow> addr list \<Rightarrow> addr set \<Rightarrow> bool" where
  "test_arena k a st ps objs \<longleftrightarrow> arena_ok pm_live pm_inv (kheap st) a ps \<and> allocator (arenas (kheap st) a) = kernel_allocator k \<and>
     object_size (arenas (kheap st) a) = sizeof_Payload \<and> aobjects (kheap st) a ps = objs"

lemma test_arena_facts:
  assumes "test_arena k a st ps objs"
  shows "pm_inv (pmem (kvm st))" "unat (max_count (arenas (kheap st) a)) = 3" "num_objects (arenas (kheap st) a) = of_nat (card objs)"
    "card objs \<le> 3 * length ps" "(\<forall>p\<in>set ps. full_page (kheap st) a p) \<longleftrightarrow> card objs = 3 * length ps" "distinct ps" "finite objs"
    "x \<in> objs \<Longrightarrow> unat x + 1032 \<le> 2 ^ 64" "x \<in> objs \<Longrightarrow> x \<noteq> NULL"
    "x \<in> objs \<Longrightarrow> y \<in> objs \<Longrightarrow> x \<noteq> y \<Longrightarrow> unat x + 1032 \<le> unat y \<or> unat y + 1032 \<le> unat x"
proof -
  have ok: "arena_ok pm_live pm_inv (kheap st) a ps" and sz: "object_size (arenas (kheap st) a) = sizeof_Payload"
    and ob: "aobjects (kheap st) a ps = objs" using assms by (simp_all add: test_arena_def)
  have wf: "arena_wf (kheap st) a ps" using ok by (simp add: arena_ok_def)
  show "pm_inv (pmem (kvm st))" using ok by (simp add: arena_ok_def kheap_def)
  have "max_count (arenas (kheap st) a) = 4032 div 1032" using wf sz by (simp add: arena_wf_def sizeof_Payload_def)
  then show m: "unat (max_count (arenas (kheap st) a)) = 3" by (simp add: unat_div_distrib)
  note c = card_aobjects [OF wf, unfolded ob m]
  show "num_objects (arenas (kheap st) a) = of_nat (card objs)" "card objs \<le> 3 * length ps"
    "(\<forall>p\<in>set ps. full_page (kheap st) a p) \<longleftrightarrow> card objs = 3 * length ps" using c(2-4) by (simp_all add: mult.commute)
  show "distinct ps" by (rule arena_wf_distinct [OF wf])
  show "finite objs" unfolding ob [symmetric] by (simp add: aobjects_def)
  show "unat x + 1032 \<le> 2 ^ 64" "x \<noteq> NULL" if "x \<in> objs"
    using object_in_pool [OF ok, of x] that ob sz by (auto simp: sizeof_Payload_def)
  show "unat x + 1032 \<le> unat y \<or> unat y + 1032 \<le> unat x" if "x \<in> objs" "y \<in> objs" "x \<noteq> y"
    using objects_disjoint [OF wf, of x y] that ob sz by (auto simp: sizeof_Payload_def)
qed

lemma test_arena_alloc:
  assumes t: "test_arena k a st ps objs" and room: "card objs = 3 * length ps \<longrightarrow> 0 < free_count (pmem (kvm st))"
  obtains p h ps' where "alloc_object k (kheap st) a = Inr (p, h)" "p \<notin> objs" "test_arena k a (set_heap st h) ps' (insert p objs)"
    "if card objs = 3 * length ps then length ps' = Suc (length ps) \<and> free_count (pmem (kvm st)) = Suc (free_count (apmem h))
     else length ps' = length ps \<and> apmem h = pmem (kvm st)"
    "\<forall>q. q \<notin> set ps' \<longrightarrow> apages h q = apages (kheap st) q" "\<forall>b. b \<noteq> a \<longrightarrow> arenas h b = arenas (kheap st) b"
    "pm_live (apmem h) - set ps' = pm_live (pmem (kvm st)) - set ps"
proof -
  let ?h = "kheap st"
  have ok: "arena_ok pm_live pm_inv ?h a ps" and al: "allocator (arenas ?h a) = kernel_allocator k" and ap: "apmem ?h = pmem (kvm st)"
    using t by (simp_all add: test_arena_def kheap_def)
  note f = test_arena_facts [OF t]
  have inv: "pm_inv (pmem (kvm st))" by (rule f(1))
  have sub: "set ps \<subseteq> pm_live (pmem (kvm st))" using ok ap by (simp add: arena_ok_def)
  have fc: "\<exists>p pm'. kalloc k (pmem (kvm st)) = Inr (p, pm') \<and> free_count (pmem (kvm st)) = Suc (free_count pm')"
    if "card objs = 3 * length ps" using kalloc_free_count [OF inv] room that by simp
  have "\<exists>p h. alloc_object k ?h a = Inr (p, h)"
    using kmem.arena_alloc [OF ok, of k k] al fc f(5) ap
    by (auto simp: kernel_allocator_def split: sum.splits)
  then obtain p h where r: "alloc_object k ?h a = Inr (p, h)" by blast
  with kmem.arena_alloc [OF ok, of k k] al obtain ps' where
    a: "arena_ok pm_live pm_inv h a ps'" "p \<notin> objs" "aobjects h a ps' = insert p objs" "set ps \<subseteq> set ps'"
      "allocator (arenas h a) = kernel_allocator k" "object_size (arenas h a) = sizeof_Payload"
      "set ps' = set ps \<and> apmem h = pmem (kvm st) \<or>
       card objs = 3 * length ps \<and> (\<exists>p. p \<notin> set ps \<and> set ps' = insert p (set ps) \<and> kalloc k (pmem (kvm st)) = Inr (p, apmem h))"
      "\<forall>q. q \<notin> set ps' \<longrightarrow> apages h q = apages ?h q" "\<forall>b. b \<noteq> a \<longrightarrow> arenas h b = arenas ?h b"
    using t by (auto simp: kernel_allocator_def test_arena_def ap f(5) split: sum.splits)
  have t': "test_arena k a (set_heap st h) ps' (insert p objs)" using a by (simp add: test_arena_def)
  note f' = test_arena_facts [OF t']
  have len: "length ps = card (set ps)" "length ps' = card (set ps')" using f(6) f'(6) by (simp_all add: distinct_card)
  have live: "pm_live (apmem h) - set ps' = pm_live (pmem (kvm st)) - set ps"
    using a(7) kmem.allocate_ok [OF inv] by auto
  show thesis
  proof (cases "card objs = 3 * length ps")
    case True
    then have "card (insert p objs) = Suc (3 * length ps)" using a(2) f(7) by simp
    then have "set ps' \<noteq> set ps" using f'(4) len by auto
    then obtain q where q: "q \<notin> set ps" "set ps' = insert q (set ps)" "kalloc k (pmem (kvm st)) = Inr (q, apmem h)" using a(7) by blast
    then show thesis using that [OF r a(2) t' _ a(8,9) live] fc True len by auto
  next
    case False
    then show thesis using that [OF r a(2) t' _ a(8,9) live] a(7) len by auto
  qed
qed

text \<open>What the test leaves alone: everything but its own arena and the pages that were free.\<close>

definition test_frame :: "addr \<Rightarrow> addr set \<Rightarrow> ksys \<Rightarrow> ksys \<Rightarrow> bool" where
  "test_frame a L st st' \<longleftrightarrow> (\<exists>h vm. st' = st\<lparr>cont_arena := h, kvm := vm\<rparr>) \<and> ttbr0 (kvm st') = ttbr0 (kvm st) \<and>
     (\<forall>b. b \<noteq> a \<longrightarrow> arenas (kheap st') b = arenas (kheap st) b) \<and>
     (\<forall>q\<in>L. apages (kheap st') q = apages (kheap st) q \<and>
        (\<forall>x. unat q \<le> unat x \<and> unat x < unat q + PAGE_SIZE \<longrightarrow> ptmem (kvm st') x = ptmem (kvm st) x))"

lemma test_frame_refl [simp]: "test_frame a L st st"
proof -
  have "st = st\<lparr>cont_arena := cont_arena st, kvm := kvm st\<rparr>" by simp
  then show ?thesis unfolding test_frame_def by blast
qed

lemma test_frame_trans [trans]: "test_frame a L st st' \<Longrightarrow> test_frame a L st' st'' \<Longrightarrow> test_frame a L st st''"
  unfolding test_frame_def by fastforce

lemma test_frame_heap:
  assumes "\<forall>q\<in>L. apages h q = apages (kheap st) q" "\<forall>b. b \<noteq> a \<longrightarrow> arenas h b = arenas (kheap st) b"
  shows "test_frame a L st (set_heap st h)"
proof -
  have "\<exists>h' vm. set_heap st h = st\<lparr>cont_arena := h', kvm := vm\<rparr>" "ttbr0 (kvm (set_heap st h)) = ttbr0 (kvm st)"
    unfolding set_heap_def by (blast, simp)
  with assms show ?thesis unfolding test_frame_def by simp
qed

lemma fill_payload_words: "\<exists>w. fill_payload p i st = st\<lparr>kvm := (kvm st)\<lparr>ptmem := w\<rparr>\<rparr>"
proof -
  have "\<exists>w. fold (\<lambda>j. put_word (f j) (g j)) js (st\<lparr>kvm := (kvm st)\<lparr>ptmem := v\<rparr>\<rparr>) = st\<lparr>kvm := (kvm st)\<lparr>ptmem := w\<rparr>\<rparr>"
    for f g v and js :: "nat list" by (induction js arbitrary: v) (auto simp: put_word_def)
  then show ?thesis unfolding fill_payload_def put_word_def .
qed

lemma fill_frame:
  assumes t: "test_arena k a st ps objs" and p: "p \<in> objs" and L: "L \<subseteq> pm_live (pmem (kvm st)) - set ps"
  shows "test_frame a L st (fill_payload p i st)" "test_arena k a (fill_payload p i st) ps objs"
proof -
  show "test_arena k a (fill_payload p i st) ps objs" using t by (simp add: test_arena_def fill_payload_effect(1))
  have ok: "arena_ok pm_live pm_inv (kheap st) a ps" and "p \<in> aobjects (kheap st) a ps" "object_size (arenas (kheap st) a) = 1032"
    using t p by (simp_all add: test_arena_def sizeof_Payload_def)
  then obtain q where q: "q \<in> set ps" "unat q + 64 \<le> unat p" "unat p + 1032 \<le> unat q + 4096" "unat q + 4096 \<le> 2 ^ 64"
    using object_in_page [of "kheap st" a ps p] by (auto simp: arena_ok_def)
  have live: "pm_inv (pmem (kvm st))" "q \<in> pm_live (pmem (kvm st))" using ok q(1) by (auto simp: arena_ok_def kheap_def)
  have "ptmem (kvm (fill_payload p i st)) x = ptmem (kvm st) x" if y: "y \<in> L" "unat y \<le> unat x" "unat x < unat y + 4096" for x y
  proof -
    have y': "y \<in> pm_live (pmem (kvm st))" "y \<noteq> q" using y(1) L q(1) by auto
    have "\<not> (unat q \<le> unat x \<and> unat x < unat q + 4096)"
      using kmem.live_pages_disjoint [OF live(1) y'(1) live(2) y'(2), of "unat x - unat y" "unat x - unat q"] y
      by (auto simp: less_diff_conv2 add.commute)
    then show ?thesis by (intro fill_payload_effect(3)) (use q in linarith)+
  qed
  moreover obtain w where w: "fill_payload p i st = st\<lparr>kvm := (kvm st)\<lparr>ptmem := w\<rparr>\<rparr>" using fill_payload_words by blast
  then have "fill_payload p i st = st\<lparr>cont_arena := cont_arena st, kvm := (kvm st)\<lparr>ptmem := w\<rparr>\<rparr>" by simp
  then have "\<exists>h vm. fill_payload p i st = st\<lparr>cont_arena := h, kvm := vm\<rparr>" by blast
  ultimately show "test_frame a L st (fill_payload p i st)" unfolding test_frame_def by (simp add: fill_payload_effect(1)) (simp add: w)
qed

lemma test_alloc_passes:
  assumes "test_arena k a st ps (set objs)" "distinct objs" "length objs = i" "3 * length ps \<le> i + 2"
    and "i + r \<le> 3 * (length ps + free_count (pmem (kvm st)))" "\<forall>j<i. ptmem (kvm st) (objs ! j) = of_nat j * 0x19260817"
    and "L = pm_live (pmem (kvm st)) - set ps"
  shows "\<exists>new st' ps'. test_alloc k a i r st = Inr (new, st') \<and> test_arena k a st' ps' (set (objs @ new)) \<and> distinct (objs @ new) \<and>
    length new = r \<and> (\<forall>j<i + r. ptmem (kvm st') ((objs @ new) ! j) = of_nat j * 0x19260817) \<and>
    test_frame a L st st' \<and> L = pm_live (pmem (kvm st')) - set ps'"
  using assms
proof (induction r arbitrary: st ps objs i)
  case 0
  then show ?case by fastforce
next
  case (Suc r)
  note t = Suc.prems(1)
  have card: "card (set objs) = i" using Suc.prems(2,3) by (simp add: distinct_card)
  have "card (set objs) = 3 * length ps \<longrightarrow> 0 < free_count (pmem (kvm st))" using Suc.prems(5) card by auto
  then obtain p h ps1 where al: "alloc_object k (kheap st) a = Inr (p, h)" "p \<notin> set objs" "test_arena k a (set_heap st h) ps1 (insert p (set objs))"
      "if card (set objs) = 3 * length ps then length ps1 = Suc (length ps) \<and> free_count (pmem (kvm st)) = Suc (free_count (apmem h))
       else length ps1 = length ps \<and> apmem h = pmem (kvm st)"
      "\<forall>q. q \<notin> set ps1 \<longrightarrow> apages h q = apages (kheap st) q" "\<forall>b. b \<noteq> a \<longrightarrow> arenas h b = arenas (kheap st) b"
      "pm_live (apmem h) - set ps1 = pm_live (pmem (kvm st)) - set ps"
    using test_arena_alloc [OF t] by metis
  define st1 where "st1 = fill_payload p i (set_heap st h)"
  have pm: "pmem (kvm (set_heap st h)) = apmem h" by (simp add: set_heap_def)
  have L: "L = pm_live (pmem (kvm (set_heap st h))) - set ps1" using al(7) Suc.prems(7) by (simp add: pm)
  note fl = fill_frame [OF al(3), of p L i, folded st1_def]
  have t1: "test_arena k a st1 ps1 (set (objs @ [p]))" and fr1: "test_frame a L (set_heap st h) st1" using fl L by simp_all
  have fr0: "test_frame a L st (set_heap st h)" by (rule test_frame_heap) (use al(5,6) L in auto)
  note f = test_arena_facts [OF al(3)]
  have num: "num_objects (arenas (kheap st1) a) = of_nat i + 1" and pn: "p \<noteq> NULL"
    using test_arena_facts(3) [OF t1] f(9) [of p] card al(2) by (simp_all add: card_insert_if)
  have pm1: "pmem (kvm st1) = apmem h" unfolding st1_def using fill_payload_words [of p i "set_heap st h"] pm by auto
  have "ptmem (kvm st1) ((objs @ [p]) ! j) = of_nat j * 0x19260817" if "j < Suc i" for j
  proof (cases "j = i")
    case True
    then show ?thesis using fill_payload_effect(2) [of p i "set_heap st h"] Suc.prems(3) by (simp add: st1_def nth_append)
  next
    case False
    then have j: "j < i" "objs ! j \<in> set objs" "objs ! j \<noteq> p" using that Suc.prems(3) al(2) by auto
    then have "ptmem (kvm st1) (objs ! j) = ptmem (kvm (set_heap st h)) (objs ! j)"
      unfolding st1_def by (intro fill_payload_effect(3)) (use f(8) [of p] f(10) [of "objs ! j" p] in auto)
    then show ?thesis using Suc.prems(3,6) j by (simp add: nth_append)
  qed
  moreover have "3 * length ps1 \<le> Suc i + 2" "Suc i + r \<le> 3 * (length ps1 + free_count (pmem (kvm st1)))"
    using al(4) card Suc.prems(4,5) unfolding pm1 by (auto split: if_splits)
  moreover have "distinct (objs @ [p])" "length (objs @ [p]) = Suc i" "L = pm_live (pmem (kvm st1)) - set ps1"
    using Suc.prems(2,3) al(2) L by (simp_all add: pm pm1)
  ultimately obtain new st' ps' where n: "test_alloc k a (Suc i) r st1 = Inr (new, st')" "test_arena k a st' ps' (set ((objs @ [p]) @ new))"
      "distinct ((objs @ [p]) @ new)" "length new = r" "\<forall>j<Suc i + r. ptmem (kvm st') (((objs @ [p]) @ new) ! j) = of_nat j * 0x19260817"
      "test_frame a L st1 st'" "L = pm_live (pmem (kvm st')) - set ps'"
    using Suc.IH [of st1 ps1 "objs @ [p]" "Suc i", OF t1] by blast
  have "test_alloc k a i (Suc r) st = Inr (p # new, st')" using al(1) pn num n(1) by (simp add: st1_def Let_def)
  moreover have "test_frame a L st st'" by (rule test_frame_trans [OF test_frame_trans [OF fr0 fr1] n(6)])
  ultimately show ?case using n by (intro exI [of _ "p # new"] exI [of _ st'] exI [of _ ps']) simp
qed

lemma test_free_passes:
  assumes "test_arena k a st ps objs" "distinct payloads" "i + 2 * r \<le> length payloads" "\<forall>j. i \<le> j \<and> j < length payloads \<longrightarrow> payloads ! j \<in> objs"
    and "\<forall>j < length payloads. ptmem (kvm st) (payloads ! j) = of_nat j * 0x19260817" "L = pm_live (pmem (kvm st)) - set ps"
  shows "\<exists>st' ps' objs'. test_free k payloads i r st = Inr st' \<and> test_arena k a st' ps' objs' \<and> card objs' + r = card objs \<and> set ps' = set ps \<and>
    pmem (kvm st') = pmem (kvm st) \<and> test_frame a L st st'"
  using assms
proof (induction r arbitrary: i st ps objs)
  case 0
  then show ?case by fastforce
next
  case (Suc r)
  let ?p = "payloads ! i" and ?h = "kheap st"
  have p: "?p \<in> objs" "ptmem (kvm st) ?p = of_nat i * 0x19260817" using Suc.prems(3-5) by auto
  have ok: "arena_ok pm_live pm_inv ?h a ps" and obj: "?p \<in> aobjects ?h a ps" using Suc.prems(1) p by (simp_all add: test_arena_def)
  from kmem.arena_free [OF ok obj, of k] obtain h ps1 where f: "free_object k ?h ?p = Inr h" "arena_ok pm_live pm_inv h a ps1"
      "aobjects h a ps1 = aobjects ?h a ps - {?p}" "set ps1 = set ps" "allocator (arenas h a) = allocator (arenas ?h a)"
      "object_size (arenas h a) = object_size (arenas ?h a)" "apmem h = apmem ?h" "\<forall>q. q \<notin> set ps1 \<longrightarrow> apages h q = apages ?h q"
      "\<forall>b. b \<noteq> a \<longrightarrow> arenas h b = arenas ?h b" by blast
  let ?st = "set_heap st h"
  have t: "test_arena k a ?st ps1 (objs - {?p})" using Suc.prems(1) f(2,3,5,6) by (simp add: test_arena_def)
  have pm: "pmem (kvm ?st) = pmem (kvm st)" using f(7) by (simp add: set_heap_def kheap_def)
  have rest: "\<forall>j. i + 2 \<le> j \<and> j < length payloads \<longrightarrow> payloads ! j \<in> objs - {?p}"
    using Suc.prems(2-4) by (auto simp: nth_eq_iff_index_eq)
  have len: "i + 2 + 2 * r \<le> length payloads" using Suc.prems(3) by simp
  have ck: "\<forall>j < length payloads. ptmem (kvm ?st) (payloads ! j) = of_nat j * 0x19260817" using Suc.prems(5) by simp
  have L: "L = pm_live (pmem (kvm ?st)) - set ps1" using Suc.prems(6) pm f(4) by simp
  from Suc.IH [OF t Suc.prems(2) len rest ck L] obtain st' ps' objs' where
    r: "test_free k payloads (i + 2) r ?st = Inr st'" "test_arena k a st' ps' objs'" "card objs' + r = card (objs - {?p})" "set ps' = set ps1"
      "pmem (kvm st') = pmem (kvm ?st)" "test_frame a L ?st st'" by blast
  have "test_frame a L st ?st" by (rule test_frame_heap) (use f(8,9) L in auto)
  then have "test_frame a L st st'" using r(6) by (rule test_frame_trans)
  moreover have "card objs = Suc (card (objs - {?p}))" by (rule card.remove [OF test_arena_facts(7) [OF Suc.prems(1)] p(1)])
  then have "card objs' + Suc r = card objs" using r(3) by simp
  moreover have "test_free k payloads i (Suc r) st = Inr st'" using p(2) f(1) r(1) by simp
  ultimately show ?case using r(2,4,5) unfolding f(4) pm by blast
qed

text \<open>The phases of \<open>arena_test\<close> on the kernel state.\<close>

lemma test_init:
  assumes "pm_inv (pmem (kvm st))" "\<forall>p. length (used (apages (kheap st) p)) = 4"
  obtains h where "init_arena (kheap st) a sizeof_Payload (kernel_allocator k) = Inr h" "test_arena k a (set_heap st h) [] {}"
    "test_frame a L st (set_heap st h)" "apmem h = pmem (kvm st)"
proof -
  let ?h = "upd_arena (kheap st) a (\<lambda>r. r\<lparr>alock := init_spinlock (alock r) ''arena'', allocator := kernel_allocator k,
             object_size := 1032, max_count := ARENA_PAGE_CAPACITY div 1032, pages := NULL, num_objects := 0, num_pages := 0\<rparr>)"
  have "init_arena (kheap st) a sizeof_Payload (kernel_allocator k) = Inr ?h" by (simp add: init_arena_def sizeof_Payload_def)
  moreover have "apmem (kheap st) = pmem (kvm st)" by (simp add: kheap_def)
  then have "test_arena k a (set_heap st ?h) [] {}"
    using assms by (simp add: test_arena_def arena_ok_def arena_wf_def aobjects_def sizeof_Payload_def lock_free_def init_spinlock_def)
  moreover have "test_frame a L st (set_heap st ?h)" by (rule test_frame_heap) simp_all
  moreover have "apmem ?h = pmem (kvm st)" by (simp add: kheap_def)
  ultimately show thesis by (rule that)
qed

lemma test_again:
  assumes t: "test_arena k a st ps objs" and c: "card objs = 64" and big: "64 < 3 * length ps" and L: "L = pm_live (pmem (kvm st)) - set ps"
  obtains p h ps' where "alloc_object k (kheap st) a = Inr (p, h)" "p \<noteq> NULL" "num_objects (arenas h a) = 65"
    "test_arena k a (set_heap st h) ps' (insert p objs)" "test_frame a L st (set_heap st h)" "L = pm_live (apmem h) - set ps'" "apmem h = pmem (kvm st)"
proof -
  from test_arena_alloc [OF t] c big obtain p h ps' where r: "alloc_object k (kheap st) a = Inr (p, h)" "p \<notin> objs"
      "test_arena k a (set_heap st h) ps' (insert p objs)" "apmem h = pmem (kvm st)"
      "\<forall>q. q \<notin> set ps' \<longrightarrow> apages h q = apages (kheap st) q" "\<forall>b. b \<noteq> a \<longrightarrow> arenas h b = arenas (kheap st) b"
      "pm_live (apmem h) - set ps' = pm_live (pmem (kvm st)) - set ps"
    by (metis (no_types, lifting) nat_neq_iff)
  note f = test_arena_facts [OF r(3)]
  have "num_objects (arenas h a) = 65" using f(3) c r(2) test_arena_facts(7) [OF t] by simp
  moreover have "test_frame a L st (set_heap st h)" by (rule test_frame_heap) (use r(5-7) L in auto)
  ultimately show thesis using that [OF r(1) _ _ r(3)] f(9) [of p] r(4,7) L by simp
qed

lemma test_clear:
  assumes t: "test_arena k a st ps objs" and L: "L = pm_live (pmem (kvm st)) - set ps"
  obtains h where "clear_arena k (kheap st) a = Some (Inr h)" "pm_live (apmem h) = L" "pm_inv (apmem h)" "test_frame a M st (set_heap st h)"
    "\<forall>p. length (used (apages h p)) = 4"
proof -
  have ok: "arena_ok pm_live pm_inv (kheap st) a ps" "free_fn (allocator (arenas (kheap st) a)) = kfree k" "apmem (kheap st) = pmem (kvm st)"
    using t by (simp_all add: test_arena_def kernel_allocator_def kheap_def)
  from kmem.arena_clear [OF ok(1,2), of k] L ok(3) obtain h where
    h: "clear_arena k (kheap st) a = Some (Inr h)" "pm_live (apmem h) = L" "pm_inv (apmem h)" by (auto simp: arena_ok_def)
  have "apages h = apages (kheap st)" "\<forall>b. b \<noteq> a \<longrightarrow> arenas h b = arenas (kheap st) b"
    using h(1) by (auto simp: clear_arena_def lock_arena_def unlock_arena_def bind_res_def Let_def split: sum.splits option.splits if_splits)
  then have "test_frame a M st (set_heap st h)" by (intro test_frame_heap) simp_all
  moreover have "\<forall>p. length (used (apages h p)) = 4" using ok(1) \<open>apages h = apages (kheap st)\<close> by (simp add: arena_ok_def arena_wf_def)
  ultimately show thesis using h by (intro that)
qed

lemma arena_test_phases:
  assumes inv: "pm_inv (pmem (kvm st))" and bm: "\<forall>p. length (used (apages (kheap st) p)) = 4" and room: "43 \<le> free_count (pmem (kvm st))"
  obtains k1 k2 k3 k4 k5 ps where "arena_test_init k a st = Some (Inr ((), k1))" "arena_test_alloc k a k1 = Some (Inr (ps, k2))"
    "arena_test_free k a ps k2 = Some (Inr ((), k3))" "arena_test_realloc k a k3 = Some (Inr ((), k4))" "arena_test_clear k a k4 = Some (Inr ((), k5))"
    "pm_inv (pmem (kvm k5))" "pm_live (pmem (kvm k5)) = pm_live (pmem (kvm st))" "\<forall>p. length (used (apages (kheap k5) p)) = 4"
    "test_frame a (pm_live (pmem (kvm st))) st k5"
proof -
  let ?L = "pm_live (pmem (kvm st))"
  obtain h1 where i: "init_arena (kheap st) a sizeof_Payload (kernel_allocator k) = Inr h1" "test_arena k a (set_heap st h1) [] {}"
      "test_frame a ?L st (set_heap st h1)" "apmem h1 = pmem (kvm st)"
    using test_init [OF inv bm] .
  let ?k1 = "set_heap st h1"
  have pm1: "pmem (kvm ?k1) = pmem (kvm st)" using i(4) by (simp add: set_heap_def)
  have "test_arena k a ?k1 [] (set [])" using i(2) by simp
  then have "\<exists>new st' ps'. test_alloc k a 0 128 ?k1 = Inr (new, st') \<and> test_arena k a st' ps' (set ([] @ new)) \<and> distinct ([] @ new) \<and>
    length new = 128 \<and> (\<forall>j<0 + 128. ptmem (kvm st') (([] @ new) ! j) = of_nat j * 0x19260817) \<and>
    test_frame a ?L ?k1 st' \<and> ?L = pm_live (pmem (kvm st')) - set ps'"
    by (rule test_alloc_passes) (use room in \<open>simp_all add: pm1\<close>)
  then obtain ps k2 p2 where al: "test_alloc k a 0 128 ?k1 = Inr (ps, k2)" "test_arena k a k2 p2 (set ps)" "distinct ps" "length ps = 128"
      "\<forall>j<128. ptmem (kvm k2) (ps ! j) = of_nat j * 0x19260817" "test_frame a ?L ?k1 k2" "?L = pm_live (pmem (kvm k2)) - set p2"
    unfolding append_Nil add_0 by blast
  have "\<exists>st' ps' objs'. test_free k ps 0 64 k2 = Inr st' \<and> test_arena k a st' ps' objs' \<and> card objs' + 64 = card (set ps) \<and> set ps' = set p2 \<and>
      pmem (kvm st') = pmem (kvm k2) \<and> test_frame a ?L k2 st'"
    by (rule test_free_passes [OF al(2,3)]) (use al(4,5,7) in simp_all)
  then obtain k3 p3 o3 where fr: "test_free k ps 0 64 k2 = Inr k3" "test_arena k a k3 p3 o3" "card o3 + 64 = card (set ps)" "set p3 = set p2"
      "pmem (kvm k3) = pmem (kvm k2)" "test_frame a ?L k2 k3" by blast
  have c: "card o3 = 64" using fr(3) al(3,4) by (simp add: distinct_card)
  have n64: "num_objects (arenas (kheap k3) a) = 64" using test_arena_facts(3) [OF fr(2)] c by simp
  have "length p3 = length p2"
    using test_arena_facts(6) [OF al(2)] test_arena_facts(6) [OF fr(2)] fr(4) distinct_card by metis
  then have big: "64 < 3 * length p3" using test_arena_facts(4) [OF al(2)] al(3,4) by (simp add: distinct_card)
  have L3: "?L = pm_live (pmem (kvm k3)) - set p3" using al(7) fr(4,5) by simp
  obtain q h4 p4 where ag: "alloc_object k (kheap k3) a = Inr (q, h4)" "q \<noteq> NULL" "num_objects (arenas h4 a) = 65"
      "test_arena k a (set_heap k3 h4) p4 (insert q o3)" "test_frame a ?L k3 (set_heap k3 h4)" "?L = pm_live (apmem h4) - set p4" "apmem h4 = pmem (kvm k3)"
    using test_again [OF fr(2) c big L3] .
  let ?k4 = "set_heap k3 h4"
  have L4: "?L = pm_live (pmem (kvm ?k4)) - set p4" using ag(6) by (simp add: set_heap_def)
  obtain h5 where cl: "clear_arena k (kheap ?k4) a = Some (Inr h5)" "pm_live (apmem h5) = ?L" "pm_inv (apmem h5)"
      "test_frame a ?L ?k4 (set_heap ?k4 h5)" "\<forall>p. length (used (apages h5 p)) = 4"
    using test_clear [OF ag(4) L4, of ?L] .
  have pm5: "pmem (kvm (set_heap ?k4 h5)) = apmem h5" by (simp add: set_heap_def)
  have "arena_test_init k a st = Some (Inr ((), ?k1))" "arena_test_alloc k a ?k1 = Some (Inr (ps, k2))" "arena_test_free k a ps k2 = Some (Inr ((), k3))"
    "arena_test_realloc k a k3 = Some (Inr ((), ?k4))" "arena_test_clear k a ?k4 = Some (Inr ((), set_heap ?k4 h5))"
    using i(1) al(1) fr(1) n64 ag(1-3) cl(1)
    by (simp_all add: arena_test_init_def arena_test_alloc_def arena_test_free_def arena_test_realloc_def arena_test_clear_def)
  moreover have "test_frame a ?L st (set_heap ?k4 h5)"
    by (rule test_frame_trans [OF i(3) test_frame_trans [OF al(6) test_frame_trans [OF fr(6) test_frame_trans [OF ag(5) cl(4)]]]])
  ultimately show thesis using that cl(2,3,5) pm5 by simp
qed

subsection \<open>The page loops\<close>

lemma kfree_kalloc:
  assumes "pm_inv pm" "kalloc k pm = Inr (p, pm1)"
  shows "kfree k' pm1 p = Inr pm" "pm_inv pm1"
proof -
  have "nkalloc k pm 1 = Inr (p, pm1)" using assms(2) by (simp add: kalloc_eq_nkalloc)
  moreover have "1 \<le> unat (poolnumend pm)" using assms(1) by (simp add: pm_inv_def)
  ultimately show "kfree k' pm1 p = Inr pm" using nfree_after_nkalloc [OF assms(1), of 1 k p pm1 k'] by (simp add: nfree_def kfree_def)
  show "pm_inv pm1" using kmem.allocate_ok [OF assms] by simp
qed

lemma kalloc_times_again:
  assumes "pm_inv pm" "n \<le> free_count pm"
  shows "\<exists>ps pm'. kalloc_times k n pm = Inr (ps, pm') \<and> length ps = n \<and> kfree_back k ps pm' = Inr pm \<and> kalloc_again k ps pm = Inr (ps, pm')"
  using assms
proof (induction n arbitrary: pm)
  case (Suc n)
  obtain p pm1 where p: "kalloc k pm = Inr (p, pm1)" "free_count pm = Suc (free_count pm1)"
    using kalloc_free_count [OF Suc.prems(1), of k] Suc.prems(2) by auto
  note f = kfree_kalloc [OF Suc.prems(1) p(1)]
  obtain ps pm' where "kalloc_times k n pm1 = Inr (ps, pm')" "length ps = n" "kfree_back k ps pm' = Inr pm1" "kalloc_again k ps pm1 = Inr (ps, pm')"
    using Suc.IH [OF f(2)] p(2) Suc.prems(2) by auto
  then show ?case using p(1) f(1) by (intro exI [of _ "p # ps"] exI [of _ pm']) simp
qed simp

end
