(* ===== verification/KSelfTest.thy ===== *)
theory KSelfTest
  imports KArenaTest KTrapSpec
begin

text \<open>
  The tests the kernel carries: \<open>arena_test\<close> of \<open>src/core/arena.c\<close>, which every boot runs, and the tests of the page allocator and of
  the page tables in \<open>src/core/virtual_memory.c\<close>. They run on the state of the whole kernel. The local arena of \<open>arena_test\<close> is at the
  address \<open>a\<close>.\<close>

subsection \<open>Parts of the kernel state\<close>

definition kern_act :: "(ksys \<Rightarrow> ('a \<times> ksys) res option) \<Rightarrow> ('h sdsys, 'a) act" where
  "kern_act f s = bind_run (f (skern s)) (\<lambda>(x, ks). Some (Inr (x, s\<lparr>skern := ks\<rparr>)))"

definition kputs :: "'h machine \<Rightarrow> nat \<Rightarrow> string \<Rightarrow> ('h sdsys, unit) act" where
  "kputs m k str s = bind_run (puts m k str (sdev s)) (\<lambda>(returns, d). if returns then Some (Inr ((), s\<lparr>sdev := d\<rparr>)) else None)"

subsection \<open>\<open>arena_test\<close>\<close>

definition arena_test :: "'h machine \<Rightarrow> nat \<Rightarrow> addr \<Rightarrow> ('h sdsys, unit) act" where
  "arena_test m k a =
     then_act (kputs m k ''arena_test begin.'')
     (bind_act (kern_act (arena_test_init k a)) (\<lambda>_. then_act (kputs m k ''init_arena okay.'')
     (bind_act (kern_act (arena_test_alloc k a)) (\<lambda>payloads. then_act (kputs m k ''allocate_object okay.'')
     (bind_act (kern_act (arena_test_free k a payloads)) (\<lambda>_. then_act (kputs m k ''free_object okay.'')
     (bind_act (kern_act (arena_test_realloc k a)) (\<lambda>_. then_act (kputs m k ''re-allocate_object okay.'')
     (bind_act (kern_act (arena_test_clear k a)) (\<lambda>_.
     kputs m k ''clear_arena okay.''))))))))))"

subsection \<open>Tests of the memory managers\<close>

definition test1_pm_kfree_kalloc :: "'h machine \<Rightarrow> nat \<Rightarrow> ('h sdsys, unit) act" where
  "test1_pm_kfree_kalloc m k =
     then_act (kern_act (\<lambda>st. bind_run (Some (
        bind_res (kalloc_times k 10 (pmem (kvm st))) (\<lambda>(contain, pm1).
        bind_res (kfree_back k contain pm1) (\<lambda>pm2.
        bind_res (kalloc_again k contain pm2) (\<lambda>(contain2, pm3).
        kfree_back k contain2 pm3))))) (\<lambda>pm. Some (Inr ((), st\<lparr>kvm := (kvm st)\<lparr>pmem := pm\<rparr>\<rparr>)))))
     (kprintf m k (''test1_pm pass.'' @ [CHR 0x0A]) [])"

definition vm_act :: "(vmstate \<Rightarrow> ('a \<times> vmstate) res option) \<Rightarrow> ('h sdsys, 'a) act" where
  "vm_act f = kern_act (\<lambda>st. bind_run (f (kvm st)) (\<lambda>(x, vm). Some (Inr (x, st\<lparr>kvm := vm\<rparr>))))"

text \<open>A load through the user table the translation register points to.\<close>

definition user_load :: "vmstate \<Rightarrow> u64 \<Rightarrow> u64 res" where
  "user_load vm va =
     (case uvm_lookup vm (P2K (ttbr0 vm)) va of
        None \<Rightarrow> Inl (Fault ''translation fault'')
      | Some pte \<Rightarrow> Inr (ptmem vm (P2K (PTE_ADDRESS pte) + (va AND 0xfff))))"

definition test0_yifan_test :: "'h machine \<Rightarrow> nat \<Rightarrow> ('h sdsys, unit) act" where
  "test0_yifan_test m k =
     then_act (vm_act (\<lambda>vm. Some (Inr ((), vm\<lparr>ptmem := (ptmem vm)(P2K 0 := 0xac)\<rparr>))))
     (bind_act (vm_act (\<lambda>vm. Some (bind_res (kalloc k (pmem vm)) (\<lambda>(p, pm). Inr (p, vm\<lparr>pmem := pm\<rparr>))))) (\<lambda>p.
     then_act (kprintf m k (''kalloc root page table at : %p'' @ [CHR 0x0A]) [VInt p])
     (then_act (vm_act (\<lambda>vm. Some (Inr ((), vm\<lparr>ptmem := (\<lambda>x. if x - p < 4096 then 0 else ptmem vm x)\<rparr>))))
     (bind_act (vm_act (\<lambda>vm. my_uvm_map k vm p 0x1000 4096 0)) (\<lambda>_.
     then_act (vm_act (\<lambda>vm. Some (Inr ((), uvm_switch vm p))))
     (bind_act (vm_act (\<lambda>vm. Some (my_pgdir_walk k vm p 0x1000 False))) (\<lambda>pte.
     if pte = 0 then fails (Panic ''virtual_memory.c'')
     else if drop_bit 48 pte = 0 then
       then_act (kprintf m k (''pte should be virtual address, pte : %p'' @ [CHR 0x0A]) [VInt pte]) (fails (Panic ''virtual_memory.c''))
     else
       then_act (vm_act (\<lambda>vm. if drop_bit 48 (ptmem vm pte) \<noteq> 0 then Some (Inl (Panic ''virtual_memory.c'')) else Some (Inr ((), vm))))
       (then_act (kprintf m k (''pte : %p'' @ [CHR 0x0A]) [VInt pte])
       (bind_act (vm_act (\<lambda>vm. Some (bind_res (user_load vm 0x1000) (\<lambda>v. Inr (v, vm))))) (\<lambda>v.
       then_act (kprintf m k (''content at 0x1000 : %llx'' @ [CHR 0x0A]) [VInt v])
       (bind_act (vm_act (\<lambda>vm. Some (bind_res (user_load vm 0x1000) (\<lambda>v. Inr (v, vm))))) (\<lambda>v.
       if v = 0xac then kprintf m k (''test0 (test_map_region) pass!'' @ [CHR 0x0A]) []
       else kprintf m k (''test_map_region failed.'' @ [CHR 0x0A]) []))))))))))))"

definition test2_vm_map_walk :: "'h machine \<Rightarrow> nat \<Rightarrow> ('h sdsys, unit) act" where
  "test2_vm_map_walk m k =
     bind_act (vm_act (\<lambda>vm. Some (my_pgdir_init k vm))) (\<lambda>pgdir.
     bind_act (vm_act (\<lambda>vm. my_uvm_map k vm pgdir (P2K 0x12000) 1 0x12000)) (\<lambda>_.
     bind_act (vm_act (\<lambda>vm. Some (my_pgdir_walk k vm pgdir (P2K 0x12000) True))) (\<lambda>pte.
     then_act (vm_act (\<lambda>vm. if PTE_ADDRESS (ptmem vm pte) \<noteq> 0x12000 then Some (Inl (Panic ''(uint64_t)p[0] == a'')) else Some (Inr ((), vm))))
     (then_act (vm_act (\<lambda>vm. Some (bind_res (my_vm_free k vm pgdir) (\<lambda>vm1. Inr ((), vm1)))))
     (bind_act (vm_act (\<lambda>vm. Some (my_pgdir_walk k vm pgdir (P2K 0x12000) True))) (\<lambda>pte2.
     then_act (vm_act (\<lambda>vm. if PTE_ADDRESS (ptmem vm pte2) \<noteq> 0 then Some (Inl (Panic ''b == NULL'')) else Some (Inr ((), vm))))
     (kprintf m k (''test2_vm pass.'' @ [CHR 0x0A]) [])))))))"

definition vm_test :: "'h machine \<Rightarrow> nat \<Rightarrow> ('h sdsys, unit) act" where
  "vm_test m k = then_act (test0_yifan_test m k) (then_act (test1_pm_kfree_kalloc m k) (test2_vm_map_walk m k))"

subsection \<open>The tests pass\<close>

lemma kputs_sends:
  assumes "serial_line m sent busy" "ready s"
  obtains h where "kputs m k str s = Some (Inr ((), s\<lparr>sdev := (sdev s)\<lparr>hw := h\<rparr>\<rparr>))" "sent h = sent (hw (sdev s)) @ crlf (str @ [CHR 0x0A])"
proof -
  have f: "lock_free (con_lock (sdev s))" "\<not> panicked_flag (sdev s)" using assms(2) by (simp_all add: ready_def)
  let ?st = "(sdev s)\<lparr>con_lock := (con_lock (sdev s))\<lparr>locked := True, lcpu := Some k\<rparr>\<rparr>"
  obtain h1 where h1: "put_string (uart_put_char m) str ?st = Some (Inr (?st\<lparr>hw := h1\<rparr>))" "sent h1 = sent (hw (sdev s)) @ crlf str"
    using put_string_sends [OF assms(1), of str ?st] by auto
  obtain h2 where h2: "uart_put_char m (CHR 0x0A) (?st\<lparr>hw := h1\<rparr>) = Some (Inr (?st\<lparr>hw := h2\<rparr>))" "sent h2 = sent h1 @ crlf [CHR 0x0A]"
    using uart_put_char_sends [OF assms(1), of "CHR 0x0A" "?st\<lparr>hw := h1\<rparr>"] by auto
  have "puts m k str (sdev s) = Some (Inr (True, (sdev s)\<lparr>hw := h2\<rparr>))"
    using f h1(1) h2(1) by (simp add: puts_def check_panicked_def lock_console_free)
  then show thesis using that [of h2] h1(2) h2(2) by (simp add: kputs_def)
qed

text \<open>The state with other hardware and another kernel part; a message and the part of a test after it.\<close>

definition with_hw :: "'h sdsys \<Rightarrow> 'h \<Rightarrow> ksys \<Rightarrow> 'h sdsys" where
  "with_hw s h ks = s\<lparr>sdev := (sdev s)\<lparr>hw := h\<rparr>, skern := ks\<rparr>"

lemma with_hw_same: "with_hw s (hw (sdev s)) (skern s) = s"
  by (simp add: with_hw_def)

lemma with_hw_simps [simp]: "skern (with_hw s h ks) = ks" "hw (sdev (with_hw s h ks)) = h" "ready (with_hw s h ks) = ready s"
  by (simp_all add: with_hw_def ready_def)

lemma kputs_with_hw:
  assumes "serial_line m sent busy" "ready s"
  shows "\<exists>h'. kputs m k str (with_hw s h ks) = Some (Inr ((), with_hw s h' ks)) \<and> sent h' = sent h @ crlf (str @ [CHR 0x0A])"
proof -
  have "ready (with_hw s h ks)" using assms(2) by simp
  from kputs_sends [OF assms(1) this, of k str] obtain h' where
    "kputs m k str (with_hw s h ks) = Some (Inr ((), (with_hw s h ks)\<lparr>sdev := (sdev (with_hw s h ks))\<lparr>hw := h'\<rparr>\<rparr>))"
    "sent h' = sent h @ crlf (str @ [CHR 0x0A])" by (metis with_hw_simps(2))
  then show ?thesis by (intro exI [of _ h']) (simp add: with_hw_def)
qed

lemma test_phase:
  assumes "serial_line m sent busy" "ready s" "f ks = Some (Inr (x, ks'))"
  shows "\<exists>h'. (\<forall>g. then_act (kputs m k str) (bind_act (kern_act f) g) (with_hw s h ks) = g x (with_hw s h' ks')) \<and>
    sent h' = sent h @ crlf (str @ [CHR 0x0A])"
proof -
  obtain h' where "kputs m k str (with_hw s h ks) = Some (Inr ((), with_hw s h' ks))" "sent h' = sent h @ crlf (str @ [CHR 0x0A])"
    using kputs_with_hw [OF assms(1,2), of k str h ks] by blast
  then show ?thesis using assms(3) by (intro exI [of _ h']) (simp add: then_act_def bind_act_def kern_act_def with_hw_def)
qed

definition arena_test_text :: "string list" where
  "arena_test_text = [''arena_test begin.'', ''init_arena okay.'', ''allocate_object okay.'', ''free_object okay.'',
     ''re-allocate_object okay.'', ''clear_arena okay.'']"

lemma arena_test_runs:
  fixes m :: "'h machine"
  assumes line: "serial_line m sent busy" and rd: "ready s" and inv: "pm_inv (pmem (kvm (skern s)))"
    and bm: "\<forall>p. length (used (apages (kheap (skern s)) p)) = 4" and room: "43 \<le> free_count (pmem (kvm (skern s)))"
  obtains h ks where "arena_test m k a s = Some (Inr ((), with_hw s h ks))"
    "sent h = sent (hw (sdev s)) @ crlf (concat (map (\<lambda>l. l @ [CHR 0x0A]) arena_test_text))"
    "pm_inv (pmem (kvm ks))" "pm_live (pmem (kvm ks)) = pm_live (pmem (kvm (skern s)))" "\<forall>p. length (used (apages (kheap ks) p)) = 4"
    "test_frame a (pm_live (pmem (kvm (skern s)))) (skern s) ks"
proof -
  obtain k1 k2 k3 k4 k5 ps where r: "arena_test_init k a (skern s) = Some (Inr ((), k1))" "arena_test_alloc k a k1 = Some (Inr (ps, k2))"
    "arena_test_free k a ps k2 = Some (Inr ((), k3))" "arena_test_realloc k a k3 = Some (Inr ((), k4))" "arena_test_clear k a k4 = Some (Inr ((), k5))"
    "pm_inv (pmem (kvm k5))" "pm_live (pmem (kvm k5)) = pm_live (pmem (kvm (skern s)))" "\<forall>p. length (used (apages (kheap k5) p)) = 4"
    "test_frame a (pm_live (pmem (kvm (skern s)))) (skern s) k5"
    using arena_test_phases [OF inv bm room] .
  note phase = test_phase [where s = s and k = k, OF line rd]
  obtain h1 where h1: "\<And>g :: _ \<Rightarrow> ('h sdsys, unit) act. then_act (kputs m k ''arena_test begin.'') (bind_act (kern_act (arena_test_init k a)) g) (with_hw s (hw (sdev s)) (skern s)) = g () (with_hw s h1 k1)"
      "sent h1 = sent (hw (sdev s)) @ crlf (''arena_test begin.'' @ [CHR 0x0A])" using phase [of "arena_test_init k a", OF r(1)] by blast
  obtain h2 where h2: "\<And>g :: _ \<Rightarrow> ('h sdsys, unit) act. then_act (kputs m k ''init_arena okay.'') (bind_act (kern_act (arena_test_alloc k a)) g) (with_hw s h1 k1) = g ps (with_hw s h2 k2)"
      "sent h2 = sent h1 @ crlf (''init_arena okay.'' @ [CHR 0x0A])" using phase [of "arena_test_alloc k a", OF r(2)] by blast
  obtain h3 where h3: "\<And>g :: _ \<Rightarrow> ('h sdsys, unit) act. then_act (kputs m k ''allocate_object okay.'') (bind_act (kern_act (arena_test_free k a ps)) g) (with_hw s h2 k2) = g () (with_hw s h3 k3)"
      "sent h3 = sent h2 @ crlf (''allocate_object okay.'' @ [CHR 0x0A])" using phase [of "arena_test_free k a ps", OF r(3)] by blast
  obtain h4 where h4: "\<And>g :: _ \<Rightarrow> ('h sdsys, unit) act. then_act (kputs m k ''free_object okay.'') (bind_act (kern_act (arena_test_realloc k a)) g) (with_hw s h3 k3) = g () (with_hw s h4 k4)"
      "sent h4 = sent h3 @ crlf (''free_object okay.'' @ [CHR 0x0A])" using phase [of "arena_test_realloc k a", OF r(4)] by blast
  obtain h5 where h5: "\<And>g :: _ \<Rightarrow> ('h sdsys, unit) act. then_act (kputs m k ''re-allocate_object okay.'') (bind_act (kern_act (arena_test_clear k a)) g) (with_hw s h4 k4) = g () (with_hw s h5 k5)"
      "sent h5 = sent h4 @ crlf (''re-allocate_object okay.'' @ [CHR 0x0A])" using phase [of "arena_test_clear k a", OF r(5)] by blast
  obtain h where h: "kputs m k ''clear_arena okay.'' (with_hw s h5 k5) = Some (Inr ((), with_hw s h k5))"
      "sent h = sent h5 @ crlf (''clear_arena okay.'' @ [CHR 0x0A])" using kputs_with_hw [OF line rd] by blast
  have "arena_test m k a s = Some (Inr ((), with_hw s h k5))"
    unfolding arena_test_def h1(1) [unfolded with_hw_same] h2(1) h3(1) h4(1) h5(1) h(1) ..
  moreover have "sent h = sent (hw (sdev s)) @ crlf (concat (map (\<lambda>l. l @ [CHR 0x0A]) arena_test_text))"
    unfolding h(2) h5(2) h4(2) h3(2) h2(2) h1(2) arena_test_text_def by (simp only: list.map concat.simps crlf_simps append.assoc append_Nil2)
  ultimately show thesis using that r(6-9) by blast
qed

text \<open>C35: with 43 free pages and a working serial line, \<open>arena_test\<close> returns: no assertion fails, its six messages are transmitted in order, every page
  it took is free again, and no live page, no other arena and nothing else of the kernel has changed.\<close>

theorem arena_test_passes:
  assumes "serial_line m sent busy" and "ready s" and "pm_inv (pmem (kvm (skern s)))"
    and "\<forall>p. length (used (apages (kheap (skern s)) p)) = 4" and "43 \<le> free_count (pmem (kvm (skern s)))"
  shows "\<exists>h ks. arena_test m k a s = Some (Inr ((), with_hw s h ks)) \<and>
    sent h = sent (hw (sdev s)) @ crlf (concat (map (\<lambda>l. l @ [CHR 0x0A]) arena_test_text)) \<and>
    pm_inv (pmem (kvm ks)) \<and> pm_live (pmem (kvm ks)) = pm_live (pmem (kvm (skern s))) \<and>
    test_frame a (pm_live (pmem (kvm (skern s)))) (skern s) ks"
  using arena_test_runs [OF assms] by metis

definition test_example :: "(u64 \<times> u32 \<times> u64 \<times> u8 list) sdsys" where
  "test_example = (trap_example 0 0)\<lparr>skern := sys_example\<lparr>kvm := (kvm sys_example)\<lparr>pmem := pm_example\<rparr>\<rparr>\<rparr>"

theorem arena_test_passes_witness:
  "\<exists>s'. arena_test cpu_example 0 0x7000 test_example = Some (Inr ((), s')) \<and>
    snd (snd (snd (hw (sdev s')))) = crlf (concat (map (\<lambda>l. l @ [CHR 0x0A]) arena_test_text)) \<and> pm_live (pmem (kvm (skern s'))) = {}"
proof -
  have r: "ready test_example" using trap_example_ok(1) by (simp add: test_example_def)
  have pm: "pmem (kvm (skern test_example)) = pm_example" by (simp add: test_example_def)
  then have i: "pm_inv (pmem (kvm (skern test_example)))" by (simp add: pm_example_ok)
  have u: "\<forall>p. length (used (apages (kheap (skern test_example)) p)) = 4"
    using arena_example_ok(1) by (simp add: test_example_def kheap_def sys_example_def arena_ok_def arena_wf_def)
  have f: "43 \<le> free_count (pmem (kvm (skern test_example)))" using free_count_empty [OF pm_example_ok(2)] pm_example_ok(3) pm by simp
  have "hw (sdev test_example) = (0, 0, 0, [])" by (simp add: test_example_def trap_example_ok)
  with arena_test_passes [OF cpu_example_ok(2) r i u f, of 0 "0x7000"] show ?thesis
    unfolding pm pm_example_ok(2) by (auto simp: with_hw_def)
qed

text \<open>The test of the page allocator: the second round gets the same pages, and all of them are free again.\<close>

theorem kalloc_test_passes:
  assumes "serial_line m sent busy" and "ready s" and "pm_inv (pmem (kvm (skern s)))" and "10 \<le> free_count (pmem (kvm (skern s)))"
  shows "\<exists>h. test1_pm_kfree_kalloc m k s = Some (Inr ((), s\<lparr>sdev := (sdev s)\<lparr>hw := h\<rparr>\<rparr>)) \<and>
    sent h = sent (hw (sdev s)) @ crlf (''test1_pm pass.'' @ [CHR 0x0A])"
proof -
  obtain ps pm where p: "kalloc_times k 10 (pmem (kvm (skern s))) = Inr (ps, pm)" "kfree_back k ps pm = Inr (pmem (kvm (skern s)))"
      "kalloc_again k ps (pmem (kvm (skern s))) = Inr (ps, pm)" using kalloc_times_again [OF assms(3,4), of k] by blast
  obtain h where h: "kprintf m k (concat (map spelling (lits (''test1_pm pass.'' @ [CHR 0x0A])))) (concat (map argument (lits (''test1_pm pass.'' @ [CHR 0x0A])))) s =
      Some (Inr ((), s\<lparr>sdev := (sdev s)\<lparr>hw := h\<rparr>\<rparr>))" "sent h = sent (hw (sdev s)) @ crlf (concat (map directive_text (lits (''test1_pm pass.'' @ [CHR 0x0A]))))"
    using kprintf_sends [OF assms(1,2)] .
  then have "kprintf m k (''test1_pm pass.'' @ [CHR 0x0A]) [] s = Some (Inr ((), s\<lparr>sdev := (sdev s)\<lparr>hw := h\<rparr>\<rparr>))"
    "sent h = sent (hw (sdev s)) @ crlf (''test1_pm pass.'' @ [CHR 0x0A])" by simp_all
  then show ?thesis using p by (intro exI [of _ h]) (simp add: test1_pm_kfree_kalloc_def then_act_def bind_act_def kern_act_def)
qed

end
