(* ===== verification/KBoot.thy ===== *)
theory KBoot
  imports KSelfTest KBlockDev KInode
begin

text \<open>
  The start of the kernel: \<open>src/main.c\<close>, the entry into the scheduler of \<open>src/core/sched.h\<close> and \<open>src/fs/fs.c\<close>. The first CPU takes
  \<open>init_lock\<close> and runs the initialisers of all components in turn, with \<open>arena_test\<close> among them; the other CPUs wait for it. \<open>init_sched\<close> is empty, and
  \<open>init_virtual_memory\<close> stores the pointers of the functions that the model of the page tables names directly.\<close>

subsection \<open>The kernel image\<close>

text \<open>The symbols of the linker script, the vectors, the programs in the image, and the addresses of the mailbox buffer and
  of the local variables of \<open>arena_test\<close> and \<open>sd_init\<close>.\<close>

record kimage =
  edata :: addr
  kend :: addr
  exception_vector :: addr
  icode :: "u8 list"
  sdloop :: "u8 list"
  mbox_at :: addr
  mbox_old :: "u32 list"
  mbr_at :: addr
  test_arena_at :: addr

record 'h bootsys =
  bsys :: "'h sdsys"
  init_lock :: SpinLock

subsection \<open>Clearing the BSS section\<close>

text \<open>The variables without an initial value: they become zero. Variables with an initial value, even zero, are in the data
  section (\<open>-fno-zero-initialized-in-bss\<close>): \<open>init_lock\<close>, \<open>panicked_flag\<close>, \<open>poolnumend\<close>, \<open>pagestart\<close>, \<open>root_container\<close>, \<open>sdHostVer\<close>.\<close>

definition in_bss :: "kimage \<Rightarrow> addr \<Rightarrow> bool" where
  "in_bss im x \<longleftrightarrow> x - edata im < kend im - edata im"

definition zero_arena :: "PMemory Arena" where
  "zero_arena = \<lparr>alock = null_lock, allocator = \<lparr>allocate_fn = (\<lambda>_. Inl (Fault ''allocator.allocate'')), free_fn = (\<lambda>_ _. Inl (Fault ''allocator.free''))\<rparr>,
     object_size = 0, max_count = 0, pages = NULL, num_objects = 0, num_pages = 0\<rparr>"

definition zero_card :: SDDescriptor where
  "zero_card = \<lparr>capacity = 0, cid = replicate 4 0, csd = replicate 4 0, scr = replicate 2 0, ocr = 0, support = 0, fileFormat = 0, ctype = 0,
     uhsi = 0, card_init = False, card_absent = False, rca = 0, cardState = 0, card_status = 0, lastCmd = None, lastArg = 0\<rparr>"

definition clear_bss_kern :: "kimage \<Rightarrow> ksys \<Rightarrow> ksys" where
  "clear_bss_kern im st =
     st\<lparr>cpus := (\<lambda>_. \<lparr>cscheduler = NULL, cproc = None\<rparr>),
        cont_arena := (cont_arena st)\<lparr>arenas := (\<lambda>a. if in_bss im a then zero_arena else arenas (cont_arena st) a)\<rparr>,
        kvm := (kvm st)\<lparr>ptmem := (\<lambda>x. if in_bss im x then 0 else ptmem (kvm st) x),
                        pmem := (pmem (kvm st))\<lparr>pmemlock := null_lock, pagepool := (\<lambda>_. 0)\<rparr>\<rparr>\<rparr>"

definition clear_bss_queue :: "kimage \<Rightarrow> bufq \<Rightarrow> bufq" where
  "clear_bss_queue im q =
     q\<lparr>bufs := (\<lambda>a. if in_bss im a then \<lparr>bflags = 0, blockno = 0, bdata = replicate 512 0\<rparr> else bufs q a),
       qlinks := \<lparr>lprev = (\<lambda>a. if in_bss im a then NULL else lprev (qlinks q) a), lnext = (\<lambda>a. if in_bss im a then NULL else lnext (qlinks q) a)\<rparr>,
       buflock := null_lock\<rparr>"

definition clear_bss :: "kimage \<Rightarrow> 'h sdsys \<Rightarrow> 'h sdsys" where
  "clear_bss im s =
     s\<lparr>sdev := (sdev s)\<lparr>one_ms := 0, clock_handler := None, irq_handler := replicate NUM_IRQ_TYPES None, con_lock := null_lock\<rparr>,
       sdCard := zero_card, sdBaseClock := 0, sdlock := null_lock, squeue := clear_bss_queue im (squeue s), skern := clear_bss_kern im (skern s)\<rparr>"

subsection \<open>Initialisation\<close>

definition dev_run_act :: "('h kdev \<Rightarrow> 'h kdev res option) \<Rightarrow> ('h sdsys, unit) act" where
  "dev_run_act f s = bind_run (f (sdev s)) (\<lambda>d. Some (Inr ((), s\<lparr>sdev := d\<rparr>)))"

text \<open>The message of \<open>pool_init\<close> with the number of pages above the image.\<close>

definition boot_pages :: "kimage \<Rightarrow> u64" where
  "boot_pages im = word_of_int (sint (P2K phystop - round_up (kend im) 4096) sdiv int PAGE_SIZE)"

definition pool_init_message :: "'h machine \<Rightarrow> kimage \<Rightarrow> nat \<Rightarrow> ('h sdsys, unit) act" where
  "pool_init_message m im k =
     kprintf m k (CHR 0x0A # ''==> [MMU] : MAX page for allocation : MIN(%d, %d).'' @ [CHR 0x0A, CHR 0x0A])
       [VInt (boot_pages im), VInt (of_nat PAGEPOOLSIZE)]"

definition init_container :: "'h machine \<Rightarrow> nat \<Rightarrow> ('h sdsys, unit) act" where
  "init_container m k =
     then_act (kern_act (init_container_arena k)) (then_act (kputs m k ''init arena okay.'') (kern_act (alloc_root_container k)))"

definition init_kernel :: "'h machine \<Rightarrow> kimage \<Rightarrow> nat \<Rightarrow> ('h sdsys, unit) act" where
  "init_kernel m im k =
     then_act (dev_act (init_interrupt m))
     (then_act (dev_run_act (init_char_device m))
     (then_act (dev_act init_console)
     (then_act (pool_init_message m im k)
     (then_act (kern_act (\<lambda>st. Some (Inr ((), st\<lparr>kvm := (kvm st)\<lparr>pmem := init_memory_manager (pmem (kvm st)) (kend im)\<rparr>\<rparr>))))
     (then_act (arena_test m k (test_arena_at im))
     (init_container m k))))))"

definition init_system_once :: "'h machine \<Rightarrow> kimage \<Rightarrow> nat \<Rightarrow> ('h bootsys, unit) act" where
  "init_system_once m im k s =
     (case try_acquire_spinlock k (init_lock s) of
        (False, _) \<Rightarrow> Some (Inr ((), s))
      | (True, l) \<Rightarrow>
          bind_run (then_act (init_kernel m im k) (sd_init m (mbox_at im) (mbox_old im) (mbr_at im)) (clear_bss im (bsys s))) (\<lambda>(_, s1).
          bind_run (Some (release_spinlock k l)) (\<lambda>l'. Some (Inr ((), \<lparr>bsys = s1, init_lock = l'\<rparr>)))))"

text \<open>The scheduler a CPU enters; its loop is \<open>scheduler_simple\<close>.\<close>

definition enter_scheduler :: "nat \<Rightarrow> ksys \<Rightarrow> addr res" where
  "enter_scheduler k st =
     (if cscheduler (cpus st k) = NULL then Inl (Panic ''thiscpu()->scheduler != NULL'') else Inr (cscheduler (cpus st k)))"

definition boot_act :: "('h sdsys, 'a) act \<Rightarrow> ('h bootsys, 'a) act" where
  "boot_act f s = bind_run (f (bsys s)) (\<lambda>(x, s1). Some (Inr (x, s\<lparr>bsys := s1\<rparr>)))"

definition main :: "'h machine \<Rightarrow> kimage \<Rightarrow> nat \<Rightarrow> ('h bootsys, addr) act" where
  "main m im k =
     then_act (init_system_once m im k)
     (then_act (\<lambda>s. bind_run (Some (wait_spinlock k (init_lock s))) (\<lambda>l. Some (Inr ((), s\<lparr>init_lock := l\<rparr>))))
     (boot_act
       (then_act (\<lambda>s. Some (Inr ((), init_system_per_cpu m (exception_vector im) k s)))
       (bind_act (this_cpu m) (\<lambda>i.
       then_act
         (if i = 0 then
            then_act (kern_act (\<lambda>st. bind_run (spawn_init_process k (icode im) st) (\<lambda>st1. Some (Inr ((), st1)))))
            (then_act (kern_act (\<lambda>st. Some (bind_res (bound_processor_pid k st 1 0) (\<lambda>st1. Inr ((), st1)))))
            (kern_act (\<lambda>st. bind_run (sd_init_idle k (sdloop im) st) (\<lambda>st1. Some (Inr ((), st1))))))
          else ret ())
         (kern_act (\<lambda>st. Some (bind_res (enter_scheduler k st) (\<lambda>c. Inr (c, st))))))))))"

subsection \<open>The file system\<close>

definition bytes_super_block :: "u8 list \<Rightarrow> SuperBlock" where
  "bytes_super_block bs =
     (let f = (\<lambda>i. le_word (take 4 (drop (4 * i) bs)) :: u32) in
      \<lparr>num_blocks = f 0, num_data_blocks = f 1, num_inodes = f 2, num_log_blocks = f 3, log_start = f 4, inode_start = f 5, bitmap_start = f 6\<rparr>)"

text \<open>\<open>disk\<close> is what the functions of \<open>block_device\<close> reach, in the form the cache uses it; \<open>bc\<close> is the function table of the cache.\<close>

definition init_filesystem ::
    "'h machine \<Rightarrow> 'h others \<Rightarrow> kimage \<Rightarrow> nat \<Rightarrow> addr \<Rightarrow> Disk \<Rightarrow> bcache BlockCache \<Rightarrow> bcache itree \<Rightarrow> ('h sdsys, bcache itree) act" where
  "init_filesystem m others im k b disk bc tree =
     bind_act (init_block_device m others k (mbox_at im) (mbox_old im) (mbr_at im) b) (\<lambda>bs.
     let sblock = bytes_super_block bs in
     (\<lambda>s. bind_run (Some (init_bcache k (cache_st tree) sblock disk)) (\<lambda>c.
      bind_run (init_inodes bc k sblock (tree\<lparr>cache_st := c\<rparr>)) (\<lambda>t. Some (Inr (t, s))))))"

subsection \<open>What the start relies on\<close>

text \<open>The counter of the CPU is far from its end, advances with every reading, by less than \<open>2 ^ 40\<close>, and so do the other accesses of the
  initialisation; its frequency is a 32-bit number. None of these accesses transmits.\<close>

definition slow_clock :: "'h machine \<Rightarrow> ('h \<Rightarrow> u64) \<Rightarrow> ('h \<Rightarrow> u8 list) \<Rightarrow> bool" where
  "slow_clock m c sent \<longleftrightarrow>
     (\<forall>h. fst (sys_read m CNTPCT_EL0 h) = c h \<and> fst (sys_read m CNTFRQ_EL0 h) < 2 ^ 32) \<and>
     (\<forall>h r. sent (snd (sys_read m r h)) = sent h) \<and>
     (\<forall>h a v. a \<noteq> AUX_MU_IO_REG \<longrightarrow> sent (mwrite m a v h) = sent h) \<and>
     (\<forall>h r. c h < 2 ^ 63 \<longrightarrow> unat (c (snd (sys_read m r h))) < unat (c h) + 2 ^ 40) \<and>
     (\<forall>h a v. c h < 2 ^ 63 \<longrightarrow> unat (c (mwrite m a v h)) < unat (c h) + 2 ^ 40) \<and>
     (\<forall>h. c h < 2 ^ 63 \<longrightarrow> c h < c (snd (sys_read m CNTPCT_EL0 h)))"

lemma slow_clockD:
  assumes "slow_clock m c sent"
  shows "fst (sys_read m CNTPCT_EL0 h) = c h" "fst (sys_read m CNTFRQ_EL0 h) < 2 ^ 32" "sent (snd (sys_read m r h)) = sent h"
    "a \<noteq> AUX_MU_IO_REG \<Longrightarrow> sent (mwrite m a v h) = sent h" "unat (c h) < 2 ^ 63 \<Longrightarrow> unat (c (snd (sys_read m r h))) < unat (c h) + 2 ^ 40"
    "unat (c h) < 2 ^ 63 \<Longrightarrow> unat (c (mwrite m a v h)) < unat (c h) + 2 ^ 40"
    "unat (c h) < 2 ^ 63 \<Longrightarrow> unat (c h) < unat (c (snd (sys_read m CNTPCT_EL0 h)))"
  using assms unfolding slow_clock_def by (auto simp: word_less_nat_alt)

lemma wait_after_returns:
  assumes cl: "slow_clock m c sent" and b: "unat (c h) < B + 2 ^ 40" "unat stop < B" "B < 2 ^ 62"
  shows "\<exists>h'. wait_after m stop h = Some h' \<and> sent h' = sent h \<and> unat (c h') < B + 2 ^ 41"
  using b(1)
proof (induction "Suc (unat stop) - unat (c h)" arbitrary: h rule: less_induct)
  case less
  note d = slow_clockD [OF cl]
  obtain t h1 where r: "sys_read m CNTPCT_EL0 h = (t, h1)" by (cases "sys_read m CNTPCT_EL0 h")
  have "unat (c h) < 2 ^ 63" using less.prems b(3) by simp
  then have t: "t = c h" "sent h1 = sent h" "unat (c h1) < unat (c h) + 2 ^ 40" "unat (c h) < unat (c h1)"
    using d(1) [of h] d(3) [of CNTPCT_EL0 h] d(5) [of h CNTPCT_EL0] d(7) [of h] r by simp_all
  show ?case
  proof (cases "t \<le> stop")
    case True
    then have le: "unat (c h) \<le> unat stop" using t(1) by (simp add: word_le_nat_alt)
    then have "Suc (unat stop) - unat (c h1) < Suc (unat stop) - unat (c h)" "unat (c h1) < B + 2 ^ 40" using t(3,4) b(2) by linarith+
    from less.hyps [OF this] show ?thesis using True r t(2) by (subst wait_after.simps) (simp add: get_timestamp_def)
  next
    case False
    then show ?thesis using r t less.prems by (subst wait_after.simps) (simp add: get_timestamp_def)
  qed
qed

lemma delay_us_returns:
  assumes cl: "slow_clock m c sent" and b: "unat (c h) < B" "B < 2 ^ 61"
  shows "\<exists>h'. delay_us m 5 h = Some h' \<and> sent h' = sent h \<and> unat (c h') < B + 2 ^ 42"
proof -
  note d = slow_clockD [OF cl]
  obtain f h1 where f: "sys_read m CNTFRQ_EL0 h = (f, h1)" by (cases "sys_read m CNTFRQ_EL0 h")
  obtain t h2 where t: "sys_read m CNTPCT_EL0 h1 = (t, h2)" by (cases "sys_read m CNTPCT_EL0 h1")
  have h1: "unat f < 2 ^ 32" "sent h1 = sent h" "unat (c h1) < B + 2 ^ 40"
    using d(2) [of h] d(3) [of CNTFRQ_EL0 h] d(5) [of h CNTFRQ_EL0] f b by (simp_all add: word_less_nat_alt)
  have h2: "t = c h1" "sent h2 = sent h" "unat (c h2) < B + 2 ^ 41"
    using d(1) [of h1] d(3) [of CNTPCT_EL0 h1] d(5) [of h1 CNTPCT_EL0] t h1 b by simp_all
  have "unat (f div 1000000 * 5) \<le> 2 ^ 32"
  proof -
    have "unat (f div 1000000) \<le> 2 ^ 32 div 1000000" using h1(1) by (simp add: unat_div_distrib div_le_mono less_imp_le)
    then show ?thesis using unat_mult_lem [of "f div 1000000" 5] by simp
  qed
  then have "unat (t + f div 1000000 * 5) \<le> unat t + 2 ^ 32" 
    by (simp only: unat_word_ariths(1)) (metis (no_types, lifting) add_left_mono le_trans mod_less_eq_dividend)
  then have "unat (t + f div 1000000 * 5) < B + 2 ^ 41" using h1(3) h2(1) by simp
  from wait_after_returns [OF cl _ this, of h2] h2(3) b(2) obtain h' where
    "wait_after m (t + f div 1000000 * 5) h2 = Some h'" "sent h' = sent h2" "unat (c h') < B + 2 ^ 41 + 2 ^ 41" by auto
  then show ?thesis using f t h2(2) by (simp add: delay_us_def get_clock_frequency_def get_timestamp_def)
qed

lemma init_char_device_returns:
  assumes cl: "slow_clock m c sent" and b: "unat (c (hw st)) < 2 ^ 60"
  shows "\<exists>h. init_char_device m st = Some (Inr (st\<lparr>hw := h, irq_handler := (irq_handler st)[IRQ_AUX := Some uart_intr_handler]\<rparr>)) \<and> sent h = sent (hw st)"
proof -
  let ?w = "\<lambda>a v h. mwrite m a v h"
  let ?h0 = "?w GPPUD 0 (hw st)"
  have q: "sent (?w a v h) = sent h" if "a \<noteq> AUX_MU_IO_REG" for a v h by (rule slow_clockD(4) [OF cl that])
  have "unat (c ?h0) < 2 ^ 60 + 2 ^ 40" using slow_clockD(6) [OF cl, of "hw st" GPPUD 0] b by simp
  from delay_us_returns [OF cl this] obtain h1 where h1: "delay_us m 5 ?h0 = Some h1" "sent h1 = sent ?h0" "unat (c h1) < 2 ^ 60 + 2 ^ 43" by auto
  let ?h2 = "?w GPPUDCLK0 0xC000 h1"
  have "unat (c ?h2) < 2 ^ 60 + 2 ^ 44" using slow_clockD(6) [OF cl, of h1 GPPUDCLK0 "0xC000"] h1(3) by simp
  from delay_us_returns [OF cl this] obtain h3 where h3: "delay_us m 5 ?h2 = Some h3" "sent h3 = sent ?h2" by auto
  show ?thesis
    using h1(1,2) h3
    by (simp add: init_char_device_def init_uart_def dev_run_def dev_put_def device_put_u32_def set_interrupt_handler_def q)
      (rule exI, rule conjI [OF refl], simp add: q)
qed

lemma init_interrupt_quiet:
  assumes cl: "slow_clock m c sent" and b: "unat (c (hw st)) < 2 ^ 59"
  shows "\<exists>h. init_interrupt m st = st\<lparr>hw := h, irq_handler := replicate NUM_IRQ_TYPES None\<rparr> \<and> sent h = sent (hw st) \<and> unat (c h) < 2 ^ 60"
proof -
  note w = slow_clockD(6) [OF cl] and q = slow_clockD(4) [OF cl]
  let ?h1 = "mwrite m ENABLE_IRQS_1 AUX_INT (hw st)"
  let ?h2 = "mwrite m ENABLE_IRQS_2 VC_ARASANSDIO_INT ?h1"
  let ?h3 = "mwrite m GPU_INT_ROUTE 0 ?h2"
  have b1: "unat (c ?h1) < 2 ^ 59 + 2 ^ 40" using w [of "hw st" ENABLE_IRQS_1 AUX_INT] b by simp
  then have b2: "unat (c ?h2) < 2 ^ 59 + 2 ^ 41" using w [of ?h1 ENABLE_IRQS_2 VC_ARASANSDIO_INT] by simp
  then have "unat (c ?h3) < 2 ^ 60" using w [of ?h2 GPU_INT_ROUTE 0] by simp
  moreover have "sent ?h3 = sent (hw st)" by (simp add: q)
  moreover have "init_interrupt m st = st\<lparr>hw := ?h3, irq_handler := replicate NUM_IRQ_TYPES None\<rparr>"
    by (simp add: init_interrupt_def dev_put_def device_put_u32_def)
  ultimately show ?thesis by blast
qed

lemma init_container_ready:
  assumes inv: "pm_inv (pmem (kvm st))" and bm: "\<forall>p. length (used (apages (kheap st) p)) = 4" and room: "0 < free_count (pmem (kvm st))"
  obtains st0 st' where "init_container_arena k st = Some (Inr ((), st0))" "alloc_root_container k st0 = Some (Inr ((), st'))" "root_container st' \<noteq> NULL"
    "conts st' = (conts st)(root_container st' := fresh_container (root_container st'))" "cpus st' = cpus st" "pm_inv (pmem (kvm st'))"
proof -
  let ?a = "cont_arena_addr st"
  let ?f = "\<lambda>r. r\<lparr>alock := init_spinlock (alock r) ''arena'', allocator := kernel_allocator k, object_size := 3328,
     max_count := ARENA_PAGE_CAPACITY div 3328, pages := NULL, num_objects := 0, num_pages := 0\<rparr>"
  let ?h = "upd_arena (kheap st) ?a ?f" and ?ar = "upd_arena (cont_arena st) ?a ?f"
  have ap: "apmem (kheap st) = pmem (kvm st)" by (simp add: kheap_def)
  have ok: "arena_ok pm_live pm_inv ?h ?a []"
    using inv bm ap by (simp add: arena_ok_def arena_wf_def init_spinlock_def lock_free_def)
  have eq: "?ar\<lparr>apmem := pmem (kvm st)\<rparr> = ?h" by (simp add: kheap_def upd_arena_def)
  have i: "init_arena (cont_arena st) ?a sizeof_container (kernel_allocator k) = Inr ?ar"
    by (simp add: init_arena_def sizeof_container_def)
  obtain p pm where kl: "kalloc k (pmem (kvm st)) = Inr (p, pm)" using kalloc_free_count [OF inv room] by blast
  have "allocate_fn (allocator (arenas ?h ?a)) = kalloc k" by (simp add: kernel_allocator_def)
  from kmem.arena_alloc [OF ok this, of k] obtain c h ps where
    al: "alloc_object k ?h ?a = Inr (c, h)" "arena_ok pm_live pm_inv h ?a ps" "c \<in> aobjects h ?a ps"
    by (auto simp: ap kl split: sum.splits)
  have c: "c \<noteq> NULL" using object_in_pool [OF al(2,3)] by auto
  have inv': "pm_inv (apmem h)" using al(2) by (simp add: arena_ok_def)
  let ?st = "st\<lparr>cont_arena := h, kvm := (kvm st)\<lparr>pmem := apmem h\<rparr>, conts := (conts st)(c := fresh_container c), root_container := c\<rparr>"
  have "init_container_arena k st = Some (Inr ((), st\<lparr>cont_arena := ?ar\<rparr>))" by (simp add: init_container_arena_def i)
  moreover have "alloc_root_container k (st\<lparr>cont_arena := ?ar\<rparr>) = Some (Inr ((), ?st))"
    using al(1) eq by (simp add: alloc_root_container_def alloc_container_def)
  ultimately show thesis using that [of _ ?st] c inv' by simp
qed

subsection \<open>The start up to the disk\<close>

definition pool_directives :: "kimage \<Rightarrow> directive list" where
  "pool_directives im = lits (CHR 0x0A # ''==> [MMU] : MAX page for allocation : MIN('') @ [Num Cd (boot_pages im)] @ lits '', '' @
     [Num Cd (of_nat PAGEPOOLSIZE)] @ lits ('').'' @ [CHR 0x0A, CHR 0x0A])"

definition boot_text :: "kimage \<Rightarrow> string" where
  "boot_text im = concat (map directive_text (pool_directives im)) @ concat (map (\<lambda>l. l @ [CHR 0x0A]) (arena_test_text @ [''init arena okay.'']))"

lemma pool_init_message_sends:
  assumes "serial_line m sent polls" "ready s"
  obtains h where "pool_init_message m im k s = Some (Inr ((), with_hw s h (skern s)))"
    "sent h = sent (hw (sdev s)) @ crlf (concat (map directive_text (pool_directives im)))"
proof -
  obtain h where "kprintf m k (concat (map spelling (pool_directives im))) (concat (map argument (pool_directives im))) s =
      Some (Inr ((), s\<lparr>sdev := (sdev s)\<lparr>hw := h\<rparr>\<rparr>))" "sent h = sent (hw (sdev s)) @ crlf (concat (map directive_text (pool_directives im)))"
    using kprintf_sends [OF assms] .
  moreover have "concat (map spelling (pool_directives im)) =
      CHR 0x0A # ''==> [MMU] : MAX page for allocation : MIN(%d, %d).'' @ [CHR 0x0A, CHR 0x0A]"
    "concat (map argument (pool_directives im)) = [VInt (boot_pages im), VInt (of_nat PAGEPOOLSIZE)]"
    by (simp_all add: pool_directives_def)
  ultimately show thesis using that [of h] by (simp add: pool_init_message_def with_hw_def)
qed

text \<open>The image ends in kernel space, a mebibyte below the end of the memory, and the variables with initial values have them.\<close>

definition image_ok :: "kimage \<Rightarrow> bool" where
  "image_ok im \<longleftrightarrow> KSPACE_MASK \<le> kend im \<and> kend im \<le> P2K (phystop - 0x100000)"

definition power_on :: "'h bootsys \<Rightarrow> bool" where
  "power_on s \<longleftrightarrow> lock_free (init_lock s) \<and> \<not> panicked_flag (sdev (bsys s)) \<and>
     poolnumend (pmem (kvm (skern (bsys s)))) = of_nat PAGEPOOLSIZE \<and> pagestart (pmem (kvm (skern (bsys s)))) = NULL \<and>
     (\<forall>p. length (used (apages (cont_arena (skern (bsys s))) p)) = 4)"

lemma boot_memory:
  assumes "image_ok im"
  shows "pm_inv (init_memory_manager pmem_boot (kend im))" "pm_live (init_memory_manager pmem_boot (kend im)) = {}"
    "43 \<le> free_count (init_memory_manager pmem_boot (kend im))"
proof -
  let ?pm = "init_memory_manager pmem_boot (kend im)" and ?r = "round_up (kend im) 4096"
  have c: "KSPACE_MASK \<le> kend im" "kend im \<le> P2K (phystop - 4096)" "kend im \<le> P2K (phystop - 0x100000)"
  proof -
    show "KSPACE_MASK \<le> kend im" and le: "kend im \<le> P2K (phystop - 0x100000)" using assms by (simp_all add: image_ok_def)
    have "P2K (phystop - 0x100000) \<le> P2K (phystop - 4096)"
      by (simp add: P2K_def phystop_def KSPACE_MASK_def word_le_nat_alt)
    with le show "kend im \<le> P2K (phystop - 4096)" by (rule order_trans)
  qed
  note m = init_memory_manager_spec [OF c(1,2)]
  show "pm_inv ?pm" and live: "pm_live ?pm = {}" using m by simp_all
  have top: "unat (P2K (phystop - 0x100000)) = 0xffff00003EF00000" "unat (P2K phystop) = 0xffff00003F000000"
    by (simp_all add: P2K_def phystop_def KSPACE_MASK_def)
  have "unat (kend im) \<le> 0xffff00003EF00000" using c(3) top(1) by (simp add: word_le_nat_alt)
  then have "\<forall>x. unat (4096 :: u64) dvd unat x \<longrightarrow> kend im \<le> x \<longrightarrow> ?r \<le> x" using round_up_spec [of 4096 "kend im"] by simp
  moreover have "unat (4096 :: u64) dvd unat (P2K (phystop - 0x100000))" unfolding top(1) by simp
  ultimately have "?r \<le> P2K (phystop - 0x100000)" using c(3) by blast
  then have "unat ?r \<le> 0xffff00003EF00000" using top(1) by (simp add: word_le_nat_alt)
  then have "256 \<le> (unat (P2K phystop) - unat ?r) div 4096" using top(2) by (simp add: less_eq_div_iff_mult_less_eq)
  then have "43 \<le> unat (poolnumend ?pm)" using m by simp
  then show "43 \<le> free_count ?pm" by (simp add: free_count_empty [OF live])
qed

lemma console_comes_up:
  assumes cl: "slow_clock m c sent" and early: "unat (c (hw (sdev s))) < 2 ^ 59" and flag: "\<not> panicked_flag (sdev s)"
  obtains s' where "then_act (dev_act (init_interrupt m)) (then_act (dev_run_act (init_char_device m)) (then_act (dev_act init_console) g)) s = g s'"
    "ready s'" "sent (hw (sdev s')) = sent (hw (sdev s))"
    "irq_handler (sdev s') = (replicate NUM_IRQ_TYPES None)[IRQ_AUX := Some uart_intr_handler]" "skern s' = skern s"
proof -
  obtain h1 where h1: "init_interrupt m (sdev s) = (sdev s)\<lparr>hw := h1, irq_handler := replicate NUM_IRQ_TYPES None\<rparr>" "sent h1 = sent (hw (sdev s))" "unat (c h1) < 2 ^ 60"
    using init_interrupt_quiet [OF cl early] by blast
  let ?irq = "(replicate NUM_IRQ_TYPES None)[IRQ_AUX := Some uart_intr_handler]"
  obtain h2 where h2: "init_char_device m ((sdev s)\<lparr>hw := h1, irq_handler := replicate NUM_IRQ_TYPES None\<rparr>) =
      Some (Inr ((sdev s)\<lparr>hw := h2, irq_handler := ?irq\<rparr>))" "sent h2 = sent h1"
    using init_char_device_returns [OF cl, of "(sdev s)\<lparr>hw := h1, irq_handler := replicate NUM_IRQ_TYPES None\<rparr>"] h1(3) by auto
  let ?s = "s\<lparr>sdev := init_console ((sdev s)\<lparr>hw := h2, irq_handler := ?irq\<rparr>)\<rparr>"
  have "then_act (dev_act (init_interrupt m)) (then_act (dev_run_act (init_char_device m)) (then_act (dev_act init_console) g)) s = g ?s"
    using h1(1) h2(1) by (simp add: then_act_def bind_act_def dev_run_act_def dev_act_def)
  then show thesis
    by (rule that) (use flag h1(2) h2(2) in \<open>simp_all add: ready_def init_console_def init_spinlock_def lock_free_def\<close>)
qed

lemma init_kernel_runs:
  assumes line: "serial_line m sent polls" and cl: "slow_clock m c sent" and early: "unat (c (hw (sdev s))) < 2 ^ 59"
    and im: "image_ok im" and flag: "\<not> panicked_flag (sdev s)" and pm: "pmem (kvm (skern s)) = pmem_boot"
    and bm: "\<forall>p. length (used (apages (cont_arena (skern s)) p)) = 4"
  obtains s' where "init_kernel m im k s = Some (Inr ((), s'))" "ready s'" "sent (hw (sdev s')) = sent (hw (sdev s)) @ crlf (boot_text im)"
    "irq_handler (sdev s') = (replicate NUM_IRQ_TYPES None)[IRQ_AUX := Some uart_intr_handler]" "root_container (skern s') \<noteq> NULL"
    "conts (skern s') = (conts (skern s))(root_container (skern s') := fresh_container (root_container (skern s')))"
    "cpus (skern s') = cpus (skern s)" "pm_inv (pmem (kvm (skern s')))"
proof -
  define rest where "rest = then_act (pool_init_message m im k)
     (then_act (kern_act (\<lambda>st. Some (Inr ((), st\<lparr>kvm := (kvm st)\<lparr>pmem := init_memory_manager (pmem (kvm st)) (kend im)\<rparr>\<rparr>))))
     (then_act (arena_test m k (test_arena_at im))
     (init_container m k)))"
  have "init_kernel m im k = then_act (dev_act (init_interrupt m)) (then_act (dev_run_act (init_char_device m)) (then_act (dev_act init_console) rest))"
    unfolding init_kernel_def rest_def ..
  then obtain s3 where run: "init_kernel m im k s = rest s3" and s3: "ready s3" "sent (hw (sdev s3)) = sent (hw (sdev s))"
      "irq_handler (sdev s3) = (replicate NUM_IRQ_TYPES None)[IRQ_AUX := Some uart_intr_handler]" "skern s3 = skern s"
    using console_comes_up [OF cl early flag, of rest] by metis
  obtain h4 where h4: "pool_init_message m im k s3 = Some (Inr ((), with_hw s3 h4 (skern s)))"
      "sent h4 = sent (hw (sdev s)) @ crlf (concat (map directive_text (pool_directives im)))"
    using pool_init_message_sends [OF line s3(1), of im k] s3(2,4) by metis
  define k5 where "k5 = (skern s)\<lparr>kvm := (kvm (skern s))\<lparr>pmem := init_memory_manager (pmem (kvm (skern s))) (kend im)\<rparr>\<rparr>"
  have k5: "pmem (kvm k5) = init_memory_manager pmem_boot (kend im)" "\<forall>p. length (used (apages (kheap k5) p)) = 4"
    using bm pm by (simp_all add: k5_def kheap_def)
  let ?s5 = "with_hw s3 h4 k5"
  have r5: "ready ?s5" using s3(1) by simp
  obtain h6 k6 where a: "arena_test m k (test_arena_at im) ?s5 = Some (Inr ((), with_hw ?s5 h6 k6))"
      "sent h6 = sent (hw (sdev ?s5)) @ crlf (concat (map (\<lambda>l. l @ [CHR 0x0A]) arena_test_text))" "pm_inv (pmem (kvm k6))"
      "pm_live (pmem (kvm k6)) = pm_live (pmem (kvm (skern ?s5)))" "\<forall>p. length (used (apages (kheap k6) p)) = 4"
      "test_frame (test_arena_at im) (pm_live (pmem (kvm (skern ?s5)))) (skern ?s5) k6"
    by (rule arena_test_runs [OF line r5, where k = k and a = "test_arena_at im"]) (use boot_memory [OF im] k5 in simp_all)
  have fr: "conts k6 = conts (skern s)" "cpus k6 = cpus (skern s)" using a(6) by (auto simp: test_frame_def k5_def)
  have "free_count (pmem (kvm k6)) = unat (poolnumend (pmem (kvm k6)))"
    by (rule free_count_empty) (use a(4) boot_memory(2) [OF im] k5(1) in simp)
  then have "0 < free_count (pmem (kvm k6))" using a(3) by (simp add: pm_inv_def)
  then obtain k0 k7 where r: "init_container_arena k k6 = Some (Inr ((), k0))" "alloc_root_container k k0 = Some (Inr ((), k7))"
    and c: "root_container k7 \<noteq> NULL" "conts k7 = (conts k6)(root_container k7 := fresh_container (root_container k7))"
      "cpus k7 = cpus k6" "pm_inv (pmem (kvm k7))"
    using init_container_ready [OF a(3,5)] by blast
  obtain h7 where h7: "kputs m k ''init arena okay.'' (with_hw s3 h6 k0) = Some (Inr ((), with_hw s3 h7 k0))"
      "sent h7 = sent h6 @ crlf (''init arena okay.'' @ [CHR 0x0A])"
    using kputs_with_hw [OF line s3(1), of k "''init arena okay.''" h6 k0] by blast
  let ?s7 = "with_hw s3 h7 k7"
  have "init_kernel m im k s = Some (Inr ((), ?s7))"
    unfolding run rest_def using h4(1) a(1) r h7(1) by (simp add: then_act_def bind_act_def kern_act_def init_container_def k5_def [symmetric]) (simp add: with_hw_def)
  moreover have "sent h7 = sent (hw (sdev s)) @ crlf (boot_text im)" using a(2) h4(2) h7(2) by (simp add: boot_text_def)
  ultimately show thesis using that [of ?s7] s3(1,3) c fr by (simp add: with_hw_def)
qed

text \<open>The process layer before the first process: an empty root container.\<close>

definition fresh_kernel :: "ksys \<Rightarrow> bool" where
  "fresh_kernel ks \<longleftrightarrow> (let r = root_container ks in r \<noteq> NULL \<and> slots_ok (conts ks) r \<and> (\<forall>i<NPROC. free_slot (conts ks) r i) \<and>
     scont (scheduler (conts ks r)) = r \<and> ancestors (conts ks) r [r] \<and> pids_ok (conts ks r) 0) \<and>
     (\<forall>j. cpus ks j = \<lparr>cscheduler = NULL, cproc = None\<rparr>) \<and> pm_inv (pmem (kvm ks))"

lemma fresh_kernelI:
  assumes "r \<noteq> NULL" "conts ks r = fresh_container r" "root_container ks = r" "\<forall>j. cpus ks j = \<lparr>cscheduler = NULL, cproc = None\<rparr>" "pm_inv (pmem (kvm ks))"
  shows "fresh_kernel ks"
proof -
  have "proc_at (conts ks) (r, i) = proc_at fresh_container (r, i)" for i using assms(2) by (simp add: proc_at_def)
  then have "slots_ok (conts ks) r" "\<forall>i<NPROC. free_slot (conts ks) r i"
    using slots_ok_fresh [of r] assms(2) by (simp_all add: slots_ok_def free_slot_def proc_at_fresh) (simp add: zero_proc_def init_spinlock_def)
  moreover have "scont (scheduler (conts ks r)) = r" "ancestors (conts ks) r [r]"
    using assms(1,2) by (simp_all add: fresh_container_def zero_container_def)
  ultimately show ?thesis using assms pids_ok_fresh [of r] by (simp add: fresh_kernel_def)
qed

text \<open>C7: at power-on, with the image a mebibyte below the end of the memory, a working serial line and a counter far from its end, the CPU that takes
  \<open>init_lock\<close> runs every initialiser up to the disk without panic: it installs the handler of the UART, transmits the messages of the page pool,
  of \<open>arena_test\<close>, which passes, and of \<open>init_container\<close>, in this order and nothing else, and calls \<open>sd_init\<close> with an empty root container, no process on any CPU and a
  well-formed page pool; when that returns it releases the lock. Any other CPU that comes meanwhile does nothing and then waits for the lock.\<close>

theorem boot_ready:
  assumes line: "serial_line m sent polls" and cl: "slow_clock m c sent" and early: "unat (c (hw (sdev (bsys s)))) < 2 ^ 59"
    and im: "image_ok im" and on: "power_on s"
  shows "(\<exists>s1. init_system_once m im k s =
        bind_run (sd_init m (mbox_at im) (mbox_old im) (mbr_at im) s1) (\<lambda>(_, s2). Some (Inr ((), \<lparr>bsys = s2, init_lock = init_lock s\<rparr>))) \<and>
      ready s1 \<and> sent (hw (sdev s1)) = sent (hw (sdev (bsys s))) @ crlf (boot_text im) \<and>
      irq_handler (sdev s1) ! IRQ_AUX = Some uart_intr_handler \<and> fresh_kernel (skern s1)) \<and>
    (\<forall>j x. j \<noteq> k \<longrightarrow> (let w = \<lparr>bsys = x, init_lock = (init_lock s)\<lparr>locked := True, lcpu := Some k\<rparr>\<rparr> in
       init_system_once m im j w = Some (Inr ((), w)) \<and> wait_spinlock j (init_lock w) = Inl Blocked))"
proof -
  let ?s0 = "clear_bss im (bsys s)"
  have lf: "lock_free (init_lock s)" using on by (simp add: power_on_def)
  then have taken: "try_acquire_spinlock k (init_lock s) = (True, (init_lock s)\<lparr>locked := True, lcpu := Some k\<rparr>)"
    by (simp add: try_acquire_spinlock_def lock_free_def)
  have "pmem (kvm (skern ?s0)) = pmem_boot"
    using on by (simp add: clear_bss_def clear_bss_kern_def power_on_def pmem_boot_def null_lock_def)
  moreover have "unat (c (hw (sdev ?s0))) < 2 ^ 59" "\<not> panicked_flag (sdev ?s0)" "\<forall>p. length (used (apages (cont_arena (skern ?s0)) p)) = 4"
    using early on by (simp_all add: clear_bss_def clear_bss_kern_def power_on_def)
  ultimately obtain s1 where i: "init_kernel m im k ?s0 = Some (Inr ((), s1))" "ready s1" "sent (hw (sdev s1)) = sent (hw (sdev ?s0)) @ crlf (boot_text im)"
      "irq_handler (sdev s1) = (replicate NUM_IRQ_TYPES None)[IRQ_AUX := Some uart_intr_handler]" "root_container (skern s1) \<noteq> NULL"
      "conts (skern s1) = (conts (skern ?s0))(root_container (skern s1) := fresh_container (root_container (skern s1)))"
      "cpus (skern s1) = cpus (skern ?s0)" "pm_inv (pmem (kvm (skern s1)))"
    using init_kernel_runs [OF line cl _ im] by metis
  have "init_system_once m im k s =
      bind_run (sd_init m (mbox_at im) (mbox_old im) (mbr_at im) s1) (\<lambda>(_, s2). Some (Inr ((), \<lparr>bsys = s2, init_lock = init_lock s\<rparr>)))"
    using lf i(1) by (simp add: init_system_once_def taken then_act_def bind_act_def)
  moreover have "fresh_kernel (skern s1)"
    by (rule fresh_kernelI [OF i(5)]) (use i(6-8) in \<open>simp_all add: clear_bss_def clear_bss_kern_def\<close>)
  moreover have "sent (hw (sdev ?s0)) = sent (hw (sdev (bsys s)))" by (simp add: clear_bss_def)
  moreover have "irq_handler (sdev s1) ! IRQ_AUX = Some uart_intr_handler" using i(4) by simp
  ultimately show ?thesis using i(2,3)
    by (auto simp: Let_def init_system_once_def try_acquire_spinlock_def wait_spinlock_def acquire_spinlock_def holding_spinlock_def)
qed

text \<open>A CPU whose counter advances by one with every register it reads, with an idle serial line, and a kernel as loaded.\<close>

definition boot_machine :: "(u64 \<times> u8 list) machine" where
  "boot_machine = \<lparr>mread = (\<lambda>a h. (0x20, h)),
     mwrite = (\<lambda>a v h. if a = AUX_MU_IO_REG then (fst h, snd h @ [ucast v]) else h),
     sys_read = (\<lambda>r h. (if r = CNTPCT_EL0 then fst h else if r = CNTFRQ_EL0 then 62500000 else 0, (fst h + 1, snd h))),
     sys_write = (\<lambda>r v h. h), exec_insn = (\<lambda>i h. h)\<rparr>"

definition boot_image :: kimage where
  "boot_image = \<lparr>edata = 0xffff000000090000, kend = 0xffff0000000A1000, exception_vector = 0xffff000000081000, icode = [0], sdloop = [0],
     mbox_at = 0xffff00000009F000, mbox_old = replicate 36 0, mbr_at = 0xffff00000007F000, test_arena_at = 0xffff00000007FF00\<rparr>"

definition start_example :: "(u64 \<times> u8 list) bootsys" where
  "start_example = \<lparr>bsys = \<lparr>sdev = \<lparr>hw = (0, []), one_ms = 0, clock_handler = None, irq_handler = [], con_lock = null_lock, panicked_flag = False\<rparr>,
      sdCard = zero_card, sdHostVer = 0, sdBaseClock = 0, sdlock = null_lock, squeue = bufq_example,
      skern = sys_example\<lparr>kvm := (kvm sys_example)\<lparr>pmem := pmem_boot\<rparr>\<rparr>\<rparr>, init_lock = null_lock\<rparr>"

lemma boot_machine_ok: "serial_line boot_machine snd (\<lambda>_. 0)" "slow_clock boot_machine fst snd"
proof -
  show "serial_line boot_machine snd (\<lambda>_. 0)" by (simp add: serial_line_def boot_machine_def)
  have "unat (w + 1) = Suc (unat w)" if "w < 2 ^ 63" for w :: u64
    using that by (simp add: unat_word_ariths word_less_nat_alt)
  then show "slow_clock boot_machine fst snd"
    by (auto simp: slow_clock_def boot_machine_def word_less_nat_alt)
qed

lemma start_example_ok: "image_ok boot_image" "power_on start_example" "hw (sdev (bsys start_example)) = (0, [])"
proof -
  show "image_ok boot_image" by (simp add: image_ok_def boot_image_def KSPACE_MASK_def P2K_def phystop_def)
  have "length (used (apages arena_example p)) = 4" for p using arena_example_ok(1) by (simp add: arena_ok_def arena_wf_def)
  then show "power_on start_example"
    by (simp add: power_on_def start_example_def null_lock_def lock_free_def pmem_boot_def sys_example_def)
  show "hw (sdev (bsys start_example)) = (0, [])" by (simp add: start_example_def)
qed

theorem boot_ready_witness:
  "\<exists>s1. init_system_once boot_machine boot_image 2 start_example =
      bind_run (sd_init boot_machine (mbox_at boot_image) (mbox_old boot_image) (mbr_at boot_image) s1)
        (\<lambda>(_, s2). Some (Inr ((), \<lparr>bsys = s2, init_lock = init_lock start_example\<rparr>))) \<and>
    snd (hw (sdev s1)) = crlf (boot_text boot_image) \<and> fresh_kernel (skern s1)"
proof -
  have "unat (fst (hw (sdev (bsys start_example)))) < 2 ^ 59" by (simp add: start_example_ok)
  from boot_ready [OF boot_machine_ok this start_example_ok(1,2), of 2] show ?thesis unfolding start_example_ok(3) by auto
qed

end
