(* ===== verification/Spec2Isabelle.thy ===== *)
theory Spec2Isabelle
  imports KString KPageTable KLogFull KInodeData KSchedExcl KSdClock KSdTest KBoot
begin

text \<open>
  A verification library for the AArch64 kernel of this repository (paths below are relative to \<open>src/src\<close>).

  \<^bold>\<open>The program.\<close> The kernel boots on a Raspberry Pi 3 with four CPUs. A common library (\<open>common/\<close>: strings, bitmap, list, spin
  lock, reference counter, formatted output) carries the rest. Physical pages come from a pool of page marks
  (\<open>core/physical_memory.c\<close>); arenas (\<open>core/arena.c\<close>) cut pages into objects; user page tables
  (\<open>core/virtual_memory.c\<close>) and the static kernel tables (\<open>aarch64/kernel_pt.c\<close>) translate addresses. Processes live in the tables of
  containers (\<open>core/proc.c\<close>, \<open>core/container.c\<close>), each of which has a scheduler (\<open>core/sched.c\<close>) that is itself a process of the
  parent container. Traps (\<open>core/trap.c\<close>) lead to system calls (\<open>core/syscall.c\<close>, \<open>core/sysproc_my.c\<close>) and to the
  interrupt handlers of the drivers (\<open>driver/\<close>: clock, interrupt controller, UART, mailbox, SD card). The file system
  (\<open>fs/\<close>) is a block cache with a write-ahead log on the block device, and an inode layer on the cache.

  \<^bold>\<open>Conventions.\<close> Machine integers are words of their width. A routine that can stop the kernel returns \<open>'a res\<close>:
  \<open>Inl (Panic msg)\<close> for \<open>PANIC\<close> and failed assertions, \<open>Inl (Fault msg)\<close> for accesses outside of what the code may touch, such
  as a null pointer or an index past an array. A routine that may run for ever is a \<open>partial_function (option)\<close> with \<open>None\<close> for
  not returning; loops with a bound in the code are structural recursions over that bound, so no fuel is chosen anywhere. Theorems about looping routines
  say that they return. Structures are records in heaps indexed by their addresses, embedded list nodes sit at the address of
  the structure plus their offset. The CPU that executes a routine is its argument. Function pointers are named by the
  functions they point to.

  \<^bold>\<open>Theories.\<close>
  \<^item> \<open>KPrelude\<close>: integer types, results, little-endian encodings, facts on words.
  \<^item> \<open>KDefs\<close>, \<open>KString\<close>, \<open>KBitmap\<close>, \<open>KList\<close>, \<open>KLock\<close>: \<open>common/defines.h\<close>, \<open>rc.c\<close>, \<open>string.c\<close>, \<open>bitmap.c\<close>, \<open>list.c\<close>, \<open>spinlock.c\<close>. Interfaces:
    \<open>bit_vector\<close> and \<open>ring_list\<close>. \<open>memmove\<close> is right for overlapping regions; list operations map rings to rings; the spin lock
    excludes under every interleaving of its memory accesses.
  \<^item> \<open>KPhysMem\<close>, \<open>KArena\<close>, \<open>KVirtMem\<close>, \<open>KPageTable\<close>: the memory managers. Interface \<open>page_allocator\<close>, provided by \<open>kalloc\<close> and \<open>kfree\<close>.
    First fit, fresh objects, exact frees, return of all pages, lookup after a creating walk, the effect of mapping on the
    translation function, and the linear map of the kernel.
  \<^item> \<open>KProc\<close>, \<open>KSched\<close>, \<open>KSchedExcl\<close>: processes, containers, scheduling. \<open>swtch\<close> is assembly: a routine that reaches it returns the
    two contexts, and the endless loop of the scheduler is split there. Identifiers are unique in every container, a new process
    has a fresh slot and stack, \<open>wakeup\<close> terminates and wakes exactly the sleepers, a process that may run is reached within one
    round, and no process runs on two CPUs in any interleaving.
  \<^item> \<open>KSleepLock\<close>, \<open>KCache\<close>, \<open>KCrash\<close>, \<open>KCacheInv\<close>, \<open>KLogSpec\<close>, \<open>KLogFull\<close>: the sleep lock and the block cache with its log over a disk with a history of writes.
    Acquire returns the one cached copy, loaded and locked; commit is atomic under a crash after any of its writes;
    recovery may itself be interrupted and repeated. \<open>KLogSpec\<close> puts these together: cache and log refine a disk whose durable contents
    change atomically, by one block written through or by all the blocks of the operations that end.
    \<open>KLogFull\<close> follows an operation that fills the log past its end.
  \<^item> \<open>KCacheIface\<close>, \<open>KInode\<close>, \<open>KInodeSpec\<close>, \<open>KInodeData\<close>: the function table of the cache as the interface \<open>block_cache\<close>, provided by the
    cache, and the inode layer over it. Allocation returns the lowest free inode, a written-back inode is what is read later;
    file data is transferred from and to the wrong place.
  \<^item> \<open>KMachine\<close>: the accesses of \<open>aarch64/intrinsic.h\<close> and \<open>arm.h\<close> over a hardware state that is a parameter.
  \<^item> \<open>KFormat\<close>, \<open>KDevices\<close>, \<open>KConsoleSpec\<close>: \<open>common/format.c\<close>, the clock, the interrupt controller, the UART and the console. The formatter
    prints the notation of every directive; on a serial line that obeys \<open>serial_line\<close> the text is transmitted in full; a
    panic silences every CPU.
  \<^item> \<open>KBuf\<close>, \<open>KMbox\<close>, \<open>KSd\<close>, \<open>KSdSpec\<close>, \<open>KSdClock\<close>, \<open>KBlockDev\<close>: the request queue (interface \<open>task_queue\<close>), the mailbox, the SD driver as
    actions on its state, and the block device. \<open>drives\<close> states what the controller and a selected high-capacity card are documented
    to do. Under it transfers move exactly one block, a request that finds the queue empty is completed by the interrupt, which wakes its
    caller; a wake-up that comes before \<open>sdrw\<close> is asleep is lost (\<open>lost_wakeup\<close>); the write of the block device panics.
  \<^item> \<open>KTrap\<close>, \<open>KTrapSpec\<close>: traps, system calls and the timer on the state of the whole kernel. Where a routine gives up the CPU the
    parameter \<open>others\<close> is what happens until it is switched to again. The theorems follow a trap from the syndrome register to the text on
    the serial line, the timer register and the process table.
  \<^item> \<open>KSdTest\<close>: \<open>sd_test\<close> of the driver and \<open>initret\<close>, which calls it. Interface \<open>disk_service\<close>, provided by \<open>sdrw\<close>: the loops of the
    test pass and leave the card as they found it.
  \<^item> \<open>KArenaTest\<close>, \<open>KSelfTest\<close>: the tests the kernel carries, \<open>arena_test\<close> of \<open>core/arena.c\<close> and \<open>vm_test\<close> of \<open>core/virtual_memory.c\<close>.
    \<open>arena_test\<close> passes whenever 43 pages are free.
  \<^item> \<open>KBoot\<close>: \<open>main.c\<close>, \<open>enter_scheduler\<close> and \<open>fs/fs.c\<close>. The first CPU runs all initialisers up to the disk, whatever the
    memory held, and calls \<open>sd_init\<close> with an empty root container, after exactly the text the initialisers print; the other CPUs wait for it.

  \<^bold>\<open>Decisions.\<close> Messages that only inform are part of the model of the console, of the traps, of the system calls, of the tests the kernel carries, and of
  \<open>init_kernel\<close> up to \<open>sd_init\<close>; elsewhere (in the SD driver, in what follows \<open>sd_init\<close> in \<open>main.c\<close>) they are left out,
  together with the register reads that only feed them. The functions an arena carries are \<open>kalloc\<close> and \<open>kfree\<close> of the CPU that
  initialised it; \<open>kalloc_any_cpu\<close> and \<open>kfree_any_cpu\<close> show that the executing CPU makes no difference to their results. The cache runs
  on an array of blocks whose writes are atomic, as the function table it is given promises; the kernel's own block device does
  not keep that promise, its write panics (\<open>block_write_panics\<close>). The pointer \<open>alloc_resource\<close> returns to a local variable is read
  as the value it had. The translation register is kept once for the page-table theory. Touching the bytes of a block
  that hold its locks and pointers is a fault. \<open>cache_acquire\<close> is taken to return what \<open>unsafe_cache_acquire\<close> returns, as the
  compiled code does.

  \<^bold>\<open>Not modelled.\<close> Assembly (\<open>start.S\<close>, \<open>asm/\<close>, \<open>user/\<close>); \<open>core/sched_simple.c\<close> and other code that is compiled out; the host tests
  (\<open>fs/test/\<close>); \<open>test_kernel_interrupt\<close>, an endless loop. \<open>init_sched\<close> and \<open>forkret\<close> are empty.\<close>

end
